(* ===== verification/GW_Prelude.thy ===== *)
theory GW_Prelude
  imports Main "HOL-Library.Word" "HOL-Library.Code_Target_Nat"
begin

text \<open>
  Shared vocabulary of the development: bytes and C strings, the character classes the
  sources test, the libc calls they make on memory streams, and the generic lemmas on
  lists that the component theories use.

  Bytes are \<open>char\<close>, buffers are \<open>string\<close>. A C string is a buffer without its
  terminating NUL; reading a buffer at its end gives that NUL. C \<open>int\<close> return codes
  are \<open>int\<close>; flag words are \<open>32 word\<close>.
\<close>

unbundle bit_operations_syntax

named_theorems c_string \<open>facts on C strings, buffers and character classes\<close>

type_synonym flagword = "32 word"

abbreviation nul :: char where "nul \<equiv> CHR 0x00"

abbreviation newline :: char where "newline \<equiv> CHR 0x0A"

definition isspace :: "char \<Rightarrow> bool" where
  "isspace c = (c \<in> {CHR 0x20, CHR 0x09, CHR 0x0A, CHR 0x0B, CHR 0x0C, CHR 0x0D})"

definition isdigit :: "char \<Rightarrow> bool" where
  "isdigit c = (c \<in> set ''0123456789'')"

text \<open>The byte at an index of a NUL-terminated buffer.\<close>

definition byte_at :: "string \<Rightarrow> nat \<Rightarrow> char" where
  "byte_at t i = (if i < length t then t ! i else nul)"

text \<open>What \<open>strlen\<close> sees of a buffer, and the bytes \<open>[i, i + n)\<close> of one.\<close>

definition cstr :: "string \<Rightarrow> string" where
  "cstr s = takeWhile (\<lambda>c. c \<noteq> nul) s"

definition substr :: "string \<Rightarrow> nat \<Rightarrow> nat \<Rightarrow> string" where
  "substr t i n = take n (drop i t)"

lemma byte_at_end [simp, c_string]: "length t \<le> i \<Longrightarrow> byte_at t i = nul"
  by (simp add: byte_at_def)

lemma byte_at_in [c_string]: "i < length t \<Longrightarrow> byte_at t i = t ! i"
  by (simp add: byte_at_def)

lemma not_isspace_nul [simp, c_string]: "\<not> isspace nul"
  by (simp add: isspace_def)

lemma isspace_newline [simp, c_string]: "isspace newline"
  by (simp add: isspace_def)

lemma cstr_id [simp, c_string]: "nul \<notin> set s \<Longrightarrow> cstr s = s"
  by (auto simp: cstr_def takeWhile_eq_all_conv)

lemma cstr_no_nul [simp, c_string]: "nul \<notin> set (cstr s)"
  by (auto simp: cstr_def dest: set_takeWhileD)

lemma cstr_idem [simp, c_string]: "cstr (cstr s) = cstr s"
  by simp

lemma substr_Nil [simp, c_string]: "substr t i 0 = []"
  by (simp add: substr_def)

lemma substr_all [simp, c_string]: "substr t 0 (length t) = t"
  by (simp add: substr_def)

lemma length_substr [simp, c_string]: "length (substr t i n) = min n (length t - i)"
  by (simp add: substr_def)

lemma take_substr_append [c_string]:
  "i \<le> j \<Longrightarrow> take i t @ substr t i (j - i) = take j t"
  by (metis substr_def le_add_diff_inverse take_add)

lemma nth_substr [c_string]:
  "k < n \<Longrightarrow> i + k < length t \<Longrightarrow> substr t i n ! k = t ! (i + k)"
  by (simp add: substr_def)

section \<open>libc memory streams\<close>

text \<open>
  A \<open>FILE\<close> of \<open>open_memstream\<close>: the bytes written so far, and how many more
  can be written before the allocation behind it fails (\<open>None\<close>: no limit).
  \<open>fwrite\<close> with an element size of 1 returns the number of bytes written.
\<close>

record cfile =
  f_data :: string
  f_room :: "nat option"

definition fits :: "nat \<Rightarrow> cfile \<Rightarrow> bool" where
  "fits n f = (case f_room f of None \<Rightarrow> True | Some r \<Rightarrow> n \<le> r)"

definition fwrite :: "string \<Rightarrow> cfile \<Rightarrow> nat \<times> cfile" where
  "fwrite buf f =
     (let n = (case f_room f of None \<Rightarrow> length buf | Some r \<Rightarrow> min r (length buf))
      in (n, f\<lparr>f_data := f_data f @ take n buf,
               f_room := map_option (\<lambda>r. r - n) (f_room f)\<rparr>))"

text \<open>The file after \<open>buf\<close> has been written and there was room for it.\<close>

definition written :: "string \<Rightarrow> cfile \<Rightarrow> cfile" where
  "written buf f = f\<lparr>f_data := f_data f @ buf,
                     f_room := map_option (\<lambda>r. r - length buf) (f_room f)\<rparr>"

named_theorems file_simps \<open>facts on memory streams\<close>

lemma fwrite_fits [file_simps]:
  "fits (length buf) f \<Longrightarrow> fwrite buf f = (length buf, written buf f)"
  by (auto simp: fits_def fwrite_def written_def Let_def split: option.splits)

lemma fwrite_short [file_simps]:
  "\<not> fits (length buf) f \<Longrightarrow> fst (fwrite buf f) \<noteq> length buf"
  by (auto simp: fits_def fwrite_def Let_def split: option.splits)

lemma fwrite_full_iff [file_simps]: "fst (fwrite buf f) = length buf \<longleftrightarrow> fits (length buf) f"
  using fwrite_fits fwrite_short by fastforce

lemma written_written [simp, file_simps]: "written b (written a f) = written (a @ b) f"
  by (cases "f_room f") (simp_all add: written_def)

lemma written_Nil [simp, file_simps]: "written [] f = f"
  by (cases f) (auto simp: written_def map_option_case split: option.splits)

lemma f_data_written [simp, file_simps]: "f_data (written b f) = f_data f @ b"
  by (simp add: written_def)

lemma f_room_written [simp, file_simps]: "f_room f = None \<Longrightarrow> f_room (written b f) = None"
  by (simp add: written_def)

lemma fits_unlimited [simp, file_simps]: "f_room f = None \<Longrightarrow> fits n f"
  by (simp add: fits_def)

lemma fits_0 [simp, file_simps]: "fits 0 f"
  by (simp add: fits_def split: option.split)

lemma fits_mono [file_simps]: "fits n f \<Longrightarrow> m \<le> n \<Longrightarrow> fits m f"
  by (auto simp: fits_def split: option.splits)

lemma fits_add [file_simps]:
  "fits (length b) f \<Longrightarrow> fits n (written b f) \<longleftrightarrow> fits (length b + n) f"
  by (auto simp: fits_def written_def split: option.splits)


section \<open>Numbers and strings\<close>

text \<open>The decimal digits of a number, as \<open>printf("%d")\<close> writes it.\<close>

fun dec_digits :: "nat \<Rightarrow> string" where
  "dec_digits n =
     (if n < 10 then [''0123456789'' ! n] else dec_digits (n div 10) @ [''0123456789'' ! (n mod 10)])"

declare dec_digits.simps [simp del]

definition dec_str :: "int \<Rightarrow> string" where
  "dec_str i = (if i < 0 then CHR ''-'' # dec_digits (nat (- i)) else dec_digits (nat i))"

text \<open>\<open>strcmp\<close>: bytes compare as unsigned; the sign of the result is all callers use.\<close>

fun strcmp :: "string \<Rightarrow> string \<Rightarrow> int" where
  "strcmp [] [] = 0"
| "strcmp [] (_ # _) = - 1"
| "strcmp (_ # _) [] = 1"
| "strcmp (x # xs) (y # ys) =
     (if x = y then strcmp xs ys else if (of_char x :: nat) < of_char y then - 1 else 1)"

lemma strcmp_eq_0_iff [simp, c_string]: "strcmp s t = 0 \<longleftrightarrow> s = t"
  by (induction s t rule: strcmp.induct) auto

text \<open>
  \<open>strtoll\<close> to base 10, without the overflow: white space, a sign, digits.
\<close>

definition digit_val :: "char \<Rightarrow> int" where
  "digit_val c = of_char c - 48"

fun digits_val :: "int \<Rightarrow> string \<Rightarrow> int" where
  "digits_val acc [] = acc"
| "digits_val acc (c # cs) = (if isdigit c then digits_val (10 * acc + digit_val c) cs else acc)"

definition parse_int :: "string \<Rightarrow> int" where
  "parse_int s =
     (let u = dropWhile isspace s
      in if byte_at u 0 = CHR ''-'' then - digits_val 0 (drop 1 u)
         else if byte_at u 0 = CHR ''+'' then digits_val 0 (drop 1 u)
         else digits_val 0 u)"

text \<open>\<open>atoll\<close> and \<open>atol\<close> on a 64-bit \<open>long\<close>: the value clamped to the type, as \<open>strtoll\<close>.\<close>

definition atoll :: "string \<Rightarrow> int" where
  "atoll s = max (- (2 ^ 63)) (min (2 ^ 63 - 1) (parse_int s))"

lemma atoll_bounds: "- (2 ^ 63) \<le> atoll s \<and> atoll s < 2 ^ 63"
  by (simp add: atoll_def)

text \<open>Numbers that fit an \<open>int\<close> are unchanged by its conversions.\<close>

lemma sint_32_id: "- (2 ^ 31) \<le> i \<Longrightarrow> i < 2 ^ 31 \<Longrightarrow> sint (word_of_int i :: 32 word) = i"
  by (simp add: signed_of_int signed_take_bit_int_eq_self)

section \<open>Numbers in files\<close>

lemma digit_char: "n < 10 \<Longrightarrow> isdigit (''0123456789'' ! n) \<and> digit_val (''0123456789'' ! n) = int n"
proof -
  have "\<forall>n \<in> set [0 ..< 10]. isdigit (''0123456789'' ! n) \<and> digit_val (''0123456789'' ! n) = int n"
    by code_simp
  then show "n < 10 \<Longrightarrow> ?thesis" by simp
qed

lemma digits_val_dec: "digits_val acc (dec_digits n @ s)
    = digits_val (acc * 10 ^ length (dec_digits n) + int n) s"
proof (induction n arbitrary: acc s rule: dec_digits.induct)
  case (1 n)
  show ?case
  proof (cases "n < 10")
    case True
    then show ?thesis using digit_char [of n] by (simp add: dec_digits.simps [of n] mult.commute)
  next
    case False
    have "n mod 10 < 10" by simp
    note d = digit_char [OF this]
    have "int n = 10 * int (n div 10) + int (n mod 10)"
      unfolding zdiv_int zmod_int by simp
    then show ?thesis
      using False d "1.IH" [OF False] by (simp add: dec_digits.simps [of n] algebra_simps)
  qed
qed

lemma dec_digits_digits: "c \<in> set (dec_digits n) \<Longrightarrow> isdigit c"
proof (induction n rule: dec_digits.induct)
  case (1 n)
  then show ?case
    using digit_char [of n] digit_char [of "n mod 10"]
    by (cases "n < 10") (auto simp: dec_digits.simps [of n])
qed

lemma dec_digits_nonempty: "dec_digits n \<noteq> []"
  by (simp add: dec_digits.simps [of n])

lemma isdigit_other: "isdigit c \<Longrightarrow> \<not> isspace c \<and> c \<noteq> CHR ''-'' \<and> c \<noteq> CHR ''+'' \<and> c \<noteq> nul \<and> c \<noteq> newline
    \<and> c \<noteq> CHR 0x20 \<and> c \<noteq> CHR '':''"
  by (auto simp: isdigit_def isspace_def)

lemma dec_digits_chars [simp]:
  "newline \<notin> set (dec_digits n)" "nul \<notin> set (dec_digits n)" "CHR 0x20 \<notin> set (dec_digits n)"
  "CHR '':'' \<notin> set (dec_digits n)" "CHR ''M'' \<notin> set (dec_digits n)"
  using dec_digits_digits [of _ n] by (auto simp: isdigit_def)

text \<open>\<open>atol\<close> of spaces, the digits of a number, and something that is no digit.\<close>

lemma parse_int_dec:
  assumes "\<forall>c \<in> set sp. isspace c" and "s = [] \<or> \<not> isdigit (hd s)"
  shows "parse_int (sp @ dec_digits n @ s) = int n"
proof -
  have hd: "isdigit (hd (dec_digits n))" using dec_digits_digits [of "hd (dec_digits n)" n] dec_digits_nonempty by simp
  then have drop: "dropWhile isspace (sp @ dec_digits n @ s) = dec_digits n @ s"
    using assms(1) isdigit_other [OF hd] dec_digits_nonempty [of n]
    by (cases "dec_digits n") (simp_all add: dropWhile_append2)
  have "byte_at (dec_digits n @ s) 0 = hd (dec_digits n)"
    using dec_digits_nonempty [of n] by (simp add: byte_at_def nth_append hd_conv_nth)
  moreover have "digits_val 0 (dec_digits n @ s) = int n"
    using assms(2) digits_val_dec [of 0 n s] by (cases s) simp_all
  ultimately show ?thesis using isdigit_other [OF hd] by (simp add: parse_int_def drop Let_def)
qed

lemma atoll_dec:
  assumes "\<forall>c \<in> set sp. isspace c" and "s = [] \<or> \<not> isdigit (hd s)" and "int n < 2 ^ 63"
  shows "atoll (sp @ dec_digits n @ s) = int n"
  using assms(3) by (simp add: atoll_def parse_int_dec [OF assms(1,2)])

section \<open>Lines of a file\<close>

text \<open>\<open>fgets\<close> with a buffer of \<open>n\<close> bytes, and all the lines it gives.\<close>

definition fgets :: "nat \<Rightarrow> string \<Rightarrow> string" where
  "fgets n s = take (n - 1) (takeWhile (\<lambda>c. c \<noteq> newline) s @ take 1 (dropWhile (\<lambda>c. c \<noteq> newline) s))"

lemma fgets_nonempty: "s \<noteq> [] \<Longrightarrow> 2 \<le> n \<Longrightarrow> 0 < length (fgets n s)"
  by (cases s) (auto simp: fgets_def)

lemma fgets_shorter: "s \<noteq> [] \<Longrightarrow> 2 \<le> n \<Longrightarrow> length s - length (fgets n s) < length s"
  using fgets_nonempty [of s n] by (intro diff_less) auto

function fgets_all :: "nat \<Rightarrow> string \<Rightarrow> string list" where
  "fgets_all n s =
     (if s = [] \<or> n < 2 then [] else fgets n s # fgets_all n (drop (length (fgets n s)) s))"
  by pat_completeness auto
termination
  by (relation "measure (\<lambda>(n, s). length s)") (auto simp: fgets_shorter [simplified])

declare fgets_all.simps [simp del]

lemma fgets_first:
  assumes "newline \<notin> set l" and "length l + 1 < n"
  shows "fgets n (l @ newline # rest) = l @ [newline]"
proof -
  have "\<forall>c \<in> set l. c \<noteq> newline" using assms(1) by auto
  then show ?thesis using assms(2) by (simp add: fgets_def takeWhile_append2 dropWhile_append2)
qed

lemma fgets_all_first:
  assumes "newline \<notin> set l" and "length l + 1 < n"
  shows "fgets_all n (l @ newline # rest) = (l @ [newline]) # fgets_all n rest"
  using fgets_first [OF assms, of rest] assms(2) by (subst fgets_all.simps) simp

end
