(* ===== verification/Mustach_Core.thy ===== *)
theory Mustach_Core
  imports GW_Prelude
begin

text \<open>
  The mustache engine, \<open>src/src/mustach.c\<close>: the wrapper \<open>struct iwrap\<close> of the
  callbacks, the default emitter, put and partial, the prefix (indentation) chain, the
  template loop \<open>process\<close> and the entry points \<open>mustach_file\<close> and
  \<open>mustach_mem\<close>.

  The closure the C code passes to every callback is a state \<open>'s\<close> that the callbacks
  take and return; the output stream is a \<open>cfile\<close>. Pointers into the template are
  positions in it, the local variables of \<open>process\<close> are the fields of a record.
  The template is a buffer that ends with a NUL at position \<open>length t\<close> (every caller in
  the repository passes \<open>strlen\<close> or 0 as the length). The loop is fuelled: one unit
  per tag, \<open>None\<close> when it runs out.
\<close>

section \<open>Constants of \<open>mustach.h\<close>\<close>

abbreviation (input) MUSTACH_MAX_DEPTH :: nat where "MUSTACH_MAX_DEPTH \<equiv> 256"
abbreviation (input) MUSTACH_MAX_LENGTH :: nat where "MUSTACH_MAX_LENGTH \<equiv> 4096"
abbreviation (input) MUSTACH_MAX_DELIM_LENGTH :: nat where "MUSTACH_MAX_DELIM_LENGTH \<equiv> 8"

abbreviation (input) Mustach_With_Colon :: flagword where "Mustach_With_Colon \<equiv> 1"
abbreviation (input) Mustach_With_EmptyTag :: flagword where "Mustach_With_EmptyTag \<equiv> 2"

abbreviation (input) MUSTACH_OK :: int where "MUSTACH_OK \<equiv> 0"
abbreviation (input) MUSTACH_ERROR_SYSTEM :: int where "MUSTACH_ERROR_SYSTEM \<equiv> - 1"
abbreviation (input) MUSTACH_ERROR_UNEXPECTED_END :: int where "MUSTACH_ERROR_UNEXPECTED_END \<equiv> - 2"
abbreviation (input) MUSTACH_ERROR_EMPTY_TAG :: int where "MUSTACH_ERROR_EMPTY_TAG \<equiv> - 3"
abbreviation (input) MUSTACH_ERROR_TAG_TOO_LONG :: int where "MUSTACH_ERROR_TAG_TOO_LONG \<equiv> - 4"
abbreviation (input) MUSTACH_ERROR_BAD_SEPARATORS :: int where "MUSTACH_ERROR_BAD_SEPARATORS \<equiv> - 5"
abbreviation (input) MUSTACH_ERROR_TOO_DEEP :: int where "MUSTACH_ERROR_TOO_DEEP \<equiv> - 6"
abbreviation (input) MUSTACH_ERROR_CLOSING :: int where "MUSTACH_ERROR_CLOSING \<equiv> - 7"
abbreviation (input) MUSTACH_ERROR_BAD_UNESCAPE_TAG :: int where "MUSTACH_ERROR_BAD_UNESCAPE_TAG \<equiv> - 8"
abbreviation (input) MUSTACH_ERROR_INVALID_ITF :: int where "MUSTACH_ERROR_INVALID_ITF \<equiv> - 9"
abbreviation (input) MUSTACH_ERROR_PARTIAL_NOT_FOUND :: int where "MUSTACH_ERROR_PARTIAL_NOT_FOUND \<equiv> - 11"
abbreviation (input) MUSTACH_ERROR_UNDEFINED_TAG :: int where "MUSTACH_ERROR_UNDEFINED_TAG \<equiv> - 12"

section \<open>String buffers and the callback table\<close>

text \<open>
  \<open>struct mustach_sbuf\<close>: the value (\<open>None\<close> for a NULL pointer) and the length,
  0 for "NUL-terminated". Releasing it frees memory and has no other effect.
\<close>

record mustach_sbuf =
  sb_value :: "string option"
  sb_length :: nat

definition sbuf_reset :: mustach_sbuf where
  "sbuf_reset = \<lparr>sb_value = None, sb_length = 0\<rparr>"

definition sbuf_length :: "mustach_sbuf \<Rightarrow> nat" where
  "sbuf_length sb =
     (if sb_length sb = 0 then (case sb_value sb of None \<Rightarrow> 0 | Some v \<Rightarrow> length (cstr v))
      else sb_length sb)"

text \<open>The bytes a reader that was given the buffer and its length sees.\<close>

definition sbuf_bytes :: "mustach_sbuf \<Rightarrow> string" where
  "sbuf_bytes sb = (case sb_value sb of None \<Rightarrow> [] | Some v \<Rightarrow> take (sbuf_length sb) v)"

record 's iwrap =
  iw_emit :: "string \<Rightarrow> bool \<Rightarrow> 's \<times> cfile \<Rightarrow> int \<times> 's \<times> cfile"
  iw_put :: "string \<Rightarrow> bool \<Rightarrow> 's \<times> cfile \<Rightarrow> int \<times> 's \<times> cfile"
  iw_enter :: "string \<Rightarrow> 's \<Rightarrow> int \<times> 's"
  iw_next :: "'s \<Rightarrow> int \<times> 's"
  iw_leave :: "'s \<Rightarrow> int \<times> 's"
  iw_partial :: "string \<Rightarrow> 's \<Rightarrow> int \<times> mustach_sbuf \<times> 's"
  iw_flags :: flagword

section \<open>Memory files\<close>

text \<open>
  \<open>memfile_open\<close> is \<open>open_memstream\<close>: the stream it returns, or NULL, is the
  environment's choice and a parameter. \<open>memfile_close\<close> appends the terminating
  NUL, which fails when memory is out; the result is the buffer without it.
\<close>

definition memfile_close :: "cfile \<Rightarrow> int \<times> string option" where
  "memfile_close f =
     (if fst (fwrite [nul] f) = 1 then (0, Some (f_data f)) else (MUSTACH_ERROR_SYSTEM, None))"

definition memfile_abort :: "cfile \<Rightarrow> string option" where
  "memfile_abort f = None"

section \<open>The default emitter\<close>

definition html_special :: "char \<Rightarrow> bool" where
  "html_special c = (c = CHR ''<'' \<or> c = CHR ''>'' \<or> c = CHR ''&'' \<or> c = CHR 0x22)"

definition html_entity :: "char \<Rightarrow> string" where
  "html_entity c =
     (if c = CHR ''<'' then ''&lt;''
      else if c = CHR ''>'' then ''&gt;''
      else if c = CHR ''&'' then ''&amp;''
      else ''&quot;'')"

text \<open>
  The escaping loop of \<open>iwrap_emit\<close>, on the bytes not yet emitted: the longest run
  of plain bytes, then the entity of the byte that stopped it.
\<close>

function iwrap_emit_escaped :: "string \<Rightarrow> cfile \<Rightarrow> int \<times> cfile" where
  "iwrap_emit_escaped [] f = (MUSTACH_OK, f)"
| "iwrap_emit_escaped (b # bs) f =
     (let run = takeWhile (\<lambda>c. \<not> html_special c) (b # bs);
          rest = dropWhile (\<lambda>c. \<not> html_special c) (b # bs);
          r1 = (if run \<noteq> [] then fwrite run f else (0, f))
      in if run \<noteq> [] \<and> fst r1 \<noteq> length run then (MUSTACH_ERROR_SYSTEM, snd r1)
         else (case rest of
                 [] \<Rightarrow> (MUSTACH_OK, snd r1)
               | c # rest' \<Rightarrow>
                   (let r2 = fwrite (html_entity c) (snd r1)
                    in if fst r2 \<noteq> length (html_entity c) then (MUSTACH_ERROR_SYSTEM, snd r2)
                       else iwrap_emit_escaped rest' (snd r2))))"
  by pat_completeness auto
termination
proof (relation "measure (\<lambda>(bs, f). length bs)", goal_cases)
  case (2 b bs f run rest r1 c rest' r2)
  from 2 have "length (c # rest') \<le> length (b # bs)"
    by (metis length_dropWhile_le)
  then show ?case by simp
qed simp

declare iwrap_emit_escaped.simps [simp del]

definition iwrap_emit :: "string \<Rightarrow> bool \<Rightarrow> cfile \<Rightarrow> int \<times> cfile" where
  "iwrap_emit buf escape f =
     (if \<not> escape
      then (case fwrite buf f of (n, f') \<Rightarrow>
              (if n \<noteq> length buf then MUSTACH_ERROR_SYSTEM else MUSTACH_OK, f'))
      else iwrap_emit_escaped buf f)"


text \<open>\<open>iwrap_put\<close>: fetch the value with \<open>get\<close>, emit it if it is not empty.\<close>

definition iwrap_put ::
  "(string \<Rightarrow> 's \<Rightarrow> int \<times> mustach_sbuf \<times> 's)
   \<Rightarrow> (string \<Rightarrow> bool \<Rightarrow> 's \<times> cfile \<Rightarrow> int \<times> 's \<times> cfile)
   \<Rightarrow> string \<Rightarrow> bool \<Rightarrow> 's \<times> cfile \<Rightarrow> int \<times> 's \<times> cfile" where
  "iwrap_put get emit name escape st =
     (case st of (s, f) \<Rightarrow>
        (case get name s of (rc, sb, s1) \<Rightarrow>
           if rc \<ge> 0 \<and> sbuf_length sb \<noteq> 0 then emit (sbuf_bytes sb) escape (s1, f)
           else (rc, s1, f)))"

text \<open>
  \<open>iwrap_partial\<close>: the content of a partial is what \<open>put\<close> writes for its name,
  unescaped, into a fresh memory file.
\<close>

definition iwrap_partial ::
  "(string \<Rightarrow> bool \<Rightarrow> 's \<times> cfile \<Rightarrow> int \<times> 's \<times> cfile) \<Rightarrow> cfile option
   \<Rightarrow> string \<Rightarrow> 's \<Rightarrow> int \<times> mustach_sbuf \<times> 's" where
  "iwrap_partial put mem name s =
     (case mem of
        None \<Rightarrow> (MUSTACH_ERROR_SYSTEM, sbuf_reset, s)
      | Some f \<Rightarrow>
          (case put name False (s, f) of (rc, s1, f1) \<Rightarrow>
             if rc < 0 then (rc, sbuf_reset, s1)
             else (case memfile_close f1 of
                     (rc', Some v) \<Rightarrow> (rc', \<lparr>sb_value = Some v, sb_length = length v\<rparr>, s1)
                   | (rc', None) \<Rightarrow> (rc', sbuf_reset, s1))))"

section \<open>The prefix chain\<close>

text \<open>
  \<open>struct prefix\<close> is a chain from the innermost template to the outermost; the list
  holds the text of each (empty for \<open>len = 0\<close>), the current template's first. The C code
  emits the outermost first.
\<close>

fun emitprefix :: "'s iwrap \<Rightarrow> string list \<Rightarrow> 's \<times> cfile \<Rightarrow> int \<times> 's \<times> cfile" where
  "emitprefix iw [] st = (0, st)"
| "emitprefix iw (p # ps) st =
     (case emitprefix iw ps st of (rc, st1) \<Rightarrow>
        if rc < 0 then (rc, st1)
        else if p \<noteq> [] then iw_emit iw p False st1
        else (0, st1))"

section \<open>The state of \<open>process\<close>\<close>

text \<open>
  An entry of the section stack (\<open>name\<close>, \<open>again\<close> are positions in the template) and
  the local variables of \<open>process\<close>. The stack has its top first, so \<open>depth\<close> is its
  length. \<open>pr_pref\<close> is the text \<open>[pref.start, pref.start + pref.len)\<close>.
\<close>

record sect =
  sc_name :: nat
  sc_again :: nat
  sc_length :: nat
  sc_enabled :: bool
  sc_entered :: bool

record proc =
  pr_template :: nat
  pr_opstr :: string
  pr_clstr :: string
  pr_stdalone :: nat
  pr_enabled :: bool
  pr_pref :: string
  pr_stack :: "sect list"

definition proc_init :: proc where
  "proc_init = \<lparr>pr_template = 0, pr_opstr = ''{{'', pr_clstr = ''}}'', pr_stdalone = 1,
                pr_enabled = True, pr_pref = [], pr_stack = []\<rparr>"

section \<open>Searching the next opening delimiter\<close>

text \<open>The delimiter \<open>d\<close> stands at position \<open>i\<close> and ends before the template does.\<close>

definition delim_at :: "string \<Rightarrow> string \<Rightarrow> nat \<Rightarrow> bool" where
  "delim_at t d i \<longleftrightarrow> i + length d \<le> length t \<and> substr t i (length d) = d"

text \<open>
  What the loop does at a newline (or at the end of the template): emit the line with its
  prefix unless it held only a standalone tag.
\<close>

definition emit_line :: "'s iwrap \<Rightarrow> string list \<Rightarrow> string \<Rightarrow> nat \<Rightarrow> proc \<Rightarrow> 's \<times> cfile
    \<Rightarrow> int \<times> 's \<times> cfile" where
  "emit_line iw ps t beg p st =
     (if pr_stdalone p \<noteq> 2 \<and> pr_enabled p
      then (case (if beg \<noteq> pr_template p then emitprefix iw (pr_pref p # ps) st else (0, st)) of
              (rc, st1) \<Rightarrow>
                if rc < 0 then (rc, st1)
                else iw_emit iw
                       (substr t (pr_template p)
                          ((if beg < length t then 1 else 0) + (beg - pr_template p))) False st1)
      else (0, st))"

text \<open>What it does at a byte that is not white space, before looking for the delimiter.\<close>

definition leave_standalone :: "'s iwrap \<Rightarrow> string list \<Rightarrow> proc \<Rightarrow> 's \<times> cfile
    \<Rightarrow> int \<times> proc \<times> 's \<times> cfile" where
  "leave_standalone iw ps p st =
     (if pr_stdalone p = 2 \<and> pr_enabled p
      then (case emitprefix iw (pr_pref p # ps) st of (rc, st1) \<Rightarrow>
              if rc < 0 then (rc, p, st1) else (0, p\<lparr>pr_pref := [], pr_stdalone := 0\<rparr>, st1))
      else (0, p, st))"

text \<open>
  The loop over \<open>beg\<close>: \<open>Inl rc\<close> when \<open>process\<close> returns, \<open>Inr (beg, p)\<close> when it
  leaves the loop at an opening delimiter.
\<close>

function scan_open :: "'s iwrap \<Rightarrow> string list \<Rightarrow> string \<Rightarrow> nat \<Rightarrow> proc \<Rightarrow> 's \<times> cfile
    \<Rightarrow> (int + nat \<times> proc) \<times> 's \<times> cfile" where
  "scan_open iw ps t beg p st =
     (if length t \<le> beg \<or> t ! beg = newline
      then (case emit_line iw ps t beg p st of (rc, st1) \<Rightarrow>
              if rc < 0 then (Inl rc, st1)
              else if length t \<le> beg
              then (Inl (if pr_stack p \<noteq> [] then MUSTACH_ERROR_UNEXPECTED_END else MUSTACH_OK), st1)
              else scan_open iw ps t (Suc beg)
                     (p\<lparr>pr_template := pr_template p + (1 + (beg - pr_template p)),
                        pr_stdalone := 1, pr_pref := []\<rparr>) st1)
      else if \<not> isspace (t ! beg)
      then (case leave_standalone iw ps p st of (rc, p1, st1) \<Rightarrow>
              if rc < 0 then (Inl rc, st1)
              else if delim_at t (pr_opstr p1) beg then (Inr (beg, p1), st1)
              else scan_open iw ps t (Suc beg) (p1\<lparr>pr_stdalone := 0\<rparr>) st1)
      else scan_open iw ps t (Suc beg) p st)"
  by pat_completeness auto
termination
  by (relation "measure (\<lambda>(iw, ps, t, beg, p, st). length t - beg)") auto

declare scan_open.simps [simp del]

text \<open>The loop over \<open>term\<close>: the position of the closing delimiter, if there is one.\<close>

function scan_close :: "string \<Rightarrow> string \<Rightarrow> nat \<Rightarrow> nat option" where
  "scan_close t cl pos =
     (if length t \<le> pos then None
      else if delim_at t cl pos then Some pos
      else scan_close t cl (Suc pos))"
  by pat_completeness auto
termination
  by (relation "measure (\<lambda>(t, cl, pos). length t - pos)") auto

declare scan_close.simps [simp del]


section \<open>Reading a tag\<close>

text \<open>
  Lengths are \<open>size_t\<close>: decrementing 0 wraps, and \<open>beg[len - 1]\<close> is then a read at
  \<open>beg + len - 1\<close> modulo the width of a pointer.
\<close>

definition size_dec :: "nat \<Rightarrow> nat" where
  "size_dec n = (if n = 0 then 2 ^ 64 - 1 else n - 1)"

definition last_index :: "nat \<Rightarrow> nat \<Rightarrow> nat" where
  "last_index pos len = (pos + len - 1) mod 2 ^ 64"

function strip_left :: "string \<Rightarrow> nat \<Rightarrow> nat \<Rightarrow> nat \<times> nat" where
  "strip_left t pos len =
     (if len \<noteq> 0 \<and> isspace (byte_at t pos) then strip_left t (Suc pos) (len - 1) else (pos, len))"
  by pat_completeness auto
termination
  by (relation "measure (\<lambda>(t, pos, len). len)") auto

function strip_right :: "string \<Rightarrow> nat \<Rightarrow> nat \<Rightarrow> nat" where
  "strip_right t pos len =
     (if len \<noteq> 0 \<and> isspace (byte_at t (last_index pos len)) then strip_right t pos (len - 1)
      else len)"
  by pat_completeness auto
termination
  by (relation "measure (\<lambda>(t, pos, len). len)") auto

declare strip_left.simps [simp del] strip_right.simps [simp del]

text \<open>
  What the first \<open>switch\<close> leaves for the second: the operator \<open>c\<close>, the tag's text
  (\<open>beg\<close>, \<open>len\<close>) and its copy \<open>name\<close>, the position after the tag, and
  \<open>stdalone\<close>.
\<close>

record tag =
  tg_c :: char
  tg_beg :: nat
  tg_len :: nat
  tg_name :: string
  tg_template :: nat
  tg_stdalone :: nat

text \<open>\<open>get_name:\<close> strip the white space, check the length, copy the name.\<close>

definition get_name :: "flagword \<Rightarrow> string \<Rightarrow> char \<Rightarrow> nat \<Rightarrow> nat \<Rightarrow> nat \<Rightarrow> nat \<Rightarrow> int + tag" where
  "get_name flags t c pos len tpl std =
     (case strip_left t pos len of (pos1, len1) \<Rightarrow>
        let len2 = strip_right t pos1 len1
        in if len2 = 0 \<and> flags AND Mustach_With_EmptyTag = 0 then Inl MUSTACH_ERROR_EMPTY_TAG
           else if len2 > MUSTACH_MAX_LENGTH then Inl MUSTACH_ERROR_TAG_TOO_LONG
           else Inr \<lparr>tg_c = c, tg_beg = pos1, tg_len = len2, tg_name = substr t pos1 len2,
                     tg_template = tpl, tg_stdalone = std\<rparr>)"

text \<open>\<open>exclude_first:\<close> drop the operator byte.\<close>

definition exclude_first :: "flagword \<Rightarrow> string \<Rightarrow> char \<Rightarrow> nat \<Rightarrow> nat \<Rightarrow> nat \<Rightarrow> nat \<Rightarrow> int + tag" where
  "exclude_first flags t c pos len tpl std = get_name flags t c (Suc pos) (size_dec len) tpl std"

text \<open>The first \<open>switch\<close>, on the byte after the opening delimiter.\<close>

definition parse_tag :: "flagword \<Rightarrow> string \<Rightarrow> string \<Rightarrow> nat \<Rightarrow> nat \<Rightarrow> nat \<Rightarrow> int + tag" where
  "parse_tag flags t cl pos term std =
     (let tpl = term + length cl; len = term - pos; c = byte_at t pos
      in if c = CHR '':'' then
           (if flags AND Mustach_With_Colon \<noteq> 0 then exclude_first flags t c pos len tpl 0
            else get_name flags t c pos len tpl 0)
         else if c = CHR ''!'' \<or> c = CHR ''='' then
           Inr \<lparr>tg_c = c, tg_beg = pos, tg_len = len, tg_name = [], tg_template = tpl,
                tg_stdalone = std\<rparr>
         else if c = CHR ''{'' then
           (if \<exists>k \<in> set cl. k \<noteq> CHR ''}'' then
              (if len = 0 \<or> byte_at t (pos + len - 1) \<noteq> CHR ''}''
               then Inl MUSTACH_ERROR_BAD_UNESCAPE_TAG
               else exclude_first flags t (CHR ''&'') pos (len - 1) tpl 0)
            else
              (if byte_at t (term + length cl) \<noteq> CHR ''}'' then Inl MUSTACH_ERROR_BAD_UNESCAPE_TAG
               else exclude_first flags t (CHR ''&'') pos len (Suc tpl) 0))
         else if c = CHR ''&'' then exclude_first flags t c pos len tpl 0
         else if c = CHR ''^'' \<or> c = CHR ''#'' \<or> c = CHR ''/'' \<or> c = CHR ''>'' then
           exclude_first flags t c pos len tpl std
         else get_name flags t c pos len tpl 0)"

section \<open>Changing the delimiters\<close>

text \<open>The first position from \<open>l\<close> on, below \<open>n\<close>, that holds white space (or does not).\<close>

function find_space :: "bool \<Rightarrow> string \<Rightarrow> nat \<Rightarrow> nat \<Rightarrow> nat \<Rightarrow> nat" where
  "find_space b t pos n l =
     (if l < n \<and> isspace (byte_at t (pos + l)) \<noteq> b then find_space b t pos n (Suc l) else l)"
  by pat_completeness auto
termination
  by (relation "measure (\<lambda>(b, t, pos, n, l). n - l)") auto

declare find_space.simps [simp del]

text \<open>The text of a \<open>=...=\<close> tag: the new opening and closing delimiters.\<close>

definition parse_delims :: "string \<Rightarrow> nat \<Rightarrow> nat \<Rightarrow> int + string \<times> string" where
  "parse_delims t pos len =
     (if len < 5 \<or> byte_at t (pos + len - 1) \<noteq> CHR ''='' then Inl MUSTACH_ERROR_BAD_SEPARATORS
      else (case strip_left t (Suc pos) (len - 2) of (pos1, len1) \<Rightarrow>
        let len2 = strip_right t pos1 len1;
            l = find_space True t pos1 len2 0
        in if l = len2 \<or> l > MUSTACH_MAX_DELIM_LENGTH then Inl MUSTACH_ERROR_BAD_SEPARATORS
           else let l2 = find_space False t pos1 len2 l
                in if l2 = len2 \<or> len2 - l2 > MUSTACH_MAX_DELIM_LENGTH
                   then Inl MUSTACH_ERROR_BAD_SEPARATORS
                   else Inr (substr t pos1 l, substr t (pos1 + l2) (len2 - l2))))"

section \<open>Executing a tag\<close>

text \<open>
  After the name is read: a tag alone on its line so far keeps the line pending, any other
  tag emits the pending prefix.
\<close>

definition tag_prefix :: "'s iwrap \<Rightarrow> string list \<Rightarrow> proc \<Rightarrow> nat \<Rightarrow> 's \<times> cfile
    \<Rightarrow> int \<times> proc \<times> 's \<times> cfile" where
  "tag_prefix iw ps p std st =
     (if std \<noteq> 0 then (0, p\<lparr>pr_stdalone := 2\<rparr>, st)
      else if pr_enabled p
      then (case emitprefix iw (pr_pref p # ps) st of (rc, st1) \<Rightarrow>
              if rc < 0 then (rc, p, st1)
              else (0, p\<lparr>pr_stdalone := std, pr_pref := []\<rparr>, st1))
      else (0, p\<lparr>pr_stdalone := std\<rparr>, st))"

text \<open>\<open>case '#'\<close> and \<open>case '^'\<close>: open a section.\<close>

definition begin_section :: "'s iwrap \<Rightarrow> tag \<Rightarrow> proc \<Rightarrow> 's \<times> cfile
    \<Rightarrow> (int + proc) \<times> 's \<times> cfile" where
  "begin_section iw tg p st =
     (if length (pr_stack p) = MUSTACH_MAX_DEPTH then (Inl MUSTACH_ERROR_TOO_DEEP, st)
      else (case st of (s, f) \<Rightarrow>
        case (if pr_enabled p then iw_enter iw (cstr (tg_name tg)) s else (0, s)) of (rc, s1) \<Rightarrow>
          if rc < 0 then (Inl rc, s1, f)
          else (Inr (p\<lparr>pr_stack := \<lparr>sc_name = tg_beg tg, sc_again = pr_template p,
                                    sc_length = tg_len tg, sc_enabled = pr_enabled p,
                                    sc_entered = (rc \<noteq> 0)\<rparr> # pr_stack p,
                       pr_enabled := (if (tg_c tg = CHR ''#'') = (rc = 0) then False
                                      else pr_enabled p)\<rparr>), s1, f)))"

text \<open>\<open>case '/'\<close>: close the section on top of the stack, or go round it again.\<close>

definition end_section :: "'s iwrap \<Rightarrow> string \<Rightarrow> tag \<Rightarrow> proc \<Rightarrow> 's \<times> cfile
    \<Rightarrow> (int + proc) \<times> 's \<times> cfile" where
  "end_section iw t tg p st =
     (case pr_stack p of
        [] \<Rightarrow> (Inl MUSTACH_ERROR_CLOSING, st)
      | sc # rest \<Rightarrow>
          if tg_len tg \<noteq> sc_length sc \<or> substr t (sc_name sc) (tg_len tg) \<noteq> tg_name tg
          then (Inl MUSTACH_ERROR_CLOSING, st)
          else (case st of (s, f) \<Rightarrow>
            case (if pr_enabled p \<and> sc_entered sc then iw_next iw s else (0, s)) of (rc, s1) \<Rightarrow>
              if rc < 0 then (Inl rc, s1, f)
              else if rc \<noteq> 0 then (Inr (p\<lparr>pr_template := sc_again sc\<rparr>), s1, f)
              else (Inr (p\<lparr>pr_stack := rest, pr_enabled := sc_enabled sc\<rparr>),
                    (if sc_enabled sc \<and> sc_entered sc then snd (iw_leave iw s1) else s1), f)))"

text \<open>The second \<open>switch\<close>, but for partials.\<close>

definition exec_tag :: "'s iwrap \<Rightarrow> string \<Rightarrow> tag \<Rightarrow> proc \<Rightarrow> 's \<times> cfile
    \<Rightarrow> (int + proc) \<times> 's \<times> cfile" where
  "exec_tag iw t tg p st =
     (if tg_c tg = CHR ''!'' then (Inr p, st)
      else if tg_c tg = CHR ''='' then
        (case parse_delims t (tg_beg tg) (tg_len tg) of
           Inl rc \<Rightarrow> (Inl rc, st)
         | Inr (op, cl) \<Rightarrow> (Inr (p\<lparr>pr_opstr := op, pr_clstr := cl\<rparr>), st))
      else if tg_c tg = CHR ''^'' \<or> tg_c tg = CHR ''#'' then begin_section iw tg p st
      else if tg_c tg = CHR ''/'' then end_section iw t tg p st
      else if pr_enabled p then
        (case iw_put iw (cstr (tg_name tg)) (tg_c tg \<noteq> CHR ''&'') st of (rc, st1) \<Rightarrow>
           if rc < 0 then (Inl rc, st1) else (Inr p, st1))
      else (Inr p, st))"

section \<open>The template loop\<close>

text \<open>
  From one opening delimiter to the tag it starts: \<open>Inl rc\<close> when \<open>process\<close> returns,
  else the tag and the local variables just before the second \<open>switch\<close>.
\<close>

definition next_tag :: "'s iwrap \<Rightarrow> string list \<Rightarrow> string \<Rightarrow> proc \<Rightarrow> 's \<times> cfile
    \<Rightarrow> (int + tag \<times> proc) \<times> 's \<times> cfile" where
  "next_tag iw ps t p st =
     (case scan_open iw ps t (pr_template p) p st of
        (Inl rc, st1) \<Rightarrow> (Inl rc, st1)
      | (Inr (pos, p1), st1) \<Rightarrow>
          let p2 = p1\<lparr>pr_pref := (if pr_enabled p1
                                  then substr t (pr_template p1) (pos - pr_template p1) else [])\<rparr>;
              pos1 = pos + length (pr_opstr p1)
          in (case scan_close t (pr_clstr p1) pos1 of
                None \<Rightarrow> (Inl MUSTACH_ERROR_UNEXPECTED_END, st1)
              | Some term \<Rightarrow>
                  (case parse_tag (iw_flags iw) t (pr_clstr p1) pos1 term (pr_stdalone p1) of
                     Inl rc \<Rightarrow> (Inl rc, st1)
                   | Inr tg \<Rightarrow>
                       (case tag_prefix iw ps (p2\<lparr>pr_template := tg_template tg\<rparr>)
                               (tg_stdalone tg) st1 of
                          (rc, p3, st2) \<Rightarrow>
                            if rc < 0 then (Inl rc, st2) else (Inr (tg, p3), st2)))))"

text \<open>
  \<open>process\<close>: the \<open>for (;;)\<close> loop over the tags, with the recursive call of
  \<open>case '>'\<close>, whose template is the partial's content and whose prefix chain is the
  current one.
\<close>

fun process_loop :: "nat \<Rightarrow> 's iwrap \<Rightarrow> string list \<Rightarrow> string \<Rightarrow> proc \<Rightarrow> 's \<times> cfile
    \<Rightarrow> (int \<times> 's \<times> cfile) option" where
  "process_loop 0 iw ps t p st = None"
| "process_loop (Suc fuel) iw ps t p st =
     (case next_tag iw ps t p st of
        (Inl rc, st1) \<Rightarrow> Some (rc, st1)
      | (Inr (tg, p1), st1) \<Rightarrow>
          if tg_c tg = CHR ''>'' then
            (if pr_enabled p1 then
               (case st1 of (s, f) \<Rightarrow>
                case iw_partial iw (cstr (tg_name tg)) s of (rc, sb, s1) \<Rightarrow>
                  if rc < 0 then Some (rc, s1, f)
                  else (case process_loop fuel iw (pr_pref p1 # ps) (sbuf_bytes sb) proc_init
                               (s1, f) of
                          None \<Rightarrow> None
                        | Some (rc', st2) \<Rightarrow>
                            if rc' < 0 then Some (rc', st2)
                            else process_loop fuel iw ps t p1 st2))
             else process_loop fuel iw ps t p1 st1)
          else (case exec_tag iw t tg p1 st1 of
                  (Inl rc, st2) \<Rightarrow> Some (rc, st2)
                | (Inr p2, st2) \<Rightarrow> process_loop fuel iw ps t p2 st2))"

definition process :: "nat \<Rightarrow> 's iwrap \<Rightarrow> string list \<Rightarrow> string \<Rightarrow> nat \<Rightarrow> 's \<times> cfile
    \<Rightarrow> (int \<times> 's \<times> cfile) option" where
  "process fuel iw ps template len st =
     process_loop fuel iw ps (if len \<noteq> 0 then take len template else cstr template) proc_init st"


section \<open>Entry points\<close>

text \<open>\<open>struct mustach_itf\<close>: the user's callbacks, any of which can be NULL.\<close>

record 's mustach_itf =
  itf_start :: "('s \<Rightarrow> int \<times> 's) option"
  itf_put :: "(string \<Rightarrow> bool \<Rightarrow> 's \<times> cfile \<Rightarrow> int \<times> 's \<times> cfile) option"
  itf_enter :: "(string \<Rightarrow> 's \<Rightarrow> int \<times> 's) option"
  itf_next :: "('s \<Rightarrow> int \<times> 's) option"
  itf_leave :: "('s \<Rightarrow> int \<times> 's) option"
  itf_partial :: "(string \<Rightarrow> 's \<Rightarrow> int \<times> mustach_sbuf \<times> 's) option"
  itf_emit :: "(string \<Rightarrow> bool \<Rightarrow> 's \<times> cfile \<Rightarrow> int \<times> 's \<times> cfile) option"
  itf_get :: "(string \<Rightarrow> 's \<Rightarrow> int \<times> mustach_sbuf \<times> 's) option"
  itf_stop :: "(int \<Rightarrow> 's \<Rightarrow> 's) option"

definition itf_valid :: "'s mustach_itf \<Rightarrow> bool" where
  "itf_valid itf \<longleftrightarrow> itf_enter itf \<noteq> None \<and> itf_next itf \<noteq> None \<and> itf_leave itf \<noteq> None
     \<and> (itf_put itf \<noteq> None \<or> itf_get itf \<noteq> None)"

text \<open>
  The callback table \<open>mustach_file\<close> builds; \<open>mem\<close> is what \<open>open_memstream\<close> returns
  to \<open>iwrap_partial\<close>.
\<close>

definition iwrap_emit_st :: "string \<Rightarrow> bool \<Rightarrow> 's \<times> cfile \<Rightarrow> int \<times> 's \<times> cfile" where
  "iwrap_emit_st buf escape st =
     (case st of (s, f) \<Rightarrow> (case iwrap_emit buf escape f of (rc, f') \<Rightarrow> (rc, s, f')))"

definition iwrap_init :: "'s mustach_itf \<Rightarrow> flagword \<Rightarrow> cfile option \<Rightarrow> 's iwrap" where
  "iwrap_init itf flags mem =
     (let emit = (case itf_emit itf of Some e \<Rightarrow> e | None \<Rightarrow> iwrap_emit_st);
          put = (case itf_put itf of Some pt \<Rightarrow> pt
                 | None \<Rightarrow> iwrap_put (the (itf_get itf)) emit)
      in \<lparr>iw_emit = emit, iw_put = put,
          iw_enter = the (itf_enter itf), iw_next = the (itf_next itf),
          iw_leave = the (itf_leave itf),
          iw_partial = (case itf_partial itf of Some pa \<Rightarrow> pa
                        | None \<Rightarrow> (case itf_get itf of Some g \<Rightarrow> g
                                   | None \<Rightarrow> iwrap_partial put mem)),
          iw_flags = flags\<rparr>)"

definition mustach_file :: "nat \<Rightarrow> string \<Rightarrow> nat \<Rightarrow> 's mustach_itf \<Rightarrow> 's \<Rightarrow> flagword
    \<Rightarrow> cfile option \<Rightarrow> cfile \<Rightarrow> (int \<times> 's \<times> cfile) option" where
  "mustach_file fuel template len itf closure flags mem f =
     (if \<not> itf_valid itf then Some (MUSTACH_ERROR_INVALID_ITF, closure, f)
      else (case (case itf_start itf of None \<Rightarrow> (0, closure) | Some start \<Rightarrow> start closure) of
        (rc, s) \<Rightarrow>
          map_option (\<lambda>(rc', s', f'). (rc', (case itf_stop itf of None \<Rightarrow> s'
                                              | Some stop \<Rightarrow> stop rc' s'), f'))
            (if rc = 0 then process fuel (iwrap_init itf flags mem) [] template len (s, f)
             else Some (rc, s, f))))"

text \<open>
  \<open>mustach_mem\<close>: the return code and \<open>*result\<close> (\<open>None\<close> for NULL). \<open>out\<close> is
  what \<open>open_memstream\<close> returns for the result.
\<close>

definition mustach_mem :: "nat \<Rightarrow> string \<Rightarrow> nat \<Rightarrow> 's mustach_itf \<Rightarrow> 's \<Rightarrow> flagword
    \<Rightarrow> cfile option \<Rightarrow> cfile option \<Rightarrow> (int \<times> string option \<times> 's) option" where
  "mustach_mem fuel template len itf closure flags mem out =
     (case out of
        None \<Rightarrow> Some (MUSTACH_ERROR_SYSTEM, None, closure)
      | Some f \<Rightarrow>
          map_option (\<lambda>(rc, s, f').
              if rc < 0 then (rc, memfile_abort f', s)
              else (case memfile_close f' of (rc', result) \<Rightarrow> (rc', result, s)))
            (mustach_file fuel template len itf closure flags mem f))"

text \<open>\<open>mustach\<close>: all extensions, an unknown length (0), a result in memory.\<close>

definition mustach :: "nat \<Rightarrow> string \<Rightarrow> 's mustach_itf \<Rightarrow> 's \<Rightarrow> cfile option \<Rightarrow> cfile option
    \<Rightarrow> (int \<times> string option \<times> 's) option" where
  "mustach fuel template itf closure mem out = mustach_mem fuel template 0 itf closure 3 mem out"

end
