(* ===== verification/Mustach_Safety.thy ===== *)
theory Mustach_Safety
  imports Mustach_Core
begin

text \<open>
  Memory safety of \<open>process\<close>: its positions stay inside the template, its section stack
  inside \<open>MUSTACH_MAX_DEPTH\<close> entries, its delimiters inside their arrays, its tag names
  inside the name buffer. The loop is a step relation on its local variables; the invariant holds
  in every state it reaches, whatever the callbacks do.
\<close>

named_theorems tag_bounds \<open>where the parts of a tag lie\<close>

section \<open>Scanning\<close>

lemma strip_left_bounds [tag_bounds]:
  "strip_left t pos len = (pos1, len1) \<Longrightarrow> pos \<le> pos1 \<and> len1 \<le> len \<and> pos1 + len1 = pos + len"
  by (induction t pos len arbitrary: pos1 len1 rule: strip_left.induct)
     (subst (asm) (2) strip_left.simps, fastforce split: if_splits)

lemma strip_left_stops:
  "strip_left t pos len = (pos1, len1) \<Longrightarrow> \<not> (len1 \<noteq> 0 \<and> isspace (byte_at t pos1))"
  by (induction t pos len arbitrary: pos1 len1 rule: strip_left.induct)
     (subst (asm) (2) strip_left.simps, fastforce split: if_splits)

lemma strip_right_le [tag_bounds]: "strip_right t pos len \<le> len"
  by (induction t pos len rule: strip_right.induct) (subst strip_right.simps, auto)

lemma find_space_bounds [tag_bounds]:
  "l \<le> n \<Longrightarrow> l \<le> find_space b t pos n l \<and> find_space b t pos n l \<le> n"
  by (induction b t pos n l rule: find_space.induct) (subst (1 2) find_space.simps, auto)

lemma find_space_skipped:
  "l \<le> k \<Longrightarrow> k < find_space b t pos n l \<Longrightarrow> isspace (byte_at t (pos + k)) \<noteq> b"
proof (induction b t pos n l rule: find_space.induct)
  case (1 b t pos n l)
  show ?case
  proof (cases "l < n \<and> isspace (byte_at t (pos + l)) \<noteq> b")
    case True
    then have "k < find_space b t pos n (Suc l)"
      using "1.prems"(2) by (simp add: find_space.simps [of b t pos n l])
    then show ?thesis using True "1.IH" "1.prems"(1) by (cases "k = l") auto
  next
    case False
    then have "find_space b t pos n l = l" by (subst find_space.simps) auto
    then show ?thesis using "1.prems" by simp
  qed
qed

lemma delim_at_end: "delim_at t d i \<Longrightarrow> i + length d \<le> length t"
  by (simp add: delim_at_def)

lemma delim_at_last:
  assumes "delim_at t d i" and "d \<noteq> []"
  shows "byte_at t (i + length d - 1) = last d"
proof -
  have le: "i + length d \<le> length t" and d: "substr t i (length d) = d"
    using assms(1) by (auto simp: delim_at_def)
  have "last d = substr t i (length d) ! (length d - 1)"
    using assms(2) d by (simp add: last_conv_nth)
  also have "\<dots> = t ! (i + (length d - 1))"
    using assms(2) le by (intro nth_substr) (cases d, auto)+
  finally show ?thesis using assms(2) le by (cases d) (auto simp: byte_at_def)
qed

lemma scan_close_Some:
  "scan_close t cl pos = Some fin \<Longrightarrow> pos \<le> fin \<and> fin < length t \<and> delim_at t cl fin"
proof (induction t cl pos rule: scan_close.induct)
  case (1 t cl pos)
  then show ?case
    by (subst (asm) (2) scan_close.simps) (fastforce split: if_splits)
qed

text \<open>The opening scan changes nothing but the line position, the prefix and \<open>stdalone\<close>.\<close>

definition same_tags :: "proc \<Rightarrow> proc \<Rightarrow> bool" where
  "same_tags p p' \<longleftrightarrow> pr_opstr p' = pr_opstr p \<and> pr_clstr p' = pr_clstr p
     \<and> pr_enabled p' = pr_enabled p \<and> pr_stack p' = pr_stack p"

lemma leave_standalone_same:
  "leave_standalone iw ps p st = (rc, p1, st1) \<Longrightarrow>
     same_tags p p1 \<and> pr_template p1 = pr_template p
     \<and> (pr_stdalone p \<le> 2 \<longrightarrow> pr_stdalone p1 \<le> 2)"
  by (auto simp: leave_standalone_def same_tags_def split: if_splits prod.splits)

lemma scan_open_Inr:
  assumes "scan_open iw ps t beg p st = (Inr (pos, p1), st1)"
    and "pr_template p \<le> beg" and "pr_stdalone p \<le> 2"
  shows "beg \<le> pos \<and> pr_template p1 \<le> pos \<and> delim_at t (pr_opstr p) pos \<and> same_tags p p1
    \<and> pr_stdalone p1 \<le> 2"
  using assms
proof (induction iw ps t beg p st rule: scan_open.induct)
  case (1 iw ps t beg p st)
  show ?case
  proof (cases "length t \<le> beg \<or> t ! beg = newline")
    case nl: True
    obtain rc s1 where el: "emit_line iw ps t beg p st = (rc, s1)" by (metis surj_pair)
    let ?p = "p\<lparr>pr_template := pr_template p + (1 + (beg - pr_template p)),
                pr_stdalone := 1, pr_pref := []\<rparr>"
    from nl el "1.prems"(1) have go: "\<not> rc < 0" "\<not> length t \<le> beg"
      and res: "scan_open iw ps t (Suc beg) ?p s1 = (Inr (pos, p1), st1)"
      by (auto simp: scan_open.simps [of iw ps t beg p st] split: if_splits)
    have "Suc beg \<le> pos \<and> pr_template p1 \<le> pos \<and> delim_at t (pr_opstr ?p) pos \<and> same_tags ?p p1
        \<and> pr_stdalone p1 \<le> 2"
      by (rule "1.IH"(1) [OF nl el [symmetric] go res]) (use "1.prems"(2) in auto)
    then show ?thesis by (auto simp: same_tags_def)
  next
    case nonl: False
    show ?thesis
    proof (cases "isspace (t ! beg)")
      case True
      then have res: "scan_open iw ps t (Suc beg) p st = (Inr (pos, p1), st1)"
        using "1.prems"(1) nonl by (simp add: scan_open.simps [of iw ps t beg p st])
      from "1.IH"(3) [OF nonl _ res] True "1.prems" show ?thesis by auto
    next
      case False
      obtain rc q s1 where ls: "leave_standalone iw ps p st = (rc, q, s1)" by (metis prod_cases3)
      note same = leave_standalone_same [OF ls]
      show ?thesis
      proof (cases "delim_at t (pr_opstr q) beg")
        case True
        then show ?thesis
          using "1.prems" nonl False ls same
          by (auto simp: scan_open.simps [of iw ps t beg p st] same_tags_def split: if_splits)
      next
        case nod: False
        then have rc: "\<not> rc < 0"
          and res: "scan_open iw ps t (Suc beg) (q\<lparr>pr_stdalone := 0\<rparr>) s1 = (Inr (pos, p1), st1)"
          using "1.prems"(1) nonl False ls
          by (auto simp: scan_open.simps [of iw ps t beg p st] split: if_splits)
        have "Suc beg \<le> pos \<and> pr_template p1 \<le> pos
            \<and> delim_at t (pr_opstr (q\<lparr>pr_stdalone := 0\<rparr>)) pos \<and> same_tags (q\<lparr>pr_stdalone := 0\<rparr>) p1
            \<and> pr_stdalone p1 \<le> 2"
          by (rule "1.IH"(2) [OF nonl _ ls [symmetric] refl rc nod res])
             (use False "1.prems"(2) same in auto)
        then show ?thesis using same by (auto simp: same_tags_def)
      qed
    qed
  qed
qed


section \<open>Reading a tag\<close>

text \<open>The tag is inside the template and its name is the text at its place.\<close>

definition tag_inside :: "string \<Rightarrow> tag \<Rightarrow> bool" where
  "tag_inside t tg \<longleftrightarrow> tg_beg tg + tg_len tg < tg_template tg \<and> tg_template tg \<le> length t
     \<and> tg_stdalone tg \<le> 2
     \<and> (tg_c tg \<noteq> CHR ''!'' \<and> tg_c tg \<noteq> CHR ''='' \<longrightarrow>
          tg_len tg \<le> MUSTACH_MAX_LENGTH \<and> tg_name tg = substr t (tg_beg tg) (tg_len tg))"

lemma get_name_inside:
  assumes "get_name flags t c pos len tpl std = Inr tg"
    and "pos + len < tpl" and "tpl \<le> length t" and "std \<le> 2"
  shows "tag_inside t tg \<and> tg_template tg = tpl"
proof -
  obtain pos1 len1 where sl: "strip_left t pos len = (pos1, len1)" by force
  have "pos1 + strip_right t pos1 len1 < tpl"
    using strip_left_bounds [OF sl] strip_right_le [of t pos1 len1] assms(2) by linarith
  then show ?thesis
    using assms by (auto simp: get_name_def sl Let_def tag_inside_def split: if_splits)
qed

text \<open>
  When nothing follows the opening delimiter, dropping the operator wraps the length around; the
  name is then too long, because the delimiter before it does not end in white space.
\<close>

lemma strip_right_stop:
  "\<not> isspace (byte_at t (last_index pos len)) \<Longrightarrow> strip_right t pos len = len"
  by (subst strip_right.simps) simp

lemma strip_left_run:
  "strip_left t pos len = (pos1, len1) \<Longrightarrow> pos \<le> length t \<Longrightarrow> pos1 \<le> length t"
proof (induction t pos len arbitrary: pos1 len1 rule: strip_left.induct)
  case (1 t pos len)
  show ?case
  proof (cases "len \<noteq> 0 \<and> isspace (byte_at t pos)")
    case True
    then have "pos < length t"
      by (metis byte_at_end not_isspace_nul not_less)
    then show ?thesis
      using "1.IH" True "1.prems"(1) by (subst (asm) (2) strip_left.simps) auto
  next
    case False
    then show ?thesis using "1.prems" by (subst (asm) strip_left.simps) auto
  qed
qed

lemma exclude_first_underflow:
  assumes "0 < pos" and "pos < length t" and "length t < 2 ^ 63"
    and "\<not> isspace (byte_at t (pos - 1))"
  shows "exclude_first flags t c pos 0 tpl std = Inl MUSTACH_ERROR_TAG_TOO_LONG"
proof -
  obtain pos1 len1 where sl: "strip_left t (Suc pos) (2 ^ 64 - 1) = (pos1, len1)" by force
  from strip_left_bounds [OF sl] strip_left_run [OF sl] assms(2)
  have b: "Suc pos \<le> pos1" "pos1 + len1 = Suc pos + (2 ^ 64 - 1)" "pos1 \<le> length t"
    by simp_all
  then have "pos1 + len1 - 1 = (pos - 1) + 2 ^ 64" using assms(1) by simp
  then have "last_index pos1 len1 = (pos - 1) mod 2 ^ 64"
    by (simp only: last_index_def mod_add_self2)
  moreover have "(pos - 1) mod 2 ^ 64 = pos - 1"
    using assms(2,3) by (intro mod_less) simp
  ultimately have "last_index pos1 len1 = pos - 1" by simp
  then have "strip_right t pos1 len1 = len1" using assms(4) by (intro strip_right_stop) simp
  moreover have "len1 > MUSTACH_MAX_LENGTH" using b assms(3) by simp
  ultimately show ?thesis
    unfolding exclude_first_def size_dec_def if_P [OF refl] get_name_def sl by simp
qed

lemma exclude_first_inside:
  assumes "exclude_first flags t c pos len tpl std = Inr tg"
    and "pos + len < tpl" and "tpl \<le> length t" and "std \<le> 2"
    and "0 < pos" and "length t < 2 ^ 63" and "\<not> isspace (byte_at t (pos - 1))"
  shows "tag_inside t tg \<and> tg_template tg = tpl"
proof (cases "len = 0")
  case True
  then have False using exclude_first_underflow [of pos t flags c tpl std] assms by simp
  then show ?thesis ..
next
  case False
  then show ?thesis
    using assms get_name_inside [of flags t c "Suc pos" "size_dec len" tpl std tg]
    by (auto simp: exclude_first_def size_dec_def)
qed

lemma parse_tag_inside:
  assumes pt: "parse_tag flags t cl pos fin std = Inr tg"
    and "pos \<le> fin" and "cl \<noteq> []" and "fin + length cl \<le> length t" and "std \<le> 2"
    and pre: "0 < pos" "length t < 2 ^ 63" "\<not> isspace (byte_at t (pos - 1))"
  shows "tag_inside t tg \<and> fin < tg_template tg"
proof -
  let ?c = "byte_at t pos"
  have room: "pos + (fin - pos) < fin + length cl"
    using assms(2,3) by (cases cl) auto
  have close: "Suc (fin + length cl) \<le> length t"
    if "byte_at t (fin + length cl) = CHR ''}''"
    using that byte_at_end [of t "fin + length cl"]
    by (cases "length t \<le> fin + length cl") auto
  consider "?c = CHR '':''" | "?c = CHR ''!'' \<or> ?c = CHR ''=''" | "?c = CHR ''{''"
    | "?c \<noteq> CHR '':''" "\<not> (?c = CHR ''!'' \<or> ?c = CHR ''='')" "?c \<noteq> CHR ''{''"
    by blast
  then show ?thesis
  proof cases
    case 1
    then show ?thesis
      using pt room assms(4) pre get_name_inside [of flags t ?c pos "fin - pos" "fin + length cl" 0 tg]
        exclude_first_inside [of flags t ?c pos "fin - pos" "fin + length cl" 0 tg]
      by (auto simp: parse_tag_def Let_def split: if_splits)
  next
    case 2
    then show ?thesis
      using pt room assms(4,5) by (auto simp: parse_tag_def Let_def tag_inside_def split: if_splits)
  next
    case 3
    then show ?thesis
      using pt room assms(4) pre close
        exclude_first_inside [of flags t "CHR ''&''" pos "fin - pos - 1" "fin + length cl" 0 tg]
        exclude_first_inside [of flags t "CHR ''&''" pos "fin - pos" "Suc (fin + length cl)" 0 tg]
      by (auto simp: parse_tag_def Let_def split: if_splits)
  next
    case 4
    then show ?thesis
      using pt room assms(3-5) pre get_name_inside [of flags t ?c pos "fin - pos" "fin + length cl" 0 tg]
        exclude_first_inside [of flags t ?c pos "fin - pos" "fin + length cl" 0 tg]
        exclude_first_inside [of flags t ?c pos "fin - pos" "fin + length cl" std tg]
      by (simp add: parse_tag_def Let_def split: if_splits)
  qed
qed


section \<open>New delimiters\<close>

text \<open>A delimiter fits its array and holds the opening one does not end in white space.\<close>

definition delim_ok :: "string \<Rightarrow> bool" where
  "delim_ok d \<longleftrightarrow> d \<noteq> [] \<and> length d \<le> MUSTACH_MAX_DELIM_LENGTH"

lemma parse_delims_ok:
  assumes pd: "parse_delims t pos len = Inr (op, cl)" and "pos + len \<le> length t"
  shows "delim_ok op \<and> delim_ok cl \<and> \<not> isspace (last op)"
proof -
  obtain pos1 len1 where sl: "strip_left t (Suc pos) (len - 2) = (pos1, len1)" by force
  define len2 where "len2 = strip_right t pos1 len1"
  define l where "l = find_space True t pos1 len2 0"
  define l2 where "l2 = find_space False t pos1 len2 l"
  have cond: "5 \<le> len" "l \<noteq> len2" "l \<le> 8" "l2 \<noteq> len2" "len2 - l2 \<le> 8"
    and op: "op = substr t pos1 l" and cl: "cl = substr t (pos1 + l2) (len2 - l2)"
    using pd by (auto simp: parse_delims_def sl Let_def len2_def l_def l2_def split: if_splits)
  have "l \<le> len2" using find_space_bounds [of 0 len2 True t pos1] by (simp add: l_def)
  moreover then have "l2 \<le> len2"
    using find_space_bounds [of l len2 False t pos1] by (simp add: l2_def)
  ultimately have lt: "l < len2" "l2 < len2" using cond by auto
  have inside: "pos1 + len2 \<le> length t"
    using strip_left_bounds [OF sl] strip_right_le [of t pos1 len1] cond(1) assms(2)
    unfolding len2_def by linarith
  have "0 < l"
  proof (rule ccontr)
    assume "\<not> 0 < l"
    then have "isspace (byte_at t pos1)"
      using lt find_space.simps [of True t pos1 len2 0] find_space_bounds [of 1 len2 True t pos1]
      by (auto simp: l_def split: if_splits)
    moreover have "\<not> (len1 \<noteq> 0 \<and> isspace (byte_at t pos1))"
      by (rule strip_left_stops [OF sl])
    ultimately show False using lt strip_right_le [of t pos1 len1] by (simp add: len2_def)
  qed
  note l0 = this
  have len_op: "length op = l" using lt inside by (simp add: op length_substr)
  moreover have "last op = byte_at t (pos1 + (l - 1))"
  proof -
    have "op \<noteq> []" using len_op \<open>0 < l\<close> by auto
    then have "last op = op ! (l - 1)" using len_op by (simp add: last_conv_nth)
    also have "\<dots> = t ! (pos1 + (l - 1))"
      unfolding op using \<open>0 < l\<close> lt inside by (intro nth_substr) auto
    finally have "last op = t ! (pos1 + (l - 1))" .
    moreover have "pos1 + (l - 1) < length t" using \<open>0 < l\<close> lt inside by linarith
    ultimately show ?thesis by (simp only: byte_at_in)
  qed
  moreover have "\<not> isspace (byte_at t (pos1 + (l - 1)))"
    using find_space_skipped [of 0 "l - 1" True t pos1 len2] \<open>0 < l\<close> by (simp add: l_def)
  ultimately show ?thesis
    using l0 cond lt inside by (auto simp: delim_ok_def op cl simp flip: length_0_conv)
qed


section \<open>The loop as a step relation\<close>

type_synonym 's loop_state = "proc \<times> 's \<times> cfile"

text \<open>
  One round of \<open>for (;;)\<close> that does not return: a tag other than a partial, a partial in
  a disabled section, or a partial whose own rendering (a run of \<open>process\<close>) succeeded.
\<close>

inductive loop_step :: "'s iwrap \<Rightarrow> string list \<Rightarrow> string \<Rightarrow> 's loop_state \<Rightarrow> 's loop_state \<Rightarrow> bool"
  for iw ps t where
  tag: "next_tag iw ps t p st = (Inr (tg, p1), st1) \<Longrightarrow> tg_c tg \<noteq> CHR ''>''
    \<Longrightarrow> exec_tag iw t tg p1 st1 = (Inr p2, st2) \<Longrightarrow> loop_step iw ps t (p, st) (p2, st2)"
| partial_disabled: "next_tag iw ps t p st = (Inr (tg, p1), st1) \<Longrightarrow> tg_c tg = CHR ''>''
    \<Longrightarrow> \<not> pr_enabled p1 \<Longrightarrow> loop_step iw ps t (p, st) (p1, st1)"
| partial: "next_tag iw ps t p st = (Inr (tg, p1), s, f) \<Longrightarrow> tg_c tg = CHR ''>''
    \<Longrightarrow> pr_enabled p1 \<Longrightarrow> iw_partial iw (cstr (tg_name tg)) s = (rc, sb, s1) \<Longrightarrow> 0 \<le> rc
    \<Longrightarrow> process_loop fuel iw (pr_pref p1 # ps) (sbuf_bytes sb) proc_init (s1, f) = Some (rc', st2)
    \<Longrightarrow> 0 \<le> rc' \<Longrightarrow> loop_step iw ps t (p, st) (p1, st2)"

inductive loop_reach :: "'s iwrap \<Rightarrow> string list \<Rightarrow> string \<Rightarrow> 's \<times> cfile \<Rightarrow> 's loop_state \<Rightarrow> bool"
  for iw ps t st0 where
  start: "loop_reach iw ps t st0 (proc_init, st0)"
| step: "loop_reach iw ps t st0 x \<Longrightarrow> loop_step iw ps t x y \<Longrightarrow> loop_reach iw ps t st0 y"

inductive_cases loop_stepE: "loop_step iw ps t (p, st) y"

section \<open>The invariant\<close>

definition sect_ok :: "string \<Rightarrow> sect \<Rightarrow> bool" where
  "sect_ok t sc \<longleftrightarrow> sc_name sc + sc_length sc \<le> length t \<and> sc_length sc \<le> MUSTACH_MAX_LENGTH
     \<and> sc_again sc \<le> length t \<and> (sc_entered sc \<longrightarrow> sc_enabled sc)"

definition proc_ok :: "string \<Rightarrow> proc \<Rightarrow> bool" where
  "proc_ok t p \<longleftrightarrow> pr_template p \<le> length t \<and> delim_ok (pr_opstr p) \<and> delim_ok (pr_clstr p)
     \<and> \<not> isspace (last (pr_opstr p)) \<and> pr_stdalone p \<le> 2
     \<and> length (pr_stack p) \<le> MUSTACH_MAX_DEPTH \<and> (\<forall>sc \<in> set (pr_stack p). sect_ok t sc)"

lemma proc_ok_init [simp]: "proc_ok t proc_init"
  by (simp add: proc_ok_def proc_init_def delim_ok_def isspace_def)

lemma tag_prefix_same:
  "tag_prefix iw ps p std st = (rc, p1, st1) \<Longrightarrow>
     same_tags p p1 \<and> pr_template p1 = pr_template p
     \<and> (pr_stdalone p \<le> 2 \<longrightarrow> std \<le> 2 \<longrightarrow> pr_stdalone p1 \<le> 2)"
  by (auto simp: tag_prefix_def same_tags_def split: if_splits prod.splits)

lemma next_tag_ok:
  assumes nt: "next_tag iw ps t p st = (Inr (tg, p1), st1)"
    and ok: "proc_ok t p" and size: "length t < 2 ^ 63"
  shows "proc_ok t p1 \<and> tag_inside t tg \<and> pr_template p1 = tg_template tg
    \<and> pr_template p < tg_template tg \<and> pr_stack p1 = pr_stack p \<and> pr_enabled p1 = pr_enabled p"
proof -
  from nt obtain pos q st2 fin rc where
    so: "scan_open iw ps t (pr_template p) p st = (Inr (pos, q), st2)"
    and sc: "scan_close t (pr_clstr q) (pos + length (pr_opstr q)) = Some fin"
    and pt: "parse_tag (iw_flags iw) t (pr_clstr q) (pos + length (pr_opstr q)) fin (pr_stdalone q)
               = Inr tg"
    and tp: "tag_prefix iw ps
        (q\<lparr>pr_pref := (if pr_enabled q then substr t (pr_template q) (pos - pr_template q) else []),
           pr_template := tg_template tg\<rparr>) (tg_stdalone tg) st2 = (rc, p1, st1)"
    by (auto simp: next_tag_def Let_def split: prod.splits sum.splits option.splits if_splits)
  have std: "pr_stdalone p \<le> 2" using ok by (simp add: proc_ok_def)
  from scan_open_Inr [OF so order_refl std] have q: "pr_template p \<le> pos" "same_tags p q"
    "delim_at t (pr_opstr q) pos" "pr_stdalone q \<le> 2"
    by (auto simp: same_tags_def)
  from q(2) ok have dq: "delim_ok (pr_opstr q)" "delim_ok (pr_clstr q)"
    "\<not> isspace (last (pr_opstr q))" by (auto simp: same_tags_def proc_ok_def)
  from scan_close_Some [OF sc] have e: "pos + length (pr_opstr q) \<le> fin"
    "fin + length (pr_clstr q) \<le> length t" by (auto simp: delim_at_def)
  have "\<not> isspace (byte_at t (pos + length (pr_opstr q) - 1))"
    using delim_at_last [OF q(3)] dq by (simp add: delim_ok_def)
  then have tg: "tag_inside t tg" "fin < tg_template tg"
    using parse_tag_inside [OF pt e(1) _ e(2) q(4)] dq(1,2) size by (auto simp: delim_ok_def)
  from tag_prefix_same [OF tp] q(2,4) ok tg show ?thesis
    using q(1) e(1) by (auto simp: proc_ok_def same_tags_def tag_inside_def)
qed

lemma begin_section_ok:
  assumes "begin_section iw tg p st = (Inr p1, st1)" and "proc_ok t p" and "tag_inside t tg"
    and "tg_c tg = CHR ''#'' \<or> tg_c tg = CHR ''^''"
    and inv: "pr_template p \<le> length t"
  shows "proc_ok t p1"
  using assms
  by (cases st) (auto simp: begin_section_def proc_ok_def tag_inside_def sect_ok_def
      split: if_splits prod.splits)

lemma end_section_ok:
  assumes "end_section iw t tg p st = (Inr p1, st1)" and "proc_ok t p"
  shows "proc_ok t p1"
  using assms
  by (cases st) (auto simp: end_section_def proc_ok_def sect_ok_def
      split: if_splits prod.splits list.splits)

lemma tag_text_inside: "tag_inside t tg \<Longrightarrow> tg_beg tg + tg_len tg \<le> length t"
  by (simp add: tag_inside_def)

lemma exec_tag_ok:
  assumes ex: "exec_tag iw t tg p st = (Inr p1, st1)" and ok: "proc_ok t p" and tg: "tag_inside t tg"
  shows "proc_ok t p1"
proof -
  consider "tg_c tg = CHR ''=''" | "tg_c tg = CHR ''^'' \<or> tg_c tg = CHR ''#''" | "tg_c tg = CHR ''/''"
    | "tg_c tg \<noteq> CHR ''=''" "\<not> (tg_c tg = CHR ''^'' \<or> tg_c tg = CHR ''#'')" "tg_c tg \<noteq> CHR ''/''"
    by blast
  then show ?thesis
  proof cases
    case 1
    then obtain op cl where "parse_delims t (tg_beg tg) (tg_len tg) = Inr (op, cl)"
      and "p1 = p\<lparr>pr_opstr := op, pr_clstr := cl\<rparr>"
      using ex by (auto simp: exec_tag_def split: sum.splits prod.splits)
    then show ?thesis
      using parse_delims_ok [OF _ tag_text_inside [OF tg]] ok by (auto simp: proc_ok_def)
  next
    case 2
    then have "begin_section iw tg p st = (Inr p1, st1)" using ex by (auto simp: exec_tag_def)
    then show ?thesis
      by (rule begin_section_ok [OF _ ok tg]) (use 2 ok in \<open>auto simp: proc_ok_def\<close>)
  next
    case 3
    then have "end_section iw t tg p st = (Inr p1, st1)" using ex by (auto simp: exec_tag_def)
    then show ?thesis using ok by (rule end_section_ok)
  next
    case 4
    then show ?thesis using ex ok by (auto simp: exec_tag_def split: if_splits prod.splits)
  qed
qed

lemma loop_step_ok:
  assumes "loop_step iw ps t (p, st) (p', st')" and "proc_ok t p" and "length t < 2 ^ 63"
  shows "proc_ok t p'"
  using assms(1)
proof cases
  case (tag tg p1 st1)
  then show ?thesis using exec_tag_ok next_tag_ok assms(2,3) by metis
next
  case (partial_disabled tg)
  then show ?thesis using next_tag_ok assms(2,3) by metis
next
  case (partial tg s f rc sb s1 fuel rc')
  then show ?thesis using next_tag_ok assms(2,3) by metis
qed

lemma loop_reach_ok:
  assumes "loop_reach iw ps t st0 x" and "length t < 2 ^ 63"
  shows "proc_ok t (fst x)"
  using assms(1)
proof induction
  case start
  then show ?case by simp
next
  case (step x y)
  then show ?case using loop_step_ok assms(2) by (metis prod.collapse)
qed

section \<open>The step relation is the loop\<close>

text \<open>The rounds in which \<open>process\<close> returns.\<close>

inductive loop_exit :: "'s iwrap \<Rightarrow> string list \<Rightarrow> string \<Rightarrow> 's loop_state \<Rightarrow> int \<Rightarrow> 's \<times> cfile \<Rightarrow> bool"
  for iw ps t where
  no_tag: "next_tag iw ps t p st = (Inl rc, st1) \<Longrightarrow> loop_exit iw ps t (p, st) rc st1"
| failed_tag: "next_tag iw ps t p st = (Inr (tg, p1), st1) \<Longrightarrow> tg_c tg \<noteq> CHR ''>''
    \<Longrightarrow> exec_tag iw t tg p1 st1 = (Inl rc, st2) \<Longrightarrow> loop_exit iw ps t (p, st) rc st2"
| no_partial: "next_tag iw ps t p st = (Inr (tg, p1), s, f) \<Longrightarrow> tg_c tg = CHR ''>''
    \<Longrightarrow> pr_enabled p1 \<Longrightarrow> iw_partial iw (cstr (tg_name tg)) s = (rc, sb, s1) \<Longrightarrow> rc < 0
    \<Longrightarrow> loop_exit iw ps t (p, st) rc (s1, f)"
| failed_partial: "next_tag iw ps t p st = (Inr (tg, p1), s, f) \<Longrightarrow> tg_c tg = CHR ''>''
    \<Longrightarrow> pr_enabled p1 \<Longrightarrow> iw_partial iw (cstr (tg_name tg)) s = (rc, sb, s1) \<Longrightarrow> 0 \<le> rc
    \<Longrightarrow> process_loop fuel iw (pr_pref p1 # ps) (sbuf_bytes sb) proc_init (s1, f) = Some (rc', st2)
    \<Longrightarrow> rc' < 0 \<Longrightarrow> loop_exit iw ps t (p, st) rc' st2"

lemma process_loop_cases:
  assumes run: "process_loop (Suc fuel) iw ps t p st = Some r"
  obtains
    (no_tag) rc st1 where "next_tag iw ps t p st = (Inl rc, st1)" and "r = (rc, st1)"
  | (failed_tag) tg p1 st1 rc st2 where "next_tag iw ps t p st = (Inr (tg, p1), st1)"
      and "tg_c tg \<noteq> CHR ''>''" and "exec_tag iw t tg p1 st1 = (Inl rc, st2)" and "r = (rc, st2)"
  | (tag) tg p1 st1 p2 st2 where "next_tag iw ps t p st = (Inr (tg, p1), st1)"
      and "tg_c tg \<noteq> CHR ''>''" and "exec_tag iw t tg p1 st1 = (Inr p2, st2)"
      and "process_loop fuel iw ps t p2 st2 = Some r"
  | (disabled) tg p1 st1 where "next_tag iw ps t p st = (Inr (tg, p1), st1)"
      and "tg_c tg = CHR ''>''" and "\<not> pr_enabled p1" and "process_loop fuel iw ps t p1 st1 = Some r"
  | (no_partial) tg p1 s f rc sb s1 where "next_tag iw ps t p st = (Inr (tg, p1), s, f)"
      and "tg_c tg = CHR ''>''" and "pr_enabled p1"
      and "iw_partial iw (cstr (tg_name tg)) s = (rc, sb, s1)" and "rc < 0" and "r = (rc, s1, f)"
  | (failed_partial) tg p1 s f rc sb s1 rc' st2 where "next_tag iw ps t p st = (Inr (tg, p1), s, f)"
      and "tg_c tg = CHR ''>''" and "pr_enabled p1"
      and "iw_partial iw (cstr (tg_name tg)) s = (rc, sb, s1)" and "0 \<le> rc"
      and "process_loop fuel iw (pr_pref p1 # ps) (sbuf_bytes sb) proc_init (s1, f) = Some (rc', st2)"
      and "rc' < 0" and "r = (rc', st2)"
  | (partial) tg p1 s f rc sb s1 rc' st2 where "next_tag iw ps t p st = (Inr (tg, p1), s, f)"
      and "tg_c tg = CHR ''>''" and "pr_enabled p1"
      and "iw_partial iw (cstr (tg_name tg)) s = (rc, sb, s1)" and "0 \<le> rc"
      and "process_loop fuel iw (pr_pref p1 # ps) (sbuf_bytes sb) proc_init (s1, f) = Some (rc', st2)"
      and "0 \<le> rc'" and "process_loop fuel iw ps t p1 st2 = Some r"
proof -
  obtain x st1 where nt: "next_tag iw ps t p st = (x, st1)" by (metis surj_pair)
  show thesis
  proof (cases x)
    case (Inl rc)
    then show thesis using run nt no_tag by simp
  next
    case (Inr y)
    obtain tg p1 s f where y: "y = (tg, p1)" "st1 = (s, f)" by (cases y, cases st1) auto
    note nt1 = nt [unfolded Inr y]
    show thesis
    proof (cases "tg_c tg = CHR ''>''")
      case False
      obtain z st2 where ex: "exec_tag iw t tg p1 (s, f) = (z, st2)" by (metis surj_pair)
      show thesis
      proof (cases z)
        case (Inl rc)
        then show thesis using run nt1 False ex failed_tag by simp
      next
        case (Inr p2)
        then show thesis using run nt1 False ex tag by simp
      qed
    next
      case True
      obtain rc sb s1 where pa: "iw_partial iw (cstr (tg_name tg)) s = (rc, sb, s1)"
        by (metis prod_cases3)
      consider "\<not> pr_enabled p1" | "pr_enabled p1" "rc < 0"
        | "pr_enabled p1" "0 \<le> rc" by linarith
      then show thesis
      proof cases
        case 1
        then show thesis using run nt1 True disabled by simp
      next
        case 2
        then show thesis using run nt1 True pa no_partial by simp
      next
        case 3
        then obtain rc' st2 where sub: "process_loop fuel iw (pr_pref p1 # ps) (sbuf_bytes sb)
            proc_init (s1, f) = Some (rc', st2)"
          using run nt1 True pa by (auto split: option.splits)
        then show thesis
          using 3 run nt1 True pa failed_partial [OF nt1 True 3(1) pa 3(2) sub]
            partial [OF nt1 True 3(1) pa 3(2) sub]
          by (cases "rc' < 0") simp_all
      qed
    qed
  qed
qed

lemma process_loop_mono:
  "process_loop fuel iw ps t p st = Some r \<Longrightarrow> fuel \<le> fuel' \<Longrightarrow> process_loop fuel' iw ps t p st = Some r"
proof (induction fuel arbitrary: ps t p st fuel' r)
  case (Suc fuel)
  then obtain n where n: "fuel' = Suc n" "fuel \<le> n" by (cases fuel') auto
  note IH = Suc.IH [OF _ n(2)]
  show ?case
    using Suc.prems(1) by (cases rule: process_loop_cases) (simp_all add: n(1) IH)
qed simp

lemma process_loop_unique:
  "process_loop fuel iw ps t p st = Some r \<Longrightarrow> process_loop fuel' iw ps t p st = Some r' \<Longrightarrow> r = r'"
  using process_loop_mono [of fuel iw ps t p st r "max fuel fuel'"]
    process_loop_mono [of fuel' iw ps t p st r' "max fuel fuel'"] by simp

text \<open>A run that returns is a chain of rounds that ends in one that returns, and back.\<close>

lemma process_loop_exit:
  assumes "loop_exit iw ps t x rc st'"
  shows "\<exists>fuel. process_loop fuel iw ps t (fst x) (snd x) = Some (rc, st')"
  using assms
proof cases
  case (no_tag p st)
  then show ?thesis by (intro exI [of _ "Suc 0"]) simp
next
  case (failed_tag p st tg p1 st1)
  then show ?thesis by (intro exI [of _ "Suc 0"]) simp
next
  case (no_partial p st tg p1 s f sb s1)
  then show ?thesis by (intro exI [of _ "Suc 0"]) simp
next
  case (failed_partial p st tg p1 s f rc0 sb s1 fuel)
  then show ?thesis by (intro exI [of _ "Suc fuel"]) simp
qed

lemma process_loop_step:
  assumes "loop_step iw ps t x y" and "process_loop fuel iw ps t (fst y) (snd y) = Some r"
  shows "\<exists>fuel. process_loop fuel iw ps t (fst x) (snd x) = Some r"
  using assms(1)
proof cases
  case (tag p st tg p1 st1 p2 st2)
  then show ?thesis using assms(2) by (intro exI [of _ "Suc fuel"]) simp
next
  case (partial_disabled p st tg p1 st1)
  then show ?thesis using assms(2) by (intro exI [of _ "Suc fuel"]) simp
next
  case (partial p st tg p1 s f rc sb s1 n rc' st2)
  have "process_loop (max n fuel) iw (pr_pref p1 # ps) (sbuf_bytes sb) proc_init (s1, f)
      = Some (rc', st2)"
    using partial by (auto intro: process_loop_mono)
  moreover have "process_loop (max n fuel) iw ps t p1 st2 = Some r"
    using partial assms(2) by (auto intro: process_loop_mono)
  ultimately show ?thesis using partial by (intro exI [of _ "Suc (max n fuel)"]) simp
qed

lemma process_loop_runs:
  "process_loop fuel iw ps t p st = Some (rc, st')
   \<Longrightarrow> \<exists>y. (loop_step iw ps t)\<^sup>*\<^sup>* (p, st) y \<and> loop_exit iw ps t y rc st'"
proof (induction fuel arbitrary: p st)
  case (Suc fuel)
  show ?case
    using Suc.prems
  proof (cases rule: process_loop_cases)
    case no_tag
    then show ?thesis by (blast intro: loop_exit.intros)
  next
    case failed_tag
    then show ?thesis by (blast intro: loop_exit.intros)
  next
    case tag
    then show ?thesis
      using Suc.IH by (blast intro: loop_step.intros converse_rtranclp_into_rtranclp)
  next
    case disabled
    then show ?thesis
      using Suc.IH by (blast intro: loop_step.intros converse_rtranclp_into_rtranclp)
  next
    case no_partial
    then show ?thesis by (blast intro: loop_exit.intros)
  next
    case failed_partial
    then show ?thesis by (blast intro: loop_exit.intros)
  next
    case partial
    then show ?thesis
      using Suc.IH by (blast intro: loop_step.intros converse_rtranclp_into_rtranclp)
  qed
qed simp

lemma loop_reach_rtranclp:
  "loop_reach iw ps t st0 x \<longleftrightarrow> (loop_step iw ps t)\<^sup>*\<^sup>* (proc_init, st0) x"
proof
  show "loop_reach iw ps t st0 x \<Longrightarrow> (loop_step iw ps t)\<^sup>*\<^sup>* (proc_init, st0) x"
    by (induction rule: loop_reach.induct) (auto intro: rtranclp.rtrancl_into_rtrancl)
  show "(loop_step iw ps t)\<^sup>*\<^sup>* (proc_init, st0) x \<Longrightarrow> loop_reach iw ps t st0 x"
    by (induction rule: rtranclp_induct) (auto intro: loop_reach.intros)
qed

lemma process_loop_steps:
  assumes "(loop_step iw ps t)\<^sup>*\<^sup>* x y" and "\<exists>fuel. process_loop fuel iw ps t (fst y) (snd y) = Some r"
  shows "\<exists>fuel. process_loop fuel iw ps t (fst x) (snd x) = Some r"
  using assms by (induction rule: converse_rtranclp_induct) (auto dest: process_loop_step)

text \<open>A round that is not a partial, as a function.\<close>

definition tag_round :: "'s iwrap \<Rightarrow> string list \<Rightarrow> string \<Rightarrow> 's loop_state \<Rightarrow> 's loop_state option" where
  "tag_round iw ps t x =
     (case next_tag iw ps t (fst x) (snd x) of
        (Inr (tg, p1), st1) \<Rightarrow>
          if tg_c tg = CHR ''>'' then None
          else (case exec_tag iw t tg p1 st1 of (Inr p2, st2) \<Rightarrow> Some (p2, st2) | _ \<Rightarrow> None)
      | _ \<Rightarrow> None)"

lemma tag_round_step: "tag_round iw ps t x = Some y \<Longrightarrow> loop_step iw ps t x y"
  by (cases x) (auto simp: tag_round_def split: prod.splits sum.splits if_splits intro: loop_step.tag)

section \<open>Properties\<close>

text \<open>
  C1. Memory safety of the template loop: whatever the callbacks answer, in every state the
  loop of \<open>process\<close> reaches on a template shorter than 2^63 bytes, the position is inside
  the template, the section stack has at most \<open>MUSTACH_MAX_DEPTH\<close> entries, each
  pointing into the template, the delimiters fit their arrays, and the next tag the loop reads lies
  inside the template with a name that fits the buffer \<open>name[MUSTACH_MAX_LENGTH + 1]\<close>.
\<close>

theorem process_memory_safe:
  assumes "loop_reach iw ps t st0 (p, st)" and "length t < 2 ^ 63"
  shows "proc_ok t p \<and> (\<forall>tg p1 st1. next_tag iw ps t p st = (Inr (tg, p1), st1) \<longrightarrow>
    tag_inside t tg \<and> proc_ok t p1 \<and> pr_template p < tg_template tg)"
  using loop_reach_ok [OF assms] next_tag_ok [of iw ps t p st] assms(2) by auto

definition sample_iwrap :: "unit iwrap" where
  "sample_iwrap = \<lparr>iw_emit = iwrap_emit_st, iw_put = (\<lambda>n e st. (0, st)), iw_enter = (\<lambda>n s. (1, s)),
     iw_next = (\<lambda>s. (0, s)), iw_leave = (\<lambda>s. (0, s)), iw_partial = (\<lambda>n s. (0, sbuf_reset, s)),
     iw_flags = 0\<rparr>"

definition sample_start :: "unit \<times> cfile" where
  "sample_start = ((), \<lparr>f_data = [], f_room = None\<rparr>)"

definition sample_proc :: proc where
  "sample_proc = \<lparr>pr_template = 7, pr_opstr = ''{{'', pr_clstr = ''}}'', pr_stdalone = 0,
     pr_enabled = True, pr_pref = [], pr_stack = [\<lparr>sc_name = 4, sc_again = 7, sc_length = 1,
     sc_enabled = True, sc_entered = True\<rparr>]\<rparr>"

definition sample_middle :: "unit \<times> cfile" where
  "sample_middle = ((), \<lparr>f_data = ''a'', f_room = None\<rparr>)"

lemma sample_reach:
  "loop_reach sample_iwrap [] ''a{{#s}}b{{/s}}'' sample_start (sample_proc, sample_middle)"
proof (rule loop_reach.step [OF loop_reach.start loop_step.tag])
  show "next_tag sample_iwrap [] ''a{{#s}}b{{/s}}'' proc_init sample_start
    = (Inr (\<lparr>tg_c = CHR ''#'', tg_beg = 4, tg_len = 1, tg_name = ''s'', tg_template = 7, tg_stdalone = 0\<rparr>,
       \<lparr>pr_template = 7, pr_opstr = ''{{'', pr_clstr = ''}}'', pr_stdalone = 0, pr_enabled = True,
       pr_pref = [], pr_stack = []\<rparr>), (), \<lparr>f_data = ''a'', f_room = None\<rparr>)"
    by code_simp
qed code_simp+

theorem process_memory_safe_witness:
  "proc_ok ''a{{#s}}b{{/s}}'' sample_proc
   \<and> (case fst (next_tag sample_iwrap [] ''a{{#s}}b{{/s}}'' sample_proc sample_middle) of
        Inr (tg, p1) \<Rightarrow> tag_inside ''a{{#s}}b{{/s}}'' tg \<and> tg_c tg = CHR ''/''
      | Inl _ \<Rightarrow> False)"
proof -
  obtain x st1 where nt: "next_tag sample_iwrap [] ''a{{#s}}b{{/s}}'' sample_proc sample_middle = (x, st1)"
    by (metis surj_pair)
  have "case fst (next_tag sample_iwrap [] ''a{{#s}}b{{/s}}'' sample_proc sample_middle) of
        Inr (tg, p1) \<Rightarrow> tg_c tg = CHR ''/'' | Inl _ \<Rightarrow> False"
    by code_simp
  then obtain tg p1 where x: "x = Inr (tg, p1)" "tg_c tg = CHR ''/''"
    unfolding nt fst_conv by (cases x) auto
  have "length ''a{{#s}}b{{/s}}'' < 2 ^ 63" by simp
  note safe = process_memory_safe [OF sample_reach [folded sample_middle_def] this]
  show ?thesis
    unfolding nt fst_conv x(1) sum.case prod.case
    using safe nt unfolding x(1) by (blast intro: x(2))
qed


end
