(* ===== verification/Mustach_Wrap.thy ===== *)
theory Mustach_Wrap
  imports Mustach_Core
begin

text \<open>
  The wrapper \<open>src/src/mustach-wrap.c\<close>: it turns the names in tags into selections on an
  abstract data interface (\<open>struct mustach_wrap_itf\<close>), splitting dotted names and JSON
  pointers into keys, evaluating the comparison extension, and giving the engine its
  callbacks. The in-place edits of the local copy of a name are functions from the text
  still to be read to the key and the text left.
\<close>

section \<open>Extension flags of \<open>mustach-wrap.h\<close>\<close>

abbreviation (input) Mustach_With_Equal :: flagword where "Mustach_With_Equal \<equiv> 8"
abbreviation (input) Mustach_With_Compare :: flagword where "Mustach_With_Compare \<equiv> 16"
abbreviation (input) Mustach_With_JsonPointer :: flagword where "Mustach_With_JsonPointer \<equiv> 32"
abbreviation (input) Mustach_With_ObjectIter :: flagword where "Mustach_With_ObjectIter \<equiv> 64"
abbreviation (input) Mustach_With_EscFirstCmp :: flagword where "Mustach_With_EscFirstCmp \<equiv> 256"
abbreviation (input) Mustach_With_PartialDataFirst :: flagword where "Mustach_With_PartialDataFirst \<equiv> 512"
abbreviation (input) Mustach_With_ErrorUndefined :: flagword where "Mustach_With_ErrorUndefined \<equiv> 1024"

definition has :: "flagword \<Rightarrow> flagword \<Rightarrow> bool" where
  "has flags m \<longleftrightarrow> flags AND m \<noteq> 0"

lemma has_or: "has flags (a OR b) \<longleftrightarrow> has flags a \<or> has flags b"
  by (simp add: has_def bit_eq_iff bit_simps) blast

section \<open>Comparators\<close>

datatype comp = C_no | C_eq | C_lt | C_le | C_gt | C_ge

text \<open>"length given by masking with 3": the values are 0, 1, 5, 6, 9, 10.\<close>

fun comp_code :: "comp \<Rightarrow> nat" where
  "comp_code C_no = 0"
| "comp_code C_eq = 1"
| "comp_code C_lt = 5"
| "comp_code C_le = 6"
| "comp_code C_gt = 9"
| "comp_code C_ge = 10"

definition comp_length :: "comp \<Rightarrow> nat" where
  "comp_length k = comp_code k mod 4"

datatype sel = S_none | S_ok | S_objiter | S_ok_or_objiter

text \<open>The two bits of \<open>enum sel\<close>.\<close>

definition sel_ok :: "sel \<Rightarrow> bool" where
  "sel_ok s \<longleftrightarrow> s = S_ok \<or> s = S_ok_or_objiter"

definition sel_objiter :: "sel \<Rightarrow> bool" where
  "sel_objiter s \<longleftrightarrow> s = S_objiter \<or> s = S_ok_or_objiter"

definition getcomp :: "string \<Rightarrow> flagword \<Rightarrow> comp" where
  "getcomp head sflags =
     (if byte_at head 0 = CHR ''='' \<and> has sflags Mustach_With_Equal then C_eq
      else if byte_at head 0 = CHR ''<'' \<and> has sflags Mustach_With_Compare
        then (if byte_at head 1 = CHR ''='' then C_le else C_lt)
      else if byte_at head 0 = CHR ''>'' \<and> has sflags Mustach_With_Compare
        then (if byte_at head 1 = CHR ''='' then C_ge else C_gt)
      else C_no)"

text \<open>
  The loop of \<open>keyval\<close>: what is left of the key, with \<open>escaped\<close>; the result is the key
  as rewritten in place, the comparator and, if there is one, the value after it.
\<close>

fun keyval_loop :: "flagword \<Rightarrow> bool \<Rightarrow> string \<Rightarrow> string \<times> comp \<times> string option" where
  "keyval_loop sflags escaped [] = ([], C_no, None)"
| "keyval_loop sflags escaped (car # head) =
     (let k = getcomp (car # head) sflags
      in if \<not> escaped \<and> k \<noteq> C_no
         then ([], k, Some (drop (comp_length k) (car # head)))
         else
           let escaped' = (if escaped then False
                           else (if has sflags Mustach_With_JsonPointer then car = CHR ''~''
                                 else car = CHR 0x5C) \<and> getcomp head sflags \<noteq> C_no)
           in (case keyval_loop sflags escaped' head of (key, k', v) \<Rightarrow>
                 (if escaped' then key else car # key, k', v)))"

definition keyval :: "string \<Rightarrow> flagword \<Rightarrow> string \<times> comp \<times> string option" where
  "keyval head sflags =
     keyval_loop sflags
       (has sflags Mustach_With_EscFirstCmp \<and> getcomp head sflags \<noteq> C_no) head"

section \<open>Keys\<close>

text \<open>
  The scanning loops of \<open>getkey\<close>: the key up to the separator, unescaped, and the text
  from the separator on. In a JSON pointer \<open>~1\<close> is a slash and \<open>~0\<close> a tilde; in a
  dotted name a backslash escapes a dot or a backslash.
\<close>

fun pointer_key :: "string \<Rightarrow> string \<times> string" where
  "pointer_key [] = ([], [])"
| "pointer_key (car # head) =
     (if car = CHR ''/'' then ([], car # head)
      else if car = CHR ''~'' \<and> byte_at head 0 = CHR ''1''
      then (case pointer_key (drop 1 head) of (k, r) \<Rightarrow> (CHR ''/'' # k, r))
      else if car = CHR ''~'' \<and> byte_at head 0 = CHR ''0''
      then (case pointer_key (drop 1 head) of (k, r) \<Rightarrow> (CHR ''~'' # k, r))
      else (case pointer_key head of (k, r) \<Rightarrow> (car # k, r)))"

fun dotted_key :: "string \<Rightarrow> string \<times> string" where
  "dotted_key [] = ([], [])"
| "dotted_key (car # head) =
     (if car = CHR ''.'' then ([], car # head)
      else if car = CHR 0x5C \<and> (byte_at head 0 = CHR ''.'' \<or> byte_at head 0 = CHR 0x5C)
      then (case dotted_key (drop 1 head) of (k, r) \<Rightarrow> (byte_at head 0 # k, r))
      else (case dotted_key head of (k, r) \<Rightarrow> (car # k, r)))"

definition getkey :: "string \<Rightarrow> flagword \<Rightarrow> (string \<times> string) option" where
  "getkey head sflags =
     (if head = [] then None
      else if has sflags Mustach_With_JsonPointer
      then (case pointer_key head of (k, r) \<Rightarrow> Some (k, dropWhile (\<lambda>c. c = CHR ''/'') r))
      else (case dotted_key head of (k, r) \<Rightarrow> Some (k, dropWhile (\<lambda>c. c = CHR ''.'') r)))"


lemma pointer_key_length: "length (snd (pointer_key h)) \<le> length h"
  by (induction h rule: pointer_key.induct) (auto split: prod.splits)

lemma dotted_key_length: "length (snd (dotted_key h)) \<le> length h"
  by (induction h rule: dotted_key.induct) (auto split: prod.splits)

lemma pointer_key_rest: "snd (pointer_key h) = [] \<or> hd (snd (pointer_key h)) = CHR ''/''"
  by (induction h rule: pointer_key.induct) (auto split: prod.splits)

lemma dotted_key_rest: "snd (dotted_key h) = [] \<or> hd (snd (dotted_key h)) = CHR ''.''"
  by (induction h rule: dotted_key.induct) (auto split: prod.splits)

lemma length_dropWhile_hd:
  assumes "h \<noteq> []" and "length xs \<le> length h" and "xs = [] \<or> P (hd xs)"
  shows "length (dropWhile P xs) < length h"
proof (cases xs)
  case (Cons y ys)
  then have "length (dropWhile P xs) \<le> length ys"
    using assms(3) by (simp add: length_dropWhile_le)
  then show ?thesis using Cons assms(2) by simp
qed (use assms in simp)

text \<open>Every key consumes text, so the loop over the keys of a name ends.\<close>

lemma getkey_shorter: "getkey h sflags = Some (k, r) \<Longrightarrow> length r < length h"
  using length_dropWhile_hd [OF _ pointer_key_length, of h "\<lambda>c. c = CHR ''/''"]
    length_dropWhile_hd [OF _ dotted_key_length, of h "\<lambda>c. c = CHR ''.''"]
    pointer_key_rest [of h] dotted_key_rest [of h]
  by (auto simp: getkey_def split: if_splits prod.splits)

section \<open>The data interface and the wrapper\<close>

text \<open>
  \<open>struct mustach_wrap_itf\<close> over the data closure \<open>'c\<close>; \<open>sel\<close> takes NULL
  (\<open>None\<close>) for the current object.
\<close>

record 'c wrap_itf =
  wi_start :: "('c \<Rightarrow> int \<times> 'c) option"
  wi_stop :: "(int \<Rightarrow> 'c \<Rightarrow> 'c) option"
  wi_compare :: "(string \<Rightarrow> 'c \<Rightarrow> int) option"
  wi_sel :: "string option \<Rightarrow> 'c \<Rightarrow> bool \<times> 'c"
  wi_subsel :: "string \<Rightarrow> 'c \<Rightarrow> bool \<times> 'c"
  wi_enter :: "bool \<Rightarrow> 'c \<Rightarrow> int \<times> 'c"
  wi_next :: "'c \<Rightarrow> int \<times> 'c"
  wi_leave :: "'c \<Rightarrow> int \<times> 'c"
  wi_get :: "bool \<Rightarrow> 'c \<Rightarrow> int \<times> mustach_sbuf \<times> 'c"

text \<open>
  \<open>struct wrap\<close>, with what the callbacks reach besides it: the global hook
  \<open>mustach_wrap_get_partial\<close> and the file system (\<open>None\<close>: \<open>fopen\<close> fails,
  \<open>Some None\<close>: the file opens but cannot be read).
\<close>

record 'c wrap =
  w_itf :: "'c wrap_itf"
  w_flags :: flagword
  w_emitcb :: "(string \<Rightarrow> bool \<Rightarrow> cfile \<Rightarrow> int \<times> cfile) option"
  w_writecb :: "(string \<Rightarrow> cfile \<Rightarrow> int \<times> cfile) option"
  w_get_partial :: "(string \<Rightarrow> int \<times> mustach_sbuf) option"
  w_fopen :: "string \<Rightarrow> string option option"

section \<open>Selecting the item a name stands for\<close>

text \<open>The loop over the sub keys: \<open>copy\<close> is the text after the first key.\<close>

function sel_subkeys :: "'c wrap \<Rightarrow> flagword \<Rightarrow> string option \<Rightarrow> string \<Rightarrow> 'c \<Rightarrow> sel \<times> 'c" where
  "sel_subkeys w sflags val copy c =
     (case getkey copy sflags of
        None \<Rightarrow> (S_ok, c)
      | Some (key, copy1) \<Rightarrow>
          (case wi_subsel (w_itf w) key c of (found, c1) \<Rightarrow>
             if found then sel_subkeys w sflags val copy1 c1
             else if key = ''*'' \<and> val = None \<and> copy1 = [] \<and> has (w_flags w) Mustach_With_ObjectIter
             then (S_objiter, c1)
             else (S_none, c1)))"
  by pat_completeness auto
termination
  by (relation "measure (\<lambda>(w, sflags, val, copy, c). length copy)") (auto simp: getkey_shorter)

declare sel_subkeys.simps [simp del]

text \<open>Whether the comparison \<open>k\<close> holds of a three-way result.\<close>

definition comp_holds :: "comp \<Rightarrow> int \<Rightarrow> bool \<Rightarrow> bool" where
  "comp_holds k scmp neg =
     (case k of C_eq \<Rightarrow> scmp = 0 | C_lt \<Rightarrow> scmp < 0 | C_le \<Rightarrow> scmp \<le> 0
      | C_gt \<Rightarrow> scmp > 0 | C_ge \<Rightarrow> scmp \<ge> 0 | C_no \<Rightarrow> neg)"

definition sel_compared :: "'c wrap \<Rightarrow> comp \<Rightarrow> string option \<Rightarrow> sel \<times> 'c \<Rightarrow> sel \<times> 'c" where
  "sel_compared w k val r =
     (case r of (result, c) \<Rightarrow>
       (case val of
          Some v \<Rightarrow>
            if result = S_ok then
              (case wi_compare (w_itf w) of
                 None \<Rightarrow> (S_none, c)
               | Some compare \<Rightarrow>
                   let neg = (byte_at v 0 = CHR ''!'');
                       scmp = compare (if neg then drop 1 v else v) c
                   in if neg = comp_holds k scmp neg then (S_none, c) else (S_ok, c))
            else (result, c)
        | None \<Rightarrow> (result, c)))"

text \<open>\<open>sel\<close>; \<open>None\<close> in the first component of \<open>wi_sel\<close> selects the current object.\<close>

definition wrap_sel :: "'c wrap \<Rightarrow> string \<Rightarrow> 'c \<Rightarrow> sel \<times> 'c" where
  "wrap_sel w name c =
     (let flags = w_flags w;
          pointer = has flags Mustach_With_JsonPointer;
          copy = (if pointer \<and> byte_at name 0 = CHR ''/'' then drop 1 name else name);
          sflags = (if pointer \<and> byte_at name 0 \<noteq> CHR ''/''
                    then flags XOR Mustach_With_JsonPointer else flags);
          (copy1, k, val) = (if has sflags (Mustach_With_Equal OR Mustach_With_Compare)
                               then keyval copy sflags else (copy, C_no, None))
      in if copy1 = ''.'' then
           (case wi_sel (w_itf w) None c of (found, c1) \<Rightarrow>
              sel_compared w k val (if found then S_ok else S_none, c1))
         else
           (case getkey copy1 sflags of
              None \<Rightarrow> (S_none, c)
            | Some (key, copy2) \<Rightarrow>
                (case wi_sel (w_itf w) (Some key) c of (found, c1) \<Rightarrow>
                   if found then sel_compared w k val (sel_subkeys w sflags val copy2 c1)
                   else if key = ''*'' \<and> val = None \<and> copy2 = []
                        \<and> has flags Mustach_With_ObjectIter
                   then (case wi_sel (w_itf w) None c1 of (found', c2) \<Rightarrow>
                           sel_compared w k val (if found' then S_ok_or_objiter else S_none, c2))
                   else sel_compared w k val (S_none, c1))))"

section \<open>The callbacks given to the engine\<close>

definition wrap_start :: "'c wrap \<Rightarrow> 'c \<Rightarrow> int \<times> 'c" where
  "wrap_start w c = (case wi_start (w_itf w) of None \<Rightarrow> (MUSTACH_OK, c) | Some start \<Rightarrow> start c)"

definition wrap_stop :: "'c wrap \<Rightarrow> int \<Rightarrow> 'c \<Rightarrow> 'c" where
  "wrap_stop w status c = (case wi_stop (w_itf w) of None \<Rightarrow> c | Some stop \<Rightarrow> stop status c)"

definition wrap_write :: "'c wrap \<Rightarrow> string \<Rightarrow> cfile \<Rightarrow> int \<times> cfile" where
  "wrap_write w buf f =
     (case w_writecb w of
        Some cb \<Rightarrow> cb buf f
      | None \<Rightarrow> (case fwrite buf f of (n, f') \<Rightarrow>
                   (if n = length buf then MUSTACH_OK else MUSTACH_ERROR_SYSTEM, f')))"

text \<open>The \<open>while(i < size && r == MUSTACH_OK)\<close> loop of \<open>emit\<close>, on the bytes left.\<close>

function wrap_emit_escaped :: "'c wrap \<Rightarrow> string \<Rightarrow> cfile \<Rightarrow> int \<times> cfile" where
  "wrap_emit_escaped w [] f = (MUSTACH_OK, f)"
| "wrap_emit_escaped w (b # bs) f =
     (let run = takeWhile (\<lambda>c. \<not> html_special c) (b # bs);
          rest = dropWhile (\<lambda>c. \<not> html_special c) (b # bs);
          r1 = (if run \<noteq> [] then wrap_write w run f else (MUSTACH_OK, f))
      in (case rest of
            [] \<Rightarrow> r1
          | c # rest' \<Rightarrow>
              if fst r1 = MUSTACH_OK
              then (let r2 = wrap_write w (html_entity c) (snd r1)
                    in if fst r2 = MUSTACH_OK then wrap_emit_escaped w rest' (snd r2) else r2)
              else r1))"
  by pat_completeness auto
termination
proof (relation "measure (\<lambda>(w, bs, f). length bs)", goal_cases)
  case (2 w b bs f run rest r1 c rest' r2)
  from 2 have "length (c # rest') \<le> length (b # bs)"
    by (metis length_dropWhile_le)
  then show ?case by simp
qed simp

declare wrap_emit_escaped.simps [simp del]

definition wrap_emit :: "'c wrap \<Rightarrow> string \<Rightarrow> bool \<Rightarrow> 'c \<times> cfile \<Rightarrow> int \<times> 'c \<times> cfile" where
  "wrap_emit w buf escape st =
     (case st of (c, f) \<Rightarrow>
       (case (case w_emitcb w of
                Some cb \<Rightarrow> cb buf escape f
              | None \<Rightarrow> if \<not> escape then wrap_write w buf f else wrap_emit_escaped w buf f) of
          (r, f') \<Rightarrow> (r, c, f')))"

definition wrap_enter :: "'c wrap \<Rightarrow> string \<Rightarrow> 'c \<Rightarrow> int \<times> 'c" where
  "wrap_enter w name c =
     (case wrap_sel w name c of (s, c1) \<Rightarrow>
        if s = S_none then (0, c1) else wi_enter (w_itf w) (sel_objiter s) c1)"

definition wrap_next :: "'c wrap \<Rightarrow> 'c \<Rightarrow> int \<times> 'c" where
  "wrap_next w c = wi_next (w_itf w) c"

definition wrap_leave :: "'c wrap \<Rightarrow> 'c \<Rightarrow> int \<times> 'c" where
  "wrap_leave w c = wi_leave (w_itf w) c"

definition getoptional :: "'c wrap \<Rightarrow> string \<Rightarrow> 'c \<Rightarrow> int \<times> mustach_sbuf \<times> 'c" where
  "getoptional w name c =
     (case wrap_sel w name c of (s, c1) \<Rightarrow>
        if \<not> sel_ok s then (0, sbuf_reset, c1) else wi_get (w_itf w) (sel_objiter s) c1)"

definition wrap_get :: "'c wrap \<Rightarrow> string \<Rightarrow> 'c \<Rightarrow> int \<times> mustach_sbuf \<times> 'c" where
  "wrap_get w name c =
     (case getoptional w name c of (r, sb, c1) \<Rightarrow>
        if r \<le> 0 then
          if has (w_flags w) Mustach_With_ErrorUndefined then (MUSTACH_ERROR_UNDEFINED_TAG, sb, c1)
          else (MUSTACH_OK, sb\<lparr>sb_value := Some []\<rparr>, c1)
        else (MUSTACH_OK, sb, c1))"

text \<open>
  \<open>get_partial_from_file\<close>: the file of that name, else with the extension
  \<open>.mustache\<close>. \<open>fread\<close> of one block of size 0 returns 0, so an empty file is an error.
\<close>

definition get_partial_from_file :: "'c wrap \<Rightarrow> string \<Rightarrow> int \<times> mustach_sbuf" where
  "get_partial_from_file w name =
     (case (case w_fopen w name of Some file \<Rightarrow> Some file
            | None \<Rightarrow> w_fopen w (name @ ''.mustache'')) of
        None \<Rightarrow> (MUSTACH_ERROR_PARTIAL_NOT_FOUND, sbuf_reset)
      | Some None \<Rightarrow> (MUSTACH_ERROR_SYSTEM, sbuf_reset)
      | Some (Some content) \<Rightarrow>
          if content = [] then (MUSTACH_ERROR_SYSTEM, sbuf_reset)
          else (MUSTACH_OK, sbuf_reset\<lparr>sb_value := Some content\<rparr>))"

text \<open>\<open>partial\<close>: never fails; a partial that is not found is the empty text.\<close>

definition wrap_partial :: "'c wrap \<Rightarrow> string \<Rightarrow> 'c \<Rightarrow> int \<times> mustach_sbuf \<times> 'c" where
  "wrap_partial w name c =
     (case (case w_get_partial w of
              Some hook \<Rightarrow> (case hook name of (rc, sb) \<Rightarrow> (rc, sb, c))
            | None \<Rightarrow>
                if has (w_flags w) Mustach_With_PartialDataFirst
                then (case getoptional w name c of (r, sb, c1) \<Rightarrow>
                        if r > 0 then (MUSTACH_OK, sb, c1)
                        else (case get_partial_from_file w name of (rc, sb1) \<Rightarrow> (rc, sb1, c1)))
                else (case get_partial_from_file w name of (rc, sb) \<Rightarrow>
                        if rc \<noteq> MUSTACH_OK
                        then (case getoptional w name c of (r, sb1, c1) \<Rightarrow>
                                (if r > 0 then MUSTACH_OK else rc, sb1, c1))
                        else (rc, sb, c))) of
        (rc, sb, c1) \<Rightarrow>
          (MUSTACH_OK, (if rc \<noteq> MUSTACH_OK then sb\<lparr>sb_value := Some []\<rparr> else sb), c1))"

definition mustach_wrap_itf :: "'c wrap \<Rightarrow> 'c mustach_itf" where
  "mustach_wrap_itf w =
     \<lparr>itf_start = Some (wrap_start w), itf_put = None, itf_enter = Some (wrap_enter w),
      itf_next = Some (wrap_next w), itf_leave = Some (wrap_leave w),
      itf_partial = Some (wrap_partial w), itf_emit = Some (wrap_emit w),
      itf_get = Some (wrap_get w), itf_stop = Some (wrap_stop w)\<rparr>"

definition wrap_init :: "'c wrap_itf \<Rightarrow> flagword
    \<Rightarrow> (string \<Rightarrow> bool \<Rightarrow> cfile \<Rightarrow> int \<times> cfile) option
    \<Rightarrow> (string \<Rightarrow> cfile \<Rightarrow> int \<times> cfile) option
    \<Rightarrow> (string \<Rightarrow> int \<times> mustach_sbuf) option \<Rightarrow> (string \<Rightarrow> string option option) \<Rightarrow> 'c wrap" where
  "wrap_init itf flags emitcb writecb hook fs =
     \<lparr>w_itf = itf,
      w_flags = (if has flags Mustach_With_Compare then flags OR Mustach_With_Equal else flags),
      w_emitcb = emitcb, w_writecb = writecb, w_get_partial = hook, w_fopen = fs\<rparr>"

text \<open>
  \<open>mustach_wrap_file\<close>, \<open>mustach_wrap_mem\<close>, \<open>mustach_wrap_write\<close> and
  \<open>mustach_wrap_emit\<close>; the engine gets the caller's flags, the wrapper those of
  \<open>wrap_init\<close>.
\<close>

definition mustach_wrap_file :: "nat \<Rightarrow> string \<Rightarrow> nat \<Rightarrow> 'c wrap_itf \<Rightarrow> 'c \<Rightarrow> flagword
    \<Rightarrow> (string \<Rightarrow> int \<times> mustach_sbuf) option \<Rightarrow> (string \<Rightarrow> string option option)
    \<Rightarrow> cfile \<Rightarrow> (int \<times> 'c \<times> cfile) option" where
  "mustach_wrap_file fuel template len itf closure flags hook fs f =
     mustach_file fuel template len (mustach_wrap_itf (wrap_init itf flags None None hook fs))
       closure flags None f"

definition mustach_wrap_mem :: "nat \<Rightarrow> string \<Rightarrow> nat \<Rightarrow> 'c wrap_itf \<Rightarrow> 'c \<Rightarrow> flagword
    \<Rightarrow> (string \<Rightarrow> int \<times> mustach_sbuf) option \<Rightarrow> (string \<Rightarrow> string option option)
    \<Rightarrow> cfile option \<Rightarrow> (int \<times> string option \<times> 'c) option" where
  "mustach_wrap_mem fuel template len itf closure flags hook fs out =
     mustach_mem fuel template len (mustach_wrap_itf (wrap_init itf flags None None hook fs))
       closure flags None out"

definition mustach_wrap_write :: "nat \<Rightarrow> string \<Rightarrow> nat \<Rightarrow> 'c wrap_itf \<Rightarrow> 'c \<Rightarrow> flagword
    \<Rightarrow> (string \<Rightarrow> cfile \<Rightarrow> int \<times> cfile) \<Rightarrow> (string \<Rightarrow> int \<times> mustach_sbuf) option
    \<Rightarrow> (string \<Rightarrow> string option option) \<Rightarrow> cfile \<Rightarrow> (int \<times> 'c \<times> cfile) option" where
  "mustach_wrap_write fuel template len itf closure flags writecb hook fs writeclosure =
     mustach_file fuel template len
       (mustach_wrap_itf (wrap_init itf flags None (Some writecb) hook fs)) closure flags None
       writeclosure"

definition mustach_wrap_emit :: "nat \<Rightarrow> string \<Rightarrow> nat \<Rightarrow> 'c wrap_itf \<Rightarrow> 'c \<Rightarrow> flagword
    \<Rightarrow> (string \<Rightarrow> bool \<Rightarrow> cfile \<Rightarrow> int \<times> cfile) \<Rightarrow> (string \<Rightarrow> int \<times> mustach_sbuf) option
    \<Rightarrow> (string \<Rightarrow> string option option) \<Rightarrow> cfile \<Rightarrow> (int \<times> 'c \<times> cfile) option" where
  "mustach_wrap_emit fuel template len itf closure flags emitcb hook fs emitclosure =
     mustach_file fuel template len
       (mustach_wrap_itf (wrap_init itf flags (Some emitcb) None hook fs)) closure flags None
       emitclosure"

end
