(* ===== verification/Json_C.thy ===== *)
theory Json_C
  imports GW_Prelude
begin

text \<open>
  The part of json-c (\<open>src/3rd/json-c-0.17/json_object.c\<close>) that the agent's own code
  works with: the object tree, the accessors and the printer. \<open>JNull\<close> is the NULL
  pointer json-c uses for \<open>null\<close>. Objects keep insertion order. A double is an abstract
  value \<open>'d\<close>; what the code needs to know of it is in \<open>json_env\<close>.
\<close>

datatype 'd json =
    JNull
  | JBool bool
  | JInt int
  | JDouble 'd
  | JString string
  | JArray "'d json list"
  | JObject "(string \<times> 'd json) list"

text \<open>
  Floating-point operations are parameters: the sign of \<open>d - atof(s)\<close>, whether a double
  is non-zero, and its printed form. \<open>je_strcmp_null\<close> stands for the outcome of
  \<open>strcmp(NULL, s)\<close>, which C leaves undefined.
\<close>

record 'd json_env =
  je_cmp :: "'d \<Rightarrow> string \<Rightarrow> int"
  je_nonzero :: "'d \<Rightarrow> bool"
  je_str :: "'d \<Rightarrow> string"
  je_strcmp_null :: "string \<Rightarrow> int"

definition json_object_object_get_ex :: "'d json \<Rightarrow> string \<Rightarrow> 'd json option" where
  "json_object_object_get_ex j key = (case j of JObject members \<Rightarrow> map_of members key | _ \<Rightarrow> None)"

definition json_object_get_boolean :: "'d json_env \<Rightarrow> 'd json \<Rightarrow> bool" where
  "json_object_get_boolean je j =
     (case j of JBool b \<Rightarrow> b | JInt i \<Rightarrow> i \<noteq> 0 | JDouble d \<Rightarrow> je_nonzero je d
      | JString s \<Rightarrow> s \<noteq> [] | _ \<Rightarrow> False)"

definition json_escape_char :: "char \<Rightarrow> string" where
  "json_escape_char c =
     (if c = CHR 0x08 then [CHR 0x5C, CHR ''b'']
      else if c = CHR 0x0A then [CHR 0x5C, CHR ''n'']
      else if c = CHR 0x0D then [CHR 0x5C, CHR ''r'']
      else if c = CHR 0x09 then [CHR 0x5C, CHR ''t'']
      else if c = CHR 0x0C then [CHR 0x5C, CHR ''f'']
      else if c = CHR 0x22 then [CHR 0x5C, CHR 0x22]
      else if c = CHR 0x5C then [CHR 0x5C, CHR 0x5C]
      else if c = CHR ''/'' then [CHR 0x5C, CHR ''/'']
      else if (of_char c :: nat) < 32 then
        [CHR 0x5C, CHR ''u'', CHR ''0'', CHR ''0'', ''0123456789abcdef'' ! (of_char c div 16),
         ''0123456789abcdef'' ! (of_char c mod 16)]
      else [c])"

definition json_escape_str :: "string \<Rightarrow> string" where
  "json_escape_str s = concat (map json_escape_char s)"

definition json_quote :: "string \<Rightarrow> string" where
  "json_quote s = [CHR 0x22] @ json_escape_str s @ [CHR 0x22]"

text \<open>Separators: a comma between children, and a space before each when \<open>sp\<close> (SPACED).\<close>

fun json_join :: "bool \<Rightarrow> string list \<Rightarrow> string" where
  "json_join sp [] = []"
| "json_join sp [x] = (if sp then '' '' else []) @ x"
| "json_join sp (x # y # xs) = (if sp then '' '' else []) @ x @ '','' @ json_join sp (y # xs)"

text \<open>
  \<open>json_object_to_json_string_ext\<close> with the flags \<open>PLAIN\<close> (\<open>sp = False\<close>) or
  \<open>SPACED\<close> (\<open>sp = True\<close>).
\<close>

fun json_to_string :: "'d json_env \<Rightarrow> bool \<Rightarrow> 'd json \<Rightarrow> string" where
  "json_to_string je sp JNull = ''null''"
| "json_to_string je sp (JBool b) = (if b then ''true'' else ''false'')"
| "json_to_string je sp (JInt i) = dec_str i"
| "json_to_string je sp (JDouble d) = je_str je d"
| "json_to_string je sp (JString s) = json_quote s"
| "json_to_string je sp (JArray xs) =
     ''['' @ json_join sp (map (json_to_string je sp) xs) @ (if sp then '' ]'' else '']'')"
| "json_to_string je sp (JObject members) =
     ''{'' @ json_join sp
        (map (\<lambda>(k, v). json_quote (cstr k) @ (if sp then '': '' else '':'') @ json_to_string je sp v)
             members)
     @ (if sp then '' }'' else ''}'')"

text \<open>\<open>json_object_get_string\<close>: NULL for \<open>null\<close>.\<close>

definition json_object_get_string :: "'d json_env \<Rightarrow> 'd json \<Rightarrow> string option" where
  "json_object_get_string je j =
     (case j of JNull \<Rightarrow> None | JString s \<Rightarrow> Some s | _ \<Rightarrow> Some (json_to_string je True j))"

text \<open>\<open>json_object_get_int64\<close> on an integer node: saturates unsigned values.\<close>

definition json_object_get_int64 :: "int \<Rightarrow> int" where
  "json_object_get_int64 i = min i (2 ^ 63 - 1)"

end
