(* ===== verification/Mustach_Json.thy ===== *)
theory Mustach_Json
  imports Mustach_Wrap Json_C
begin

text \<open>
  The data interface over json-c objects, \<open>src/src/mustach-json-c.c\<close>: \<open>struct expl\<close>
  is a cursor, a stack of at most \<open>MUSTACH_MAX_DEPTH\<close> entered objects whose bottom is the
  root, plus the current selection.
\<close>

record 'd jframe =
  jf_cont :: "'d json"
  jf_obj :: "'d json"
  jf_iter :: "(string \<times> 'd json) list"
  jf_is_objiter :: bool
  jf_index :: int
  jf_count :: int

text \<open>
  The iterator of an object is the list of the members still to visit; json-c's end iterator
  is the same for every object, the empty list here.
\<close>

record 'd expl =
  ex_root :: "'d json"
  ex_selection :: "'d json"
  ex_depth :: nat
  ex_stack :: "'d jframe list"

definition ex_top :: "'d expl \<Rightarrow> 'd jframe" where
  "ex_top e = ex_stack e ! ex_depth e"

definition ex_set_top :: "'d jframe \<Rightarrow> 'd expl \<Rightarrow> 'd expl" where
  "ex_set_top fr e = e\<lparr>ex_stack := (ex_stack e)[ex_depth e := fr]\<rparr>"

text \<open>
  \<open>start\<close> writes every member of \<open>stack[0]\<close> but the iterator and \<open>is_objiter\<close>,
  which keep what the uninitialised \<open>struct expl\<close> held.
\<close>

definition json_start :: "'d expl \<Rightarrow> int \<times> 'd expl" where
  "json_start e =
     (MUSTACH_OK,
      ex_set_top (((ex_stack e) ! 0)\<lparr>jf_cont := JNull, jf_obj := ex_root e, jf_index := 0,
                                     jf_count := 1\<rparr>)
        (e\<lparr>ex_depth := 0, ex_selection := JNull\<rparr>))"

text \<open>The sign of an \<open>int64_t\<close> difference, which wraps.\<close>

definition sign :: "int \<Rightarrow> int" where
  "sign i = (if i < 0 then - 1 else if i > 0 then 1 else 0)"

definition int64_diff_sign :: "int \<Rightarrow> int \<Rightarrow> int" where
  "int64_diff_sign a b = sign (sint (of_int a - of_int b :: 64 word))"

definition json_compare :: "'d json_env \<Rightarrow> string \<Rightarrow> 'd expl \<Rightarrow> int" where
  "json_compare je val e =
     (case ex_selection e of
        JDouble d \<Rightarrow> sign (je_cmp je d val)
      | JInt i \<Rightarrow> int64_diff_sign (json_object_get_int64 i) (atoll val)
      | o' \<Rightarrow> (case json_object_get_string je o' of
                 None \<Rightarrow> je_strcmp_null je val
               | Some s \<Rightarrow> strcmp (cstr s) val))"

text \<open>The search of \<open>sel\<close>: from the top of the stack down to the root.\<close>

fun json_search :: "'d jframe list \<Rightarrow> string \<Rightarrow> nat \<Rightarrow> 'd json option" where
  "json_search stack name 0 = json_object_object_get_ex (jf_obj (stack ! 0)) name"
| "json_search stack name (Suc i) =
     (case json_object_object_get_ex (jf_obj (stack ! Suc i)) name of
        Some j \<Rightarrow> Some j
      | None \<Rightarrow> json_search stack name i)"

definition json_sel :: "string option \<Rightarrow> 'd expl \<Rightarrow> bool \<times> 'd expl" where
  "json_sel name e =
     (case name of
        None \<Rightarrow> (True, e\<lparr>ex_selection := jf_obj (ex_top e)\<rparr>)
      | Some key \<Rightarrow>
          (case json_search (ex_stack e) key (ex_depth e) of
             Some j \<Rightarrow> (True, e\<lparr>ex_selection := j\<rparr>)
           | None \<Rightarrow> (False, e\<lparr>ex_selection := JNull\<rparr>)))"

definition json_subsel :: "string \<Rightarrow> 'd expl \<Rightarrow> bool \<times> 'd expl" where
  "json_subsel name e =
     (case json_object_object_get_ex (ex_selection e) name of
        Some j \<Rightarrow> (True, e\<lparr>ex_selection := j\<rparr>)
      | None \<Rightarrow> (False, e))"

definition json_enter :: "'d json_env \<Rightarrow> bool \<Rightarrow> 'd expl \<Rightarrow> int \<times> 'd expl" where
  "json_enter je objiter e =
     (if MUSTACH_MAX_DEPTH \<le> Suc (ex_depth e)
      then (MUSTACH_ERROR_TOO_DEEP, e\<lparr>ex_depth := Suc (ex_depth e)\<rparr>)
      else
        let sel = ex_selection e;
            e1 = e\<lparr>ex_depth := Suc (ex_depth e)\<rparr>;
            fr = (ex_top e1)\<lparr>jf_is_objiter := False\<rparr>;
            abandon = (\<lambda>fr'. (0, (ex_set_top fr' e1)\<lparr>ex_depth := ex_depth e\<rparr>))
        in if objiter then
             (case sel of
                JObject members \<Rightarrow>
                  (case members of
                     [] \<Rightarrow> abandon (fr\<lparr>jf_iter := []\<rparr>)
                   | (k, v) # _ \<Rightarrow>
                       (1, ex_set_top (fr\<lparr>jf_iter := members, jf_obj := v, jf_cont := sel,
                                          jf_is_objiter := True\<rparr>) e1))
              | _ \<Rightarrow> abandon fr)
           else
             (case sel of
                JArray xs \<Rightarrow>
                  (case xs of
                     [] \<Rightarrow> abandon (fr\<lparr>jf_count := 0\<rparr>)
                   | x # _ \<Rightarrow>
                       (1, ex_set_top (fr\<lparr>jf_count := int (length xs), jf_cont := sel, jf_obj := x,
                                          jf_index := 0\<rparr>) e1))
              | JObject members \<Rightarrow>
                  (1, ex_set_top (fr\<lparr>jf_count := 1, jf_cont := JNull, jf_obj := sel,
                                     jf_index := 0\<rparr>) e1)
              | _ \<Rightarrow>
                  if json_object_get_boolean je sel
                  then (1, ex_set_top (fr\<lparr>jf_count := 1, jf_cont := JNull, jf_obj := sel,
                                          jf_index := 0\<rparr>) e1)
                  else abandon fr))"

text \<open>\<open>json_object_array_get_idx\<close>: NULL past the end.\<close>

definition json_object_array_get_idx :: "'d json \<Rightarrow> int \<Rightarrow> 'd json" where
  "json_object_array_get_idx j i =
     (case j of JArray xs \<Rightarrow> if 0 \<le> i \<and> i < int (length xs) then xs ! nat i else JNull | _ \<Rightarrow> JNull)"

definition json_next :: "'d expl \<Rightarrow> int \<times> 'd expl" where
  "json_next e =
     (if ex_depth e = 0 then (MUSTACH_ERROR_CLOSING, e)
      else
        let fr = ex_top e
        in if jf_is_objiter fr then
             (case tl (jf_iter fr) of
                [] \<Rightarrow> (0, ex_set_top (fr\<lparr>jf_iter := []\<rparr>) e)
              | (k, v) # rest \<Rightarrow> (1, ex_set_top (fr\<lparr>jf_iter := (k, v) # rest, jf_obj := v\<rparr>) e))
           else
             let i = jf_index fr + 1
             in if i \<ge> jf_count fr then (0, ex_set_top (fr\<lparr>jf_index := i\<rparr>) e)
                else (1, ex_set_top (fr\<lparr>jf_index := i,
                                         jf_obj := json_object_array_get_idx (jf_cont fr) i\<rparr>) e))"

definition json_leave :: "'d expl \<Rightarrow> int \<times> 'd expl" where
  "json_leave e =
     (if ex_depth e = 0 then (MUSTACH_ERROR_CLOSING, e) else (0, e\<lparr>ex_depth := ex_depth e - 1\<rparr>))"

definition json_get :: "'d json_env \<Rightarrow> bool \<Rightarrow> 'd expl \<Rightarrow> int \<times> mustach_sbuf \<times> 'd expl" where
  "json_get je key e =
     (let s = (if key then
                 (if jf_is_objiter (ex_top e) then fst (hd (jf_iter (ex_top e))) else [])
               else (case ex_selection e of
                       JString s \<Rightarrow> s
                     | JNull \<Rightarrow> []
                     | j \<Rightarrow> json_to_string je False j))
      in (1, sbuf_reset\<lparr>sb_value := Some s\<rparr>, e))"

definition mustach_json_c_wrap_itf :: "'d json_env \<Rightarrow> 'd expl wrap_itf" where
  "mustach_json_c_wrap_itf je =
     \<lparr>wi_start = Some json_start, wi_stop = None, wi_compare = Some (json_compare je),
      wi_sel = json_sel, wi_subsel = json_subsel, wi_enter = json_enter je,
      wi_next = json_next, wi_leave = json_leave, wi_get = json_get je\<rparr>"

text \<open>
  The entry points. \<open>e0\<close> is the uninitialised local \<open>struct expl e\<close>, of which only
  \<open>root\<close> is written before the engine runs.
\<close>

definition mustach_json_c_file :: "'d json_env \<Rightarrow> 'd expl \<Rightarrow> nat \<Rightarrow> string \<Rightarrow> nat \<Rightarrow> 'd json
    \<Rightarrow> flagword \<Rightarrow> (string \<Rightarrow> int \<times> mustach_sbuf) option \<Rightarrow> (string \<Rightarrow> string option option)
    \<Rightarrow> cfile \<Rightarrow> (int \<times> cfile) option" where
  "mustach_json_c_file je e0 fuel template len root flags hook fs f =
     map_option (\<lambda>(rc, e, f'). (rc, f'))
       (mustach_wrap_file fuel template len (mustach_json_c_wrap_itf je) (e0\<lparr>ex_root := root\<rparr>)
          flags hook fs f)"

definition mustach_json_c_mem :: "'d json_env \<Rightarrow> 'd expl \<Rightarrow> nat \<Rightarrow> string \<Rightarrow> nat \<Rightarrow> 'd json
    \<Rightarrow> flagword \<Rightarrow> (string \<Rightarrow> int \<times> mustach_sbuf) option \<Rightarrow> (string \<Rightarrow> string option option)
    \<Rightarrow> cfile option \<Rightarrow> (int \<times> string option) option" where
  "mustach_json_c_mem je e0 fuel template len root flags hook fs out =
     map_option (\<lambda>(rc, result, e). (rc, result))
       (mustach_wrap_mem fuel template len (mustach_json_c_wrap_itf je) (e0\<lparr>ex_root := root\<rparr>)
          flags hook fs out)"

definition mustach_json_c :: "'d json_env \<Rightarrow> 'd expl \<Rightarrow> nat \<Rightarrow> string \<Rightarrow> 'd json
    \<Rightarrow> (string \<Rightarrow> int \<times> mustach_sbuf) option \<Rightarrow> (string \<Rightarrow> string option option)
    \<Rightarrow> cfile option \<Rightarrow> (int \<times> string option) option" where
  "mustach_json_c je e0 fuel template root hook fs out =
     mustach_json_c_mem je e0 fuel template 0 root (- 1) hook fs out"

end
