(* ===== verification/Mustach_Names.thy ===== *)
theory Mustach_Names
  imports Mustach_Json
begin

text \<open>
  How the wrapper reads the names in tags: the keys of a dotted name and of a JSON pointer
  with their escapes, and what a name selects in the json-c cursor.
\<close>

section \<open>The keys of a name\<close>

text \<open>All keys the loop of \<open>sel\<close> takes from a text.\<close>

function name_keys :: "flagword \<Rightarrow> string \<Rightarrow> string list" where
  "name_keys sflags h =
     (case getkey h sflags of None \<Rightarrow> [] | Some (k, r) \<Rightarrow> k # name_keys sflags r)"
  by pat_completeness auto
termination
  by (relation "measure (\<lambda>(sflags, h). length h)") (auto simp: getkey_shorter)

declare name_keys.simps [simp del]

lemma name_keys_Nil [simp]: "name_keys sflags [] = []"
  by (simp add: name_keys.simps getkey_def)

text \<open>The escapes of the two notations, and the joined names.\<close>

definition dotted_escape :: "string \<Rightarrow> string" where
  "dotted_escape k =
     concat (map (\<lambda>c. if c = CHR ''.'' \<or> c = CHR 0x5C then [CHR 0x5C, c] else [c]) k)"

definition pointer_escape :: "string \<Rightarrow> string" where
  "pointer_escape k =
     concat (map (\<lambda>c. if c = CHR ''/'' then ''~1'' else if c = CHR ''~'' then ''~0'' else [c]) k)"

fun join_keys :: "char \<Rightarrow> string list \<Rightarrow> string" where
  "join_keys sep [] = []"
| "join_keys sep [k] = k"
| "join_keys sep (k # k' # ks) = k @ sep # join_keys sep (k' # ks)"

definition dotted_name :: "string list \<Rightarrow> string" where
  "dotted_name ks = join_keys (CHR ''.'') (map dotted_escape ks)"

definition pointer_name :: "string list \<Rightarrow> string" where
  "pointer_name ks = join_keys (CHR ''/'') (map pointer_escape ks)"

lemma dotted_key_escape:
  "r = [] \<or> hd r = CHR ''.'' \<Longrightarrow> dotted_key (dotted_escape k @ r) = (k, r)"
proof (induction k)
  case Nil
  then show ?case by (cases r) (auto simp: dotted_escape_def)
next
  case (Cons c k)
  then show ?case by (auto simp: dotted_escape_def byte_at_def)
qed

lemma pointer_key_escape:
  "r = [] \<or> hd r = CHR ''/'' \<Longrightarrow> pointer_key (pointer_escape k @ r) = (k, r)"
proof (induction k)
  case Nil
  then show ?case by (cases r) (auto simp: pointer_escape_def)
next
  case (Cons c k)
  then show ?case by (auto simp: pointer_escape_def byte_at_def)
qed

lemma dotted_escape_hd: "k \<noteq> [] \<Longrightarrow> dotted_escape k \<noteq> [] \<and> hd (dotted_escape k) \<noteq> CHR ''.''"
  by (cases k) (auto simp: dotted_escape_def)

lemma pointer_escape_hd: "k \<noteq> [] \<Longrightarrow> pointer_escape k \<noteq> [] \<and> hd (pointer_escape k) \<noteq> CHR ''/''"
  by (cases k) (auto simp: pointer_escape_def)

lemma join_keys_Cons: "join_keys sep (k # ks) = k @ (if ks = [] then [] else sep # join_keys sep ks)"
  by (cases ks) simp_all

lemma dropWhile_join:
  assumes "ks \<noteq> []" and "hd ks \<noteq> []" and "hd (hd ks) \<noteq> sep"
  shows "dropWhile (\<lambda>c. c = sep) (sep # join_keys sep ks) = join_keys sep ks"
proof -
  obtain a k ks' where "ks = (a # k) # ks'" "a \<noteq> sep"
    using assms by (metis list.collapse)
  then show ?thesis by (simp add: join_keys_Cons)
qed

lemma getkey_dotted:
  assumes "\<not> has sflags Mustach_With_JsonPointer" and "\<forall>k \<in> set (k # ks). k \<noteq> []"
  shows "getkey (dotted_name (k # ks)) sflags = Some (k, dotted_name ks)"
proof -
  let ?r = "if ks = [] then [] else CHR ''.'' # dotted_name ks"
  have name: "dotted_name (k # ks) = dotted_escape k @ ?r"
    by (simp add: dotted_name_def join_keys_Cons)
  have key: "dotted_key (dotted_name (k # ks)) = (k, ?r)"
    unfolding name by (rule dotted_key_escape) simp
  have drop: "dropWhile (\<lambda>c. c = CHR ''.'') ?r = dotted_name ks"
  proof (cases ks)
    case (Cons k' ks')
    then show ?thesis
      using dropWhile_join [of "map dotted_escape ks" "CHR ''.''"] dotted_escape_hd [of k'] assms(2)
      by (simp add: dotted_name_def)
  qed (simp add: dotted_name_def)
  have "dotted_name (k # ks) \<noteq> []"
    using assms(2) dotted_escape_hd [of k] by (simp add: name)
  then show ?thesis
    using assms(1) by (simp add: getkey_def key drop)
qed

lemma getkey_pointer:
  assumes "has sflags Mustach_With_JsonPointer" and "\<forall>k \<in> set (k # ks). k \<noteq> []"
  shows "getkey (pointer_name (k # ks)) sflags = Some (k, pointer_name ks)"
proof -
  let ?r = "if ks = [] then [] else CHR ''/'' # pointer_name ks"
  have name: "pointer_name (k # ks) = pointer_escape k @ ?r"
    by (simp add: pointer_name_def join_keys_Cons)
  have key: "pointer_key (pointer_name (k # ks)) = (k, ?r)"
    unfolding name by (rule pointer_key_escape) simp
  have drop: "dropWhile (\<lambda>c. c = CHR ''/'') ?r = pointer_name ks"
  proof (cases ks)
    case (Cons k' ks')
    then show ?thesis
      using dropWhile_join [of "map pointer_escape ks" "CHR ''/''"] pointer_escape_hd [of k'] assms(2)
      by (simp add: pointer_name_def)
  qed (simp add: pointer_name_def)
  have "pointer_name (k # ks) \<noteq> []"
    using assms(2) pointer_escape_hd [of k] by (simp add: name)
  then show ?thesis
    using assms(1) by (simp add: getkey_def key drop)
qed

lemma name_keys_dotted:
  "\<not> has sflags Mustach_With_JsonPointer \<Longrightarrow> \<forall>k \<in> set ks. k \<noteq> []
   \<Longrightarrow> name_keys sflags (dotted_name ks) = ks"
proof (induction ks)
  case Nil
  then show ?case by (simp add: dotted_name_def)
next
  case (Cons k ks)
  then show ?case by (subst name_keys.simps) (simp add: getkey_dotted)
qed

lemma name_keys_pointer:
  "has sflags Mustach_With_JsonPointer \<Longrightarrow> \<forall>k \<in> set ks. k \<noteq> []
   \<Longrightarrow> name_keys sflags (pointer_name ks) = ks"
proof (induction ks)
  case Nil
  then show ?case by (simp add: pointer_name_def)
next
  case (Cons k ks)
  then show ?case by (subst name_keys.simps) (simp add: getkey_pointer)
qed


section \<open>What a dotted name selects\<close>

text \<open>
  Following keys from an object as far as they go: whether all were found, and the last
  object reached.
\<close>

fun walk :: "'d json \<Rightarrow> string list \<Rightarrow> bool \<times> 'd json" where
  "walk j [] = (True, j)"
| "walk j (k # ks) =
     (case json_object_object_get_ex j k of Some j' \<Rightarrow> walk j' ks | None \<Rightarrow> (False, j))"

lemma wi_json [simp]:
  "wi_sel (mustach_json_c_wrap_itf je) = json_sel"
  "wi_subsel (mustach_json_c_wrap_itf je) = json_subsel"
  "wi_enter (mustach_json_c_wrap_itf je) = json_enter je"
  "wi_next (mustach_json_c_wrap_itf je) = json_next"
  "wi_leave (mustach_json_c_wrap_itf je) = json_leave"
  "wi_get (mustach_json_c_wrap_itf je) = json_get je"
  "wi_start (mustach_json_c_wrap_itf je) = Some json_start"
  "wi_stop (mustach_json_c_wrap_itf je) = None"
  "wi_compare (mustach_json_c_wrap_itf je) = Some (json_compare je)"
  by (simp_all add: mustach_json_c_wrap_itf_def)

lemma sel_subkeys_walk:
  assumes itf: "w_itf w = mustach_json_c_wrap_itf je"
    and noiter: "\<not> has (w_flags w) Mustach_With_ObjectIter"
  shows "sel_subkeys w sflags val copy e =
    (case walk (ex_selection e) (name_keys sflags copy) of
       (found, j) \<Rightarrow> (if found then S_ok else S_none, e\<lparr>ex_selection := j\<rparr>))"
proof (induction copy arbitrary: e rule: length_induct)
  case (1 copy)
  show ?case
  proof (cases "getkey copy sflags")
    case None
    then show ?thesis by (simp add: sel_subkeys.simps name_keys.simps [of sflags copy])
  next
    case (Some kr)
    obtain k r where kr: "kr = (k, r)" by force
    have "length r < length copy" using Some kr getkey_shorter by blast
    then have IH: "\<And>e'. sel_subkeys w sflags val r e' =
        (case walk (ex_selection e') (name_keys sflags r) of
           (found, j) \<Rightarrow> (if found then S_ok else S_none, e'\<lparr>ex_selection := j\<rparr>))"
      using "1.IH" by blast
    show ?thesis
      using Some kr noiter
      by (simp add: sel_subkeys.simps [of w sflags val copy] name_keys.simps [of sflags copy] itf
          json_subsel_def IH split: option.splits prod.splits)
  qed
qed

lemma dotted_name_not_dot: "\<forall>k \<in> set ks. k \<noteq> [] \<Longrightarrow> dotted_name ks \<noteq> ''.''"
proof (cases ks)
  case (Cons k ks')
  assume "\<forall>k \<in> set ks. k \<noteq> []"
  then show ?thesis
    using dotted_escape_hd [of k] Cons
    by (auto simp: dotted_name_def join_keys_Cons append_eq_Cons_conv split: if_splits)
qed (simp add: dotted_name_def)

lemma wrap_sel_dotted:
  assumes itf: "w_itf w = mustach_json_c_wrap_itf je"
    and flags: "\<not> has (w_flags w) Mustach_With_JsonPointer"
      "\<not> has (w_flags w) (Mustach_With_Equal OR Mustach_With_Compare)"
      "\<not> has (w_flags w) Mustach_With_ObjectIter"
    and ne: "\<forall>k \<in> set (k # ks). k \<noteq> []"
  shows "wrap_sel w (dotted_name (k # ks)) e =
    (case json_search (ex_stack e) k (ex_depth e) of
       None \<Rightarrow> (S_none, e\<lparr>ex_selection := JNull\<rparr>)
     | Some j \<Rightarrow> (case walk j ks of
         (found, j') \<Rightarrow> (if found then S_ok else S_none, e\<lparr>ex_selection := j'\<rparr>)))"
proof -
  have key: "getkey (dotted_name (k # ks)) (w_flags w) = Some (k, dotted_name ks)"
    using flags(1) ne by (rule getkey_dotted)
  have keys: "name_keys (w_flags w) (dotted_name ks) = ks"
    using flags(1) ne by (intro name_keys_dotted) auto
  show ?thesis
    using flags dotted_name_not_dot [OF ne]
    by (auto simp: wrap_sel_def Let_def key itf json_sel_def keys sel_compared_def
        sel_subkeys_walk [OF itf flags(3)] split: option.splits prod.splits)
qed

section \<open>Properties\<close>

text \<open>
  C4. Names round-trip: the keys the wrapper takes from a dotted name are the keys it was
  built from, dots and backslashes in them escaped with a backslash; likewise for a JSON pointer
  with \<open>~1\<close> for a slash and \<open>~0\<close> for a tilde. Keys must not be empty (the code skips
  runs of separators).
\<close>

theorem name_keys_roundtrip:
  assumes "\<forall>k \<in> set ks. k \<noteq> []"
  shows "(\<not> has sflags Mustach_With_JsonPointer \<longrightarrow> name_keys sflags (dotted_name ks) = ks) \<and>
         (has sflags Mustach_With_JsonPointer \<longrightarrow> name_keys sflags (pointer_name ks) = ks)"
  using assms name_keys_dotted name_keys_pointer by blast

theorem name_keys_roundtrip_witness:
  "dotted_name [''a.b'', ''c''] = [CHR ''a'', CHR 0x5C, CHR ''.'', CHR ''b'', CHR ''.'', CHR ''c'']
   \<and> name_keys 0 (dotted_name [''a.b'', ''c'']) = [''a.b'', ''c'']
   \<and> pointer_name [''a/b'', ''c~''] = ''a~1b/c~0''
   \<and> name_keys 32 (pointer_name [''a/b'', ''c~'']) = [''a/b'', ''c~'']"
  using name_keys_roundtrip [of "[''a.b'', ''c'']" 0] name_keys_roundtrip [of "[''a/b'', ''c~'']" 32]
  by (simp add: has_def dotted_name_def dotted_escape_def pointer_name_def pointer_escape_def)


definition sample_env :: "unit json_env" where
  "sample_env = \<lparr>je_cmp = (\<lambda>_ _. 0), je_nonzero = (\<lambda>_. True), je_str = (\<lambda>_. ''0.0''),
                 je_strcmp_null = (\<lambda>_. 0)\<rparr>"

definition sample_frame :: "unit jframe" where
  "sample_frame = \<lparr>jf_cont = JNull, jf_obj = JNull, jf_iter = [], jf_is_objiter = False,
                   jf_index = 0, jf_count = 0\<rparr>"

definition sample_cursor :: "unit json list \<Rightarrow> unit expl" where
  "sample_cursor objs = \<lparr>ex_root = JNull, ex_selection = JNull, ex_depth = length objs - 1,
     ex_stack = map (\<lambda>j. sample_frame\<lparr>jf_obj := j\<rparr>) objs
                @ replicate (256 - length objs) sample_frame\<rparr>"


end
