(* ===== verification/Mustach_Levels.thy ===== *)
theory Mustach_Levels
  imports Mustach_Safety Mustach_Names
begin

text \<open>
  The contract between the engine and its data callbacks: entering a section goes one level
  down, leaving goes up, and nothing else moves. \<open>section_levels\<close> states it; the engine's
  lemmas, proved once from it, say that the callbacks' level is always the number of entered
  sections. The contract holds of the wrapper over the JSON cursor, whose level indexes an array of
  \<open>MUSTACH_MAX_DEPTH\<close> frames.
\<close>

section \<open>What reading a tag leaves alone\<close>

lemma same_tags_trans: "same_tags p q \<Longrightarrow> same_tags q r \<Longrightarrow> same_tags p r"
  by (simp add: same_tags_def)

lemma scan_open_same:
  "scan_open iw ps t beg p st = (r, st') \<Longrightarrow>
     (case r of Inr (pos, p1) \<Rightarrow> same_tags p p1 | Inl rc \<Rightarrow> 0 \<le> rc \<longrightarrow> rc = MUSTACH_OK \<and> pr_stack p = [])"
proof (induction "length t - beg" arbitrary: beg p st rule: less_induct)
  case less
  obtain rc s1 where el: "emit_line iw ps t beg p st = (rc, s1)" by (metis surj_pair)
  obtain rc' q s2 where ls: "leave_standalone iw ps p st = (rc', q, s2)" by (metis prod_cases3)
  note ls' = leave_standalone_same [OF ls]
  consider "length t \<le> beg" | "beg < length t" "t ! beg = newline"
    | "beg < length t" "t ! beg \<noteq> newline" "\<not> isspace (t ! beg)"
    | "beg < length t" "t ! beg \<noteq> newline" "isspace (t ! beg)" by linarith
  then show ?case
  proof cases
    case 1
    then show ?thesis
      using less.prems el by (auto simp: scan_open.simps [of iw ps t beg] split: if_splits)
  next
    case 2
    have smaller: "length t - Suc beg < length t - beg" using 2(1) by linarith
    show ?thesis
      using less.prems el less.hyps [OF smaller, of _ s1] 2
      by (fastforce simp: scan_open.simps [of iw ps t beg p st] same_tags_def
          split: if_splits sum.splits)
  next
    case 3
    have smaller: "length t - Suc beg < length t - beg" using 3(1) by linarith
    show ?thesis
      using less.prems ls ls' less.hyps [OF smaller, of _ s2] 3
      by (fastforce simp: scan_open.simps [of iw ps t beg p st] same_tags_def
          split: if_splits sum.splits)
  next
    case 4
    have smaller: "length t - Suc beg < length t - beg" using 4(1) by linarith
    show ?thesis
      using less.prems less.hyps [OF smaller, of p st] 4
      by (simp add: scan_open.simps [of iw ps t beg p st])
  qed
qed

lemma get_name_error: "get_name flags t c pos len tpl std = Inl rc \<Longrightarrow> rc < 0"
  by (auto simp: get_name_def Let_def split: prod.splits if_splits)

lemma parse_tag_error: "parse_tag flags t cl pos fin std = Inl rc \<Longrightarrow> rc < 0"
  by (auto simp: parse_tag_def exclude_first_def Let_def dest: get_name_error split: if_splits)

lemma next_tag_same:
  assumes nt: "next_tag iw ps t p st = (r, st')"
  shows "case r of Inr (tg, p1) \<Rightarrow> pr_stack p1 = pr_stack p \<and> pr_enabled p1 = pr_enabled p
    | Inl rc \<Rightarrow> 0 \<le> rc \<longrightarrow> rc = MUSTACH_OK \<and> pr_stack p = []"
proof -
  obtain x s1 where so: "scan_open iw ps t (pr_template p) p st = (x, s1)" by (metis surj_pair)
  note k = scan_open_same [OF so]
  show ?thesis
  proof (cases x)
    case (Inl rc)
    then show ?thesis using nt so k by (auto simp: next_tag_def)
  next
    case (Inr y)
    obtain pos q where y: "y = (pos, q)" by force
    show ?thesis
      using nt so k unfolding Inr y
      by (auto simp: next_tag_def Let_def same_tags_def
          split: prod.splits option.splits sum.splits if_splits
          dest: tag_prefix_same parse_tag_error)
  qed
qed

lemma exec_tag_error: "exec_tag iw t tg p st = (Inl rc, st') \<Longrightarrow> rc < 0"
  by (cases st)
     (auto simp: exec_tag_def begin_section_def end_section_def parse_delims_def Let_def
       split: if_splits prod.splits sum.splits list.splits)

section \<open>The interface\<close>

definition entered_count :: "sect list \<Rightarrow> nat" where
  "entered_count stack = length (filter sc_entered stack)"

lemma entered_count_simps [simp]:
  "entered_count [] = 0"
  "entered_count (sc # stack) = (if sc_entered sc then 1 else 0) + entered_count stack"
  by (simp_all add: entered_count_def)

locale section_levels =
  fixes iw :: "'s iwrap" and level :: "'s \<Rightarrow> nat" and inv :: "'s \<Rightarrow> bool"
  assumes enter: "inv s \<Longrightarrow> iw_enter iw name s = (rc, s') \<Longrightarrow> 0 \<le> rc
      \<Longrightarrow> inv s' \<and> level s' = level s + (if rc \<noteq> 0 then 1 else 0)"
    and next_same: "inv s \<Longrightarrow> 0 < level s \<Longrightarrow> iw_next iw s = (rc, s')
      \<Longrightarrow> 0 \<le> rc \<and> inv s' \<and> level s' = level s"
    and leave: "inv s \<Longrightarrow> 0 < level s \<Longrightarrow> iw_leave iw s = (rc, s')
      \<Longrightarrow> inv s' \<and> Suc (level s') = level s"
    and put: "inv s \<Longrightarrow> iw_put iw name esc (s, f) = (rc, s', f') \<Longrightarrow> inv s' \<and> level s' = level s"
    and emit: "inv s \<Longrightarrow> iw_emit iw buf esc (s, f) = (rc, s', f') \<Longrightarrow> inv s' \<and> level s' = level s"
    and partial: "inv s \<Longrightarrow> iw_partial iw name s = (rc, sb, s') \<Longrightarrow> inv s' \<and> level s' = level s"
begin

definition keeps :: "'s \<times> cfile \<Rightarrow> 's \<times> cfile \<Rightarrow> bool" where
  "keeps st st' \<longleftrightarrow> (inv (fst st) \<longrightarrow> inv (fst st') \<and> level (fst st') = level (fst st))"

lemma keeps_refl [simp]: "keeps st st"
  by (simp add: keeps_def)

lemma keeps_trans: "keeps a b \<Longrightarrow> keeps b c \<Longrightarrow> keeps a c"
  by (auto simp: keeps_def)

lemma emit_keeps: "iw_emit iw buf esc st = (rc, st') \<Longrightarrow> keeps st st'"
  using emit by (cases st, cases st') (auto simp: keeps_def)

lemma emitprefix_keeps: "emitprefix iw ps st = (rc, st') \<Longrightarrow> keeps st st'"
proof (induction ps arbitrary: rc st')
  case (Cons p ps)
  obtain r1 s1 where e: "emitprefix iw ps st = (r1, s1)" by (metis surj_pair)
  show ?case
    using Cons.prems Cons.IH [OF e] e emit_keeps [of p False s1 rc st'] keeps_trans [of st s1 st']
    by (simp split: if_splits)
qed simp

lemma emit_line_keeps:
  assumes "emit_line iw ps t beg p st = (rc, st')"
  shows "keeps st st'"
proof -
  obtain r1 s1 where e: "emitprefix iw (pr_pref p # ps) st = (r1, s1)" by (metis surj_pair)
  show ?thesis
    using assms e emitprefix_keeps [OF e]
    by (simp add: emit_line_def del: emitprefix.simps split: if_splits)
       (auto intro: emit_keeps keeps_trans)
qed

lemma leave_standalone_keeps: "leave_standalone iw ps p st = (rc, p1, st') \<Longrightarrow> keeps st st'"
  by (auto simp: leave_standalone_def simp del: emitprefix.simps
      split: if_splits prod.splits dest: emitprefix_keeps)

lemma tag_prefix_keeps: "tag_prefix iw ps p std st = (rc, p1, st') \<Longrightarrow> keeps st st'"
  by (auto simp: tag_prefix_def simp del: emitprefix.simps
      split: if_splits prod.splits dest: emitprefix_keeps)

lemma scan_open_keeps: "scan_open iw ps t beg p st = (r, st') \<Longrightarrow> keeps st st'"
proof (induction "length t - beg" arbitrary: beg p st rule: less_induct)
  case less
  obtain rc s1 where el: "emit_line iw ps t beg p st = (rc, s1)" by (metis surj_pair)
  obtain rc' q s2 where ls: "leave_standalone iw ps p st = (rc', q, s2)" by (metis prod_cases3)
  note k = emit_line_keeps [OF el] leave_standalone_keeps [OF ls]
  consider "length t \<le> beg" | "beg < length t" "t ! beg = newline"
    | "beg < length t" "t ! beg \<noteq> newline" "\<not> isspace (t ! beg)"
    | "beg < length t" "t ! beg \<noteq> newline" "isspace (t ! beg)" by linarith
  then show ?case
  proof cases
    case 1
    then show ?thesis using less.prems el k by (auto simp: scan_open.simps [of iw ps t beg] split: if_splits)
  next
    case 2
    have smaller: "length t - Suc beg < length t - beg" using 2(1) by linarith
    show ?thesis
      using less.prems el k less.hyps [OF smaller, of _ s1] 2
      by (auto simp: scan_open.simps [of iw ps t beg p st] split: if_splits intro: keeps_trans)
  next
    case 3
    have smaller: "length t - Suc beg < length t - beg" using 3(1) by linarith
    show ?thesis
      using less.prems ls k less.hyps [OF smaller, of _ s2] 3
      by (auto simp: scan_open.simps [of iw ps t beg p st] split: if_splits intro: keeps_trans)
  next
    case 4
    have smaller: "length t - Suc beg < length t - beg" using 4(1) by linarith
    show ?thesis
      using less.prems less.hyps [OF smaller, of p st] 4
      by (auto simp: scan_open.simps [of iw ps t beg p st] split: if_splits)
  qed
qed

lemma next_tag_keeps:
  assumes nt: "next_tag iw ps t p st = (r, st')"
  shows "keeps st st'"
proof -
  obtain x s1 where so: "scan_open iw ps t (pr_template p) p st = (x, s1)" by (metis surj_pair)
  note k = scan_open_keeps [OF so]
  show ?thesis
  proof (cases x)
    case (Inl rc)
    then show ?thesis using nt so k by (simp add: next_tag_def)
  next
    case (Inr y)
    then show ?thesis
      using nt so k
      by (auto simp: next_tag_def Let_def split: prod.splits option.splits sum.splits if_splits
          intro: keeps_trans dest: tag_prefix_keeps)
  qed
qed

text \<open>The invariant: the level is the number of entered sections above \<open>base\<close>.\<close>

definition levelled :: "nat \<Rightarrow> proc \<Rightarrow> 's \<times> cfile \<Rightarrow> bool" where
  "levelled base p st \<longleftrightarrow> inv (fst st) \<and> level (fst st) = base + entered_count (pr_stack p)
     \<and> (\<forall>sc \<in> set (pr_stack p). sc_entered sc \<longrightarrow> sc_enabled sc)"

lemma levelled_keeps:
  "levelled base p st \<Longrightarrow> keeps st st' \<Longrightarrow> pr_stack p' = pr_stack p \<Longrightarrow> levelled base p' st'"
  by (auto simp: levelled_def keeps_def)

lemma begin_section_levelled:
  assumes "begin_section iw tg p st = (Inr p1, st1)" and "levelled base p st"
  shows "levelled base p1 st1"
proof -
  obtain s f where st: "st = (s, f)" by (cases st)
  obtain rc s1 where e: "iw_enter iw (cstr (tg_name tg)) s = (rc, s1)" by (metis surj_pair)
  show ?thesis
    using assms enter [OF _ e]
    by (auto simp: begin_section_def levelled_def st e split: if_splits)
qed

lemma end_section_levelled:
  assumes ex: "end_section iw t tg p st = (Inr p1, st1)" and lv: "levelled base p st"
  shows "levelled base p1 st1"
proof -
  obtain s f where st: "st = (s, f)" by (cases st)
  obtain sc rest where stk: "pr_stack p = sc # rest" using ex by (cases "pr_stack p") (auto simp: end_section_def)
  obtain rc s1 where nx: "(if pr_enabled p \<and> sc_entered sc then iw_next iw s else (0, s)) = (rc, s1)"
    by (metis surj_pair)
  obtain rc' s2 where lf: "iw_leave iw s1 = (rc', s2)" by (metis surj_pair)
  have pos: "0 < level s" if "sc_entered sc" using lv that by (simp add: levelled_def stk st)
  have s1: "inv s1 \<and> level s1 = level s"
    using nx pos next_same [of s rc s1] lv by (auto simp: levelled_def st split: if_splits)
  show ?thesis
    using ex lv s1 pos leave [OF _ _ lf]
    by (auto simp: end_section_def stk st nx lf levelled_def split: if_splits)
qed

lemma exec_tag_levelled:
  assumes ex: "exec_tag iw t tg p st = (Inr p1, st1)" and lv: "levelled base p st"
  shows "levelled base p1 st1"
proof -
  obtain rc st2 where pt: "iw_put iw (cstr (tg_name tg)) (tg_c tg \<noteq> CHR ''&'') st = (rc, st2)"
    by (metis surj_pair)
  have "keeps st st2" using put pt by (cases st, cases st2) (auto simp: keeps_def)
  then have kept: "levelled base p st2" using lv levelled_keeps by blast
  consider "tg_c tg = CHR ''^'' \<or> tg_c tg = CHR ''#''" | "tg_c tg = CHR ''/''"
    | "\<not> (tg_c tg = CHR ''^'' \<or> tg_c tg = CHR ''#'')" "tg_c tg \<noteq> CHR ''/''"
    by blast
  then show ?thesis
  proof cases
    case 1
    then have "begin_section iw tg p st = (Inr p1, st1)" using ex by (auto simp: exec_tag_def)
    then show ?thesis using lv by (rule begin_section_levelled)
  next
    case 2
    then have "end_section iw t tg p st = (Inr p1, st1)" using ex by (auto simp: exec_tag_def)
    then show ?thesis using lv by (rule end_section_levelled)
  next
    case 3
    have lv': "levelled base (p\<lparr>pr_opstr := a, pr_clstr := b\<rparr>) st" for a b
      using lv by (simp add: levelled_def)
    show ?thesis
      using ex lv lv' kept pt 3 by (auto simp: exec_tag_def split: if_splits sum.splits)
  qed
qed

lemma levelled_init: "inv (fst st) \<Longrightarrow> levelled (level (fst st)) proc_init st"
  by (simp add: levelled_def proc_init_def)

lemma next_tag_levelled:
  "levelled base p st \<Longrightarrow> next_tag iw ps t p st = (Inr (tg, p1), st1) \<Longrightarrow> levelled base p1 st1"
  using next_tag_keeps next_tag_same [of iw ps t p st "Inr (tg, p1)" st1] levelled_keeps by fastforce

lemma partial_levelled:
  "levelled base p (s, f) \<Longrightarrow> iw_partial iw name s = (rc, sb, s1) \<Longrightarrow> levelled base p (s1, f)
     \<and> inv s1 \<and> level s1 = level s"
  using partial by (auto simp: levelled_def)

text \<open>A rendering that does not fail leaves the callbacks at the level it found them.\<close>

lemma process_loop_levelled:
  "process_loop fuel iw ps t p st = Some (rc, st') \<Longrightarrow> levelled base p st \<Longrightarrow> 0 \<le> rc
   \<Longrightarrow> rc = MUSTACH_OK \<and> inv (fst st') \<and> level (fst st') = base"
proof (induction fuel arbitrary: ps t p st base rc st')
  case (Suc fuel)
  note lv = Suc.prems(2)
  show ?case
    using Suc.prems(1)
  proof (cases rule: process_loop_cases)
    case (no_tag rc0 st1)
    then show ?thesis
      using lv next_tag_same [OF no_tag(1)] next_tag_keeps [OF no_tag(1)] Suc.prems(3)
      by (auto simp: levelled_def keeps_def)
  next
    case (failed_tag tg p1 st1 rc0 st2)
    then show ?thesis using exec_tag_error Suc.prems(3) by fastforce
  next
    case (tag tg p1 st1 p2 st2)
    then show ?thesis
      using Suc.IH [OF tag(4)] next_tag_levelled [OF lv tag(1)] exec_tag_levelled [OF tag(3)] Suc.prems(3)
      by blast
  next
    case (disabled tg p1 st1)
    then show ?thesis using Suc.IH [OF disabled(4)] next_tag_levelled [OF lv disabled(1)] Suc.prems(3) by blast
  next
    case (no_partial tg p1 s f rc0 sb s1)
    then show ?thesis using Suc.prems(3) by simp
  next
    case (failed_partial tg p1 s f rc0 sb s1 rc' st2)
    then show ?thesis using Suc.prems(3) by simp
  next
    case (partial tg p1 s f rc0 sb s1 rc' st2)
    have l1: "levelled base p1 (s1, f)" "inv s1"
      using partial_levelled [OF next_tag_levelled [OF lv partial(1)] partial(4)] by auto
    have "inv (fst st2) \<and> level (fst st2) = level s1"
      using Suc.IH [OF partial(6) levelled_init] l1(2) partial(7) by simp
    then have "levelled base p1 st2" using l1 by (simp add: levelled_def)
    then show ?thesis using Suc.IH [OF partial(8)] Suc.prems(3) by blast
  qed
qed simp

lemma loop_step_levelled:
  assumes "loop_step iw ps t (p, st) (p', st')" and lv: "levelled base p st"
  shows "levelled base p' st'"
  using assms(1)
proof cases
  case (tag tg p1 st1)
  then show ?thesis using next_tag_levelled [OF lv] exec_tag_levelled by blast
next
  case (partial_disabled tg)
  then show ?thesis using next_tag_levelled [OF lv] by blast
next
  case (partial tg s f rc sb s1 fuel rc')
  have l1: "levelled base p' (s1, f)" "inv s1"
    using partial_levelled [OF next_tag_levelled [OF lv partial(1)] partial(4)] by auto
  have "inv (fst st') \<and> level (fst st') = level s1"
    using process_loop_levelled [OF partial(6) levelled_init] l1(2) partial(7) by simp
  then show ?thesis using l1 by (simp add: levelled_def)
qed

lemma loop_reach_levelled:
  assumes "loop_reach iw ps t st0 x" and "inv (fst st0)"
  shows "levelled (level (fst st0)) (fst x) (snd x)"
  using assms(1)
proof induction
  case start
  then show ?case using levelled_init [OF assms(2)] by simp
next
  case (step x y)
  then show ?case using loop_step_levelled by (metis prod.collapse)
qed

end

section \<open>The JSON cursor\<close>

definition json_iwrap :: "'d json_env \<Rightarrow> flagword
    \<Rightarrow> (string \<Rightarrow> bool \<Rightarrow> cfile \<Rightarrow> int \<times> cfile) option \<Rightarrow> (string \<Rightarrow> cfile \<Rightarrow> int \<times> cfile) option
    \<Rightarrow> (string \<Rightarrow> int \<times> mustach_sbuf) option \<Rightarrow> (string \<Rightarrow> string option option)
    \<Rightarrow> 'd expl iwrap" where
  "json_iwrap je flags emitcb writecb hook fs =
     iwrap_init (mustach_wrap_itf (wrap_init (mustach_json_c_wrap_itf je) flags emitcb writecb hook fs))
       flags None"

lemma json_iwrap_simps [simp]:
  "iw_enter (json_iwrap je flags ec wc hk fs)
     = wrap_enter (wrap_init (mustach_json_c_wrap_itf je) flags ec wc hk fs)"
  "iw_next (json_iwrap je flags ec wc hk fs) = json_next"
  "iw_leave (json_iwrap je flags ec wc hk fs) = json_leave"
  "iw_partial (json_iwrap je flags ec wc hk fs)
     = wrap_partial (wrap_init (mustach_json_c_wrap_itf je) flags ec wc hk fs)"
  "iw_emit (json_iwrap je flags ec wc hk fs)
     = wrap_emit (wrap_init (mustach_json_c_wrap_itf je) flags ec wc hk fs)"
  "iw_put (json_iwrap je flags ec wc hk fs)
     = iwrap_put (wrap_get (wrap_init (mustach_json_c_wrap_itf je) flags ec wc hk fs))
         (wrap_emit (wrap_init (mustach_json_c_wrap_itf je) flags ec wc hk fs))"
  by (simp_all add: json_iwrap_def iwrap_init_def mustach_wrap_itf_def Let_def)
     (simp_all add: fun_eq_iff wrap_next_def wrap_leave_def wrap_init_def mustach_json_c_wrap_itf_def)

text \<open>The cursor's stack has its 256 frames, and the current one is among them.\<close>

definition cursor_ok :: "'d expl \<Rightarrow> bool" where
  "cursor_ok e \<longleftrightarrow> length (ex_stack e) = MUSTACH_MAX_DEPTH \<and> ex_depth e < MUSTACH_MAX_DEPTH"

definition same_place :: "'d expl \<Rightarrow> 'd expl \<Rightarrow> bool" where
  "same_place e e' \<longleftrightarrow> ex_stack e' = ex_stack e \<and> ex_depth e' = ex_depth e"

lemma same_place_refl [simp]: "same_place e e"
  by (simp add: same_place_def)

lemma same_place_trans: "same_place a b \<Longrightarrow> same_place b c \<Longrightarrow> same_place a c"
  by (simp add: same_place_def)

lemma json_sel_place: "json_sel name e = (found, e') \<Longrightarrow> same_place e e'"
  by (auto simp: json_sel_def same_place_def split: option.splits)

lemma json_subsel_place: "json_subsel name e = (found, e') \<Longrightarrow> same_place e e'"
  by (auto simp: json_subsel_def same_place_def split: option.splits)

lemma sel_subkeys_place:
  assumes "w_itf w = mustach_json_c_wrap_itf je"
  shows "sel_subkeys w sflags val copy e = (s, e') \<Longrightarrow> same_place e e'"
proof (induction "length copy" arbitrary: copy e rule: less_induct)
  case less
  show ?case
  proof (cases "getkey copy sflags")
    case None
    then show ?thesis using less.prems by (simp add: sel_subkeys.simps [of w sflags val copy e])
  next
    case (Some kc)
    obtain key copy1 where kc: "kc = (key, copy1)" by force
    obtain found e1 where sub: "json_subsel key e = (found, e1)" by force
    show ?thesis
      using less.prems less.hyps [OF getkey_shorter [of copy sflags key copy1], of e1] Some sub
        json_subsel_place [OF sub]
      by (auto simp: sel_subkeys.simps [of w sflags val copy e] kc assms
          split: if_splits intro: same_place_trans)
  qed
qed

lemma sel_compared_snd [simp]: "snd (sel_compared w k val r) = snd r"
  by (auto simp: sel_compared_def Let_def split: prod.split option.split)

lemma wrap_sel_place:
  assumes "w_itf w = mustach_json_c_wrap_itf je" and "wrap_sel w name e = (s, e')"
  shows "same_place e e'"
proof -
  have cmp: "same_place e (snd r) \<Longrightarrow> sel_compared w k val r = (s, e') \<Longrightarrow> same_place e e'" for r k val
    by (metis sel_compared_snd snd_conv)
  have sub: "same_place e e1 \<Longrightarrow> same_place e (snd (sel_subkeys w sf v c e1))" for sf v c e1
    using sel_subkeys_place [OF assms(1)] same_place_trans by (metis prod.collapse)
  show ?thesis
    using assms(2) unfolding wrap_sel_def Let_def
    by (auto simp: assms(1) split: prod.splits option.splits if_splits
        dest!: cmp [rotated] json_sel_place sel_subkeys_place [OF assms(1)]
        intro: same_place_trans sub)
qed

lemma json_get_place: "json_get je key e = (rc, sb, e') \<Longrightarrow> same_place e e'"
  by (simp add: json_get_def Let_def)

lemma getoptional_place:
  assumes "w_itf w = mustach_json_c_wrap_itf je" and "getoptional w name e = (rc, sb, e')"
  shows "same_place e e'"
  using assms(2) json_get_place wrap_sel_place [OF assms(1)]
  by (fastforce simp: getoptional_def assms(1) split: prod.splits if_splits intro: same_place_trans)

lemma wrap_get_place:
  assumes "w_itf w = mustach_json_c_wrap_itf je" and "wrap_get w name e = (rc, sb, e')"
  shows "same_place e e'"
  using assms(2) getoptional_place [OF assms(1)]
  by (fastforce simp: wrap_get_def split: prod.splits if_splits)

lemma wrap_partial_place:
  assumes "w_itf w = mustach_json_c_wrap_itf je" and "wrap_partial w name e = (rc, sb, e')"
  shows "same_place e e'"
  using assms(2) getoptional_place [OF assms(1)]
  by (fastforce simp: wrap_partial_def split: prod.splits if_splits option.splits)

lemma wrap_emit_place: "wrap_emit w buf esc (e, f) = (rc, e', f') \<Longrightarrow> e' = e"
  by (auto simp: wrap_emit_def split: prod.splits)

lemma iwrap_put_place:
  assumes "w_itf w = mustach_json_c_wrap_itf je"
    and "iwrap_put (wrap_get w) (wrap_emit w) name esc (e, f) = (rc, e', f')"
  shows "same_place e e'"
  using assms(2) wrap_get_place [OF assms(1)] wrap_emit_place
  by (fastforce simp: iwrap_put_def split: prod.splits if_splits)

lemma cursor_ok_place: "cursor_ok e \<Longrightarrow> same_place e e' \<Longrightarrow> cursor_ok e' \<and> ex_depth e' = ex_depth e"
  by (simp add: cursor_ok_def same_place_def)

lemma ex_set_top_simps [simp]:
  "length (ex_stack (ex_set_top fr e)) = length (ex_stack e)"
  "ex_depth (ex_set_top fr e) = ex_depth e"
  by (simp_all add: ex_set_top_def)

lemma json_enter_level:
  "cursor_ok e \<Longrightarrow> json_enter je objiter e = (rc, e') \<Longrightarrow> 0 \<le> rc
   \<Longrightarrow> cursor_ok e' \<and> ex_depth e' = ex_depth e + (if rc \<noteq> 0 then 1 else 0)"
  by (auto simp: json_enter_def Let_def cursor_ok_def split: if_splits json.splits list.splits prod.splits)

lemma json_next_level:
  "cursor_ok e \<Longrightarrow> 0 < ex_depth e \<Longrightarrow> json_next e = (rc, e')
   \<Longrightarrow> 0 \<le> rc \<and> cursor_ok e' \<and> ex_depth e' = ex_depth e"
  by (auto simp: json_next_def Let_def cursor_ok_def split: if_splits list.splits prod.splits)

lemma json_leave_level:
  "cursor_ok e \<Longrightarrow> 0 < ex_depth e \<Longrightarrow> json_leave e = (rc, e')
   \<Longrightarrow> cursor_ok e' \<and> Suc (ex_depth e') = ex_depth e"
  by (auto simp: json_leave_def cursor_ok_def)

lemma wrap_enter_level:
  assumes itf: "w_itf w = mustach_json_c_wrap_itf je" and ok: "cursor_ok e"
    and en: "wrap_enter w name e = (rc, e')" and rc: "0 \<le> rc"
  shows "cursor_ok e' \<and> ex_depth e' = ex_depth e + (if rc \<noteq> 0 then 1 else 0)"
proof -
  obtain s e1 where sel: "wrap_sel w name e = (s, e1)" by force
  have e1: "cursor_ok e1" "ex_depth e1 = ex_depth e"
    using cursor_ok_place [OF ok wrap_sel_place [OF itf sel]] by auto
  show ?thesis
    using en e1 rc json_enter_level [OF e1(1), of je "sel_objiter s" rc e']
    by (auto simp: wrap_enter_def sel itf split: if_splits)
qed

lemma wrap_init_itf [simp]: "w_itf (wrap_init itf flags ec wc hk fs) = itf"
  by (simp add: wrap_init_def)

interpretation cursor: section_levels "json_iwrap je flags ec wc hk fs" ex_depth cursor_ok
proof (unfold_locales, goal_cases)
  case (1 s name rc s')
  from wrap_enter_level [OF wrap_init_itf 1(1) _ 1(3)] 1(2) show ?case by simp
next
  case (2 s rc s')
  from json_next_level [OF 2(1,2)] 2(3) show ?case by simp
next
  case (3 s rc s')
  from json_leave_level [OF 3(1,2)] 3(3) show ?case by simp
next
  case (4 s name esc f rc s' f')
  from cursor_ok_place [OF 4(1) iwrap_put_place [OF wrap_init_itf]] 4(2) show ?case by simp
next
  case (5 s buf esc f rc s' f')
  from wrap_emit_place [OF 5(2) [unfolded json_iwrap_simps]] 5(1) show ?case by simp
next
  case (6 s name rc sb s')
  from cursor_ok_place [OF 6(1) wrap_partial_place [OF wrap_init_itf]] 6(2) show ?case by simp
qed

section \<open>Properties\<close>

text \<open>
  C6. While a template renders over JSON data, the cursor's depth is the number of sections the
  engine has entered and not yet left, above where it started, and it never leaves the array of
  \<open>MUSTACH_MAX_DEPTH\<close> frames: in every state the loop reaches, \<open>stack[depth]\<close> exists.
\<close>

theorem json_cursor_depth:
  assumes "loop_reach (json_iwrap je flags ec wc hk fs) ps t (e0, f0) (p, e, f)" and "cursor_ok e0"
  shows "length (ex_stack e) = MUSTACH_MAX_DEPTH \<and> ex_depth e < length (ex_stack e)
    \<and> ex_depth e = ex_depth e0 + entered_count (pr_stack p)"
  using cursor.loop_reach_levelled [OF assms(1)] assms(2)
  by (simp add: cursor.levelled_def cursor_ok_def)

definition sample_json :: "unit expl \<times> cfile" where
  "sample_json = (sample_cursor [JObject [(''s'', JArray [JInt 1, JInt 2])]],
     \<lparr>f_data = [], f_room = None\<rparr>)"

theorem json_cursor_depth_witness:
  "\<exists>p e f. loop_reach (json_iwrap sample_env 0 None None None (\<lambda>_. None)) [] ''{{#s}}b{{/s}}''
       sample_json (p, e, f) \<and> length (ex_stack e) = MUSTACH_MAX_DEPTH \<and> ex_depth e = 1"
proof -
  let ?iw = "json_iwrap sample_env 0 None None None (\<lambda>_. None)" and ?t = "''{{#s}}b{{/s}}''"
  have "case tag_round ?iw [] ?t (proc_init, sample_json) of
      Some (p, e, f) \<Rightarrow> entered_count (pr_stack p) = 1 | None \<Rightarrow> False"
    by code_simp
  then obtain p e f where st: "tag_round ?iw [] ?t (proc_init, sample_json) = Some (p, e, f)"
      and one: "entered_count (pr_stack p) = 1"
    by (auto split: option.splits prod.splits)
  obtain e0 f0 where s: "sample_json = (e0, f0)" by (metis surj_pair)
  then have e0: "cursor_ok e0" "ex_depth e0 = 0"
    by (auto simp: sample_json_def sample_cursor_def cursor_ok_def)
  have reach: "loop_reach ?iw [] ?t sample_json (p, e, f)"
    using loop_reach.step [OF loop_reach.start tag_round_step [OF st]] .
  from json_cursor_depth [OF reach [unfolded s] e0(1)] e0(2) one reach show ?thesis
    by (intro exI [of _ p] exI [of _ e] exI [of _ f]) simp
qed

text \<open>
  Rendering a template over JSON data to the end (a return code that is not an error) gives
  \<open>MUSTACH_OK\<close> and leaves the cursor as deep as it was, partials included; so a partial
  cannot shift the scope of the template that includes it.
\<close>

theorem json_render_restores_depth:
  assumes "process fuel (json_iwrap je flags ec wc hk fs) ps template len (e, f) = Some (rc, e', f')"
    and "cursor_ok e" and "0 \<le> rc"
  shows "rc = MUSTACH_OK \<and> cursor_ok e' \<and> ex_depth e' = ex_depth e"
  using cursor.process_loop_levelled [OF assms(1) [unfolded process_def]
      cursor.levelled_init assms(3)] assms(2) by simp

theorem json_render_restores_depth_witness:
  "\<exists>e' f'. process 9 (json_iwrap sample_env 0 None None None (\<lambda>_. None)) [] ''{{#s}}b{{/s}}'' 0
     sample_json = Some (0, e', f') \<and> f_data f' = ''bb'' \<and> ex_depth e' = 0"
proof -
  let ?r = "process 9 (json_iwrap sample_env 0 None None None (\<lambda>_. None)) [] ''{{#s}}b{{/s}}'' 0
     sample_json"
  have "case ?r of Some (rc, e', f') \<Rightarrow> rc = 0 \<and> f_data f' = ''bb'' | None \<Rightarrow> False"
    by code_simp
  then obtain e' f' where r: "?r = Some (0, e', f')" "f_data f' = ''bb''"
    by (auto split: option.splits prod.splits)
  obtain e0 f0 where s: "sample_json = (e0, f0)" by (metis surj_pair)
  then have e0: "cursor_ok e0" "ex_depth e0 = 0"
    by (auto simp: sample_json_def sample_cursor_def cursor_ok_def)
  from json_render_restores_depth [OF r(1) [unfolded s] e0(1)] e0(2) r(2) s r(1) show ?thesis by simp
qed

end
