(* ===== verification/Mustach_Emit.thy ===== *)
theory Mustach_Emit
  imports Mustach_Wrap
begin

text \<open>
  What the two emitters write. The engine's \<open>iwrap_emit\<close> and the wrapper's \<open>emit\<close>
  are separate loops in the sources; both implement the same function \<open>html_escape\<close>,
  and both report an error exactly when the stream has no room for its result.
\<close>

section \<open>The escaping function\<close>

definition html_escape_char :: "char \<Rightarrow> string" where
  "html_escape_char c = (if html_special c then html_entity c else [c])"

definition html_escape :: "string \<Rightarrow> string" where
  "html_escape s = concat (map html_escape_char s)"

lemma html_escape_Nil [simp]: "html_escape [] = []"
  by (simp add: html_escape_def)

lemma html_escape_Cons: "html_escape (c # s) = html_escape_char c @ html_escape s"
  by (simp add: html_escape_def)

lemma html_escape_append: "html_escape (s @ u) = html_escape s @ html_escape u"
  by (simp add: html_escape_def)

lemma html_escape_plain: "(\<And>c. c \<in> set s \<Longrightarrow> \<not> html_special c) \<Longrightarrow> html_escape s = s"
  by (induction s) (simp_all add: html_escape_Cons html_escape_char_def)

text \<open>The step both loops make: a run of plain bytes, an entity, the rest.\<close>

lemma html_escape_run:
  assumes "dropWhile (\<lambda>c. \<not> html_special c) s = c # rest"
  shows "html_escape s = takeWhile (\<lambda>c. \<not> html_special c) s @ html_entity c @ html_escape rest"
proof -
  have "s = takeWhile (\<lambda>c. \<not> html_special c) s @ c # rest"
    using assms by (metis takeWhile_dropWhile_id)
  moreover have "html_special c"
    using assms by (metis dropWhile_eq_Cons_conv)
  ultimately show ?thesis
    by (metis html_escape_Cons html_escape_append html_escape_char_def html_escape_plain
        set_takeWhileD)
qed

lemma html_escape_last_run:
  assumes "dropWhile (\<lambda>c. \<not> html_special c) s = []"
  shows "html_escape s = takeWhile (\<lambda>c. \<not> html_special c) s"
  using assms by (metis append_Nil2 html_escape_plain set_takeWhileD takeWhile_dropWhile_id)

section \<open>A verdict on a write\<close>

text \<open>
  The contract of every emitter of this component: success means all of \<open>out\<close> was
  written and there was room for it, failure is a system error for lack of room.
\<close>

definition emits :: "string \<Rightarrow> cfile \<Rightarrow> int \<times> cfile \<Rightarrow> bool" where
  "emits out f r \<longleftrightarrow>
     (if fits (length out) f then r = (MUSTACH_OK, written out f)
      else fst r = MUSTACH_ERROR_SYSTEM)"

lemma emits_Nil: "emits [] f (MUSTACH_OK, f)"
  by (simp add: emits_def)

lemma emits_fwrite:
  "emits out f (case fwrite out f of (n, f') \<Rightarrow>
                  (if n = length out then MUSTACH_OK else MUSTACH_ERROR_SYSTEM, f'))"
  using fwrite_fits [of out f] fwrite_short [of out f]
  by (cases "fits (length out) f") (auto simp: emits_def split: prod.splits)

lemma emits_append:
  assumes a: "emits a f r" and ok: "fst r = MUSTACH_OK" and b: "emits b (snd r) r'"
  shows "emits (a @ b) f r'"
proof -
  from a ok have fa: "fits (length a) f" and r: "snd r = written a f"
    by (auto simp: emits_def split: if_splits)
  show ?thesis
    using b fa by (simp add: emits_def r fits_add)
qed

lemma emits_append_error:
  assumes a: "emits a f r" and err: "fst r \<noteq> MUSTACH_OK"
  shows "emits (a @ b) f r"
  using a err fits_mono [of "length (a @ b)" f "length a"]
  by (auto simp: emits_def split: if_splits)

lemma emits_cases:
  "emits out f r \<Longrightarrow> fst r = MUSTACH_OK \<or> fst r = MUSTACH_ERROR_SYSTEM"
  by (auto simp: emits_def split: if_splits)

section \<open>The escaping loop, whoever runs it\<close>

text \<open>
  One round of either loop over a writer \<open>put_all\<close>: write the run of plain bytes, write
  the entity, go on with \<open>g\<close>. A loop that satisfies this equation writes
  \<open>html_escape\<close>; the two sources are instances.
\<close>

definition put_all :: "string \<Rightarrow> cfile \<Rightarrow> int \<times> cfile" where
  "put_all buf f = (case fwrite buf f of (n, f') \<Rightarrow>
     (if n = length buf then MUSTACH_OK else MUSTACH_ERROR_SYSTEM, f'))"

definition esc_body :: "(string \<Rightarrow> cfile \<Rightarrow> int \<times> cfile) \<Rightarrow> string \<Rightarrow> string \<Rightarrow> cfile \<Rightarrow> int \<times> cfile" where
  "esc_body g run rest f =
     (let r1 = (if run \<noteq> [] then put_all run f else (MUSTACH_OK, f))
      in if fst r1 \<noteq> MUSTACH_OK then r1
         else (case rest of
                 [] \<Rightarrow> r1
               | c # rest' \<Rightarrow>
                   (let r2 = put_all (html_entity c) (snd r1)
                    in if fst r2 \<noteq> MUSTACH_OK then r2 else g rest' (snd r2))))"

definition esc_round :: "(string \<Rightarrow> cfile \<Rightarrow> int \<times> cfile) \<Rightarrow> string \<Rightarrow> cfile \<Rightarrow> int \<times> cfile" where
  "esc_round g s f =
     esc_body g (takeWhile (\<lambda>c. \<not> html_special c) s) (dropWhile (\<lambda>c. \<not> html_special c) s) f"

lemma emits_put_all: "emits buf f (put_all buf f)"
  unfolding put_all_def by (rule emits_fwrite)

lemma emits_opt_put_all: "emits run f (if run \<noteq> [] then put_all run f else (MUSTACH_OK, f))"
  by (simp add: emits_put_all emits_Nil)

definition esc_tail :: "string \<Rightarrow> string" where
  "esc_tail rest = (case rest of [] \<Rightarrow> [] | c # rest' \<Rightarrow> html_entity c @ html_escape rest')"

lemma html_escape_split:
  "html_escape s = takeWhile (\<lambda>c. \<not> html_special c) s @
     esc_tail (dropWhile (\<lambda>c. \<not> html_special c) s)"
proof (cases "dropWhile (\<lambda>c. \<not> html_special c) s")
  case Nil
  show ?thesis unfolding Nil html_escape_last_run [OF Nil] by (simp add: esc_tail_def)
next
  case (Cons c rest)
  show ?thesis unfolding Cons html_escape_run [OF Cons] by (simp add: esc_tail_def)
qed

lemma esc_body_emits:
  assumes IH: "\<And>c rest' f. rest = c # rest' \<Longrightarrow> emits (html_escape rest') f (g rest' f)"
  shows "emits (run @ esc_tail rest) f (esc_body g run rest f)"
proof -
  define r1 where "r1 = (if run \<noteq> [] then put_all run f else (MUSTACH_OK, f))"
  have v1: "emits run f r1" by (simp only: r1_def emits_opt_put_all)
  show ?thesis
  proof (cases "fst r1 = MUSTACH_OK")
    case False
    then show ?thesis
      using emits_append_error [OF v1 False] by (simp add: esc_body_def flip: r1_def)
  next
    case ok: True
    show ?thesis
    proof (cases rest)
      case Nil
      then show ?thesis using v1 ok by (simp add: esc_body_def esc_tail_def flip: r1_def)
    next
      case (Cons c rest')
      define r2 where "r2 = put_all (html_entity c) (snd r1)"
      have v2: "emits (run @ html_entity c) f r2"
        using emits_append [OF v1 ok] emits_put_all by (simp add: r2_def)
      have res: "esc_body g run (c # rest') f = (if fst r2 \<noteq> MUSTACH_OK then r2 else g rest' (snd r2))"
        using ok by (simp add: esc_body_def Let_def r2_def flip: r1_def)
      show ?thesis
        using emits_append [OF v2 _ IH [OF Cons]] emits_append_error [OF v2]
        by (simp add: res Cons esc_tail_def)
    qed
  qed
qed

lemma esc_round_emits:
  assumes "\<And>rest f. length rest < length s \<Longrightarrow> emits (html_escape rest) f (g rest f)"
  shows "emits (html_escape s) f (esc_round g s f)"
  unfolding esc_round_def html_escape_split [of s]
proof (rule esc_body_emits)
  fix c rest' f
  assume "dropWhile (\<lambda>c. \<not> html_special c) s = c # rest'"
  then have "length (c # rest') \<le> length s" by (metis length_dropWhile_le)
  then show "emits (html_escape rest') f (g rest' f)" by (intro assms) simp
qed

lemma esc_loop_emits:
  assumes eq: "\<And>s f. g s f = esc_round g s f"
  shows "emits (html_escape s) f (g s f)"
proof (induction s arbitrary: f rule: length_induct)
  case (1 s)
  have "emits (html_escape s) f (esc_round g s f)"
    using "1.IH" by (intro esc_round_emits) blast
  then show ?case by (subst eq)
qed

section \<open>The two emitters\<close>

lemma iwrap_loop_body:
  "(let r1 = (if run \<noteq> [] then fwrite run f else (0, f))
      in if run \<noteq> [] \<and> fst r1 \<noteq> length run then (MUSTACH_ERROR_SYSTEM, snd r1)
         else (case rest of
                 [] \<Rightarrow> (MUSTACH_OK, snd r1)
               | c # rest' \<Rightarrow>
                   (let r2 = fwrite (html_entity c) (snd r1)
                    in if fst r2 \<noteq> length (html_entity c) then (MUSTACH_ERROR_SYSTEM, snd r2)
                       else g rest' (snd r2)))) = esc_body g run rest f"
  by (auto simp: esc_body_def put_all_def Let_def split: prod.splits list.splits)

lemma iwrap_emit_escaped_round: "iwrap_emit_escaped s f = esc_round iwrap_emit_escaped s f"
proof (cases s)
  case (Cons b bs)
  show ?thesis
    unfolding Cons iwrap_emit_escaped.simps(2) esc_round_def iwrap_loop_body [symmetric] Let_def
    by (rule refl)
qed (simp add: iwrap_emit_escaped.simps esc_round_def esc_body_def)

lemma wrap_write_fwrite: "w_writecb w = None \<Longrightarrow> wrap_write w buf f = put_all buf f"
  by (simp add: wrap_write_def put_all_def)

lemma wrap_loop_body:
  "(let r1 = (if run \<noteq> [] then put_all run f else (MUSTACH_OK, f))
      in (case rest of
            [] \<Rightarrow> r1
          | c # rest' \<Rightarrow>
              if fst r1 = MUSTACH_OK
              then (let r2 = put_all (html_entity c) (snd r1)
                    in if fst r2 = MUSTACH_OK then g rest' (snd r2) else r2)
              else r1)) = esc_body g run rest f"
  by (auto simp: esc_body_def Let_def split: list.splits)

lemma wrap_emit_escaped_round:
  assumes "w_writecb w = None"
  shows "wrap_emit_escaped w s f = esc_round (wrap_emit_escaped w) s f"
proof (cases s)
  case (Cons b bs)
  show ?thesis
    unfolding Cons wrap_emit_escaped.simps(2) esc_round_def wrap_loop_body [symmetric] Let_def
      wrap_write_fwrite [OF assms]
    by (rule refl)
qed (simp add: wrap_emit_escaped.simps esc_round_def esc_body_def)

lemma iwrap_emit_emits:
  "emits (if escape then html_escape buf else buf) f (iwrap_emit buf escape f)"
proof (cases escape)
  case True
  then show ?thesis
    by (simp add: iwrap_emit_def esc_loop_emits [OF iwrap_emit_escaped_round])
next
  case False
  then have "iwrap_emit buf escape f = put_all buf f"
    by (simp add: iwrap_emit_def put_all_def split: prod.split)
  then show ?thesis using False emits_put_all by simp
qed

lemma wrap_emit_emits:
  assumes "w_emitcb w = None" and "w_writecb w = None" and "wrap_emit w buf escape (c, f) = (r, c', f')"
  shows "c' = c \<and> emits (if escape then html_escape buf else buf) f (r, f')"
  using assms esc_loop_emits [OF wrap_emit_escaped_round [OF assms(2)], of buf f]
    emits_put_all [of buf f]
  by (auto simp: wrap_emit_def wrap_write_fwrite split: prod.splits if_splits)


section \<open>Escaping loses nothing\<close>

text \<open>What a reader of HTML does with the four entities: the inverse of \<open>html_escape\<close>.\<close>

function html_unescape :: "string \<Rightarrow> string" where
  "html_unescape s =
     (if s = [] then []
      else if take 4 s = ''&lt;'' then CHR ''<'' # html_unescape (drop 4 s)
      else if take 4 s = ''&gt;'' then CHR ''>'' # html_unescape (drop 4 s)
      else if take 5 s = ''&amp;'' then CHR ''&'' # html_unescape (drop 5 s)
      else if take 6 s = ''&quot;'' then CHR 0x22 # html_unescape (drop 6 s)
      else hd s # html_unescape (tl s))"
  by pat_completeness auto
termination by (relation "measure length") auto

declare html_unescape.simps [simp del]

lemma html_unescape_Nil [simp]: "html_unescape [] = []"
  by (simp add: html_unescape.simps)

lemma html_unescape_special:
  "html_special c \<Longrightarrow> html_unescape (html_entity c @ s) = c # html_unescape s"
  by (subst html_unescape.simps) (auto simp: html_special_def html_entity_def)

lemma html_unescape_other:
  "\<not> html_special c \<Longrightarrow> html_unescape (c # s) = c # html_unescape s"
  by (subst html_unescape.simps) (auto simp: html_special_def)

lemma html_unescape_escape [simp]: "html_unescape (html_escape s) = s"
  by (induction s)
     (simp_all add: html_escape_Cons html_escape_char_def html_unescape_special html_unescape_other)

lemma html_escape_no_markup:
  "set (html_escape s) \<inter> {CHR ''<'', CHR ''>'', CHR 0x22} = {}"
  by (induction s)
     (auto simp: html_escape_Cons html_escape_char_def html_special_def html_entity_def split: if_splits)

section \<open>The wrapper's emitter is the engine's\<close>

lemma esc_loop_unique:
  assumes g: "\<And>s f. g s f = esc_round g s f" and h: "\<And>s f. h s f = esc_round h s f"
  shows "g s f = h s f"
proof (induction s arbitrary: f rule: length_induct)
  case (1 s)
  have "esc_body g run rest f = esc_body h run rest f" if "length rest \<le> length s" for run rest
    using "1.IH" that by (auto simp: esc_body_def Let_def split: list.split)
  then show ?case
    by (subst g, subst h) (simp add: esc_round_def length_dropWhile_le)
qed

lemma wrap_emit_default:
  assumes "w_emitcb w = None" and "w_writecb w = None"
  shows "wrap_emit w buf escape (c, f) = iwrap_emit_st buf escape (c, f)"
proof (cases escape)
  case True
  then show ?thesis
    using esc_loop_unique [OF wrap_emit_escaped_round [OF assms(2)] iwrap_emit_escaped_round]
    by (simp add: wrap_emit_def iwrap_emit_st_def iwrap_emit_def assms)
next
  case False
  then show ?thesis
    by (simp add: wrap_emit_def iwrap_emit_st_def iwrap_emit_def assms wrap_write_def
        split: prod.splits)
qed

section \<open>Properties\<close>

text \<open>
  C3. The engine's emitter writes the buffer (escaped when asked to) and returns
  \<open>MUSTACH_OK\<close> exactly when the stream has room for it; otherwise it returns
  \<open>MUSTACH_ERROR_SYSTEM\<close>. What it writes can be read back, and escaped output holds no
  angle bracket and no quote.
\<close>

theorem iwrap_emit_correct:
  "(fits (length (if escape then html_escape buf else buf)) f \<longrightarrow>
      iwrap_emit buf escape f = (MUSTACH_OK, written (if escape then html_escape buf else buf) f)) \<and>
   (\<not> fits (length (if escape then html_escape buf else buf)) f \<longrightarrow>
      fst (iwrap_emit buf escape f) = MUSTACH_ERROR_SYSTEM) \<and>
   html_unescape (html_escape buf) = buf \<and>
   set (html_escape buf) \<inter> {CHR ''<'', CHR ''>'', CHR 0x22} = {}"
  using iwrap_emit_emits [of escape buf f] html_escape_no_markup [of buf]
  by (simp add: emits_def split: if_splits)

theorem iwrap_emit_correct_witness:
  "fits 6 \<lparr>f_data = [], f_room = Some 6\<rparr> \<and> \<not> fits 6 \<lparr>f_data = [], f_room = Some 5\<rparr> \<and>
   iwrap_emit ''a<b'' True \<lparr>f_data = [], f_room = Some 6\<rparr>
     = (MUSTACH_OK, \<lparr>f_data = ''a&lt;b'', f_room = Some 0\<rparr>) \<and>
   fst (iwrap_emit ''a<b'' True \<lparr>f_data = [], f_room = Some 5\<rparr>) = MUSTACH_ERROR_SYSTEM"
  using iwrap_emit_correct [of True "''a<b''" "\<lparr>f_data = [], f_room = Some 6\<rparr>"]
    iwrap_emit_correct [of True "''a<b''" "\<lparr>f_data = [], f_room = Some 5\<rparr>"]
  by (simp add: fits_def written_def html_escape_def html_escape_char_def html_special_def
      html_entity_def)


text \<open>
  With no emit and no write callback installed (\<open>mustach_wrap_file\<close> and
  \<open>mustach_wrap_mem\<close>), the wrapper's emitter, a second copy of the escaping loop, computes
  exactly what the engine's default emitter computes: same bytes, same code, same stream, also
  when the stream runs out of room half way.
\<close>

theorem wrap_emit_refines_iwrap_emit:
  "wrap_emit (wrap_init itf flags None None hook fs) buf escape st = iwrap_emit_st buf escape st"
  by (cases st) (simp add: wrap_emit_default wrap_init_def)

end
