(* ===== verification/Mustach_Render.thy ===== *)
theory Mustach_Render
  imports Mustach_Safety
begin

text \<open>
  What the template loop computes, against the structure of the template. The loop of
  \<open>process\<close> is flat: it finds one tag at a time, keeps open sections on a stack, and repeats a
  section by moving its position back. Here a template is a tree of variables and sections, each
  with the text before its tags, and \<open>renders\<close> is its meaning, by recursion over the tree; the
  loop is shown to take exactly these steps.
\<close>

section \<open>Templates as trees\<close>

datatype var_kind = Escaped | Ampersand | Triple

datatype item =
    Var string var_kind string
  | Sec string bool string "item list" string

text \<open>
  \<open>Var x k n\<close> is the text \<open>x\<close> and a variable; \<open>Sec x neg n body y\<close> the text \<open>x\<close>, a section
  (inverted or not) with its body, and \<open>y\<close> between the body and the closing tag.
\<close>

fun print_tag :: "var_kind \<Rightarrow> string \<Rightarrow> string" where
  "print_tag Escaped n = ''{{'' @ n @ ''}}''"
| "print_tag Ampersand n = ''{{&'' @ n @ ''}}''"
| "print_tag Triple n = ''{{{'' @ n @ ''}}}''"

fun print_item :: "item \<Rightarrow> string" and print_items :: "item list \<Rightarrow> string" where
  "print_item (Var x k n) = x @ print_tag k n"
| "print_item (Sec x neg n body y) =
     x @ ''{{'' @ (if neg then ''^'' else ''#'') @ n @ ''}}'' @ print_items body @ y
     @ ''{{/'' @ n @ ''}}''"
| "print_items [] = []"
| "print_items (i # is) = print_item i @ print_items is"

fun lead :: "item \<Rightarrow> string" where
  "lead (Var x k n) = x"
| "lead (Sec x neg n body y) = x"

definition plain :: "string \<Rightarrow> bool" where
  "plain x \<longleftrightarrow> (\<forall>c \<in> set x. c \<noteq> newline \<and> c \<noteq> CHR ''{'')"

definition name_ok :: "string \<Rightarrow> bool" where
  "name_ok n \<longleftrightarrow> n \<noteq> [] \<and> length n \<le> MUSTACH_MAX_LENGTH
     \<and> hd n \<notin> set '':!={&^#/>''
     \<and> (\<forall>c \<in> set n. \<not> isspace c \<and> c \<noteq> CHR ''}'' \<and> c \<noteq> nul)"

fun item_ok :: "item \<Rightarrow> bool" and items_ok :: "item list \<Rightarrow> bool" where
  "item_ok (Var x k n) = (plain x \<and> name_ok n)"
| "item_ok (Sec x neg n body y) = (plain x \<and> name_ok n \<and> items_ok body \<and> plain y)"
| "items_ok [] = True"
| "items_ok (i # is) = (item_ok i \<and> items_ok is)"

fun item_depth :: "item \<Rightarrow> nat" and items_depth :: "item list \<Rightarrow> nat" where
  "item_depth (Var x k n) = 0"
| "item_depth (Sec x neg n body y) = Suc (items_depth body)"
| "items_depth [] = 0"
| "items_depth (i # is) = max (item_depth i) (items_depth is)"

section \<open>Their meaning\<close>

definition emit_text :: "'s iwrap \<Rightarrow> string \<Rightarrow> 's \<times> cfile \<Rightarrow> int \<times> 's \<times> cfile" where
  "emit_text iw x st = (if x = [] then (0, st) else iw_emit iw x False st)"

text \<open>
  \<open>renders iw is st st'\<close>: rendering the items succeeds and takes \<open>st\<close> to \<open>st'\<close>;
  \<open>rounds\<close> is the body of a section that has been entered, once per value.
\<close>

inductive renders :: "'s iwrap \<Rightarrow> item list \<Rightarrow> 's \<times> cfile \<Rightarrow> 's \<times> cfile \<Rightarrow> bool"
  and rounds :: "'s iwrap \<Rightarrow> item list \<Rightarrow> string \<Rightarrow> 's \<times> cfile \<Rightarrow> 's \<times> cfile \<Rightarrow> bool"
  for iw where
  none: "renders iw [] st st"
| var: "emit_text iw x st = (rc, st1) \<Longrightarrow> 0 \<le> rc
    \<Longrightarrow> iw_put iw n (k = Escaped) st1 = (rc', st2) \<Longrightarrow> 0 \<le> rc'
    \<Longrightarrow> renders iw is st2 st3 \<Longrightarrow> renders iw (Var x k n # is) st st3"
| absent: "emit_text iw x st = (rc, s, f) \<Longrightarrow> 0 \<le> rc \<Longrightarrow> iw_enter iw n s = (0, s1)
    \<Longrightarrow> renders iw is (s1, f) st3 \<Longrightarrow> renders iw (Sec x False n body y # is) st st3"
| present: "emit_text iw x st = (rc, s, f) \<Longrightarrow> 0 \<le> rc \<Longrightarrow> iw_enter iw n s = (rc', s1) \<Longrightarrow> 0 < rc'
    \<Longrightarrow> rounds iw body y (s1, f) st2
    \<Longrightarrow> renders iw is st2 st3 \<Longrightarrow> renders iw (Sec x False n body y # is) st st3"
| inverted_present: "emit_text iw x st = (rc, s, f) \<Longrightarrow> 0 \<le> rc \<Longrightarrow> iw_enter iw n s = (rc', s1)
    \<Longrightarrow> 0 < rc' \<Longrightarrow> renders iw is (snd (iw_leave iw s1), f) st3
    \<Longrightarrow> renders iw (Sec x True n body y # is) st st3"
| inverted_absent: "emit_text iw x st = (rc, s, f) \<Longrightarrow> 0 \<le> rc \<Longrightarrow> iw_enter iw n s = (0, s1)
    \<Longrightarrow> renders iw body (s1, f) st2 \<Longrightarrow> emit_text iw y st2 = (rc2, st3) \<Longrightarrow> 0 \<le> rc2
    \<Longrightarrow> renders iw is st3 st4 \<Longrightarrow> renders iw (Sec x True n body y # is) st st4"
| last_round: "renders iw body st st1 \<Longrightarrow> emit_text iw y st1 = (rc, s, f) \<Longrightarrow> 0 \<le> rc
    \<Longrightarrow> iw_next iw s = (0, s1) \<Longrightarrow> rounds iw body y st (snd (iw_leave iw s1), f)"
| next_round: "renders iw body st st1 \<Longrightarrow> emit_text iw y st1 = (rc, s, f) \<Longrightarrow> 0 \<le> rc
    \<Longrightarrow> iw_next iw s = (rc', s1) \<Longrightarrow> 0 < rc' \<Longrightarrow> rounds iw body y (s1, f) st2
    \<Longrightarrow> rounds iw body y st st2"

section \<open>Finding a tag in plain text\<close>

text \<open>The local variables of \<open>process\<close> between two tags of a one-line template.\<close>

definition between :: "nat \<Rightarrow> nat \<Rightarrow> bool \<Rightarrow> sect list \<Rightarrow> proc" where
  "between std k en stk = \<lparr>pr_template = k, pr_opstr = ''{{'', pr_clstr = ''}}'', pr_stdalone = std,
     pr_enabled = en, pr_pref = [], pr_stack = stk\<rparr>"

lemma plain_Cons [simp]: "plain (c # x) \<longleftrightarrow> c \<noteq> newline \<and> c \<noteq> CHR ''{'' \<and> plain x"
  by (auto simp: plain_def)

lemma delim_here: "delim_at (pre @ d @ post) d (length pre)"
  by (simp add: delim_at_def substr_def)

lemma delim_not_here: "d \<noteq> [] \<Longrightarrow> c \<noteq> hd d \<Longrightarrow> \<not> delim_at (pre @ c # post) d (length pre)"
  by (cases d) (auto simp: delim_at_def substr_def)

lemma scan_open_plain:
  assumes "pr_opstr p = ''{{''"
  shows "plain x \<Longrightarrow> t = pre @ x @ ''{{'' @ post
    \<Longrightarrow> pr_stdalone p = 0 \<or> pr_stdalone p = 1 \<and> (\<exists>c \<in> set x. \<not> isspace c)
    \<Longrightarrow> scan_open iw ps t (length pre) p st = (Inr (length (pre @ x), p\<lparr>pr_stdalone := 0\<rparr>), st)"
  using assms
proof (induction x arbitrary: pre p)
  case Nil
  then have "delim_at t ''{{'' (length pre)" "t ! length pre = CHR ''{''" "length pre < length t"
    using delim_here [of pre "''{{''" post] by (simp_all add: nth_append)
  moreover have "p\<lparr>pr_stdalone := 0\<rparr> = p" using Nil by simp
  ultimately show ?case
    using Nil by (subst scan_open.simps) (simp add: isspace_def leave_standalone_def)
next
  case (Cons c x)
  have t: "t = (pre @ [c]) @ x @ ''{{'' @ post" using Cons.prems by simp
  have at: "length pre < length t" "t ! length pre = c" "c \<noteq> newline" "c \<noteq> CHR ''{''"
    using Cons.prems by (simp_all add: nth_append)
  show ?case
  proof (cases "isspace c")
    case True
    then have sd: "pr_stdalone p = 0 \<or> pr_stdalone p = 1 \<and> (\<exists>c \<in> set x. \<not> isspace c)"
      using Cons.prems by auto
    have "scan_open iw ps t (Suc (length pre)) p st
        = (Inr (length (pre @ c # x), p\<lparr>pr_stdalone := 0\<rparr>), st)"
      using Cons.IH [OF _ t sd] Cons.prems by simp
    then show ?thesis using True at by (subst scan_open.simps) simp
  next
    case False
    have "\<not> delim_at t ''{{'' (length pre)"
      using delim_not_here [of "''{{''" c pre] at Cons.prems(2) by simp
    moreover have "scan_open iw ps t (Suc (length pre)) (p\<lparr>pr_stdalone := 0\<rparr>) st
        = (Inr (length (pre @ c # x), p\<lparr>pr_stdalone := 0\<rparr>), st)"
      using Cons.IH [OF _ t, of "p\<lparr>pr_stdalone := 0\<rparr>"] Cons.prems by simp
    moreover have "leave_standalone iw ps p st = (0, p, st)"
      using Cons.prems(3) by (auto simp: leave_standalone_def)
    ultimately show ?thesis
      using False at Cons.prems(4) by (subst scan_open.simps) simp
  qed
qed

lemma scan_close_plain:
  "CHR ''}'' \<notin> set x \<Longrightarrow> t = pre @ x @ ''}}'' @ post
    \<Longrightarrow> scan_close t ''}}'' (length pre) = Some (length (pre @ x))"
proof (induction x arbitrary: pre)
  case Nil
  then show ?case
    using delim_here [of pre "''}}''" post] by (subst scan_close.simps) simp
next
  case (Cons c x)
  have "\<not> delim_at t ''}}'' (length pre)"
    using delim_not_here [of "''}}''" c pre "x @ ''}}'' @ post"] Cons.prems by auto
  moreover have "scan_close t ''}}'' (Suc (length pre)) = Some (length (pre @ c # x))"
    using Cons.IH [of "pre @ [c]"] Cons.prems by simp
  ultimately show ?case using Cons.prems(2) by (subst scan_close.simps) simp
qed

section \<open>Reading it\<close>

definition tag_of :: "char \<Rightarrow> nat \<Rightarrow> string \<Rightarrow> nat \<Rightarrow> nat \<Rightarrow> tag" where
  "tag_of c pos n tpl std = \<lparr>tg_c = c, tg_beg = pos, tg_len = length n, tg_name = n,
     tg_template = tpl, tg_stdalone = std\<rparr>"

lemma tag_of_simps [simp]:
  "tg_c (tag_of c pos n tpl std) = c" "tg_beg (tag_of c pos n tpl std) = pos"
  "tg_len (tag_of c pos n tpl std) = length n" "tg_name (tag_of c pos n tpl std) = n"
  "tg_template (tag_of c pos n tpl std) = tpl" "tg_stdalone (tag_of c pos n tpl std) = std"
  by (simp_all add: tag_of_def)

lemma byte_at_append [simp]: "byte_at (pre @ c # post) (length pre) = c"
  by (simp add: byte_at_def)

lemma substr_append [simp]: "substr (pre @ n @ post) (length pre) (length n) = n"
  by (simp add: substr_def)

lemma name_ok_ends:
  assumes "name_ok n"
  obtains d m where "n = d # m" "\<not> isspace d" "d \<notin> set '':!={&^#/>''" "\<not> isspace (last n)"
proof -
  obtain d m where n: "n = d # m" using assms by (cases n) (auto simp: name_ok_def)
  have "last n \<in> set n" by (metis last_in_set list.distinct(1) n)
  then show ?thesis using assms n that [of d m] by (auto simp: name_ok_def)
qed

lemma name_ok_cstr [simp]: "name_ok n \<Longrightarrow> cstr n = n"
  by (auto simp: name_ok_def intro: cstr_id)

lemma name_ok_brace [simp]: "name_ok n \<Longrightarrow> CHR ''}'' \<notin> set n"
  by (auto simp: name_ok_def)

lemma get_name_plain:
  assumes "name_ok n" and "t = pre @ n @ post" and "length t < 2 ^ 63"
  shows "get_name flags t c (length pre) (length n) tpl std = Inr (tag_of c (length pre) n tpl std)"
proof -
  obtain d m where n: "n = d # m" "\<not> isspace d" "\<not> isspace (last n)"
    using name_ok_ends [OF assms(1)] by blast
  have "strip_left t (length pre) (length n) = (length pre, length n)"
    using n assms(2) by (subst strip_left.simps) simp
  moreover have "strip_right t (length pre) (length n) = length n"
  proof -
    have "last_index (length pre) (length n) = length pre + length m"
      using assms(2,3) n(1) by (simp add: last_index_def)
    moreover have "byte_at t (length pre + length m) = last n"
    proof -
      have "t ! (length pre + length m) = (n @ post) ! length m"
        unfolding assms(2) by (simp only: nth_append_length_plus)
      also have "\<dots> = n ! length m" by (subst nth_append) (simp add: n(1))
      finally show ?thesis using n(1) assms(2) by (simp add: byte_at_def last_conv_nth)
    qed
    ultimately show ?thesis using n(3) by (subst strip_right.simps) simp
  qed
  moreover have "length n \<noteq> 0" "length n \<le> 4096" using assms(1) by (auto simp: name_ok_def)
  moreover have "substr t (length pre) (length n) = n" unfolding assms(2) by (rule substr_append)
  ultimately show ?thesis by (simp add: get_name_def tag_of_def)
qed

lemma exclude_first_plain:
  assumes "name_ok n" and "t = pre @ d # n @ post" and "length t < 2 ^ 63"
  shows "exclude_first flags t c (length pre) (Suc (length n)) tpl std
    = Inr (tag_of c (Suc (length pre)) n tpl std)"
  using get_name_plain [OF assms(1), of t "pre @ [d]" post flags c tpl std] assms(2,3)
  by (simp add: exclude_first_def size_dec_def)

text \<open>What stands between the delimiters of each kind of tag, and what reading it gives.\<close>

lemma parse_tag_name:
  assumes "name_ok n" and "t = pre @ n @ ''}}'' @ post" and "length t < 2 ^ 63"
  shows "parse_tag flags t ''}}'' (length pre) (length (pre @ n)) std
    = Inr (tag_of (hd n) (length pre) n (length (pre @ n @ ''}}'')) 0)"
proof -
  obtain d m where n: "n = d # m" "d \<notin> set '':!={&^#/>''" using name_ok_ends [OF assms(1)] by blast
  have "byte_at t (length pre) = d" using assms(2) n by simp
  then show ?thesis
    using n get_name_plain [OF assms(1,2,3), of flags d]
    by (simp add: parse_tag_def Let_def)
qed

lemma parse_tag_ampersand:
  assumes "name_ok n" and "t = pre @ ''&'' @ n @ ''}}'' @ post" and "length t < 2 ^ 63"
  shows "parse_tag flags t ''}}'' (length pre) (length (pre @ ''&'' @ n)) std
    = Inr (tag_of (CHR ''&'') (Suc (length pre)) n (length (pre @ ''&'' @ n @ ''}}'')) 0)"
  using exclude_first_plain [OF assms(1), of t pre "CHR ''&''" "''}}'' @ post"] assms(2,3)
  by (simp add: parse_tag_def Let_def)

lemma parse_tag_triple:
  assumes "name_ok n" and "t = pre @ ''{'' @ n @ ''}}}'' @ post" and "length t < 2 ^ 63"
  shows "parse_tag flags t ''}}'' (length pre) (length (pre @ ''{'' @ n)) std
    = Inr (tag_of (CHR ''&'') (Suc (length pre)) n (length (pre @ ''{'' @ n @ ''}}}'')) 0)"
proof -
  have "byte_at t (Suc (Suc (Suc (length pre + length n)))) = CHR ''}''"
    using byte_at_append [of "pre @ ''{'' @ n @ ''}}''" "CHR ''}''" post] assms(2) by simp
  then show ?thesis
    using exclude_first_plain [OF assms(1), of t pre "CHR ''{''" "''}}}'' @ post"] assms(2,3)
    by (simp add: parse_tag_def Let_def)
qed

lemma parse_tag_section:
  assumes "name_ok n" and "t = pre @ d # n @ ''}}'' @ post" and "length t < 2 ^ 63"
    and "d \<in> set ''#^/''"
  shows "parse_tag flags t ''}}'' (length pre) (length (pre @ d # n)) std
    = Inr (tag_of d (Suc (length pre)) n (length (pre @ d # n @ ''}}'')) std)"
  using exclude_first_plain [OF assms(1), of t pre d "''}}'' @ post"] assms(2-)
  by (auto simp: parse_tag_def Let_def)

section \<open>One tag of the loop\<close>

lemma next_tag_plain:
  assumes t: "t = pre @ x @ ''{{'' @ body @ ''}}'' @ post" and "plain x" and "CHR ''}'' \<notin> set body"
    and parse: "parse_tag (iw_flags iw) t ''}}'' (length (pre @ x @ ''{{''))
      (length (pre @ x @ ''{{'' @ body)) 0 = Inr tg" and "tg_stdalone tg = 0"
    and std: "std = 0 \<or> std = 1 \<and> (\<exists>c \<in> set x. \<not> isspace c)"
  shows "next_tag iw [] t (between std (length pre) en stk) st =
    (if en then (case emit_text iw x st of (rc, st1) \<Rightarrow>
        if rc < 0 then (Inl rc, st1) else (Inr (tg, between 0 (tg_template tg) en stk), st1))
     else (Inr (tg, between 0 (tg_template tg) en stk), st))"
proof -
  let ?p = "between std (length pre) en stk" and ?p1 = "between 0 (length pre) en stk"
  have sd: "pr_stdalone ?p = 0 \<or> pr_stdalone ?p = 1 \<and> (\<exists>c \<in> set x. \<not> isspace c)"
    using std by (simp add: between_def)
  have "scan_open iw [] t (length pre) ?p st = (Inr (length (pre @ x), ?p\<lparr>pr_stdalone := 0\<rparr>), st)"
    by (rule scan_open_plain [OF _ assms(2) t sd]) (simp add: between_def)
  then have opn: "scan_open iw [] t (pr_template ?p) ?p st = (Inr (length (pre @ x), ?p1), st)"
    by (simp add: between_def)
  have cls: "scan_close t ''}}'' (length (pre @ x @ ''{{'')) = Some (length (pre @ x @ ''{{'' @ body))"
    using scan_close_plain [OF assms(3), of t "pre @ x @ ''{{''" post] t by simp
  have pref: "substr t (length pre) (length (pre @ x) - length pre) = x"
    unfolding t by (simp add: substr_def)
  show ?thesis
    using opn cls pref parse assms(5)
    by (auto simp: next_tag_def Let_def tag_prefix_def emit_text_def between_def split: prod.splits)
qed

lemma between_simps [simp]:
  "pr_template (between std k en stk) = k" "pr_enabled (between std k en stk) = en"
  "pr_stack (between std k en stk) = stk"
  "(between std k en stk)\<lparr>pr_stack := stk', pr_enabled := en'\<rparr> = between std k en' stk'"
  "(between std k en stk)\<lparr>pr_template := k'\<rparr> = between std k' en stk"
  by (simp_all add: between_def)

definition start_ok :: "nat \<Rightarrow> string \<Rightarrow> bool" where
  "start_ok std x \<longleftrightarrow> std = 0 \<or> std = 1 \<and> (\<exists>c \<in> set x. \<not> isspace c)"

lemma start_ok_0 [simp]: "start_ok 0 x"
  by (simp add: start_ok_def)

text \<open>The tag of a variable: where it ends, and what the second \<open>switch\<close> sees of it.\<close>

lemma next_tag_var:
  assumes "t = pre @ x @ print_tag k n @ post" and "plain x" and "name_ok n" and "length t < 2 ^ 63"
    and "start_ok std x"
  obtains tg where "tg_name tg = n" and "tg_c tg \<notin> set ''>!=^#/''" and "tg_c tg = CHR ''&'' \<longleftrightarrow> k \<noteq> Escaped"
    and "next_tag iw [] t (between std (length pre) en stk) st =
      (if en then (case emit_text iw x st of (rc, st1) \<Rightarrow> if rc < 0 then (Inl rc, st1)
          else (Inr (tg, between 0 (length (pre @ x @ print_tag k n)) en stk), st1))
       else (Inr (tg, between 0 (length (pre @ x @ print_tag k n)) en stk), st))"
proof (cases k)
  case Escaped
  obtain d m where n: "n = d # m" "d \<notin> set '':!={&^#/>''" using name_ok_ends [OF assms(3)] by blast
  have t: "t = pre @ x @ ''{{'' @ n @ ''}}'' @ post" "t = (pre @ x @ ''{{'') @ n @ ''}}'' @ post"
    using assms(1) Escaped by simp_all
  show ?thesis
    using next_tag_plain [OF t(1) assms(2) name_ok_brace [OF assms(3)], of iw _ std en stk st]
      parse_tag_name [OF assms(3) t(2) assms(4)] assms(5) n Escaped
    by (intro that [of "tag_of d (length (pre @ x @ ''{{'')) n (length (pre @ x @ print_tag k n)) 0"])
       (auto simp: start_ok_def split: prod.splits)
next
  case Ampersand
  have t: "t = pre @ x @ ''{{'' @ (''&'' @ n) @ ''}}'' @ post"
    "t = (pre @ x @ ''{{'') @ ''&'' @ n @ ''}}'' @ post"
    using assms(1) Ampersand by simp_all
  have "CHR ''}'' \<notin> set (''&'' @ n)" using assms(3) by simp
  from next_tag_plain [OF t(1) assms(2) this, of iw _ std en stk st]
    parse_tag_ampersand [OF assms(3) t(2) assms(4)] assms(5) Ampersand
  show ?thesis
    by (intro that [of "tag_of (CHR ''&'') (Suc (length (pre @ x @ ''{{''))) n
          (length (pre @ x @ print_tag k n)) 0"])
       (auto simp: start_ok_def split: prod.splits)
next
  case Triple
  have t: "t = pre @ x @ ''{{'' @ (''{'' @ n) @ ''}}'' @ ''}'' @ post"
    "t = (pre @ x @ ''{{'') @ ''{'' @ n @ ''}}}'' @ post"
    using assms(1) Triple by simp_all
  have "CHR ''}'' \<notin> set (''{'' @ n)" using assms(3) by simp
  from next_tag_plain [OF t(1) assms(2) this, of iw _ std en stk st]
    parse_tag_triple [OF assms(3) t(2) assms(4)] assms(5) Triple
  show ?thesis
    by (intro that [of "tag_of (CHR ''&'') (Suc (length (pre @ x @ ''{{''))) n
          (length (pre @ x @ print_tag k n)) 0"])
       (auto simp: start_ok_def split: prod.splits)
qed

lemma next_tag_section:
  assumes t: "t = pre @ x @ ''{{'' @ d # n @ ''}}'' @ post" and "plain x" and "name_ok n"
    and "length t < 2 ^ 63" and "d \<in> set ''#^/''" and "start_ok std x"
  shows "next_tag iw [] t (between std (length pre) en stk) st =
      (let tg = tag_of d (Suc (length (pre @ x @ ''{{''))) n (length (pre @ x @ ''{{'' @ d # n @ ''}}'')) 0
       in if en then (case emit_text iw x st of (rc, st1) \<Rightarrow> if rc < 0 then (Inl rc, st1)
            else (Inr (tg, between 0 (tg_template tg) en stk), st1))
          else (Inr (tg, between 0 (tg_template tg) en stk), st))"
proof -
  have t1: "t = pre @ x @ ''{{'' @ (d # n) @ ''}}'' @ post" "t = (pre @ x @ ''{{'') @ d # n @ ''}}'' @ post"
    using t by simp_all
  let ?tg = "tag_of d (Suc (length (pre @ x @ ''{{''))) n (length (pre @ x @ ''{{'' @ d # n @ ''}}'')) 0"
  have brace: "CHR ''}'' \<notin> set (d # n)" using assms(3,5) by auto
  have parse: "parse_tag (iw_flags iw) t ''}}'' (length (pre @ x @ ''{{''))
      (length (pre @ x @ ''{{'' @ d # n)) 0 = Inr ?tg"
    using parse_tag_section [OF assms(3) t1(2) assms(4,5), of "iw_flags iw" 0] by simp
  show ?thesis unfolding Let_def
    by (rule next_tag_plain [OF t1(1) assms(2) brace parse _ assms(6) [unfolded start_ok_def]]) simp
qed

section \<open>Steps of the loop\<close>

text \<open>A stack entry of an open section.\<close>

definition sect_of :: "nat \<Rightarrow> nat \<Rightarrow> string \<Rightarrow> bool \<Rightarrow> bool \<Rightarrow> sect" where
  "sect_of pos again n en ent = \<lparr>sc_name = pos, sc_again = again, sc_length = length n,
     sc_enabled = en, sc_entered = ent\<rparr>"

lemma var_step:
  assumes "t = pre @ x @ print_tag k n @ post" and "plain x" and "name_ok n" and "length t < 2 ^ 63"
    and "start_ok std x" and "emit_text iw x st = (rc, st1)" and "0 \<le> rc"
    and "iw_put iw n (k = Escaped) st1 = (rc', st2)" and "0 \<le> rc'"
  shows "loop_step iw [] t (between std (length pre) True stk, st)
    (between 0 (length (pre @ x @ print_tag k n)) True stk, st2)"
proof -
  obtain tg where tg: "tg_name tg = n" "tg_c tg \<notin> set ''>!=^#/''" "tg_c tg = CHR ''&'' \<longleftrightarrow> k \<noteq> Escaped"
    and nt: "next_tag iw [] t (between std (length pre) True stk) st
      = (Inr (tg, between 0 (length (pre @ x @ print_tag k n)) True stk), st1)"
    by (rule next_tag_var [OF assms(1-5), of iw True stk st]) (simp add: assms(6,7) linorder_not_less)
  have "exec_tag iw t tg (between 0 (length (pre @ x @ print_tag k n)) True stk) st1
      = (Inr (between 0 (length (pre @ x @ print_tag k n)) True stk), st2)"
    using tg assms(3,8,9) by (cases "k = Escaped") (simp_all add: exec_tag_def)
  then show ?thesis using loop_step.tag [OF nt] tg(2) by simp
qed

lemma var_step_disabled:
  assumes "t = pre @ x @ print_tag k n @ post" and "plain x" and "name_ok n" and "length t < 2 ^ 63"
  shows "loop_step iw [] t (between 0 (length pre) False stk, st)
    (between 0 (length (pre @ x @ print_tag k n)) False stk, st)"
proof -
  obtain tg where tg: "tg_c tg \<notin> set ''>!=^#/''"
    and nt: "next_tag iw [] t (between 0 (length pre) False stk) st
      = (Inr (tg, between 0 (length (pre @ x @ print_tag k n)) False stk), st)"
    by (rule next_tag_var [OF assms(1-4) start_ok_0, of iw False stk st]) simp
  have "exec_tag iw t tg (between 0 (length (pre @ x @ print_tag k n)) False stk) st
      = (Inr (between 0 (length (pre @ x @ print_tag k n)) False stk), st)"
    using tg by (simp add: exec_tag_def)
  then show ?thesis using loop_step.tag [OF nt] tg by simp
qed

text \<open>Opening and closing a section: \<open>k\<close> is the position after the tag.\<close>

lemma open_step:
  assumes t: "t = pre @ x @ ''{{'' @ d # n @ ''}}'' @ post" and "plain x" and "name_ok n"
    and "length t < 2 ^ 63" and "d \<in> set ''#^''" and "start_ok std x" and "length stk < MUSTACH_MAX_DEPTH"
    and k: "k = length (pre @ x @ ''{{'' @ d # n @ ''}}'')"
    and "emit_text iw x st = (rc, s, f)" and "0 \<le> rc" and "iw_enter iw n s = (rc', s1)" and "0 \<le> rc'"
  shows "loop_step iw [] t (between std (length pre) True stk, st)
    (between 0 k ((d = CHR ''#'') \<noteq> (rc' = 0))
       (sect_of (Suc (length (pre @ x @ ''{{''))) k n True (rc' \<noteq> 0) # stk), s1, f)"
proof -
  have d: "d \<in> set ''#^/''" using assms(5) by auto
  let ?tg = "tag_of d (Suc (length (pre @ x @ ''{{''))) n k 0"
  have nt: "next_tag iw [] t (between std (length pre) True stk) st = (Inr (?tg, between 0 k True stk), s, f)"
    using next_tag_section [OF t assms(2-4) d assms(6), of iw True stk st] assms(9,10) k
    by (simp add: Let_def)
  have "exec_tag iw t ?tg (between 0 k True stk) (s, f)
      = (Inr (between 0 k ((d = CHR ''#'') \<noteq> (rc' = 0))
            (sect_of (Suc (length (pre @ x @ ''{{''))) k n True (rc' \<noteq> 0) # stk)), s1, f)"
    using assms(3,5,7,11,12) by (auto simp: exec_tag_def begin_section_def sect_of_def)
  then show ?thesis using loop_step.tag [OF nt] assms(5) by auto
qed

lemma open_step_disabled:
  assumes t: "t = pre @ x @ ''{{'' @ d # n @ ''}}'' @ post" and "plain x" and "name_ok n"
    and "length t < 2 ^ 63" and "d \<in> set ''#^''" and "length stk < MUSTACH_MAX_DEPTH"
    and k: "k = length (pre @ x @ ''{{'' @ d # n @ ''}}'')"
  shows "loop_step iw [] t (between 0 (length pre) False stk, st)
    (between 0 k False (sect_of (Suc (length (pre @ x @ ''{{''))) k n False False # stk), st)"
proof -
  have d: "d \<in> set ''#^/''" using assms(5) by auto
  let ?tg = "tag_of d (Suc (length (pre @ x @ ''{{''))) n k 0"
  obtain s f where st: "st = (s, f)" by force
  have nt: "next_tag iw [] t (between 0 (length pre) False stk) st = (Inr (?tg, between 0 k False stk), st)"
    using next_tag_section [OF t assms(2-4) d start_ok_0, of iw False stk st] k by (simp add: Let_def)
  have "exec_tag iw t ?tg (between 0 k False stk) st
      = (Inr (between 0 k False (sect_of (Suc (length (pre @ x @ ''{{''))) k n False False # stk)), st)"
    using assms(5,6) st by (auto simp: exec_tag_def begin_section_def sect_of_def)
  then show ?thesis using loop_step.tag [OF nt] assms(5) by auto
qed

lemma exec_close:
  assumes "name_ok n" and "substr t pos (length n) = n"
  shows "exec_tag iw t (tag_of (CHR ''/'') q n k 0) (between 0 k en (sect_of pos again n sen ent # stk)) (s, f)
    = (case (if en \<and> ent then iw_next iw s else (0, s)) of (rc, s1) \<Rightarrow>
         if rc < 0 then (Inl rc, s1, f)
         else if rc \<noteq> 0 then (Inr (between 0 again en (sect_of pos again n sen ent # stk)), s1, f)
         else (Inr (between 0 k sen stk), if sen \<and> ent then snd (iw_leave iw s1) else s1, f))"
  using assms by (simp add: exec_tag_def end_section_def sect_of_def split: prod.splits)

lemma close_next_tag:
  assumes t: "t = pre @ y @ ''{{/'' @ n @ ''}}'' @ post" and "plain y" and "name_ok n"
    and "length t < 2 ^ 63" and "k = length (pre @ y @ ''{{/'' @ n @ ''}}'')"
  obtains q where "next_tag iw [] t (between 0 (length pre) en stk) st =
    (if en then (case emit_text iw y st of (rc, st1) \<Rightarrow> if rc < 0 then (Inl rc, st1)
        else (Inr (tag_of (CHR ''/'') q n k 0, between 0 k en stk), st1))
     else (Inr (tag_of (CHR ''/'') q n k 0, between 0 k en stk), st))"
proof -
  have t1: "t = pre @ y @ ''{{'' @ CHR ''/'' # n @ ''}}'' @ post" using t by simp
  have d: "CHR ''/'' \<in> set ''#^/''" by simp
  have k: "length (pre @ y @ ''{{'' @ CHR ''/'' # n @ ''}}'') = k" using assms(5) by simp
  show ?thesis
    by (rule that, rule trans [OF next_tag_section [OF t1 assms(2-4) d start_ok_0]])
       (simp only: k Let_def tag_of_simps)
qed

text \<open>Closing ends the section, or goes round it again.\<close>

lemma close_step:
  assumes t: "t = pre @ y @ ''{{/'' @ n @ ''}}'' @ post" and "plain y" and "name_ok n"
    and "length t < 2 ^ 63" and k: "k = length (pre @ y @ ''{{/'' @ n @ ''}}'')"
    and sub: "substr t pos (length n) = n"
    and "emit_text iw y st = (rc, s, f)" and "0 \<le> rc"
    and nxt: "(if ent then iw_next iw s else (0, s)) = (rc', s1)" and "0 \<le> rc'"
  shows "loop_step iw [] t (between 0 (length pre) True (sect_of pos again n True ent # stk), st)
    (if rc' = 0 then (between 0 k True stk, if ent then snd (iw_leave iw s1) else s1, f)
     else (between 0 again True (sect_of pos again n True ent # stk), s1, f))"
proof -
  obtain q where nt: "next_tag iw [] t (between 0 (length pre) True (sect_of pos again n True ent # stk)) st
      = (Inr (tag_of (CHR ''/'') q n k 0, between 0 k True (sect_of pos again n True ent # stk)), s, f)"
    by (rule close_next_tag [OF t assms(2-4) k, of iw True "sect_of pos again n True ent # stk" st])
       (simp add: assms(7,8) linorder_not_less)
  show ?thesis
    using loop_step.tag [OF nt] exec_close [OF assms(3) sub, of iw q k True again True ent stk s f] nxt assms(10)
    by (auto split: if_splits)
qed

lemma close_step_disabled:
  assumes t: "t = pre @ y @ ''{{/'' @ n @ ''}}'' @ post" and "plain y" and "name_ok n"
    and "length t < 2 ^ 63" and k: "k = length (pre @ y @ ''{{/'' @ n @ ''}}'')"
    and sub: "substr t pos (length n) = n"
  shows "loop_step iw [] t (between 0 (length pre) False (sect_of pos again n sen ent # stk), s, f)
    (between 0 k sen stk, if sen \<and> ent then snd (iw_leave iw s) else s, f)"
proof -
  obtain q where nt: "next_tag iw [] t (between 0 (length pre) False (sect_of pos again n sen ent # stk)) (s, f)
      = (Inr (tag_of (CHR ''/'') q n k 0, between 0 k False (sect_of pos again n sen ent # stk)), s, f)"
    by (rule close_next_tag [OF t assms(2-4) k, of iw False "sect_of pos again n sen ent # stk" "(s, f)"]) simp
  show ?thesis
    using loop_step.tag [OF nt] exec_close [OF assms(3) sub, of iw q k False again sen ent stk s f] by simp
qed

section \<open>The loop takes the steps of the tree\<close>

text \<open>Items of a section that is not rendered: they are read and nothing else happens.\<close>

lemma skipped_item_items:
  "item_ok i \<Longrightarrow> t = pre @ print_item i @ post \<Longrightarrow> length t < 2 ^ 63
     \<Longrightarrow> length stk + item_depth i \<le> MUSTACH_MAX_DEPTH
     \<Longrightarrow> (loop_step iw [] t)\<^sup>*\<^sup>* (between 0 (length pre) False stk, st)
           (between 0 (length (pre @ print_item i)) False stk, st)"
  "items_ok is \<Longrightarrow> t = pre @ print_items is @ post \<Longrightarrow> length t < 2 ^ 63
     \<Longrightarrow> length stk + items_depth is \<le> MUSTACH_MAX_DEPTH
     \<Longrightarrow> (loop_step iw [] t)\<^sup>*\<^sup>* (between 0 (length pre) False stk, st)
           (between 0 (length (pre @ print_items is)) False stk, st)"
proof (induction i and "is" arbitrary: pre post stk and pre post stk rule: item_ok_items_ok.induct)
  case (1 x k n)
  then show ?case
    using var_step_disabled [of t pre x k n post iw stk st] by simp
next
  case (2 x neg n body y)
  let ?d = "if neg then CHR ''^'' else CHR ''#''"
  let ?sc = "sect_of (Suc (length (pre @ x @ ''{{''))) (length (pre @ x @ ''{{'' @ ?d # n @ ''}}'')) n False False"
  let ?pre1 = "pre @ x @ ''{{'' @ ?d # n @ ''}}''" and ?close = "''{{/'' @ n @ ''}}''"
  have ok: "plain x" "name_ok n" "items_ok body" "plain y" using 2 by auto
  have len: "length stk < 256" "length (?sc # stk) + items_depth body \<le> 256" using 2 by auto
  have t: "t = pre @ x @ ''{{'' @ ?d # n @ ''}}'' @ print_items body @ y @ ?close @ post"
    "t = ?pre1 @ print_items body @ y @ ?close @ post"
    "t = (?pre1 @ print_items body) @ y @ ''{{/'' @ n @ ''}}'' @ post"
    "t = (pre @ x @ ''{{'' @ [?d]) @ n @ ''}}'' @ print_items body @ y @ ?close @ post"
    using 2 by auto
  have sub: "substr t (Suc (length (pre @ x @ ''{{''))) (length n) = n"
    using substr_append [of "pre @ x @ ''{{'' @ [?d]" n] t(4) by simp
  obtain s f where st: "st = (s, f)" by force
  have a: "loop_step iw [] t (between 0 (length pre) False stk, st) (between 0 (length ?pre1) False (?sc # stk), st)"
    by (rule open_step_disabled [OF t(1) ok(1,2) 2(4) _ len(1)]) simp_all
  have b: "(loop_step iw [] t)\<^sup>*\<^sup>* (between 0 (length ?pre1) False (?sc # stk), st)
      (between 0 (length (?pre1 @ print_items body)) False (?sc # stk), st)"
    by (rule 2(1) [OF ok(3) t(2) 2(4) len(2)])
  have c: "loop_step iw [] t (between 0 (length (?pre1 @ print_items body)) False (?sc # stk), s, f)
      (between 0 (length (pre @ print_item (Sec x neg n body y))) False stk,
         if False \<and> False then snd (iw_leave iw s) else s, f)"
    by (rule close_step_disabled [OF t(3) ok(4,2) 2(4) _ sub]) simp
  have c': "loop_step iw [] t (between 0 (length (?pre1 @ print_items body)) False (?sc # stk), st)
      (between 0 (length (pre @ print_item (Sec x neg n body y))) False stk, st)"
    using c unfolding st by (simp only: simp_thms if_False)
  note steps = converse_rtranclp_into_rtranclp [OF a b]
  show ?case using steps c' by (rule rtranclp.rtrancl_into_rtrancl)
next
  case 3
  then show ?case by simp
next
  case (4 i "is")
  have t: "t = pre @ print_item i @ print_items is @ post"
    "t = (pre @ print_item i) @ print_items is @ post" using 4 by auto
  have "(loop_step iw [] t)\<^sup>*\<^sup>* (between 0 (length pre) False stk, st)
      (between 0 (length (pre @ print_item i)) False stk, st)"
    by (rule 4(1) [OF _ t(1)]) (use 4 in auto)
  moreover have "(loop_step iw [] t)\<^sup>*\<^sup>* (between 0 (length (pre @ print_item i)) False stk, st)
      (between 0 (length ((pre @ print_item i) @ print_items is)) False stk, st)"
    by (rule 4(2) [OF _ t(2)]) (use 4 in auto)
  ultimately show ?case by simp
qed

text \<open>A section that has been opened, up to its body.\<close>

lemma enter_section:
  assumes t: "t = pre @ print_item (Sec x neg n body y) @ post" and "item_ok (Sec x neg n body y)"
    and len: "length t < 2 ^ 63" and "length stk < MUSTACH_MAX_DEPTH"
    and emit: "emit_text iw x st = (rc, s, f)" and "0 \<le> rc"
    and enter: "iw_enter iw n s = (rc', s1)" and "0 \<le> rc'"
  obtains pre1 pos where "t = pre1 @ print_items body @ y @ ''{{/'' @ n @ ''}}'' @ post"
    and "substr t pos (length n) = n"
    and "length (pre @ print_item (Sec x neg n body y))
      = length (pre1 @ print_items body @ y @ ''{{/'' @ n @ ''}}'')"
    and "loop_step iw [] t (between 0 (length pre) True stk, st)
      (between 0 (length pre1) (neg = (rc' = 0)) (sect_of pos (length pre1) n True (rc' \<noteq> 0) # stk), s1, f)"
proof -
  let ?d = "if neg then CHR ''^'' else CHR ''#''"
  let ?pre1 = "pre @ x @ ''{{'' @ ?d # n @ ''}}''"
  have t1: "t = pre @ x @ ''{{'' @ ?d # n @ ''}}'' @ print_items body @ y @ ''{{/'' @ n @ ''}}'' @ post"
    "t = (pre @ x @ ''{{'' @ [?d]) @ n @ ''}}'' @ print_items body @ y @ ''{{/'' @ n @ ''}}'' @ post"
    using t by auto
  have d: "?d \<in> set ''#^''" "(?d = CHR ''#'') = (\<not> neg)" by auto
  have ok: "plain x" "name_ok n" using assms(2) by auto
  have sub: "substr t (Suc (length (pre @ x @ ''{{''))) (length n) = n"
    using substr_append [of "pre @ x @ ''{{'' @ [?d]" n] t1(2) by simp
  from open_step [OF t1(1) ok len d(1) start_ok_0 assms(4) refl emit assms(6) enter assms(8)]
  have "loop_step iw [] t (between 0 (length pre) True stk, st)
      (between 0 (length ?pre1) (neg = (rc' = 0))
        (sect_of (Suc (length (pre @ x @ ''{{''))) (length ?pre1) n True (rc' \<noteq> 0) # stk), s1, f)"
    unfolding d(2) by (cases neg) simp_all
  then show ?thesis by (intro that [of ?pre1 "Suc (length (pre @ x @ ''{{''))"]) (use t sub in auto)
qed

lemma skip_section:
  assumes t: "t = pre @ print_items body @ y @ ''{{/'' @ n @ ''}}'' @ post"
    and ok: "items_ok body" "plain y" "name_ok n" and len: "length t < 2 ^ 63"
    and depth: "Suc (length stk) + items_depth body \<le> MUSTACH_MAX_DEPTH"
    and sub: "substr t pos (length n) = n"
  shows "(loop_step iw [] t)\<^sup>*\<^sup>* (between 0 (length pre) False (sect_of pos again n True ent # stk), s, f)
    (between 0 (length (pre @ print_items body @ y @ ''{{/'' @ n @ ''}}'')) True stk,
       if ent then snd (iw_leave iw s) else s, f)"
proof -
  let ?stk = "sect_of pos again n True ent # stk"
  have t1: "t = (pre @ print_items body) @ y @ ''{{/'' @ n @ ''}}'' @ post" using t by simp
  have len1: "length ?stk + items_depth body \<le> 256" using depth by simp
  have a: "(loop_step iw [] t)\<^sup>*\<^sup>* (between 0 (length pre) False ?stk, s, f)
      (between 0 (length (pre @ print_items body)) False ?stk, s, f)"
    by (rule skipped_item_items(2) [OF ok(1) t len len1])
  have b: "loop_step iw [] t (between 0 (length (pre @ print_items body)) False ?stk, s, f)
      (between 0 (length (pre @ print_items body @ y @ ''{{/'' @ n @ ''}}'')) True stk,
         if True \<and> ent then snd (iw_leave iw s) else s, f)"
    by (rule close_step_disabled [OF t1 ok(2,3) len _ sub]) simp
  show ?thesis using a b unfolding simp_thms by (rule rtranclp.rtrancl_into_rtrancl)
qed

lemma section_parts:
  assumes "items_ok (Sec x neg n body y # is)" and "t = pre @ print_items (Sec x neg n body y # is) @ post"
    and "length stk + items_depth (Sec x neg n body y # is) \<le> MUSTACH_MAX_DEPTH"
  shows "t = pre @ print_item (Sec x neg n body y) @ print_items is @ post"
    "item_ok (Sec x neg n body y)" "length stk < MUSTACH_MAX_DEPTH"
    "Suc (length stk) + items_depth body \<le> MUSTACH_MAX_DEPTH"
    "t = (pre @ print_item (Sec x neg n body y)) @ print_items is @ post"
    "items_ok is" "length stk + items_depth is \<le> MUSTACH_MAX_DEPTH"
    "items_ok body" "plain y" "name_ok n"
  using assms by simp_all

lemma section_run:
  assumes ok: "items_ok (Sec x neg n body y # is)" and t: "t = pre @ print_items (Sec x neg n body y # is) @ post"
    and depth: "length stk + items_depth (Sec x neg n body y # is) \<le> MUSTACH_MAX_DEPTH"
    and len: "length t < 2 ^ 63" and "emit_text iw x st = (rc, s, f)" and "0 \<le> rc"
    and "iw_enter iw n s = (rc', s1)" and "0 \<le> rc'"
    and inside: "\<And>pre1 pos post1. t = pre1 @ print_items body @ y @ ''{{/'' @ n @ ''}}'' @ post1 \<Longrightarrow>
      substr t pos (length n) = n \<Longrightarrow>
      (loop_step iw [] t)\<^sup>*\<^sup>*
        (between 0 (length pre1) (neg = (rc' = 0)) (sect_of pos (length pre1) n True (rc' \<noteq> 0) # stk), s1, f)
        (between 0 (length (pre1 @ print_items body @ y @ ''{{/'' @ n @ ''}}'')) True stk, st2)"
    and rest: "\<And>pre1. t = pre1 @ print_items is @ post \<Longrightarrow>
      (loop_step iw [] t)\<^sup>*\<^sup>* (between 0 (length pre1) True stk, st2)
        (between 0 (length (pre1 @ print_items is)) True stk, st3)"
  shows "(loop_step iw [] t)\<^sup>*\<^sup>* (between 0 (length pre) True stk, st)
    (between 0 (length (pre @ print_items (Sec x neg n body y # is))) True stk, st3)"
proof -
  note sec = section_parts [OF ok t depth]
  obtain pre1 pos where p: "t = pre1 @ print_items body @ y @ ''{{/'' @ n @ ''}}'' @ print_items is @ post"
    "substr t pos (length n) = n"
    "length (pre @ print_item (Sec x neg n body y)) = length (pre1 @ print_items body @ y @ ''{{/'' @ n @ ''}}'')"
    "loop_step iw [] t (between 0 (length pre) True stk, st)
      (between 0 (length pre1) (neg = (rc' = 0)) (sect_of pos (length pre1) n True (rc' \<noteq> 0) # stk), s1, f)"
    by (rule enter_section [OF sec(1,2) len sec(3) assms(5-8)])
  have "(loop_step iw [] t)\<^sup>*\<^sup>* (between 0 (length pre) True stk, st)
      (between 0 (length (pre @ print_item (Sec x neg n body y))) True stk, st2)"
    unfolding p(3) by (rule converse_rtranclp_into_rtranclp [OF p(4) inside [OF p(1,2)]])
  moreover have "(loop_step iw [] t)\<^sup>*\<^sup>* (between 0 (length (pre @ print_item (Sec x neg n body y))) True stk, st2)
      (between 0 (length ((pre @ print_item (Sec x neg n body y)) @ print_items is)) True stk, st3)"
    by (rule rest [OF sec(5)])
  ultimately show ?thesis by simp
qed

text \<open>A body that is rendered, and its closing tag.\<close>

lemma body_step:
  assumes t: "t = pre @ print_items body @ y @ ''{{/'' @ n @ ''}}'' @ post"
    and ok: "plain y" "name_ok n" and len: "length t < 2 ^ 63" and sub: "substr t pos (length n) = n"
    and body: "(loop_step iw [] t)\<^sup>*\<^sup>* (between 0 (length pre) True (sect_of pos again n True ent # stk), st)
      (between 0 (length (pre @ print_items body)) True (sect_of pos again n True ent # stk), st1)"
    and emit: "emit_text iw y st1 = (rc, s, f)" "0 \<le> rc"
    and nxt: "(if ent then iw_next iw s else (0, s)) = (rc', s1)" "0 \<le> rc'"
  shows "(loop_step iw [] t)\<^sup>*\<^sup>* (between 0 (length pre) True (sect_of pos again n True ent # stk), st)
    (if rc' = 0 then (between 0 (length (pre @ print_items body @ y @ ''{{/'' @ n @ ''}}'')) True stk,
                      if ent then snd (iw_leave iw s1) else s1, f)
     else (between 0 again True (sect_of pos again n True ent # stk), s1, f))"
proof -
  have t1: "t = (pre @ print_items body) @ y @ ''{{/'' @ n @ ''}}'' @ post" using t by simp
  have k: "length (pre @ print_items body @ y @ ''{{/'' @ n @ ''}}'')
      = length ((pre @ print_items body) @ y @ ''{{/'' @ n @ ''}}'')" by simp
  from close_step [OF t1 ok len k sub emit nxt] body show ?thesis by (rule rtranclp.rtrancl_into_rtrancl [rotated])
qed

lemma renders_rounds_loop:
  "renders iw is st st' \<Longrightarrow> items_ok is \<Longrightarrow> t = pre @ print_items is @ post \<Longrightarrow> length t < 2 ^ 63
     \<Longrightarrow> length stk + items_depth is \<le> MUSTACH_MAX_DEPTH
     \<Longrightarrow> (loop_step iw [] t)\<^sup>*\<^sup>* (between 0 (length pre) True stk, st)
           (between 0 (length (pre @ print_items is)) True stk, st')"
  "rounds iw body y st st' \<Longrightarrow> items_ok body \<Longrightarrow> plain y \<Longrightarrow> name_ok n
     \<Longrightarrow> t = pre @ print_items body @ y @ ''{{/'' @ n @ ''}}'' @ post \<Longrightarrow> length t < 2 ^ 63
     \<Longrightarrow> Suc (length stk) + items_depth body \<le> MUSTACH_MAX_DEPTH \<Longrightarrow> substr t pos (length n) = n
     \<Longrightarrow> (loop_step iw [] t)\<^sup>*\<^sup>* (between 0 (length pre) True (sect_of pos (length pre) n True True # stk), st)
           (between 0 (length (pre @ print_items body @ y @ ''{{/'' @ n @ ''}}'')) True stk, st')"
proof (induction arbitrary: pre post stk and pre post stk n pos rule: renders_rounds.inducts)
  case (none st)
  then show ?case by simp
next
  case (var x st rc st1 n k rc' st2 "is" st3)
  have t: "t = pre @ x @ print_tag k n @ print_items is @ post"
    "t = (pre @ x @ print_tag k n) @ print_items is @ post"
    using \<open>t = pre @ print_items (Var x k n # is) @ post\<close> by simp_all
  have ok: "plain x" "name_ok n" "items_ok is" using \<open>items_ok (Var x k n # is)\<close> by simp_all
  have depth: "length stk + items_depth is \<le> 256"
    using \<open>length stk + items_depth (Var x k n # is) \<le> 256\<close> by simp
  have a: "loop_step iw [] t (between 0 (length pre) True stk, st)
      (between 0 (length (pre @ x @ print_tag k n)) True stk, st2)"
    by (rule var_step [OF t(1) ok(1,2) \<open>length t < 2 ^ 63\<close> start_ok_0 var(1) \<open>0 \<le> rc\<close> var(2) \<open>0 \<le> rc'\<close>])
  have b: "(loop_step iw [] t)\<^sup>*\<^sup>* (between 0 (length (pre @ x @ print_tag k n)) True stk, st2)
      (between 0 (length ((pre @ x @ print_tag k n) @ print_items is)) True stk, st3)"
    by (rule var(4) [OF ok(3) t(2) \<open>length t < 2 ^ 63\<close> depth])
  show ?case using converse_rtranclp_into_rtranclp [OF a b] by simp
next
  case (absent x st rc s f n s1 "is" st3 body y)
  note sec = section_parts [OF \<open>items_ok (Sec x False n body y # is)\<close> \<open>t = pre @ print_items (Sec x False n body y # is) @ post\<close>
      \<open>length stk + items_depth (Sec x False n body y # is) \<le> 256\<close>] and len = \<open>length t < 2 ^ 63\<close>
  show ?case
  proof (rule section_run [OF \<open>items_ok (Sec x False n body y # is)\<close> \<open>t = pre @ print_items (Sec x False n body y # is) @ post\<close>
        \<open>length stk + items_depth (Sec x False n body y # is) \<le> 256\<close> len absent(1) \<open>0 \<le> rc\<close> absent(2) order_refl])
    fix pre1 pos post1
    assume p: "t = pre1 @ print_items body @ y @ ''{{/'' @ n @ ''}}'' @ post1" "substr t pos (length n) = n"
    show "(loop_step iw [] t)\<^sup>*\<^sup>* (between 0 (length pre1) (False = ((0::int) = 0))
          (sect_of pos (length pre1) n True ((0::int) \<noteq> 0) # stk), s1, f)
        (between 0 (length (pre1 @ print_items body @ y @ ''{{/'' @ n @ ''}}'')) True stk, s1, f)"
      using skip_section [OF p(1) sec(8-10) len sec(4) p(2), of iw "length pre1" False s1 f] by simp
  next
    fix pre1
    assume "t = pre1 @ print_items is @ post"
    then show "(loop_step iw [] t)\<^sup>*\<^sup>* (between 0 (length pre1) True stk, s1, f)
        (between 0 (length (pre1 @ print_items is)) True stk, st3)"
      by (rule absent(4) [OF sec(6) _ len sec(7)])
  qed
next
  case (present x st rc s f n rc' s1 body y st2 "is" st3)
  note sec = section_parts [OF \<open>items_ok (Sec x False n body y # is)\<close> \<open>t = pre @ print_items (Sec x False n body y # is) @ post\<close>
      \<open>length stk + items_depth (Sec x False n body y # is) \<le> 256\<close>] and len = \<open>length t < 2 ^ 63\<close>
  show ?case
  proof (rule section_run [OF \<open>items_ok (Sec x False n body y # is)\<close> \<open>t = pre @ print_items (Sec x False n body y # is) @ post\<close>
        \<open>length stk + items_depth (Sec x False n body y # is) \<le> 256\<close> len present(1) \<open>0 \<le> rc\<close> present(2) less_imp_le [OF \<open>0 < rc'\<close>]])
    fix pre1 pos post1
    assume p: "t = pre1 @ print_items body @ y @ ''{{/'' @ n @ ''}}'' @ post1" "substr t pos (length n) = n"
    show "(loop_step iw [] t)\<^sup>*\<^sup>* (between 0 (length pre1) (False = (rc' = 0))
          (sect_of pos (length pre1) n True (rc' \<noteq> 0) # stk), s1, f)
        (between 0 (length (pre1 @ print_items body @ y @ ''{{/'' @ n @ ''}}'')) True stk, st2)"
      using present(4) [OF sec(8-10) p(1) len sec(4) p(2)] \<open>0 < rc'\<close> by simp
  next
    fix pre1
    assume "t = pre1 @ print_items is @ post"
    then show "(loop_step iw [] t)\<^sup>*\<^sup>* (between 0 (length pre1) True stk, st2)
        (between 0 (length (pre1 @ print_items is)) True stk, st3)"
      by (rule present(6) [OF sec(6) _ len sec(7)])
  qed
next
  case (inverted_present x st rc s f n rc' s1 "is" st3 body y)
  note sec = section_parts [OF \<open>items_ok (Sec x True n body y # is)\<close> \<open>t = pre @ print_items (Sec x True n body y # is) @ post\<close>
      \<open>length stk + items_depth (Sec x True n body y # is) \<le> 256\<close>] and len = \<open>length t < 2 ^ 63\<close>
  show ?case
  proof (rule section_run [OF \<open>items_ok (Sec x True n body y # is)\<close> \<open>t = pre @ print_items (Sec x True n body y # is) @ post\<close>
        \<open>length stk + items_depth (Sec x True n body y # is) \<le> 256\<close> len inverted_present(1) \<open>0 \<le> rc\<close> inverted_present(2) less_imp_le [OF \<open>0 < rc'\<close>]])
    fix pre1 pos post1
    assume p: "t = pre1 @ print_items body @ y @ ''{{/'' @ n @ ''}}'' @ post1" "substr t pos (length n) = n"
    show "(loop_step iw [] t)\<^sup>*\<^sup>* (between 0 (length pre1) (True = (rc' = 0))
          (sect_of pos (length pre1) n True (rc' \<noteq> 0) # stk), s1, f)
        (between 0 (length (pre1 @ print_items body @ y @ ''{{/'' @ n @ ''}}'')) True stk, snd (iw_leave iw s1), f)"
      using skip_section [OF p(1) sec(8-10) len sec(4) p(2), of iw "length pre1" True s1 f] \<open>0 < rc'\<close>
      by simp
  next
    fix pre1
    assume "t = pre1 @ print_items is @ post"
    then show "(loop_step iw [] t)\<^sup>*\<^sup>* (between 0 (length pre1) True stk, snd (iw_leave iw s1), f)
        (between 0 (length (pre1 @ print_items is)) True stk, st3)"
      by (rule inverted_present(4) [OF sec(6) _ len sec(7)])
  qed
next
  case (inverted_absent x st rc s f n s1 body st2 y rc2 st3 "is" st4)
  obtain s3 f3 where st3: "st3 = (s3, f3)" by force
  note emit = inverted_absent(5) [unfolded st3]
  have depth: "length (sect_of pos again n True False # stk) + items_depth body \<le> 256" for pos again
    using \<open>length stk + items_depth (Sec x True n body y # is) \<le> 256\<close> by simp
  note sec = section_parts [OF \<open>items_ok (Sec x True n body y # is)\<close> \<open>t = pre @ print_items (Sec x True n body y # is) @ post\<close>
      \<open>length stk + items_depth (Sec x True n body y # is) \<le> 256\<close>] and len = \<open>length t < 2 ^ 63\<close>
  show ?case
  proof (rule section_run [OF \<open>items_ok (Sec x True n body y # is)\<close> \<open>t = pre @ print_items (Sec x True n body y # is) @ post\<close>
        \<open>length stk + items_depth (Sec x True n body y # is) \<le> 256\<close> len inverted_absent(1) \<open>0 \<le> rc\<close> inverted_absent(2) order_refl])
    fix pre1 pos post1
    assume p: "t = pre1 @ print_items body @ y @ ''{{/'' @ n @ ''}}'' @ post1" "substr t pos (length n) = n"
    show "(loop_step iw [] t)\<^sup>*\<^sup>* (between 0 (length pre1) (True = ((0::int) = 0))
          (sect_of pos (length pre1) n True ((0::int) \<noteq> 0) # stk), s1, f)
        (between 0 (length (pre1 @ print_items body @ y @ ''{{/'' @ n @ ''}}'')) True stk, st3)"
      using body_step [OF p(1) sec(9,10) len p(2) inverted_absent(4) [OF sec(8) p(1) len depth] emit
          \<open>0 \<le> rc2\<close>] st3 by simp
  next
    fix pre1
    assume "t = pre1 @ print_items is @ post"
    then show "(loop_step iw [] t)\<^sup>*\<^sup>* (between 0 (length pre1) True stk, st3)
        (between 0 (length (pre1 @ print_items is)) True stk, st4)"
      by (rule inverted_absent(7) [OF sec(6) _ len sec(7)])
  qed
next
  case (last_round body st st1 y rc s f s1)
  note t = \<open>t = pre @ print_items body @ y @ ''{{/'' @ n @ ''}}'' @ post\<close> and len = \<open>length t < 2 ^ 63\<close>
  have depth: "length (sect_of pos again n True True # stk) + items_depth body \<le> 256" for again
    using \<open>Suc (length stk) + items_depth body \<le> 256\<close> by simp
  show ?case
    using body_step [OF t \<open>plain y\<close> \<open>name_ok n\<close> len \<open>substr t pos (length n) = n\<close>
        last_round(2) [OF \<open>items_ok body\<close> t len depth] last_round(3) \<open>0 \<le> rc\<close>, where rc' = 0 and ?s1.0 = s1]
      last_round(4) by simp
next
  case (next_round body st st1 y rc s f rc' s1 st2)
  note t = \<open>t = pre @ print_items body @ y @ ''{{/'' @ n @ ''}}'' @ post\<close> and len = \<open>length t < 2 ^ 63\<close>
  have depth: "length (sect_of pos again n True True # stk) + items_depth body \<le> 256" for again
    using \<open>Suc (length stk) + items_depth body \<le> 256\<close> by simp
  have a: "(loop_step iw [] t)\<^sup>*\<^sup>* (between 0 (length pre) True (sect_of pos (length pre) n True True # stk), st)
      (between 0 (length pre) True (sect_of pos (length pre) n True True # stk), s1, f)"
    using body_step [OF t \<open>plain y\<close> \<open>name_ok n\<close> len \<open>substr t pos (length n) = n\<close>
        next_round(2) [OF \<open>items_ok body\<close> t len depth] next_round(3) \<open>0 \<le> rc\<close>, where rc' = rc' and ?s1.0 = s1]
      next_round(4) \<open>0 < rc'\<close> by simp
  show ?case
    by (rule rtranclp_trans [OF a next_round(6) [OF \<open>items_ok body\<close> \<open>plain y\<close> \<open>name_ok n\<close> t len
          \<open>Suc (length stk) + items_depth body \<le> 256\<close> \<open>substr t pos (length n) = n\<close>]])
qed

section \<open>Properties\<close>

text \<open>The first tag, and the text after the last one.\<close>

lemma next_tag_first:
  assumes t: "t = x @ ''{{'' @ post" and "plain x" and "\<exists>c \<in> set x. \<not> isspace c"
  shows "next_tag iw [] t proc_init st = next_tag iw [] t (between 0 0 True []) st"
proof -
  have p: "proc_init = between 1 0 True []" by (simp add: proc_init_def between_def)
  have "scan_open iw [] t 0 (between k 0 True []) st = (Inr (length x, between 0 0 True []), st)"
    if "k = 0 \<or> k = 1" for k
    using scan_open_plain [of "between k 0 True []" x t "[]" post iw "[]" st] that assms
    by (auto simp: between_def)
  from this [of 0] this [of 1] show ?thesis
    unfolding p by (simp add: next_tag_def)
qed

lemma final_text:
  assumes t: "t = pre @ z" and "plain z" and "iw_emit iw z False st = (rc, st')" and "0 \<le> rc"
  shows "next_tag iw [] t (between 0 (length pre) True []) st = (Inl MUSTACH_OK, st')"
proof -
  have "scan_open iw [] t (length (pre @ z1)) (between 0 (length pre) True []) st = (Inl MUSTACH_OK, st')"
    if "z = z1 @ z2" for z1 z2
    using that
  proof (induction z2 arbitrary: z1)
    case Nil
    then show ?case
      using assms by (subst scan_open.simps; cases z1) (simp_all add: emit_line_def between_def substr_def)
  next
    case (Cons c z2)
    have c: "c \<noteq> newline" "c \<noteq> CHR ''{''" using assms(2) Cons.prems by (auto simp: plain_def)
    have t1: "t = (pre @ z1) @ c # z2" using t Cons.prems by simp
    have at: "t ! length (pre @ z1) = c" "length (pre @ z1) < length t" unfolding t1 by (simp_all add: nth_append)
    have "\<not> delim_at t ''{{'' (length (pre @ z1))"
      using delim_not_here [of "''{{''" c "pre @ z1" z2] c unfolding t1 by simp
    moreover have "scan_open iw [] t (length (pre @ z1 @ [c])) (between 0 (length pre) True []) st
        = (Inl MUSTACH_OK, st')" using Cons.IH [of "z1 @ [c]"] Cons.prems by simp
    ultimately show ?case
      using at c by (subst scan_open.simps) (simp add: leave_standalone_def between_def)
  qed
  from this [of "[]" z] show ?thesis by (simp add: next_tag_def between_def)
qed

text \<open>The loop from the beginning: the first step is the one from \<open>between\<close>.\<close>

lemma loop_step_first:
  assumes "loop_step iw [] t (p, st) y" and "next_tag iw [] t q st = next_tag iw [] t p st"
  shows "loop_step iw [] t (q, st) y"
  using assms(1)
  by (rule loop_stepE)
     (metis assms(2) loop_step.tag, metis assms(2) loop_step.partial_disabled,
      metis assms(2) loop_step.partial)

lemma print_items_first:
  assumes "items_ok is" and "is \<noteq> []"
  obtains post where "print_items is = lead (hd is) @ ''{{'' @ post" and "plain (lead (hd is))"
proof -
  obtain i js where "is": "is = i # js" using assms(2) by (cases "is") auto
  show ?thesis
  proof (cases i)
    case (Var x k n)
    then show ?thesis using assms(1) "is"
      by (cases k) (intro that [of "drop 2 (print_tag k n) @ print_items js"]; simp)+
  next
    case (Sec x neg n body y)
    then show ?thesis using assms(1) "is"
      by (intro that [of "drop (length x + 2) (print_item i) @ print_items js"]) simp_all
  qed
qed

text \<open>Running the engine on a tree whose rendering succeeds.\<close>

lemma renders_process:
  assumes "renders iw is st st'" and "items_ok is" and "is \<noteq> []"
    and "\<exists>c \<in> set (lead (hd is)). \<not> isspace c" and "items_depth is \<le> MUSTACH_MAX_DEPTH"
    and "plain z" and "iw_emit iw z False st' = (rc, st'')" and "0 \<le> rc"
    and "length (print_items is @ z) < 2 ^ 63"
  shows "\<exists>fuel. process fuel iw [] (print_items is @ z) (length (print_items is @ z)) st
    = Some (MUSTACH_OK, st'')"
proof -
  let ?t = "print_items is @ z"
  obtain post where first: "print_items is = lead (hd is) @ ''{{'' @ post" "plain (lead (hd is))"
    using print_items_first [OF assms(2,3)] .
  have steps: "(loop_step iw [] ?t)\<^sup>*\<^sup>* (between 0 0 True [], st) (between 0 (length (print_items is)) True [], st')"
    using renders_rounds_loop(1) [OF assms(1,2), of ?t "[]" z "[]"] assms(5,9) by simp
  have "between 0 0 True [] \<noteq> between 0 (length (print_items is)) True []"
    using first(1) by (simp add: between_def)
  with steps obtain y where y: "loop_step iw [] ?t (between 0 0 True [], st) y"
      "(loop_step iw [] ?t)\<^sup>*\<^sup>* y (between 0 (length (print_items is)) True [], st')"
    by (auto elim: converse_rtranclpE)
  have "loop_step iw [] ?t (proc_init, st) y"
    by (rule loop_step_first [OF y(1) next_tag_first [OF _ first(2) assms(4)]]) (simp add: first(1))
  then have run: "(loop_step iw [] ?t)\<^sup>*\<^sup>* (proc_init, st) (between 0 (length (print_items is)) True [], st')"
    using y(2) by (rule converse_rtranclp_into_rtranclp)
  have "\<exists>fuel. process_loop fuel iw [] ?t (fst (proc_init, st)) (snd (proc_init, st)) = Some (MUSTACH_OK, st'')"
    by (rule process_loop_steps [OF run], rule exI [of _ "Suc 0"])
       (simp add: final_text [OF refl assms(6-8)])
  moreover have "length ?t \<noteq> 0" using first(1) by simp
  ultimately show ?thesis by (auto simp: process_def)
qed



end
