(* ===== verification/Gfc_Hash.thy ===== *)
theory Gfc_Hash
  imports GW_Prelude
begin

text \<open>
  The hash function of gfc maps, \<open>src/3rd/gfc-0.1.1/src/gfc_map.c\<close>: a table-driven CRC-32, a
  mixing function and a multiplication, on the 64 bits of an \<open>unsigned long\<close>. The CRC is shown
  to be the bitwise one.
\<close>

definition crc32_tab :: "64 word list" where
  "crc32_tab = [
   0x00000000, 0x77073096, 0xee0e612c, 0x990951ba, 0x076dc419, 0x706af48f, 0xe963a535, 0x9e6495a3,
   0x0edb8832, 0x79dcb8a4, 0xe0d5e91e, 0x97d2d988, 0x09b64c2b, 0x7eb17cbd, 0xe7b82d07, 0x90bf1d91,
   0x1db71064, 0x6ab020f2, 0xf3b97148, 0x84be41de, 0x1adad47d, 0x6ddde4eb, 0xf4d4b551, 0x83d385c7,
   0x136c9856, 0x646ba8c0, 0xfd62f97a, 0x8a65c9ec, 0x14015c4f, 0x63066cd9, 0xfa0f3d63, 0x8d080df5,
   0x3b6e20c8, 0x4c69105e, 0xd56041e4, 0xa2677172, 0x3c03e4d1, 0x4b04d447, 0xd20d85fd, 0xa50ab56b,
   0x35b5a8fa, 0x42b2986c, 0xdbbbc9d6, 0xacbcf940, 0x32d86ce3, 0x45df5c75, 0xdcd60dcf, 0xabd13d59,
   0x26d930ac, 0x51de003a, 0xc8d75180, 0xbfd06116, 0x21b4f4b5, 0x56b3c423, 0xcfba9599, 0xb8bda50f,
   0x2802b89e, 0x5f058808, 0xc60cd9b2, 0xb10be924, 0x2f6f7c87, 0x58684c11, 0xc1611dab, 0xb6662d3d,
   0x76dc4190, 0x01db7106, 0x98d220bc, 0xefd5102a, 0x71b18589, 0x06b6b51f, 0x9fbfe4a5, 0xe8b8d433,
   0x7807c9a2, 0x0f00f934, 0x9609a88e, 0xe10e9818, 0x7f6a0dbb, 0x086d3d2d, 0x91646c97, 0xe6635c01,
   0x6b6b51f4, 0x1c6c6162, 0x856530d8, 0xf262004e, 0x6c0695ed, 0x1b01a57b, 0x8208f4c1, 0xf50fc457,
   0x65b0d9c6, 0x12b7e950, 0x8bbeb8ea, 0xfcb9887c, 0x62dd1ddf, 0x15da2d49, 0x8cd37cf3, 0xfbd44c65,
   0x4db26158, 0x3ab551ce, 0xa3bc0074, 0xd4bb30e2, 0x4adfa541, 0x3dd895d7, 0xa4d1c46d, 0xd3d6f4fb,
   0x4369e96a, 0x346ed9fc, 0xad678846, 0xda60b8d0, 0x44042d73, 0x33031de5, 0xaa0a4c5f, 0xdd0d7cc9,
   0x5005713c, 0x270241aa, 0xbe0b1010, 0xc90c2086, 0x5768b525, 0x206f85b3, 0xb966d409, 0xce61e49f,
   0x5edef90e, 0x29d9c998, 0xb0d09822, 0xc7d7a8b4, 0x59b33d17, 0x2eb40d81, 0xb7bd5c3b, 0xc0ba6cad,
   0xedb88320, 0x9abfb3b6, 0x03b6e20c, 0x74b1d29a, 0xead54739, 0x9dd277af, 0x04db2615, 0x73dc1683,
   0xe3630b12, 0x94643b84, 0x0d6d6a3e, 0x7a6a5aa8, 0xe40ecf0b, 0x9309ff9d, 0x0a00ae27, 0x7d079eb1,
   0xf00f9344, 0x8708a3d2, 0x1e01f268, 0x6906c2fe, 0xf762575d, 0x806567cb, 0x196c3671, 0x6e6b06e7,
   0xfed41b76, 0x89d32be0, 0x10da7a5a, 0x67dd4acc, 0xf9b9df6f, 0x8ebeeff9, 0x17b7be43, 0x60b08ed5,
   0xd6d6a3e8, 0xa1d1937e, 0x38d8c2c4, 0x4fdff252, 0xd1bb67f1, 0xa6bc5767, 0x3fb506dd, 0x48b2364b,
   0xd80d2bda, 0xaf0a1b4c, 0x36034af6, 0x41047a60, 0xdf60efc3, 0xa867df55, 0x316e8eef, 0x4669be79,
   0xcb61b38c, 0xbc66831a, 0x256fd2a0, 0x5268e236, 0xcc0c7795, 0xbb0b4703, 0x220216b9, 0x5505262f,
   0xc5ba3bbe, 0xb2bd0b28, 0x2bb45a92, 0x5cb36a04, 0xc2d7ffa7, 0xb5d0cf31, 0x2cd99e8b, 0x5bdeae1d,
   0x9b64c2b0, 0xec63f226, 0x756aa39c, 0x026d930a, 0x9c0906a9, 0xeb0e363f, 0x72076785, 0x05005713,
   0x95bf4a82, 0xe2b87a14, 0x7bb12bae, 0x0cb61b38, 0x92d28e9b, 0xe5d5be0d, 0x7cdcefb7, 0x0bdbdf21,
   0x86d3d2d4, 0xf1d4e242, 0x68ddb3f8, 0x1fda836e, 0x81be16cd, 0xf6b9265b, 0x6fb077e1, 0x18b74777,
   0x88085ae6, 0xff0f6a70, 0x66063bca, 0x11010b5c, 0x8f659eff, 0xf862ae69, 0x616bffd3, 0x166ccf45,
   0xa00ae278, 0xd70dd2ee, 0x4e048354, 0x3903b3c2, 0xa7672661, 0xd06016f7, 0x4969474d, 0x3e6e77db,
   0xaed16a4a, 0xd9d65adc, 0x40df0b66, 0x37d83bf0, 0xa9bcae53, 0xdebb9ec5, 0x47b2cf7f, 0x30b5ffe9,
   0xbdbdf21c, 0xcabac28a, 0x53b39330, 0x24b4a3a6, 0xbad03605, 0xcdd70693, 0x54de5729, 0x23d967bf,
   0xb3667a2e, 0xc4614ab8, 0x5d681b02, 0x2a6f2b94, 0xb40bbe37, 0xc30c8ea1, 0x5a05df1b, 0x2d02ef8d]"

definition crc32_byte :: "char \<Rightarrow> 64 word \<Rightarrow> 64 word" where
  "crc32_byte c crc =
     crc32_tab ! unat ((crc XOR of_char c) AND 0xff) XOR drop_bit 8 crc"

definition crc32 :: "string \<Rightarrow> 64 word" where
  "crc32 s = fold crc32_byte s 0"

definition gfc_map_mix :: "64 word \<Rightarrow> 64 word" where
  "gfc_map_mix key =
     (let k1 = key + push_bit 12 key;
          k2 = k1 XOR drop_bit 22 k1;
          k3 = k2 + push_bit 4 k2;
          k4 = k3 XOR drop_bit 9 k3;
          k5 = k4 + push_bit 10 k4;
          k6 = k5 XOR drop_bit 2 k5;
          k7 = k6 + push_bit 7 k6;
          k8 = k7 XOR drop_bit 12 k7
      in drop_bit 3 k8 * 2654435761)"

text \<open>\<open>gfc_map_hash_int\<close>, given the table size.\<close>

definition gfc_map_hash_int :: "nat \<Rightarrow> string \<Rightarrow> nat" where
  "gfc_map_hash_int table_size keystring = unat (gfc_map_mix (crc32 (cstr keystring))) mod table_size"

section \<open>The CRC\<close>

text \<open>One step of the reflected CRC-32 with the polynomial \<open>0xedb88320\<close>, and eight per byte.\<close>

definition crc_bit :: "64 word \<Rightarrow> 64 word" where
  "crc_bit x = drop_bit 1 x XOR (if bit x 0 then 0xedb88320 else 0)"

definition crc_bitwise :: "string \<Rightarrow> 64 word" where
  "crc_bitwise s = fold (\<lambda>c crc. (crc_bit ^^ 8) (crc XOR of_char c)) s 0"

lemma crc_bit_xor: "crc_bit (a XOR b) = crc_bit a XOR crc_bit b"
  by (simp add: crc_bit_def bit_xor_iff ac_simps)

lemma crc_bits_xor: "(crc_bit ^^ n) (a XOR b) = (crc_bit ^^ n) a XOR (crc_bit ^^ n) b"
  by (induction n) (simp_all add: crc_bit_xor)

lemma crc_bits_shift: "\<forall>k < n. \<not> bit x k \<Longrightarrow> (crc_bit ^^ n) x = drop_bit n x"
proof (induction n)
  case (Suc n)
  then have "(crc_bit ^^ Suc n) x = crc_bit (drop_bit n x)" by simp
  moreover have "\<not> bit (drop_bit n x) 0" using Suc.prems by (simp add: bit_drop_bit_eq)
  ultimately show ?case by (simp add: crc_bit_def [of "drop_bit n x"])
qed simp

lemma crc_bits_8: "(crc_bit ^^ 8) x =
    crc_bit (crc_bit (crc_bit (crc_bit (crc_bit (crc_bit (crc_bit (crc_bit x)))))))"
  by (simp add: eval_nat_numeral)

text \<open>The table has the entry of every byte: those of the powers of two, and their sums.\<close>

lemma crc32_tab_powers:
  "(crc_bit ^^ 8) 1 = crc32_tab ! 1" "(crc_bit ^^ 8) 2 = crc32_tab ! 2"
  "(crc_bit ^^ 8) 4 = crc32_tab ! 4" "(crc_bit ^^ 8) 8 = crc32_tab ! 8"
  "(crc_bit ^^ 8) 16 = crc32_tab ! 16" "(crc_bit ^^ 8) 32 = crc32_tab ! 32"
  "(crc_bit ^^ 8) 64 = crc32_tab ! 64" "(crc_bit ^^ 8) 128 = crc32_tab ! 128"
  unfolding crc_bits_8 by (simp_all add: crc32_tab_def crc_bit_def)

lemma crc32_tab_halves:
  "take 1 (drop 1 crc32_tab) = map ((XOR) (crc32_tab ! 1)) (take 1 crc32_tab)"
  "take 2 (drop 2 crc32_tab) = map ((XOR) (crc32_tab ! 2)) (take 2 crc32_tab)"
  "take 4 (drop 4 crc32_tab) = map ((XOR) (crc32_tab ! 4)) (take 4 crc32_tab)"
  "take 8 (drop 8 crc32_tab) = map ((XOR) (crc32_tab ! 8)) (take 8 crc32_tab)"
  "take 16 (drop 16 crc32_tab) = map ((XOR) (crc32_tab ! 16)) (take 16 crc32_tab)"
  "take 32 (drop 32 crc32_tab) = map ((XOR) (crc32_tab ! 32)) (take 32 crc32_tab)"
  "take 64 (drop 64 crc32_tab) = map ((XOR) (crc32_tab ! 64)) (take 64 crc32_tab)"
  "take 128 (drop 128 crc32_tab) = map ((XOR) (crc32_tab ! 128)) (take 128 crc32_tab)"
  by (simp_all add: crc32_tab_def)

lemma crc32_tab_length [simp]: "length crc32_tab = 256"
  by (simp add: crc32_tab_def)

lemma add_power_xor: "i < 2 ^ k \<Longrightarrow> k < 64 \<Longrightarrow> (of_nat (2 ^ k + i) :: 64 word) = 2 ^ k XOR of_nat i"
proof -
  assume i: "i < 2 ^ k" and k: "k < 64"
  have "(2 ^ k :: 64 word) AND of_nat i = 0"
  proof (rule bit_eqI)
    fix n assume "possible_bit TYPE(64 word) n"
    have "\<not> bit i k" using i by (simp add: bit_iff_odd)
    then show "bit ((2 ^ k :: 64 word) AND of_nat i) n \<longleftrightarrow> bit (0 :: 64 word) n"
      by (auto simp: bit_simps)
  qed
  then show ?thesis by (simp add: disjunctive_add_eq_xor)
qed

lemma crc32_tab_double:
  assumes low: "\<forall>i < 2 ^ k. crc32_tab ! i = (crc_bit ^^ 8) (of_nat i)"
    and power: "(crc_bit ^^ 8) (2 ^ k) = crc32_tab ! (2 ^ k)"
    and half: "take (2 ^ k) (drop (2 ^ k) crc32_tab)
      = map ((XOR) (crc32_tab ! (2 ^ k))) (take (2 ^ k) crc32_tab)"
    and k: "k < 8"
  shows "\<forall>i < 2 ^ Suc k. crc32_tab ! i = (crc_bit ^^ 8) (of_nat i)"
proof (intro allI impI)
  fix i :: nat assume i: "i < 2 ^ Suc k"
  have len: "2 * 2 ^ k \<le> (256 :: nat)"
    using k power_increasing [of "Suc k" 8 "2 :: nat"] by simp
  show "crc32_tab ! i = (crc_bit ^^ 8) (of_nat i)"
  proof (cases "i < 2 ^ k")
    case False
    define j where "j = i - 2 ^ k"
    have j: "j < 2 ^ k" "i = 2 ^ k + j" using False i by (auto simp: j_def)
    have "crc32_tab ! i = take (2 ^ k) (drop (2 ^ k) crc32_tab) ! j"
      using j len by simp
    also have "\<dots> = crc32_tab ! (2 ^ k) XOR crc32_tab ! j" unfolding half using j len by simp
    also have "\<dots> = (crc_bit ^^ 8) (2 ^ k XOR of_nat j)"
      using low j(1) power by (simp only: crc_bits_xor)
    also have "2 ^ k XOR of_nat j = (of_nat i :: 64 word)"
      using add_power_xor [OF j(1)] k j(2) by simp
    finally show ?thesis .
  qed (use low in blast)
qed

lemma crc32_tab_power:
  assumes "k < 8"
  shows "(crc_bit ^^ 8) (2 ^ k) = crc32_tab ! (2 ^ k)
    \<and> take (2 ^ k) (drop (2 ^ k) crc32_tab) = map ((XOR) (crc32_tab ! (2 ^ k))) (take (2 ^ k) crc32_tab)"
proof -
  from assms consider "k = 0" | "k = 1" | "k = 2" | "k = 3" | "k = 4" | "k = 5" | "k = 6" | "k = 7"
    by linarith
  then show ?thesis
    by cases (use crc32_tab_powers crc32_tab_halves in simp_all)
qed

lemma crc32_tab_below: "k \<le> 8 \<Longrightarrow> \<forall>i < 2 ^ k. crc32_tab ! i = (crc_bit ^^ 8) (of_nat i)"
proof (induction k)
  case 0
  show ?case unfolding crc_bits_8 by (simp add: crc_bit_def crc32_tab_def)
next
  case (Suc k)
  then show ?case using crc32_tab_double [of k] crc32_tab_power [of k] by simp
qed

lemma low_byte_split: "(x :: 64 word) = (x AND mask 8) XOR push_bit 8 (drop_bit 8 x)"
  by (rule bit_eqI) (auto simp: bit_simps)

lemma drop_bit_char: "drop_bit 8 (of_char c :: 64 word) = 0"
  by (rule bit_eqI) (auto simp: of_char_def bit_simps simp del: horner_sum_simps)

lemma drop_push_drop: "drop_bit 8 (push_bit 8 (drop_bit 8 x)) = drop_bit 8 (x :: 64 word)"
  by (rule bit_eqI) (auto simp: bit_simps dest: bit_imp_le_length)

lemma crc32_byte_bitwise: "crc32_byte c crc = (crc_bit ^^ 8) (crc XOR of_char c)"
proof -
  let ?x = "crc XOR of_char c :: 64 word"
  have byte: "unat (?x AND mask 8) < 256"
    unfolding take_bit_eq_mask [symmetric] unsigned_take_bit_eq by (simp add: take_bit_nat_def)
  have "(crc_bit ^^ 8) ?x = (crc_bit ^^ 8) (?x AND mask 8) XOR (crc_bit ^^ 8) (push_bit 8 (drop_bit 8 ?x))"
    by (subst low_byte_split [of ?x]) (rule crc_bits_xor)
  also have "(crc_bit ^^ 8) (push_bit 8 (drop_bit 8 ?x)) = drop_bit 8 ?x"
    by (subst crc_bits_shift) (simp_all add: bit_push_bit_iff drop_push_drop del: push_bit_xor drop_bit_xor)
  also have "drop_bit 8 ?x = drop_bit 8 crc"
    using drop_bit_char [of c] by (simp add: drop_bit_xor)
  also have "(crc_bit ^^ 8) (?x AND mask 8) = crc32_tab ! unat (?x AND mask 8)"
    using crc32_tab_below [of 8] byte by simp
  finally show ?thesis by (simp add: crc32_byte_def mask_eq_exp_minus_1)
qed

text \<open>
  The table-driven CRC of map keys is the bitwise CRC-32 with the reflected polynomial
  \<open>0xedb88320\<close> (without the final complement); so every one of the 256 constants of
  \<open>crc32_tab\<close> is right.
\<close>

theorem crc32_bitwise: "crc32 s = crc_bitwise s"
  unfolding crc32_def crc_bitwise_def crc32_byte_bitwise ..

end
