(* ===== verification/Gfc_Map.thy ===== *)
theory Gfc_Map
  imports Gfc_Hash
begin

text \<open>
  The hash map of the gfc library, \<open>src/3rd/gfc-0.1.1/src/gfc_map.c\<close>: linear probing over at
  most eight slots, doubling when no slot is found. Query results reach the agent as such maps.

  A pointer is an \<open>'a option\<close>, \<open>None\<close> for NULL; \<open>char key[1024]\<close> is a string of at most
  1023 bytes. What \<open>gfc_gc_malloc\<close> gives for an array of \<open>n\<close> elements is \<open>fresh n\<close>,
  \<open>None\<close> when memory is out: its contents are whatever was there, since nothing clears
  \<open>in_use\<close>.
\<close>

abbreviation (input) INITIAL_SIZE :: nat where "INITIAL_SIZE \<equiv> 256"
abbreviation (input) MAX_CHAIN_LENGTH :: nat where "MAX_CHAIN_LENGTH \<equiv> 8"

abbreviation (input) GFC_ERROR_MAP_OK :: nat where "GFC_ERROR_MAP_OK \<equiv> 0"
abbreviation (input) GFC_ERROR_MAP_FULL :: nat where "GFC_ERROR_MAP_FULL \<equiv> 3001"
abbreviation (input) GFC_ERROR_MAP_MISSING :: nat where "GFC_ERROR_MAP_MISSING \<equiv> 3002"
abbreviation (input) GFC_ERROR_MAP_OUT_OF_MEMORY :: nat where "GFC_ERROR_MAP_OUT_OF_MEMORY \<equiv> 3003"

record 'a map_element =
  me_key :: string
  me_in_use :: int
  me_data :: "'a option"

record 'a gfc_map =
  gm_table_size :: nat
  gm_size :: int
  gm_data :: "'a map_element list"

type_synonym 'a fresh = "nat \<Rightarrow> 'a map_element list option"

definition gfc_map_new :: "'a fresh \<Rightarrow> 'a gfc_map option" where
  "gfc_map_new fresh =
     map_option (\<lambda>es. \<lparr>gm_table_size = INITIAL_SIZE, gm_size = 0,
                       gm_data = map (\<lambda>e. e\<lparr>me_data := None\<rparr>) es\<rparr>)
       (fresh INITIAL_SIZE)"

section \<open>Finding a slot\<close>

fun map_probe :: "'a map_element list \<Rightarrow> nat \<Rightarrow> string \<Rightarrow> nat \<Rightarrow> nat \<Rightarrow> nat" where
  "map_probe data table_size key cur 0 = GFC_ERROR_MAP_FULL"
| "map_probe data table_size key cur (Suc n) =
     (if me_in_use (data ! cur) = 0 then cur
      else if me_in_use (data ! cur) = 1 \<and> cstr (me_key (data ! cur)) = cstr key then cur
      else map_probe data table_size key ((cur + 1) mod table_size) n)"

definition gfc_map_hash :: "'a gfc_map \<Rightarrow> string \<Rightarrow> nat" where
  "gfc_map_hash m key =
     (if gm_size m \<ge> int (gm_table_size m div 2) then GFC_ERROR_MAP_FULL
      else map_probe (gm_data m) (gm_table_size m) key (gfc_map_hash_int (gm_table_size m) key)
             MAX_CHAIN_LENGTH)"

section \<open>Putting\<close>

text \<open>
  \<open>gfc_map_put\<close> and \<open>gfc_map_rehash\<close> call each other, and \<open>gfc_map_put\<close> loops until a
  slot is found; one unit of fuel per round. A key that does not fit its array is a fault.
\<close>

datatype map_fault = Out_of_Fuel | Key_Overflow

definition map_store :: "'a gfc_map \<Rightarrow> nat \<Rightarrow> string \<Rightarrow> 'a option \<Rightarrow> 'a gfc_map" where
  "map_store m index key v =
     m\<lparr>gm_data := (gm_data m)[index := \<lparr>me_key = cstr key, me_in_use = 1, me_data = v\<rparr>],
       gm_size := gm_size m + 1\<rparr>"

function gfc_map_put :: "nat \<Rightarrow> 'a fresh \<Rightarrow> 'a gfc_map \<Rightarrow> string \<Rightarrow> 'a option
    \<Rightarrow> map_fault + nat \<times> 'a gfc_map"
  and gfc_map_reinsert :: "nat \<Rightarrow> 'a fresh \<Rightarrow> 'a map_element list \<Rightarrow> 'a gfc_map
    \<Rightarrow> map_fault + nat \<times> 'a gfc_map" where
  "gfc_map_put 0 fresh m key v = Inl Out_of_Fuel"
| "gfc_map_put (Suc n) fresh m key v =
     (let index = gfc_map_hash m key
      in if index = GFC_ERROR_MAP_FULL then
           (case (case fresh (2 * gm_table_size m) of
                    None \<Rightarrow> Inr (GFC_ERROR_MAP_OUT_OF_MEMORY, m)
                  | Some temp \<Rightarrow>
                      gfc_map_reinsert n fresh (gm_data m)
                        (m\<lparr>gm_data := temp, gm_table_size := 2 * gm_table_size m, gm_size := 0\<rparr>)) of
              Inl e \<Rightarrow> Inl e
            | Inr (rc, m1) \<Rightarrow>
                if rc = GFC_ERROR_MAP_OUT_OF_MEMORY then Inr (rc, m1)
                else gfc_map_put n fresh m1 key v)
         else if length (cstr key) \<ge> 1024 then Inl Key_Overflow
         else Inr (GFC_ERROR_MAP_OK, map_store m index key v))"
| "gfc_map_reinsert n fresh [] m = Inr (GFC_ERROR_MAP_OK, m)"
| "gfc_map_reinsert n fresh (e # es) m =
     (if me_in_use e = 0 then gfc_map_reinsert n fresh es m
      else (case gfc_map_put n fresh m (me_key e) (me_data e) of
              Inl f \<Rightarrow> Inl f
            | Inr (status, m1) \<Rightarrow>
                if status \<noteq> GFC_ERROR_MAP_OK then Inr (status, m1)
                else gfc_map_reinsert n fresh es m1))"
  by pat_completeness auto
termination
  by (relation "inv_image (less_than <*lex*> less_than)
        (\<lambda>x. case x of Inl (n, _, _, _, _) \<Rightarrow> (n, 0) | Inr (n, _, es, _) \<Rightarrow> (n, Suc (length es)))")
     auto

text \<open>\<open>gfc_map_rehash\<close>, as \<open>gfc_map_put\<close> runs it.\<close>

definition gfc_map_rehash :: "nat \<Rightarrow> 'a fresh \<Rightarrow> 'a gfc_map \<Rightarrow> map_fault + nat \<times> 'a gfc_map" where
  "gfc_map_rehash n fresh m =
     (case fresh (2 * gm_table_size m) of
        None \<Rightarrow> Inr (GFC_ERROR_MAP_OUT_OF_MEMORY, m)
      | Some temp \<Rightarrow>
          gfc_map_reinsert n fresh (gm_data m)
            (m\<lparr>gm_data := temp, gm_table_size := 2 * gm_table_size m, gm_size := 0\<rparr>))"

lemma gfc_map_put_Suc:
  "gfc_map_put (Suc n) fresh m key v =
     (if gfc_map_hash m key = GFC_ERROR_MAP_FULL then
        (case gfc_map_rehash n fresh m of
           Inl e \<Rightarrow> Inl e
         | Inr (rc, m1) \<Rightarrow>
             if rc = GFC_ERROR_MAP_OUT_OF_MEMORY then Inr (rc, m1) else gfc_map_put n fresh m1 key v)
      else if length (cstr key) \<ge> 1024 then Inl Key_Overflow
      else Inr (GFC_ERROR_MAP_OK, map_store m (gfc_map_hash m key) key v))"
  by (simp add: gfc_map_rehash_def Let_def)

declare gfc_map_put.simps(2) [simp del]

section \<open>Getting and removing\<close>

fun map_find :: "'a map_element list \<Rightarrow> nat \<Rightarrow> string \<Rightarrow> nat \<Rightarrow> nat \<Rightarrow> nat option" where
  "map_find data table_size key cur 0 = None"
| "map_find data table_size key cur (Suc n) =
     (if me_in_use (data ! cur) = 1 \<and> cstr (me_key (data ! cur)) = cstr key then Some cur
      else map_find data table_size key ((cur + 1) mod table_size) n)"

definition gfc_map_get :: "'a gfc_map \<Rightarrow> string \<Rightarrow> nat \<times> 'a option" where
  "gfc_map_get m key =
     (case map_find (gm_data m) (gm_table_size m) key (gfc_map_hash_int (gm_table_size m) key)
             MAX_CHAIN_LENGTH of
        Some i \<Rightarrow> (GFC_ERROR_MAP_OK, me_data (gm_data m ! i))
      | None \<Rightarrow> (GFC_ERROR_MAP_MISSING, None))"

definition gfc_map_remove :: "'a gfc_map \<Rightarrow> string \<Rightarrow> nat \<times> 'a gfc_map" where
  "gfc_map_remove m key =
     (case map_find (gm_data m) (gm_table_size m) key (gfc_map_hash_int (gm_table_size m) key)
             MAX_CHAIN_LENGTH of
        Some i \<Rightarrow> (GFC_ERROR_MAP_OK,
                    m\<lparr>gm_data := (gm_data m)[i := \<lparr>me_key = [], me_in_use = 0, me_data = None\<rparr>],
                      gm_size := gm_size m - 1\<rparr>)
      | None \<Rightarrow> (GFC_ERROR_MAP_MISSING, m))"

definition gfc_map_size :: "'a gfc_map \<Rightarrow> nat" where
  "gfc_map_size m = nat (gm_size m mod 2 ^ 32)"

text \<open>
  \<open>gfc_map_iterate\<close>: calls \<open>resolve\<close> on every slot of the table, used or not, and empties it.
\<close>

fun map_iterate_loop :: "(string \<Rightarrow> 'a option \<Rightarrow> 's \<Rightarrow> nat \<times> 's) \<Rightarrow> 'a map_element list \<Rightarrow> 's
    \<Rightarrow> nat \<times> 'a map_element list \<times> 's" where
  "map_iterate_loop resolve [] s = (GFC_ERROR_MAP_OK, [], s)"
| "map_iterate_loop resolve (e # es) s =
     (case resolve (me_key e) (me_data e) s of (status, s1) \<Rightarrow>
        let e1 = e\<lparr>me_data := None, me_in_use := 0\<rparr>
        in if status \<noteq> GFC_ERROR_MAP_OK then (status, e1 # es, s1)
           else (case map_iterate_loop resolve es s1 of (rc, es1, s2) \<Rightarrow> (rc, e1 # es1, s2)))"

definition gfc_map_iterate :: "(string \<Rightarrow> 'a option \<Rightarrow> 's \<Rightarrow> nat \<times> 's) \<Rightarrow> 'a gfc_map \<Rightarrow> 's
    \<Rightarrow> nat \<times> 'a gfc_map \<times> 's" where
  "gfc_map_iterate resolve m s =
     (if gfc_map_size m = 0 then (GFC_ERROR_MAP_MISSING, m, s)
      else (case map_iterate_loop resolve (gm_data m) s of
              (rc, es, s1) \<Rightarrow> (rc, m\<lparr>gm_data := es\<rparr>, s1)))"

section \<open>Probing\<close>

definition map_slot :: "nat \<Rightarrow> string \<Rightarrow> nat \<Rightarrow> nat" where
  "map_slot ts key d = (gfc_map_hash_int ts key + d) mod ts"

definition me_holds :: "'a map_element \<Rightarrow> string \<Rightarrow> bool" where
  "me_holds e key \<longleftrightarrow> me_in_use e = 1 \<and> cstr (me_key e) = cstr key"

lemma gfc_map_hash_int_cstr [simp]: "gfc_map_hash_int ts (cstr key) = gfc_map_hash_int ts key"
  by (simp add: gfc_map_hash_int_def)

lemma map_slot_cstr [simp]: "map_slot ts (cstr key) d = map_slot ts key d"
  by (simp add: map_slot_def)

lemma me_holds_cstr [simp]: "me_holds e (cstr key) = me_holds e key"
  by (simp add: me_holds_def)

lemma map_slot_Suc: "(map_slot ts key d + 1) mod ts = map_slot ts key (Suc d)"
  by (simp add: map_slot_def mod_simps)

lemma map_slot_0: "map_slot ts key 0 = gfc_map_hash_int ts key"
  by (simp add: map_slot_def gfc_map_hash_int_def)

lemma map_slot_less [simp]: "0 < ts \<Longrightarrow> map_slot ts key d < ts"
  by (simp add: map_slot_def)

lemma mod_add_inj:
  fixes h d e ts :: nat
  assumes "d \<le> e" and "e < ts" and "(h + d) mod ts = (h + e) mod ts"
  shows "d = e"
proof -
  have "ts dvd (h + e) - (h + d)"
    using assms(1,3) by (subst mod_eq_dvd_iff_nat [symmetric]) simp_all
  then have "ts dvd e - d" by simp
  moreover have "e - d < ts" using assms by simp
  ultimately have "e - d = 0" by (metis nat_dvd_not_less gr0I)
  then show ?thesis using assms(1) by simp
qed

lemma map_slot_inj: "d < ts \<Longrightarrow> e < ts \<Longrightarrow> map_slot ts key d = map_slot ts key e \<Longrightarrow> d = e"
  using mod_add_inj [of d e ts "gfc_map_hash_int ts key"] mod_add_inj [of e d ts "gfc_map_hash_int ts key"]
  by (cases "d \<le> e") (auto simp: map_slot_def)

lemma map_find_Some:
  "map_find data ts key (map_slot ts key d) n = Some i \<Longrightarrow>
     \<exists>e < d + n. i = map_slot ts key e \<and> me_holds (data ! i) key"
proof (induction n arbitrary: d)
  case (Suc n)
  show ?case
  proof (cases "me_holds (data ! map_slot ts key d) key")
    case True
    then have "i = map_slot ts key d" using Suc.prems by (auto simp: me_holds_def)
    then show ?thesis using True by (intro exI [of _ d]) simp
  next
    case False
    then have "map_find data ts key (map_slot ts key (Suc d)) n = Some i"
      using Suc.prems map_slot_Suc [of ts key d] by (auto simp: me_holds_def split: if_splits)
    from Suc.IH [OF this] show ?thesis by simp
  qed
qed simp

lemma map_find_None:
  "map_find data ts key (map_slot ts key d) n = None \<longleftrightarrow>
     (\<forall>e. d \<le> e \<and> e < d + n \<longrightarrow> \<not> me_holds (data ! map_slot ts key e) key)"
proof (induction n arbitrary: d)
  case (Suc n)
  have "(\<forall>e. d \<le> e \<and> e < d + Suc n \<longrightarrow> P e) \<longleftrightarrow> P d \<and> (\<forall>e. Suc d \<le> e \<and> e < Suc d + n \<longrightarrow> P e)" for P
    by (metis Suc_leI Suc_leD add_Suc_right add_Suc_shift le_neq_implies_less le_refl less_add_Suc1)
  then show ?case
    using Suc.IH [of "Suc d"] map_slot_Suc [of ts key d] by (auto simp: me_holds_def)
qed auto

text \<open>The slot a probe stops at, if it does.\<close>

lemma map_probe_stops:
  "(\<exists>e. d \<le> e \<and> e < d + n \<and> map_probe data ts key (map_slot ts key d) n = map_slot ts key e
      \<and> (me_in_use (data ! map_slot ts key e) = 0 \<or> me_holds (data ! map_slot ts key e) key)
      \<and> (\<forall>k. d \<le> k \<and> k < e \<longrightarrow> me_in_use (data ! map_slot ts key k) \<noteq> 0
            \<and> \<not> me_holds (data ! map_slot ts key k) key))
   \<or> (map_probe data ts key (map_slot ts key d) n = GFC_ERROR_MAP_FULL
      \<and> (\<forall>k. d \<le> k \<and> k < d + n \<longrightarrow> me_in_use (data ! map_slot ts key k) \<noteq> 0))"
  (is "?stop d n \<or> ?full d n")
proof (induction n arbitrary: d)
  case (Suc n)
  let ?e = "data ! map_slot ts key d"
  show ?case
  proof (cases "me_in_use ?e = 0 \<or> me_holds ?e key")
    case True
    then have "?stop d (Suc n)" by (intro exI [of _ d]) (auto simp: me_holds_def)
    then show ?thesis ..
  next
    case False
    then have step: "map_probe data ts key (map_slot ts key d) (Suc n)
        = map_probe data ts key (map_slot ts key (Suc d)) n"
      using map_slot_Suc [of ts key d] by (auto simp: me_holds_def)
    have at: "d \<le> k \<Longrightarrow> k = d \<or> Suc d \<le> k" for k by linarith
    from Suc.IH [of "Suc d"] show ?thesis
    proof
      assume "?stop (Suc d) n"
      then obtain e where e: "Suc d \<le> e" "e < Suc d + n"
        "map_probe data ts key (map_slot ts key (Suc d)) n = map_slot ts key e"
        "me_in_use (data ! map_slot ts key e) = 0 \<or> me_holds (data ! map_slot ts key e) key"
        "\<forall>k. Suc d \<le> k \<and> k < e \<longrightarrow> me_in_use (data ! map_slot ts key k) \<noteq> 0
            \<and> \<not> me_holds (data ! map_slot ts key k) key" by blast
      then have "?stop d (Suc n)" using False step at by (intro exI [of _ e]) auto
      then show ?thesis ..
    next
      assume "?full (Suc d) n"
      then have "?full d (Suc n)" using False step at by auto
      then show ?thesis ..
    qed
  qed
qed simp

section \<open>The invariant and the abstract map\<close>

text \<open>
  Every slot in use holds its key at most seven slots after the key's hash, with no free slot in
  between, and no key is held twice. \<open>map_holds\<close> is the abstract map as a relation.
\<close>

definition map_reach :: "'a map_element list \<Rightarrow> nat \<Rightarrow> string \<Rightarrow> nat \<Rightarrow> bool" where
  "map_reach data ts key i \<longleftrightarrow> (\<exists>d < MAX_CHAIN_LENGTH. i = map_slot ts key d
     \<and> (\<forall>e < d. me_in_use (data ! map_slot ts key e) = 1))"

definition map_ok :: "'a gfc_map \<Rightarrow> bool" where
  "map_ok m \<longleftrightarrow> length (gm_data m) = gm_table_size m \<and> 16 \<le> gm_table_size m
     \<and> (\<forall>i < gm_table_size m. me_in_use (gm_data m ! i) \<in> {0, 1})
     \<and> (\<forall>i < gm_table_size m. me_in_use (gm_data m ! i) = 1 \<longrightarrow>
          cstr (me_key (gm_data m ! i)) = me_key (gm_data m ! i)
          \<and> map_reach (gm_data m) (gm_table_size m) (me_key (gm_data m ! i)) i)
     \<and> (\<forall>i < gm_table_size m. \<forall>j < gm_table_size m. me_in_use (gm_data m ! i) = 1
          \<longrightarrow> me_in_use (gm_data m ! j) = 1 \<longrightarrow> me_key (gm_data m ! i) = me_key (gm_data m ! j)
          \<longrightarrow> i = j)"

definition map_holds :: "'a gfc_map \<Rightarrow> string \<Rightarrow> 'a option \<Rightarrow> bool" where
  "map_holds m key v \<longleftrightarrow> (\<exists>i < gm_table_size m. me_in_use (gm_data m ! i) = 1
     \<and> me_key (gm_data m ! i) = key \<and> me_data (gm_data m ! i) = v)"

lemma map_okD:
  assumes "map_ok m" and "i < gm_table_size m" and "me_in_use (gm_data m ! i) = 1"
  shows "cstr (me_key (gm_data m ! i)) = me_key (gm_data m ! i)"
    "map_reach (gm_data m) (gm_table_size m) (me_key (gm_data m ! i)) i"
  using assms by (auto simp: map_ok_def)

lemma map_ok_size: "map_ok m \<Longrightarrow> 0 < gm_table_size m \<and> 16 \<le> gm_table_size m
    \<and> length (gm_data m) = gm_table_size m"
  by (simp add: map_ok_def)

lemma map_ok_unique:
  "map_ok m \<Longrightarrow> i < gm_table_size m \<Longrightarrow> j < gm_table_size m \<Longrightarrow> me_in_use (gm_data m ! i) = 1
   \<Longrightarrow> me_in_use (gm_data m ! j) = 1 \<Longrightarrow> me_key (gm_data m ! i) = me_key (gm_data m ! j) \<Longrightarrow> i = j"
  unfolding map_ok_def by blast

lemma gfc_map_get_holds:
  assumes ok: "map_ok m"
  shows "(case gfc_map_get m key of (rc, v) \<Rightarrow>
      (rc = GFC_ERROR_MAP_OK \<and> map_holds m (cstr key) v)
      \<or> (rc = GFC_ERROR_MAP_MISSING \<and> v = None \<and> (\<forall>u. \<not> map_holds m (cstr key) u)))"
proof -
  let ?ts = "gm_table_size m" and ?data = "gm_data m"
  have start: "gfc_map_hash_int ?ts key = map_slot ?ts key 0" by (simp add: map_slot_0)
  note ts = map_ok_size [OF ok]
  show ?thesis
  proof (cases "map_find ?data ?ts key (map_slot ?ts key 0) 8")
    case None
    have "\<not> map_holds m (cstr key) u" for u
    proof
      assume "map_holds m (cstr key) u"
      then obtain i where i: "i < ?ts" "me_in_use (?data ! i) = 1" "me_key (?data ! i) = cstr key"
        by (auto simp: map_holds_def)
      from map_okD(2) [OF ok i(1,2)] i(3) obtain d where d: "d < 8" "i = map_slot ?ts key d"
        by (auto simp: map_reach_def)
      have "me_holds (?data ! map_slot ?ts key d) key"
        using i d map_okD(1) [OF ok i(1,2)] by (simp add: me_holds_def)
      then show False using None d(1) map_find_None [of ?data ?ts key 0 8] by simp
    qed
    then show ?thesis using None by (simp add: gfc_map_get_def start)
  next
    case (Some i)
    from map_find_Some [OF Some] obtain e where e: "i = map_slot ?ts key e" "me_holds (?data ! i) key"
      by blast
    have i: "i < ?ts" using e ts by simp
    have "me_key (?data ! i) = cstr key"
      using e(2) map_okD(1) [OF ok i] by (auto simp: me_holds_def)
    then have "map_holds m (cstr key) (me_data (?data ! i))"
      using i e(2) by (auto simp: map_holds_def me_holds_def)
    then show ?thesis using Some by (simp add: gfc_map_get_def start)
  qed
qed

lemma map_holds_unique: "map_ok m \<Longrightarrow> map_holds m k u \<Longrightarrow> map_holds m k v \<Longrightarrow> u = v"
  unfolding map_holds_def by (metis map_ok_unique)

lemma gfc_map_get_iff:
  assumes "map_ok m"
  shows "gfc_map_get m key = (GFC_ERROR_MAP_OK, v) \<longleftrightarrow> map_holds m (cstr key) v"
  using gfc_map_get_holds [OF assms, of key] map_holds_unique [OF assms] by (auto split: prod.splits)

section \<open>Putting keeps the invariant\<close>

lemma map_reach_mono:
  assumes "map_reach data ts key i"
    and "\<And>j. j < ts \<Longrightarrow> me_in_use (data ! j) = 1 \<Longrightarrow> me_in_use (data' ! j) = 1" and "0 < ts"
  shows "map_reach data' ts key i"
  using assms unfolding map_reach_def by (metis map_slot_less)

lemma map_store_ok:
  assumes ok: "map_ok m" and hash: "gfc_map_hash m key = i" and i: "i \<noteq> GFC_ERROR_MAP_FULL"
  shows "map_ok (map_store m i key v)
    \<and> (\<forall>k u. map_holds (map_store m i key v) k u \<longleftrightarrow> (if k = cstr key then u = v else map_holds m k u))
    \<and> gm_table_size (map_store m i key v) = gm_table_size m"
proof -
  let ?ts = "gm_table_size m" and ?data = "gm_data m" and ?m = "map_store m i key v"
  note ts = map_ok_size [OF ok]
  have "map_probe ?data ?ts key (map_slot ?ts key 0) 8 = i"
    using hash i by (simp add: gfc_map_hash_def map_slot_0 split: if_splits)
  then obtain e where e: "e < 8" "i = map_slot ?ts key e"
    and at: "me_in_use (?data ! i) = 0 \<or> me_holds (?data ! i) key"
    and before: "\<And>k. k < e \<Longrightarrow> me_in_use (?data ! map_slot ?ts key k) \<noteq> 0
        \<and> \<not> me_holds (?data ! map_slot ?ts key k) key"
    using map_probe_stops [of 0 8 ?data ?ts key] i by auto
  have len: "i < ?ts" "i < length ?data" using e ts by simp_all
  have used: "me_in_use (?data ! j) = 1" if "j < ?ts" "me_in_use (?data ! j) \<noteq> 0" for j
    using ok that by (auto simp: map_ok_def)
  have nth: "gm_data ?m ! j = (if j = i then \<lparr>me_key = cstr key, me_in_use = 1, me_data = v\<rparr> else ?data ! j)"
    for j using len by (simp add: map_store_def)
  have st: "gm_table_size ?m = ?ts" "length (gm_data ?m) = length ?data"
    by (simp_all add: map_store_def)
  have mono: "me_in_use (?data ! j) = 1 \<Longrightarrow> me_in_use (gm_data ?m ! j) = 1" for j
    by (simp add: nth)
  have other: "j = i" if "j < ?ts" "me_in_use (?data ! j) = 1" "me_key (?data ! j) = cstr key" for j
  proof -
    from map_okD(2) [OF ok that(1,2)] that(3) obtain d where d: "d < 8" "j = map_slot ?ts key d"
      "\<forall>c < d. me_in_use (?data ! map_slot ?ts key c) = 1" by (auto simp: map_reach_def)
    have holds: "me_holds (?data ! map_slot ?ts key d) key"
      using that d(2) map_okD(1) [OF ok that(1,2)] by (simp add: me_holds_def)
    consider "d < e" | "d = e" | "e < d" by linarith
    then show ?thesis
    proof cases
      case 1
      then show ?thesis using before holds by blast
    next
      case 2
      then show ?thesis using d e by simp
    next
      case 3
      then have "me_in_use (?data ! i) = 1" using d(3) e(2) by blast
      then have "me_holds (?data ! i) key" using at by auto
      then have "me_key (?data ! i) = cstr key"
        using map_okD(1) [OF ok len(1)] by (auto simp: me_holds_def)
      then show ?thesis
        using map_ok_unique [OF ok that(1) len(1) that(2)] \<open>me_in_use (?data ! i) = 1\<close> that(3) by simp
    qed
  qed
  have reach_new: "map_reach (gm_data ?m) ?ts (cstr key) i"
    using e before used ts mono unfolding map_reach_def by (metis map_slot_cstr map_slot_less)
  have "map_ok ?m"
    unfolding map_ok_def
  proof (intro conjI allI impI)
    fix j assume j: "j < gm_table_size ?m" "me_in_use (gm_data ?m ! j) = 1"
    show "cstr (me_key (gm_data ?m ! j)) = me_key (gm_data ?m ! j)"
      using j map_okD(1) [OF ok, of j] by (auto simp: nth st)
    show "map_reach (gm_data ?m) (gm_table_size ?m) (me_key (gm_data ?m ! j)) j"
      using j reach_new map_reach_mono [OF map_okD(2) [OF ok, of j], of "gm_data ?m"] mono ts
      by (cases "j = i") (auto simp: nth st)
  next
    fix j k assume jk: "j < gm_table_size ?m" "k < gm_table_size ?m" "me_in_use (gm_data ?m ! j) = 1"
      "me_in_use (gm_data ?m ! k) = 1" "me_key (gm_data ?m ! j) = me_key (gm_data ?m ! k)"
    consider "j = i" "k = i" | "j = i" "k \<noteq> i" | "j \<noteq> i" "k = i" | "j \<noteq> i" "k \<noteq> i" by blast
    then show "j = k"
    proof cases
      case 2
      then have "k = i" using jk other [of k] by (simp add: nth st)
      then show ?thesis using 2 by simp
    next
      case 3
      then have "j = i" using jk other [of j] by (simp add: nth st)
      then show ?thesis using 3 by simp
    next
      case 4
      then show ?thesis using jk map_ok_unique [OF ok, of j k] by (simp add: nth st)
    qed simp
  next
    fix j assume "j < gm_table_size ?m"
    then have "me_in_use (?data ! j) \<in> {0, 1}" using ok unfolding map_ok_def st by blast
    then show "me_in_use (gm_data ?m ! j) \<in> {0, 1}" by (simp add: nth)
  qed (simp_all add: st ts)
  moreover have "map_holds ?m k u \<longleftrightarrow> (if k = cstr key then u = v else map_holds m k u)" for k u
  proof (cases "k = cstr key")
    case True
    then show ?thesis using len other by (auto simp: map_holds_def nth st)
  next
    case False
    have "me_in_use (?data ! i) = 1 \<Longrightarrow> me_key (?data ! i) = cstr key"
      using at map_okD(1) [OF ok len(1)] by (auto simp: me_holds_def)
    then have ne: "j \<noteq> i" if "me_in_use (?data ! j) = 1" "me_key (?data ! j) = k" for j
      using that False by blast
    have "me_in_use (gm_data ?m ! j) = 1 \<and> me_key (gm_data ?m ! j) = k \<and> me_data (gm_data ?m ! j) = u
        \<longleftrightarrow> me_in_use (?data ! j) = 1 \<and> me_key (?data ! j) = k \<and> me_data (?data ! j) = u" for j
      using ne [of j] False by (cases "j = i") (auto simp: nth)
    then show ?thesis using False unfolding map_holds_def st by simp
  qed
  ultimately show ?thesis by (simp add: map_store_def)
qed

section \<open>Growing\<close>

text \<open>
  The memory a map gets has the size asked for and is zero where it matters. The C code relies on
  it without asking for it: \<open>gfc_gc_malloc\<close> is \<open>malloc\<close>.
\<close>

definition zeroed :: "'a fresh \<Rightarrow> bool" where
  "zeroed fresh \<longleftrightarrow> (\<forall>n es. fresh n = Some es \<longrightarrow> length es = n \<and> (\<forall>e \<in> set es. me_in_use e = 0))"

lemma zeroed_nth: "zeroed fresh \<Longrightarrow> fresh n = Some es \<Longrightarrow> i < n \<Longrightarrow> me_in_use (es ! i) = 0"
  by (simp add: zeroed_def)

lemma map_ok_empty:
  assumes "zeroed fresh" and "fresh n = Some es" and "16 \<le> n"
  shows "map_ok \<lparr>gm_table_size = n, gm_size = s, gm_data = es\<rparr>
    \<and> \<not> map_holds \<lparr>gm_table_size = n, gm_size = s, gm_data = es\<rparr> k u"
  using assms zeroed_nth [OF assms(1,2)]
  by (auto simp: map_ok_def map_holds_def zeroed_def)

definition elem_holds :: "'a map_element list \<Rightarrow> string \<Rightarrow> 'a option \<Rightarrow> bool" where
  "elem_holds es k v \<longleftrightarrow> (\<exists>e \<in> set es. me_in_use e = 1 \<and> me_key e = k \<and> me_data e = v)"

definition elems_ok :: "'a map_element list \<Rightarrow> bool" where
  "elems_ok es \<longleftrightarrow> (\<forall>e \<in> set es. me_in_use e \<in> {0, 1} \<and> (me_in_use e = 1 \<longrightarrow> cstr (me_key e) = me_key e))
     \<and> distinct (map me_key (filter (\<lambda>e. me_in_use e = 1) es))"

lemma distinct_map_filter_nth:
  "\<forall>i < length xs. \<forall>j < length xs. P (xs ! i) \<longrightarrow> P (xs ! j) \<longrightarrow> f (xs ! i) = f (xs ! j) \<longrightarrow> i = j
   \<Longrightarrow> distinct (map f (filter P xs))"
proof (induction xs)
  case (Cons x xs)
  have step: "\<forall>i < length xs. \<forall>j < length xs. P (xs ! i) \<longrightarrow> P (xs ! j) \<longrightarrow> f (xs ! i) = f (xs ! j) \<longrightarrow> i = j"
  proof (intro allI impI)
    fix i j assume "i < length xs" "j < length xs" "P (xs ! i)" "P (xs ! j)" "f (xs ! i) = f (xs ! j)"
    then show "i = j" using Cons.prems [rule_format, of "Suc i" "Suc j"] by simp
  qed
  have "P x \<Longrightarrow> f x \<notin> f ` {y \<in> set xs. P y}"
  proof
    assume "P x" and "f x \<in> f ` {y \<in> set xs. P y}"
    then obtain j where "j < length xs" "P (xs ! j)" "f x = f (xs ! j)"
      by (auto simp: in_set_conv_nth)
    then show False using Cons.prems [rule_format, of 0 "Suc j"] \<open>P x\<close> by simp
  qed
  then show ?case using Cons.IH [OF step] by auto
qed simp

lemma map_ok_elems: "map_ok m \<Longrightarrow> elems_ok (gm_data m)"
  unfolding elems_ok_def
proof (intro conjI)
  assume ok: "map_ok m"
  note ts = map_ok_size [OF ok]
  show "\<forall>e \<in> set (gm_data m). me_in_use e \<in> {0, 1} \<and> (me_in_use e = 1 \<longrightarrow> cstr (me_key e) = me_key e)"
    using ok ts unfolding map_ok_def by (simp add: all_set_conv_all_nth)
  show "distinct (map me_key (filter (\<lambda>e. me_in_use e = 1) (gm_data m)))"
    using map_ok_unique [OF ok] ts by (intro distinct_map_filter_nth) simp
qed

lemma map_holds_elem: "map_ok m \<Longrightarrow> elem_holds (gm_data m) k v \<longleftrightarrow> map_holds m k v"
proof -
  assume "map_ok m"
  then have len: "length (gm_data m) = gm_table_size m" by (simp add: map_ok_def)
  show ?thesis
    unfolding elem_holds_def map_holds_def len [symmetric] by (metis in_set_conv_nth)
qed

lemma put_reinsert_ok:
  "gfc_map_put n fresh m key v = Inr (rc, m') \<Longrightarrow> zeroed fresh \<Longrightarrow> map_ok m \<Longrightarrow>
     rc \<in> {GFC_ERROR_MAP_OK, GFC_ERROR_MAP_OUT_OF_MEMORY} \<and> (rc = GFC_ERROR_MAP_OK \<longrightarrow> map_ok m'
       \<and> (\<forall>k u. map_holds m' k u \<longleftrightarrow> (if k = cstr key then u = v else map_holds m k u)))"
  "gfc_map_reinsert n fresh es m = Inr (rc, m') \<Longrightarrow> zeroed fresh \<Longrightarrow> map_ok m \<Longrightarrow> elems_ok es \<Longrightarrow>
     rc \<in> {GFC_ERROR_MAP_OK, GFC_ERROR_MAP_OUT_OF_MEMORY} \<and> (rc = GFC_ERROR_MAP_OK \<longrightarrow> map_ok m'
       \<and> (\<forall>k u. map_holds m' k u \<longleftrightarrow>
            (if \<exists>w. elem_holds es k w then elem_holds es k u else map_holds m k u)))"
proof (induction n fresh m key v and n fresh es m arbitrary: rc m' and rc m'
    rule: gfc_map_put_gfc_map_reinsert.induct)
  case (2 n fresh m key v)
  show ?case
  proof (cases "gfc_map_hash m key = 3001")
    case False
    then show ?thesis
      using "2.prems" map_store_ok [OF "2.prems"(3) refl False]
      by (auto simp: gfc_map_put_Suc split: if_splits)
  next
    case True
    show ?thesis
    proof (cases "fresh (2 * gm_table_size m)")
      case None
      then show ?thesis using "2.prems" True by (auto simp: gfc_map_put_Suc gfc_map_rehash_def)
    next
      case (Some temp)
      let ?m0 = "m\<lparr>gm_data := temp, gm_table_size := 2 * gm_table_size m, gm_size := 0\<rparr>"
      have m0: "map_ok ?m0" "\<not> map_holds ?m0 k u" for k u
        using map_ok_empty [OF "2.prems"(2) Some, of 0] map_ok_size [OF "2.prems"(3)]
        by (cases m; auto)+
      obtain rc1 m1 where re: "gfc_map_reinsert n fresh (gm_data m) ?m0 = Inr (rc1, m1)"
        using "2.prems"(1) True Some
        by (auto simp: gfc_map_put_Suc gfc_map_rehash_def split: sum.splits)
      have one: "rc1 \<in> {0, 3003} \<and> (rc1 = 0 \<longrightarrow> map_ok m1 \<and> (\<forall>k u. map_holds m1 k u \<longleftrightarrow> map_holds m k u))"
        using "2.IH"(1) [OF refl True Some re "2.prems"(2) m0(1) map_ok_elems [OF "2.prems"(3)]]
          map_holds_elem [OF "2.prems"(3)] m0(2) by auto
      show ?thesis
      proof (cases "rc1 = 3003")
        case True
        then show ?thesis
          using "2.prems"(1) \<open>gfc_map_hash m key = 3001\<close> Some re
          by (simp add: gfc_map_put_Suc gfc_map_rehash_def)
      next
        case False
        then have ok1: "map_ok m1" "\<And>k u. map_holds m1 k u \<longleftrightarrow> map_holds m k u" using one by auto
        have "gfc_map_put n fresh m1 key v = Inr (rc, m')"
          using "2.prems"(1) \<open>gfc_map_hash m key = 3001\<close> Some re False
          by (simp add: gfc_map_put_Suc gfc_map_rehash_def)
        from "2.IH"(2) [OF refl True _ refl False this "2.prems"(2) ok1(1)] Some re ok1(2)
        show ?thesis by simp
      qed
    qed
  qed
next
  case (4 n fresh e es m)
  have es: "elems_ok es" and e: "me_in_use e \<in> {0, 1}"
    using "4.prems"(4) by (auto simp: elems_ok_def)
  show ?case
  proof (cases "me_in_use e = 0")
    case True
    then have "gfc_map_reinsert n fresh es m = Inr (rc, m')" using "4.prems"(1) by simp
    moreover have "elem_holds (e # es) k u \<longleftrightarrow> elem_holds es k u" for k u
      using True by (auto simp: elem_holds_def)
    ultimately show ?thesis using "4.IH"(1) [OF True _ "4.prems"(2,3) es] by auto
  next
    case False
    then have one: "me_in_use e = 1" "cstr (me_key e) = me_key e"
      using e "4.prems"(4) by (auto simp: elems_ok_def)
    obtain rc1 m1 where put: "gfc_map_put n fresh m (me_key e) (me_data e) = Inr (rc1, m1)"
      using "4.prems"(1) False by (auto split: sum.splits)
    note p = "4.IH"(2) [OF False put "4.prems"(2,3)]
    show ?thesis
    proof (cases "rc1 = 0")
      case False
      then show ?thesis using "4.prems"(1) \<open>me_in_use e \<noteq> 0\<close> put p by auto
    next
      case True
      then have ok1: "map_ok m1"
        "\<And>k u. map_holds m1 k u \<longleftrightarrow> (if k = me_key e then u = me_data e else map_holds m k u)"
        using p one(2) by auto
      have re: "gfc_map_reinsert n fresh es m1 = Inr (rc, m')"
        using "4.prems"(1) \<open>me_in_use e \<noteq> 0\<close> put True by simp
      have new: "\<not> elem_holds es (me_key e) u" for u
        using "4.prems"(4) one by (auto simp: elems_ok_def elem_holds_def image_iff)
      have holds: "elem_holds (e # es) k u \<longleftrightarrow> (k = me_key e \<and> u = me_data e) \<or> elem_holds es k u" for k u
        using one by (auto simp: elem_holds_def)
      from "4.IH"(3) [OF \<open>me_in_use e \<noteq> 0\<close> put refl _ re "4.prems"(2) ok1(1) es] True ok1(2) new
      show ?thesis by (auto simp: holds)
    qed
  qed
qed (auto simp: elem_holds_def)

section \<open>The interface\<close>

text \<open>
  What the agent's clients rely on: a dictionary that takes up to \<open>cap\<close> insertions and then
  answers like the finite map of what was inserted. \<open>ok r\<close> says that at most \<open>r\<close> have
  been made.
\<close>

fun insert_each :: "('m \<Rightarrow> string \<Rightarrow> 'v \<Rightarrow> 'm option) \<Rightarrow> 'm \<Rightarrow> (string \<times> 'v) list \<Rightarrow> 'm option" where
  "insert_each ins m [] = Some m"
| "insert_each ins m ((k, v) # kvs) = (case ins m k v of None \<Rightarrow> None | Some m' \<Rightarrow> insert_each ins m' kvs)"

locale dictionary =
  fixes ins :: "'m \<Rightarrow> string \<Rightarrow> 'v \<Rightarrow> 'm option" and look :: "'m \<Rightarrow> string \<Rightarrow> 'v option"
    and ok :: "nat \<Rightarrow> 'm \<Rightarrow> bool" and cap :: nat and key_ok :: "string \<Rightarrow> bool"
  assumes ins_ok: "ok r m \<Longrightarrow> r < cap \<Longrightarrow> key_ok k \<Longrightarrow>
      \<exists>m'. ins m k v = Some m' \<and> ok (Suc r) m'
        \<and> (\<forall>k'. key_ok k' \<longrightarrow> look m' k' = ((look m)(k \<mapsto> v)) k')"
begin

lemma insert_each_ok:
  "ok r m \<Longrightarrow> r + length kvs \<le> cap \<Longrightarrow> \<forall>k \<in> fst ` set kvs. key_ok k \<Longrightarrow>
     \<exists>m'. insert_each ins m kvs = Some m' \<and> ok (r + length kvs) m'
       \<and> (\<forall>k. key_ok k \<longrightarrow> look m' k = (look m ++ map_of (rev kvs)) k)"
proof (induction kvs arbitrary: r m)
  case (Cons kv kvs)
  obtain k v where kv: "kv = (k, v)" by force
  have "r < cap" "key_ok k" using Cons.prems kv by auto
  from ins_ok [OF Cons.prems(1) this, of v] obtain m1 where m1: "ins m k v = Some m1" "ok (Suc r) m1"
    "\<forall>k'. key_ok k' \<longrightarrow> look m1 k' = ((look m)(k \<mapsto> v)) k'" by blast
  from Cons.IH [OF m1(2)] Cons.prems kv obtain m2 where m2: "insert_each ins m1 kvs = Some m2"
    "ok (Suc r + length kvs) m2" "\<forall>k. key_ok k \<longrightarrow> look m2 k = (look m1 ++ map_of (rev kvs)) k"
    by auto
  have "look m2 k' = (look m ++ map_of (rev (kv # kvs))) k'" if "key_ok k'" for k'
    using m2(3) m1(3) that kv by (auto simp: map_add_def split: option.split)
  then show ?case using m1 m2 kv by simp
qed auto

end

section \<open>The hash map implements it\<close>

definition gm_ins :: "'a gfc_map \<Rightarrow> string \<Rightarrow> 'a option \<Rightarrow> 'a gfc_map option" where
  "gm_ins m k v = (case gfc_map_put 1 (\<lambda>_. None) m k v of
      Inr (rc, m') \<Rightarrow> if rc = GFC_ERROR_MAP_OK then Some m' else None | Inl _ \<Rightarrow> None)"

definition gm_look :: "'a gfc_map \<Rightarrow> string \<Rightarrow> 'a option option" where
  "gm_look m k = (case gfc_map_get m k of (rc, v) \<Rightarrow> if rc = GFC_ERROR_MAP_OK then Some v else None)"

definition gm_used :: "'a gfc_map \<Rightarrow> nat set" where
  "gm_used m = {i. i < gm_table_size m \<and> me_in_use (gm_data m ! i) = 1}"

definition gm_ok :: "nat \<Rightarrow> 'a gfc_map \<Rightarrow> bool" where
  "gm_ok r m \<longleftrightarrow> map_ok m \<and> gm_table_size m = INITIAL_SIZE \<and> card (gm_used m) \<le> r \<and> gm_size m \<le> int r"

definition gm_key_ok :: "string \<Rightarrow> bool" where
  "gm_key_ok k \<longleftrightarrow> nul \<notin> set k \<and> length k < 1024"

lemma finite_gm_used [simp]: "finite (gm_used m)"
  by (simp add: gm_used_def)

lemma gm_look_iff: "map_ok m \<Longrightarrow> gm_look m k = Some v \<longleftrightarrow> map_holds m (cstr k) v"
  using gfc_map_get_iff [of m k v] by (auto simp: gm_look_def split: prod.splits)

lemma gm_hash_found:
  assumes ok: "gm_ok r m" and r: "r < 8"
  shows "gfc_map_hash m key \<noteq> GFC_ERROR_MAP_FULL"
proof
  assume full: "gfc_map_hash m key = GFC_ERROR_MAP_FULL"
  have m: "map_ok m" "gm_table_size m = 256" "card (gm_used m) \<le> r" "gm_size m \<le> int r"
    using ok by (auto simp: gm_ok_def)
  have "map_probe (gm_data m) 256 key (map_slot 256 key 0) 8 = 3001"
    using full m r by (auto simp: gfc_map_hash_def map_slot_0 split: if_splits)
  moreover have "map_slot 256 key e \<noteq> 3001" for e
    using map_slot_less [of 256 key e] by linarith
  ultimately have all: "\<forall>k < 8. me_in_use (gm_data m ! map_slot 256 key k) \<noteq> 0"
    using map_probe_stops [of 0 8 "gm_data m" 256 key] by auto
  have "map_slot 256 key ` {..< 8} \<subseteq> gm_used m"
  proof
    fix i assume "i \<in> map_slot 256 key ` {..< 8}"
    then obtain k where k: "k < 8" "i = map_slot 256 key k" by blast
    have "i < 256" using k by simp
    then have "me_in_use (gm_data m ! i) \<in> {0, 1}" using m by (simp add: map_ok_def)
    then show "i \<in> gm_used m" using all k \<open>i < 256\<close> m by (auto simp: gm_used_def)
  qed
  moreover have "inj_on (map_slot 256 key) {..< 8}"
    by (rule inj_onI) (rule map_slot_inj [of _ 256], auto)
  ultimately have "8 \<le> card (gm_used m)"
    using card_mono [of "gm_used m" "map_slot 256 key ` {..< 8}"] by (simp add: card_image)
  then show False using m r by simp
qed

lemma gm_ins_ok:
  assumes ok: "gm_ok r m" and r: "r < 8" and k: "gm_key_ok k"
  shows "\<exists>m'. gm_ins m k v = Some m' \<and> gm_ok (Suc r) m'
    \<and> (\<forall>k'. gm_key_ok k' \<longrightarrow> gm_look m' k' = ((gm_look m)(k \<mapsto> v)) k')"
proof -
  let ?m = "map_store m (gfc_map_hash m k) k v"
  have m: "map_ok m" "gm_table_size m = 256" "card (gm_used m) \<le> r" "gm_size m \<le> int r"
    using ok by (auto simp: gm_ok_def)
  note store = map_store_ok [OF m(1) refl gm_hash_found [OF ok r], where v = v]
  have key: "cstr k = k" "length k < 1024" using k by (auto simp: gm_key_ok_def)
  have ins: "gm_ins m k v = Some ?m"
    using gm_hash_found [OF ok r, of k] key by (simp add: gm_ins_def gfc_map_put_Suc)
  have "gm_used ?m \<subseteq> insert (gfc_map_hash m k) (gm_used m)"
  proof
    fix i assume "i \<in> gm_used ?m"
    then show "i \<in> insert (gfc_map_hash m k) (gm_used m)"
      by (cases "i = gfc_map_hash m k") (simp_all add: gm_used_def map_store_def)
  qed
  then have "card (gm_used ?m) \<le> Suc (card (gm_used m))"
    using card_mono [of "insert (gfc_map_hash m k) (gm_used m)" "gm_used ?m"]
      card_insert_if [of "gm_used m" "gfc_map_hash m k"] by (simp split: if_splits)
  then have "gm_ok (Suc r) ?m" using store m by (simp add: gm_ok_def) (simp add: map_store_def)
  moreover have "gm_look ?m k' = ((gm_look m)(k \<mapsto> v)) k'" if "gm_key_ok k'" for k'
  proof -
    have "cstr k' = k'" using that by (simp add: gm_key_ok_def)
    then have "gm_look ?m k' = Some u \<longleftrightarrow> ((gm_look m)(k \<mapsto> v)) k' = Some u" for u
      using gm_look_iff [of ?m k' u] gm_look_iff [OF m(1), of k' u] store key by auto
    then show ?thesis by (metis not_None_eq)
  qed
  ultimately show ?thesis using ins by blast
qed

interpretation gm_dict: dictionary gm_ins gm_look gm_ok 8 gm_key_ok
  by unfold_locales (rule gm_ins_ok)

text \<open>A new map, and what the clients' calls do on a map with room.\<close>

lemma gm_new_ok:
  assumes "gfc_map_new fresh = Some m" and "zeroed fresh"
  shows "gm_ok 0 m \<and> gm_look m k = None"
proof -
  obtain es where es: "fresh 256 = Some es" and m: "m = \<lparr>gm_table_size = 256, gm_size = 0,
      gm_data = map (\<lambda>e. e\<lparr>me_data := None\<rparr>) es\<rparr>"
    using assms(1) by (auto simp: gfc_map_new_def)
  have free: "\<forall>i < 256. me_in_use (gm_data m ! i) = 0" "length (gm_data m) = 256"
    using assms(2) es by (auto simp: zeroed_def m)
  then have ok: "gm_ok 0 m" by (auto simp: gm_ok_def map_ok_def gm_used_def m)
  have "\<not> map_holds m k' u" for k' u using free by (auto simp: map_holds_def m)
  then have "gm_look m k \<noteq> Some v" for v
    using gm_look_iff [of m k v] ok by (simp add: gm_ok_def)
  then show ?thesis using ok by (metis not_None_eq)
qed

lemma gm_put_ins:
  assumes "gm_ok r m" and "r < 8" and "gm_key_ok k" and "gm_ins m k v = Some m'" and "0 < n"
  shows "gfc_map_put n fresh m k v = Inr (GFC_ERROR_MAP_OK, m')"
proof -
  obtain n' where n: "n = Suc n'" using assms(5) by (cases n) auto
  have "cstr k = k" "length k < 1024" using assms(3) by (auto simp: gm_key_ok_def)
  then show ?thesis
    using assms(4) gm_hash_found [OF assms(1,2), of k] n by (simp add: gm_ins_def gfc_map_put_Suc)
qed

lemma gm_get_look:
  "map_ok m \<Longrightarrow> gfc_map_get m key = (case gm_look m key of
     Some v \<Rightarrow> (GFC_ERROR_MAP_OK, v) | None \<Rightarrow> (GFC_ERROR_MAP_MISSING, None))"
  using gfc_map_get_holds [of m key]
  by (auto simp: gm_look_def split: prod.splits if_splits)

section \<open>Properties\<close>


definition sample_table :: "nat gfc_map" where
  "sample_table = \<lparr>gm_table_size = 256, gm_size = 0,
     gm_data = replicate 256 \<lparr>me_key = [], me_in_use = 0, me_data = None\<rparr>\<rparr>"

lemma sample_table_ok: "gm_ok 0 sample_table"
  by (auto simp: gm_ok_def map_ok_def gm_used_def sample_table_def)

lemma map_hash_samples: "gfc_map_hash_int 256 ''c'' = 64" "gfc_map_hash_int 256 ''k'' = 64"
  by (simp_all add: gfc_map_hash_int_def crc32_def crc32_byte_def gfc_map_mix_def crc32_tab_def
      cstr_def Let_def)


text \<open>
  Eight insertions into a new map need no growing: they all succeed, and the map then answers
  every key with the last value inserted for it, and a key that was not inserted with
  \<open>GFC_ERROR_MAP_MISSING\<close>. The settings table has eight columns.
\<close>

theorem gfc_map_row:
  assumes "gfc_map_new fresh = Some m" and "zeroed fresh" and "length kvs \<le> 8"
    and "\<forall>k \<in> fst ` set kvs. gm_key_ok k" and "gm_key_ok key"
  shows "\<exists>m'. insert_each gm_ins m kvs = Some m'
    \<and> gfc_map_get m' key = (case map_of (rev kvs) key of
         Some v \<Rightarrow> (GFC_ERROR_MAP_OK, v) | None \<Rightarrow> (GFC_ERROR_MAP_MISSING, None))"
proof -
  note new = gm_new_ok [OF assms(1,2)]
  from gm_dict.insert_each_ok [OF new [THEN conjunct1] _ assms(4)] assms(3) obtain m' where
    m': "insert_each gm_ins m kvs = Some m'" "gm_ok (0 + length kvs) m'"
    "\<forall>k. gm_key_ok k \<longrightarrow> gm_look m' k = (gm_look m ++ map_of (rev kvs)) k" by auto
  have "gm_look m' key = map_of (rev kvs) key"
    using m'(3) assms(5) new by (simp add: map_add_def split: option.split)
  moreover have "map_ok m'" using m'(2) by (simp add: gm_ok_def)
  ultimately show ?thesis using m'(1) gm_get_look by fastforce
qed

theorem gfc_map_row_witness:
  "\<exists>m'. insert_each gm_ins sample_table [(''stgcd'', Some 1), (''val'', Some 2)] = Some m'
     \<and> gfc_map_get m' ''val'' = (GFC_ERROR_MAP_OK, Some 2)
     \<and> gfc_map_get m' ''nt'' = (GFC_ERROR_MAP_MISSING, None)"
proof -
  let ?fresh = "\<lambda>n. Some (replicate n \<lparr>me_key = [], me_in_use = 0, me_data = None\<rparr>)"
  have new: "gfc_map_new ?fresh = Some sample_table"
    by (simp add: gfc_map_new_def sample_table_def map_replicate_const)
  have z: "zeroed ?fresh" by (simp add: zeroed_def)
  show ?thesis
    using gfc_map_row [OF new z, of "[(''stgcd'', Some 1), (''val'', Some 2)]" "''val''"]
      gfc_map_row [OF new z, of "[(''stgcd'', Some 1), (''val'', Some 2)]" "''nt''"]
    by (auto simp: gm_key_ok_def)
qed

lemma map_find_hit: "0 < n \<Longrightarrow> me_holds (data ! cur) key \<Longrightarrow> map_find data ts key cur n = Some cur"
  by (cases n) (auto simp: me_holds_def)

lemma map_find_next: "0 < n \<Longrightarrow> \<not> me_holds (data ! cur) key \<Longrightarrow>
    map_find data ts key cur n = map_find data ts key ((cur + 1) mod ts) (n - 1)"
  by (cases n) (auto simp: me_holds_def)

lemma map_probe_free: "0 < n \<Longrightarrow> me_in_use (data ! cur) = 0 \<Longrightarrow> map_probe data ts key cur n = cur"
  by (cases n) auto

text \<open>
  C8. Removing breaks the probing: when \<open>k1\<close> and \<open>k2\<close> hash to the same slot and lie in it
  and the next, removing \<open>k1\<close> and putting \<open>k2\<close> stores \<open>k2\<close> a second time, so that after
  \<open>gfc_map_remove\<close> of \<open>k2\<close> the map still answers \<open>k2\<close>, with the old value.
\<close>

theorem gfc_map_remove_resurrects:
  fixes m :: "'a gfc_map"
  defines "h \<equiv> \<lambda>k. gfc_map_hash_int (gm_table_size m) k"
  assumes len: "length (gm_data m) = gm_table_size m" "gm_table_size m = INITIAL_SIZE"
    and room: "gm_size m < 128" and key: "cstr k2 = k2" "length k2 < 1024"
    and hash: "h k1 = i" "h k2 = i"
    and first: "gm_data m ! i = \<lparr>me_key = k1, me_in_use = 1, me_data = v1\<rparr>"
    and second: "gm_data m ! (Suc i mod INITIAL_SIZE) = \<lparr>me_key = k2, me_in_use = 1, me_data = old\<rparr>"
  shows "\<exists>m1 m2. gfc_map_remove m k1 = (GFC_ERROR_MAP_OK, m1)
    \<and> gfc_map_put 1 fresh m1 k2 v = Inr (GFC_ERROR_MAP_OK, m2)
    \<and> gfc_map_get m2 k2 = (GFC_ERROR_MAP_OK, v)
    \<and> gfc_map_get (snd (gfc_map_remove m2 k2)) k2 = (GFC_ERROR_MAP_OK, old)"
proof -
  have i: "i < 256" "i \<noteq> 3001" using hash(1) len(2) by (auto simp: h_def gfc_map_hash_int_def)
  have ne: "Suc i mod 256 \<noteq> i" using i by (cases "Suc i = 256") auto
  have hh: "gfc_map_hash_int 256 k1 = i" "gfc_map_hash_int 256 k2 = i"
    using hash len(2) by (simp_all add: h_def)
  define m1 where "m1 = m\<lparr>gm_data := (gm_data m)[i := \<lparr>me_key = [], me_in_use = 0, me_data = None\<rparr>],
      gm_size := gm_size m - 1\<rparr>"
  have rem: "gfc_map_remove m k1 = (0, m1)"
    using first map_find_hit [of 8 "gm_data m" i k1 256]
    by (simp add: gfc_map_remove_def len hh m1_def me_holds_def)
  have "gfc_map_hash m1 k2 = i"
    using room i len by (simp add: gfc_map_hash_def m1_def hh map_probe_free)
  then have put: "gfc_map_put 1 fresh m1 k2 v = Inr (0, map_store m1 i k2 v)"
    using i key by (simp add: gfc_map_put_Suc)
  have get: "gfc_map_get (map_store m1 i k2 v) k2 = (0, v)"
    using i len key by (simp add: gfc_map_get_def map_store_def m1_def hh map_find_hit me_holds_def)
  let ?m2 = "map_store m1 i k2 v"
  let ?m3 = "?m2\<lparr>gm_data := (gm_data ?m2)[i := \<lparr>me_key = [], me_in_use = 0, me_data = None\<rparr>],
      gm_size := gm_size ?m2 - 1\<rparr>"
  have rem2: "gfc_map_remove ?m2 k2 = (0, ?m3)"
    using i len key map_find_hit [of 8 "gm_data ?m2" i k2 256]
    by (simp add: gfc_map_remove_def map_store_def m1_def hh me_holds_def)
  have "map_find (gm_data ?m3) 256 k2 i 8 = Some (Suc i mod 256)"
    using i len key second ne
    by (simp add: map_find_next map_find_hit me_holds_def map_store_def m1_def)
  then have "gfc_map_get (snd (gfc_map_remove ?m2 k2)) k2 = (0, old)"
    unfolding rem2 using second ne len by (simp add: gfc_map_get_def map_store_def m1_def hh)
  then show ?thesis using rem put get by blast
qed

theorem gfc_map_remove_resurrects_witness:
  fixes m :: "nat gfc_map"
  defines "m \<equiv> \<lparr>gm_table_size = 256, gm_size = 2,
     gm_data = (gm_data sample_table)[64 := \<lparr>me_key = ''c'', me_in_use = 1, me_data = Some 1\<rparr>,
       65 := \<lparr>me_key = ''k'', me_in_use = 1, me_data = Some 2\<rparr>]\<rparr>"
  shows "\<exists>m1 m2. gfc_map_remove m ''c'' = (GFC_ERROR_MAP_OK, m1)
    \<and> gfc_map_put 1 (\<lambda>_. None) m1 ''k'' (Some 3) = Inr (GFC_ERROR_MAP_OK, m2)
    \<and> gfc_map_get m2 ''k'' = (GFC_ERROR_MAP_OK, Some 3)
    \<and> gfc_map_get (snd (gfc_map_remove m2 ''k'')) ''k'' = (GFC_ERROR_MAP_OK, Some 2)"
  by (rule gfc_map_remove_resurrects [where i = 64])
     (simp_all add: m_def sample_table_def map_hash_samples cstr_def)

end
