(* ===== verification/Gfc_List.thy ===== *)
theory Gfc_List
  imports GW_Prelude
begin

text \<open>
  The growable array of the gfc library, \<open>src/3rd/gfc-0.1.1/src/gfc_list.c\<close>, and the
  interface its clients in the agent rely on. A pointer is an \<open>'a option\<close>, \<open>None\<close> for
  NULL. What fresh memory holds is an argument; reading or writing outside the array is \<open>None\<close>.
\<close>

abbreviation (input) INCREMENTAL_CAPACITY :: nat where "INCREMENTAL_CAPACITY \<equiv> 10"

record 'a gfc_list =
  gl_size :: nat
  gl_pointers :: "'a option list"
  gl_capacity :: nat

definition gfc_list_new :: "'a option list \<Rightarrow> 'a gfc_list" where
  "gfc_list_new junk =
     \<lparr>gl_size = 0, gl_pointers = take INCREMENTAL_CAPACITY junk, gl_capacity = INCREMENTAL_CAPACITY\<rparr>"

text \<open>\<open>gfc_list_append\<close>: store, count, and grow by ten when that filled the array.\<close>

definition gfc_list_append :: "'a option list \<Rightarrow> 'a gfc_list \<Rightarrow> 'a option \<Rightarrow> 'a gfc_list option" where
  "gfc_list_append junk l data =
     (if gl_size l \<ge> length (gl_pointers l) then None
      else
        let l1 = l\<lparr>gl_pointers := (gl_pointers l)[gl_size l := data], gl_size := Suc (gl_size l)\<rparr>
        in if gl_size l1 = gl_capacity l1
           then Some (l1\<lparr>gl_capacity := gl_capacity l1 + INCREMENTAL_CAPACITY,
                         gl_pointers := gl_pointers l1 @ take INCREMENTAL_CAPACITY junk\<rparr>)
           else Some l1)"

text \<open>
  \<open>gfc_list_sort\<close>: the exchange of the two loops is commented out, so they only read. The
  bound \<open>size - 1\<close> is unsigned: of an empty list it is the largest \<open>size_t\<close>, and the
  loops read past the array.
\<close>

definition gfc_list_sort :: "'a gfc_list \<Rightarrow> 'a gfc_list option" where
  "gfc_list_sort l = (if gl_size l = 0 then None else Some l)"

text \<open>The loop of \<open>gfc_list_remove\<close>: move down, then clear the last pointer.\<close>

fun list_shift :: "'a option list \<Rightarrow> nat \<Rightarrow> nat \<Rightarrow> 'a option list" where
  "list_shift ps i 0 = ps"
| "list_shift ps i (Suc n) = list_shift (ps[i := ps ! Suc i]) (Suc i) n"

definition gfc_list_remove :: "'a gfc_list \<Rightarrow> nat \<Rightarrow> 'a gfc_list" where
  "gfc_list_remove l index =
     (if index \<ge> gl_size l then l
      else l\<lparr>gl_pointers := (list_shift (gl_pointers l) index (gl_size l - 1 - index))
                              [gl_size l - 1 := None],
             gl_size := gl_size l - 1\<rparr>)"

definition gfc_list_get :: "'a gfc_list \<Rightarrow> nat \<Rightarrow> 'a option" where
  "gfc_list_get l index = (if index \<ge> gl_size l then None else gl_pointers l ! index)"

definition gfc_list_size :: "'a gfc_list \<Rightarrow> nat" where
  "gfc_list_size l = gl_size l"

text \<open>
  \<open>gfc_list_clear\<close>: \<open>i\<close> rises while the size falls, so the loop stops half way; the last
  assignment drops the rest.
\<close>

function list_clear_loop :: "nat \<Rightarrow> 'a gfc_list \<Rightarrow> 'a gfc_list" where
  "list_clear_loop i l = (if i < gl_size l then list_clear_loop (Suc i) (gfc_list_remove l 0) else l)"
  by pat_completeness auto
termination
  by (relation "measure (\<lambda>(i, l). gl_size l - i)") (auto simp: gfc_list_remove_def)

declare list_clear_loop.simps [simp del]

definition gfc_list_clear :: "'a gfc_list \<Rightarrow> 'a gfc_list" where
  "gfc_list_clear l = (list_clear_loop 0 l)\<lparr>gl_size := 0\<rparr>"

section \<open>The interface\<close>

text \<open>Appending a series, as the clients' loops do.\<close>

fun append_each :: "('s \<Rightarrow> 'a option \<Rightarrow> 's option) \<Rightarrow> 's \<Rightarrow> 'a option list \<Rightarrow> 's option" where
  "append_each app s [] = Some s"
| "append_each app s (x # xs) = (case app s x of None \<Rightarrow> None | Some s' \<Rightarrow> append_each app s' xs)"

text \<open>
  What a client may assume of a sequence: \<open>content\<close> is its abstract value, \<open>ok\<close> its
  invariant. Appending may need memory, whose junk is the first argument.
\<close>

locale sequence =
  fixes empty :: "'j \<Rightarrow> 's" and append :: "'j \<Rightarrow> 's \<Rightarrow> 'a option \<Rightarrow> 's option"
    and get :: "'s \<Rightarrow> nat \<Rightarrow> 'a option" and count :: "'s \<Rightarrow> nat"
    and content :: "'s \<Rightarrow> 'a option list" and ok :: "'s \<Rightarrow> bool" and junk_ok :: "'j \<Rightarrow> bool"
  assumes empty_ok: "junk_ok j \<Longrightarrow> ok (empty j) \<and> content (empty j) = []"
    and append_ok: "junk_ok j \<Longrightarrow> ok s \<Longrightarrow>
      \<exists>s'. append j s x = Some s' \<and> ok s' \<and> content s' = content s @ [x]"
    and get_content: "ok s \<Longrightarrow> get s i = (if i < length (content s) then content s ! i else None)"
    and count_content: "ok s \<Longrightarrow> count s = length (content s)"
begin

lemma append_each_ok:
  "junk_ok j \<Longrightarrow> ok s \<Longrightarrow> \<exists>s'. append_each (append j) s xs = Some s' \<and> ok s' \<and> content s' = content s @ xs"
proof (induction xs arbitrary: s)
  case (Cons x xs)
  from append_ok [OF Cons.prems, of x] obtain s1
    where s1: "append j s x = Some s1" "ok s1" "content s1 = content s @ [x]" by blast
  from Cons.IH [OF Cons.prems(1) s1(2)] s1 show ?case by auto
qed simp

lemma build_ok:
  assumes "junk_ok j"
  shows "\<exists>s. append_each (append j) (empty j) xs = Some s \<and> count s = length xs
    \<and> (\<forall>i < length xs. get s i = xs ! i)"
  using append_each_ok [OF assms, of "empty j" xs] empty_ok [OF assms] get_content count_content
  by auto

end

section \<open>The array implements it\<close>

definition gl_content :: "'a gfc_list \<Rightarrow> 'a option list" where
  "gl_content l = take (gl_size l) (gl_pointers l)"

definition gl_ok :: "'a gfc_list \<Rightarrow> bool" where
  "gl_ok l \<longleftrightarrow> length (gl_pointers l) = gl_capacity l \<and> gl_size l < gl_capacity l"

lemma gl_content_length [simp]: "gl_ok l \<Longrightarrow> length (gl_content l) = gl_size l"
  by (simp add: gl_content_def gl_ok_def)

lemma gfc_list_append_ok:
  assumes "10 \<le> length junk" and "gl_ok l"
  shows "\<exists>l'. gfc_list_append junk l x = Some l' \<and> gl_ok l' \<and> gl_content l' = gl_content l @ [x]"
proof -
  have n: "gl_size l < length (gl_pointers l)" using assms(2) by (simp add: gl_ok_def)
  have "take (Suc (gl_size l)) ((gl_pointers l)[gl_size l := x]) = take (gl_size l) (gl_pointers l) @ [x]"
    using n by (simp add: take_Suc_conv_app_nth)
  then show ?thesis
    using assms n by (auto simp: gfc_list_append_def gl_ok_def gl_content_def Let_def)
qed

interpretation gfc_seq: sequence gfc_list_new gfc_list_append gfc_list_get gfc_list_size
  gl_content gl_ok "\<lambda>junk. 10 \<le> length junk"
proof (unfold_locales, goal_cases)
  case (1 j)
  then show ?case by (simp add: gfc_list_new_def gl_ok_def gl_content_def)
next
  case (2 j s x)
  then show ?case by (rule gfc_list_append_ok)
next
  case (3 s i)
  then show ?case by (simp add: gfc_list_get_def gl_content_def gl_ok_def)
next
  case (4 s)
  then show ?case by (simp add: gfc_list_size_def)
qed

section \<open>Removing\<close>

lemma list_shift_length [simp]: "length (list_shift ps i n) = length ps"
  by (induction ps i n rule: list_shift.induct) auto

lemma list_shift_nth:
  "i + n < length ps \<Longrightarrow> k < length ps \<Longrightarrow>
     list_shift ps i n ! k = (if i \<le> k \<and> k < i + n then ps ! Suc k else ps ! k)"
  by (induction ps i n rule: list_shift.induct) (auto simp: nth_list_update)

lemma gfc_list_remove_content:
  assumes ok: "gl_ok l" and i: "index < gl_size l"
  shows "gl_ok (gfc_list_remove l index)
    \<and> gl_content (gfc_list_remove l index) = take index (gl_content l) @ drop (Suc index) (gl_content l)"
proof -
  have len: "gl_size l < length (gl_pointers l)" using ok by (simp add: gl_ok_def)
  have "gl_content (gfc_list_remove l index) ! k
      = (take index (gl_content l) @ drop (Suc index) (gl_content l)) ! k"
    if "k < gl_size l - 1" for k
    using that i len list_shift_nth [of index "gl_size l - Suc index" "gl_pointers l" k]
    by (auto simp: gfc_list_remove_def gl_content_def nth_append)
  moreover have "gl_ok (gfc_list_remove l index)"
    using ok i by (auto simp: gfc_list_remove_def gl_ok_def)
  ultimately show ?thesis
    using ok i by (intro conjI nth_equalityI) (auto simp: gfc_list_remove_def)
qed

lemma list_clear_ok: "gl_ok l \<Longrightarrow> gl_ok (list_clear_loop i l)"
proof (induction i l rule: list_clear_loop.induct)
  case (1 i l)
  then show ?case
    using gfc_list_remove_content [of l 0]
    by (subst list_clear_loop.simps) auto
qed

section \<open>Properties\<close>

text \<open>
  The list is the sequence of what was appended: built by appending \<open>xs\<close> to a new list, it
  has \<open>length xs\<close> elements, \<open>gfc_list_get\<close> gives them in order and NULL beyond, whatever
  the memory held, and no append writes outside the array.
\<close>

theorem gfc_list_build:
  assumes "10 \<le> length junk"
  shows "\<exists>l. append_each (gfc_list_append junk) (gfc_list_new junk) xs = Some l \<and> gfc_list_size l = length xs
    \<and> (\<forall>i. gfc_list_get l i = (if i < length xs then xs ! i else None))"
proof -
  from gfc_seq.append_each_ok [OF assms, of "gfc_list_new junk" xs] gfc_seq.empty_ok [OF assms]
  obtain l where "append_each (gfc_list_append junk) (gfc_list_new junk) xs = Some l" "gl_ok l"
    "gl_content l = xs" by auto
  then show ?thesis using gfc_seq.get_content gfc_seq.count_content by auto
qed

theorem gfc_list_build_witness:
  "\<exists>l. append_each (gfc_list_append (replicate 10 None)) (gfc_list_new (replicate 10 None))
       (map Some [1 :: nat, 2, 3, 4, 5, 6, 7, 8, 9, 10, 11]) = Some l
     \<and> gfc_list_get l 10 = Some 11 \<and> gfc_list_get l 11 = None"
  using gfc_list_build [of "replicate 10 None" "map Some [1 :: nat, 2, 3, 4, 5, 6, 7, 8, 9, 10, 11]"]
  by (auto simp: nth_Cons')

text \<open>
  \<open>gfc_list_remove\<close> deletes exactly the element at its index and keeps the order of the
  others; an index that is not there changes nothing; \<open>gfc_list_clear\<close> empties the list.
\<close>

theorem gfc_list_remove_correct:
  assumes "gl_ok l"
  shows "gl_content (gfc_list_remove l index)
      = (if index < length (gl_content l)
         then take index (gl_content l) @ drop (Suc index) (gl_content l) else gl_content l)
    \<and> gl_ok (gfc_list_remove l index)
    \<and> gl_content (gfc_list_clear l) = [] \<and> gl_ok (gfc_list_clear l)"
proof -
  have "gl_ok (gfc_list_clear l)"
    using list_clear_ok [OF assms, of 0] by (auto simp: gfc_list_clear_def gl_ok_def)
  moreover have "gl_content (gfc_list_clear l) = []"
    by (simp add: gl_content_def gfc_list_clear_def)
  moreover have "\<not> index < gl_size l \<Longrightarrow> gfc_list_remove l index = l"
    by (simp add: gfc_list_remove_def)
  ultimately show ?thesis
    using assms gfc_list_remove_content [OF assms, of index] by (cases "index < gl_size l") auto
qed

theorem gfc_list_remove_correct_witness:
  "gl_content (gfc_list_remove \<lparr>gl_size = 3, gl_pointers = map Some [''a'', ''b'', ''c'', []],
     gl_capacity = 4\<rparr> 1) = [Some ''a'', Some ''c'']"
  using gfc_list_remove_correct [of "\<lparr>gl_size = 3, gl_pointers = map Some [''a'', ''b'', ''c'', []],
     gl_capacity = 4\<rparr>" 1]
  by (simp add: gl_ok_def gl_content_def numeral_3_eq_3)

end
