(* ===== verification/Gfc_Gc.thy ===== *)
theory Gfc_Gc
  imports GW_Prelude
begin

text \<open>
  The allocation ledger of the gfc library, \<open>src/3rd/gfc-0.1.1/src/gfc_gc.c\<close>: every
  list, map and string of the agent is allocated and freed through it. The ledger is an array of
  records with a bit per record that says it is in use.

  Addresses are numbers, 0 is NULL. What \<open>malloc\<close>, \<open>realloc\<close> and \<open>time\<close> return and
  what fresh memory holds are arguments; a write outside an array is a fault, a value of its own.
\<close>

section \<open>The ledger\<close>

record gfc_gc_ptr =
  gp_ptr :: nat
  gp_len :: nat
  gp_size :: nat
  gp_total :: nat
  gp_ts :: int

record gfc_gc =
  gc_bits :: "8 word list"
  gc_ptrs :: "gfc_gc_ptr list"
  gc_len :: nat
  gc_total :: nat
  gc_ts :: int

datatype gc_fault = Out_of_Bounds nat

abbreviation (input) GFC_GC_INC_COUNT :: nat where "GFC_GC_INC_COUNT \<equiv> 64"

datatype gc_code = GFC_GC_OK | GFC_GC_IS_NULL | GFC_GC_NOT_FOUND

definition gc_ptr_zero :: gfc_gc_ptr where
  "gc_ptr_zero = \<lparr>gp_ptr = 0, gp_len = 0, gp_size = 0, gp_total = 0, gp_ts = 0\<rparr>"

definition gfc_gc_init :: "int \<Rightarrow> gfc_gc" where
  "gfc_gc_init ts0 =
     \<lparr>gc_bits = replicate (GFC_GC_INC_COUNT div 8) 0,
      gc_ptrs = replicate GFC_GC_INC_COUNT gc_ptr_zero,
      gc_len = GFC_GC_INC_COUNT, gc_total = 0, gc_ts = ts0\<rparr>"

section \<open>Bits\<close>

text \<open>The masks the two switches write: record \<open>8 * i + j\<close> has bit \<open>7 - j\<close> of byte \<open>i\<close>.\<close>

definition gc_set_mask :: "nat \<Rightarrow> 8 word" where
  "gc_set_mask j = [0b10000000, 0b01000000, 0b00100000, 0b00010000,
                    0b00001000, 0b00000100, 0b00000010, 0b00000001] ! j"

definition gc_clear_mask :: "nat \<Rightarrow> 8 word" where
  "gc_clear_mask j = [0b01111111, 0b10111111, 0b11011111, 0b11101111,
                      0b11110111, 0b11111011, 0b01111101, 0b11111110] ! j"

text \<open>The chain of tests that finds the first clear bit of a byte.\<close>

definition gc_free_bit :: "8 word \<Rightarrow> nat" where
  "gc_free_bit byte =
     (if byte OR 0b01111111 = 0b01111111 then 0
      else if byte OR 0b10111111 = 0b10111111 then 1
      else if byte OR 0b11011111 = 0b11011111 then 2
      else if byte OR 0b11101111 = 0b11101111 then 3
      else if byte OR 0b11110111 = 0b11110111 then 4
      else if byte OR 0b11111011 = 0b11111011 then 5
      else if byte OR 0b11111101 = 0b11111101 then 6
      else if byte OR 0b11111110 = 0b11111110 then 7
      else 0)"

text \<open>The first loop of \<open>gfc_gc_malloc\<close>: byte and bit of the record to use.\<close>

fun gc_find :: "8 word list \<Rightarrow> nat \<Rightarrow> nat \<times> nat" where
  "gc_find [] idx = (idx, 0)"
| "gc_find (byte # bytes) idx =
     (if byte AND 0b11111111 = 0b11111111 then gc_find bytes (Suc idx) else (idx, gc_free_bit byte))"

section \<open>Allocating\<close>

text \<open>
  \<open>gfc_gc_malloc\<close>: \<open>ret\<close> is what \<open>malloc\<close> returned, \<open>now\<close> the time, \<open>junk\<close> what
  the grown arrays hold in their new part. The first component is the pointer returned.
\<close>

definition gfc_gc_malloc :: "nat \<Rightarrow> int \<Rightarrow> 8 word list \<times> gfc_gc_ptr list \<Rightarrow> nat \<Rightarrow> nat
    \<Rightarrow> gfc_gc option \<Rightarrow> gc_fault + nat \<times> gfc_gc option" where
  "gfc_gc_malloc ret now junk sz len ctx =
     (case ctx of
        None \<Rightarrow> Inr (0, None)
      | Some g \<Rightarrow>
          if ret = 0 then Inr (0, Some g)
          else
            let total = (len * sz) mod 2 ^ 64;
                (idx, bitidx) = gc_find (take (gc_len g div 8) (gc_bits g)) 0;
                ptridx = idx * 8 + bitidx;
                entry = \<lparr>gp_ptr = ret, gp_len = len, gp_size = sz, gp_total = total, gp_ts = now\<rparr>
            in if ptridx \<ge> gc_len g then
                 let len' = gc_len g + GFC_GC_INC_COUNT;
                     bits' = gc_bits g @ fst junk;
                     ptrs' = gc_ptrs g @ snd junk
                 in if ptridx \<ge> length bits' then Inl (Out_of_Bounds ptridx)
                    else Inr (ret, Some (g\<lparr>gc_len := len',
                           gc_bits := (bits'[ptridx := 0])[ptridx div 8 := 0b10000000],
                           gc_ptrs := ptrs'[ptridx := entry], gc_ts := now,
                           gc_total := (gc_total g + total) mod 2 ^ 64\<rparr>))
               else Inr (ret, Some (g\<lparr>gc_bits := (gc_bits g)[ptridx div 8 :=
                             gc_bits g ! (ptridx div 8) OR gc_set_mask bitidx],
                           gc_ptrs := (gc_ptrs g)[ptridx := entry], gc_ts := now,
                           gc_total := (gc_total g + total) mod 2 ^ 64\<rparr>)))"

text \<open>
  \<open>gfc_gc_dup\<close>: NULL for NULL and for the empty string, else a copy, whose text the model
  keeps beside its address.
\<close>

definition gfc_gc_dup :: "string option \<Rightarrow> string option" where
  "gfc_gc_dup str = (case str of None \<Rightarrow> None | Some s \<Rightarrow> if cstr s = [] then None else Some (cstr s))"

section \<open>Looking records up\<close>

text \<open>The loop of \<open>gfc_gc_realloc\<close> and \<open>gfc_gc_free\<close>: the first record of the pointer.\<close>

fun gc_index :: "gfc_gc_ptr list \<Rightarrow> nat \<Rightarrow> nat \<Rightarrow> nat option" where
  "gc_index [] ptr i = None"
| "gc_index (p # ps) ptr i = (if gp_ptr p = ptr then Some i else gc_index ps ptr (Suc i))"

text \<open>
  \<open>gfc_gc_realloc\<close>: \<open>ret\<close> is what \<open>realloc\<close> returned. A pointer the ledger does not
  hold is an assertion failure, \<open>None\<close>.
\<close>

definition gfc_gc_realloc :: "nat \<Rightarrow> int \<Rightarrow> nat \<Rightarrow> nat \<Rightarrow> nat \<Rightarrow> gfc_gc option
    \<Rightarrow> (nat \<times> gfc_gc option) option" where
  "gfc_gc_realloc ret now ptr sz len ctx =
     (case ctx of
        None \<Rightarrow> Some (0, None)
      | Some g \<Rightarrow>
          if ptr = 0 then Some (0, Some g)
          else
            let total = (len * sz) mod 2 ^ 64
            in (case gc_index (take (gc_len g) (gc_ptrs g)) ptr 0 of
                  None \<Rightarrow> None
                | Some i \<Rightarrow>
                    Some (ret, Some (g\<lparr>
                      gc_total := (gc_total g + total + 2 ^ 64 - gp_total (gc_ptrs g ! i)) mod 2 ^ 64,
                      gc_ptrs := (gc_ptrs g)[i := \<lparr>gp_ptr = ret, gp_len = len, gp_size = sz,
                                                   gp_total = total, gp_ts = now\<rparr>]\<rparr>))))"

definition gfc_gc_free :: "nat \<Rightarrow> gfc_gc \<Rightarrow> gc_code \<times> gfc_gc" where
  "gfc_gc_free ptr g =
     (if ptr = 0 then (GFC_GC_IS_NULL, g)
      else (case gc_index (take (gc_len g) (gc_ptrs g)) ptr 0 of
              None \<Rightarrow> (GFC_GC_NOT_FOUND, g)
            | Some i \<Rightarrow>
                (GFC_GC_OK,
                 g\<lparr>gc_total := (gc_total g + 2 ^ 64 - gp_total (gc_ptrs g ! i)) mod 2 ^ 64,
                   gc_ptrs := (gc_ptrs g)[i := (gc_ptrs g ! i)\<lparr>gp_ptr := 0, gp_len := 0,
                                                gp_size := 0, gp_total := 0\<rparr>],
                   gc_bits := (gc_bits g)[i div 8 :=
                                gc_bits g ! (i div 8) AND gc_clear_mask (i mod 8)]\<rparr>)))"

section \<open>Bytes\<close>

lemma all_less_8: "(\<forall>n < 8. P n) \<longleftrightarrow> P 0 \<and> P 1 \<and> P 2 \<and> P 3 \<and> P 4 \<and> P 5 \<and> P 6 \<and> P (7::nat)"
  by (simp add: eval_nat_numeral All_less_Suc2 conj_ac)

lemma byte_eq_iff: "(a :: 8 word) = b \<longleftrightarrow> (\<forall>n < 8. bit a n = bit b n)"
  by (simp add: bit_eq_iff)

lemma gc_free_bit_first:
  assumes "byte \<noteq> 255"
  shows "gc_free_bit byte < 8 \<and> \<not> bit byte (7 - gc_free_bit byte)"
  using assms
  by (auto simp: gc_free_bit_def byte_eq_iff all_less_8 bit_or_iff bit_numeral_rec)

lemma gc_set_mask_bit: "i < 8 \<Longrightarrow> j < 8 \<Longrightarrow> bit (gc_set_mask j) (7 - i) \<longleftrightarrow> i = j"
proof -
  have "\<forall>j < 8. \<forall>i < 8. bit (gc_set_mask j) (7 - i) \<longleftrightarrow> i = j"
    unfolding all_less_8 by (simp add: gc_set_mask_def)
  then show "i < 8 \<Longrightarrow> j < 8 \<Longrightarrow> bit (gc_set_mask j) (7 - i) \<longleftrightarrow> i = j" by blast
qed

text \<open>The mask of record 6 clears the bit of record 0 of the same byte as well.\<close>

lemma gc_clear_mask_bit:
  "i < 8 \<Longrightarrow> j < 8 \<Longrightarrow> bit (gc_clear_mask j) (7 - i) \<longleftrightarrow> i \<noteq> j \<and> \<not> (j = 6 \<and> i = 0)"
proof -
  have "\<forall>j < 8. \<forall>i < 8. bit (gc_clear_mask j) (7 - i) \<longleftrightarrow> i \<noteq> j \<and> \<not> (j = 6 \<and> i = 0)"
    unfolding all_less_8 by (simp add: gc_clear_mask_def)
  then show "i < 8 \<Longrightarrow> j < 8 \<Longrightarrow> bit (gc_clear_mask j) (7 - i) \<longleftrightarrow> i \<noteq> j \<and> \<not> (j = 6 \<and> i = 0)"
    by blast
qed

lemma byte_and_255 [simp]: "(byte :: 8 word) AND 255 = byte"
  by (simp add: byte_eq_iff all_less_8 bit_and_iff bit_numeral_rec)

lemma gc_find_bounds:
  "gc_find bytes idx = (i, j) \<Longrightarrow> idx \<le> i \<and> i \<le> idx + length bytes \<and> j < 8
     \<and> (i = idx + length bytes \<longrightarrow> j = 0 \<and> (\<forall>b \<in> set bytes. b = 255))
     \<and> (i < idx + length bytes \<longrightarrow> \<not> bit (bytes ! (i - idx)) (7 - j))"
proof (induction bytes arbitrary: idx)
  case (Cons b bytes)
  show ?case
  proof (cases "b = 255")
    case True
    then have "gc_find bytes (Suc idx) = (i, j)" using Cons.prems by simp
    from Cons.IH [OF this] True show ?thesis by (auto simp: nth_Cons')
  next
    case False
    then show ?thesis using Cons.prems gc_free_bit_first by auto
  qed
qed simp

section \<open>The ledger's invariant\<close>

definition gc_used :: "gfc_gc \<Rightarrow> nat \<Rightarrow> bool" where
  "gc_used g i \<longleftrightarrow> bit (gc_bits g ! (i div 8)) (7 - i mod 8)"

definition gc_ok :: "gfc_gc \<Rightarrow> bool" where
  "gc_ok g \<longleftrightarrow> length (gc_ptrs g) = gc_len g \<and> 8 * length (gc_bits g) = gc_len g
     \<and> (\<forall>i < gc_len g. gc_used g i \<longleftrightarrow> gp_ptr (gc_ptrs g ! i) \<noteq> 0)
     \<and> (\<forall>i < gc_len g. \<forall>j < gc_len g. gp_ptr (gc_ptrs g ! i) = gp_ptr (gc_ptrs g ! j)
          \<longrightarrow> gp_ptr (gc_ptrs g ! i) \<noteq> 0 \<longrightarrow> i = j)
     \<and> (\<forall>i < gc_len g. gp_ptr (gc_ptrs g ! i) = 0 \<longrightarrow> gp_total (gc_ptrs g ! i) = 0)
     \<and> (\<forall>r \<in> set (gc_ptrs g). gp_total r < 2 ^ 64) \<and> 64 \<le> gc_len g
     \<and> gc_total g = sum_list (map gp_total (gc_ptrs g)) mod 2 ^ 64"

text \<open>The pointers the ledger holds and the record of each.\<close>

definition gc_live :: "gfc_gc \<Rightarrow> nat \<Rightarrow> gfc_gc_ptr option" where
  "gc_live g ptr =
     (if ptr = 0 then None
      else map_option (\<lambda>i. gc_ptrs g ! i) (gc_index (take (gc_len g) (gc_ptrs g)) ptr 0))"

lemma gc_index_Some:
  "gc_index ps ptr i = Some k \<Longrightarrow> i \<le> k \<and> k < i + length ps \<and> gp_ptr (ps ! (k - i)) = ptr"
  by (induction ps arbitrary: i) (fastforce split: if_splits simp: nth_Cons')+

lemma gc_index_None: "gc_index ps ptr i = None \<longleftrightarrow> (\<forall>p \<in> set ps. gp_ptr p \<noteq> ptr)"
  by (induction ps arbitrary: i) auto

lemma gc_index_unique:
  assumes "k < length ps" and "gp_ptr (ps ! k) = ptr"
    and "\<And>j. j < length ps \<Longrightarrow> gp_ptr (ps ! j) = ptr \<Longrightarrow> j = k"
  shows "gc_index ps ptr 0 = Some k"
proof (cases "gc_index ps ptr 0")
  case None
  then show ?thesis using assms(1,2) by (auto simp: gc_index_None)
next
  case (Some m)
  then show ?thesis using gc_index_Some [OF Some] assms(3) by auto
qed

lemma gc_live_iff:
  assumes "gc_ok g" and "ptr \<noteq> 0"
  shows "gc_live g ptr = Some r \<longleftrightarrow> (\<exists>i < gc_len g. gc_ptrs g ! i = r \<and> gp_ptr r = ptr)"
proof
  assume "gc_live g ptr = Some r"
  then show "\<exists>i < gc_len g. gc_ptrs g ! i = r \<and> gp_ptr r = ptr"
    using assms by (auto simp: gc_live_def gc_ok_def split: if_splits dest!: gc_index_Some)
next
  assume "\<exists>i < gc_len g. gc_ptrs g ! i = r \<and> gp_ptr r = ptr"
  then obtain i where i: "i < gc_len g" "gc_ptrs g ! i = r" "gp_ptr r = ptr" by blast
  have "gc_index (gc_ptrs g) ptr 0 = Some i"
    using assms i by (intro gc_index_unique) (auto simp: gc_ok_def)
  then show "gc_live g ptr = Some r" using assms i by (simp add: gc_live_def gc_ok_def)
qed

lemma gc_live_None:
  assumes "gc_ok g" and "ptr \<noteq> 0"
  shows "gc_live g ptr = None \<longleftrightarrow> (\<forall>i < gc_len g. gp_ptr (gc_ptrs g ! i) \<noteq> ptr)"
  using assms by (auto simp: gc_live_def gc_ok_def gc_index_None all_set_conv_all_nth)

lemma gc_okI_update:
  assumes ok: "gc_ok g" and i: "i < gc_len g"
    and bits: "\<And>k. k < gc_len g \<Longrightarrow> gc_used g' k \<longleftrightarrow> (if k = i then gp_ptr r \<noteq> 0 else gc_used g k)"
    and g': "gc_len g' = gc_len g" "gc_ptrs g' = (gc_ptrs g)[i := r]"
      "length (gc_bits g') = length (gc_bits g)"
      "gc_total g' = sum_list (map gp_total ((gc_ptrs g)[i := r])) mod 2 ^ 64"
    and r: "gp_total r < 2 ^ 64" "gp_ptr r = 0 \<Longrightarrow> gp_total r = 0"
      "\<And>k. k < gc_len g \<Longrightarrow> k \<noteq> i \<Longrightarrow> gp_ptr r \<noteq> 0 \<Longrightarrow> gp_ptr (gc_ptrs g ! k) \<noteq> gp_ptr r"
  shows "gc_ok g'"
  unfolding gc_ok_def g'(1,2,4)
proof (intro conjI allI impI)
  fix k l assume "k < gc_len g" "l < gc_len g"
    and "gp_ptr ((gc_ptrs g)[i := r] ! k) = gp_ptr ((gc_ptrs g)[i := r] ! l)"
    and "gp_ptr ((gc_ptrs g)[i := r] ! k) \<noteq> 0"
  then show "k = l"
    using ok i r(3)
    by (cases "k = i"; cases "l = i") (auto simp: gc_ok_def dest: not_sym)
qed (use ok i bits r g' in \<open>auto simp: gc_ok_def nth_list_update
      dest!: subsetD [OF set_update_subset_insert]\<close>)

lemma gc_live_update:
  assumes ok: "gc_ok g" and ok': "gc_ok g'" and i: "i < gc_len g"
    and g': "gc_len g' = gc_len g" "gc_ptrs g' = (gc_ptrs g)[i := r]"
    and p: "p \<noteq> gp_ptr r" "p \<noteq> gp_ptr (gc_ptrs g ! i)"
  shows "gc_live g' p = gc_live g p"
proof (cases "p = 0")
  case False
  have "gc_live g' p = Some q \<longleftrightarrow> gc_live g p = Some q" for q
    unfolding gc_live_iff [OF ok False] gc_live_iff [OF ok' False] g'
    using i p ok by (auto simp: gc_ok_def nth_list_update split: if_splits)
  then show ?thesis by (metis not_None_eq)
qed (simp add: gc_live_def)

lemma sum_list_map_update:
  fixes f :: "'a \<Rightarrow> nat"
  assumes "i < length xs"
  shows "sum_list (map f (xs[i := x])) = sum_list (map f xs) + f x - f (xs ! i)"
  using assms by (simp add: map_update sum_list_update)

lemma elem_le_sum_map: "i < length xs \<Longrightarrow> f (xs ! i) \<le> sum_list (map f (xs :: 'a list))"
  for f :: "'a \<Rightarrow> nat"
  by (metis elem_le_sum_list length_map nth_map)

lemma mod_sub_wrap:
  fixes S t M :: nat
  assumes "t \<le> S" and "t < M"
  shows "(S mod M + M - t) mod M = (S - t) mod M"
proof -
  have "int (S mod M + M - t) = (int S mod int M - int t) + int M"
    using assms(2) by (simp add: of_nat_diff zmod_int)
  then have "int ((S mod M + M - t) mod M) = (int S - int t) mod int M"
    by (simp add: zmod_int mod_simps)
  also have "\<dots> = int ((S - t) mod M)"
    using assms(1) by (simp add: of_nat_diff zmod_int)
  finally show ?thesis by simp
qed

lemma gc_used_set:
  assumes "k < 8 * length (gc_bits g)" and "i < 8 * length (gc_bits g)"
  shows "gc_used (g\<lparr>gc_bits := (gc_bits g)[i div 8 := gc_bits g ! (i div 8) OR gc_set_mask (i mod 8)]\<rparr>) k
    \<longleftrightarrow> k = i \<or> gc_used g k"
proof -
  have "k div 8 < length (gc_bits g)" "i div 8 < length (gc_bits g)"
    using assms by (simp_all add: less_mult_imp_div_less mult.commute)
  moreover have "k = i \<longleftrightarrow> k div 8 = i div 8 \<and> k mod 8 = i mod 8"
    by (metis div_mult_mod_eq)
  ultimately show ?thesis
    using gc_set_mask_bit [of "k mod 8" "i mod 8"]
    by (auto simp: gc_used_def nth_list_update bit_or_iff)
qed

lemma gc_used_clear:
  assumes "k < 8 * length (gc_bits g)" and "i < 8 * length (gc_bits g)"
  shows "gc_used (g\<lparr>gc_bits := (gc_bits g)[i div 8 := gc_bits g ! (i div 8) AND gc_clear_mask (i mod 8)]\<rparr>) k
    \<longleftrightarrow> gc_used g k \<and> k \<noteq> i \<and> \<not> (i mod 8 = 6 \<and> k = i - 6)"
proof -
  have "k div 8 < length (gc_bits g)" "i div 8 < length (gc_bits g)"
    using assms by (simp_all add: less_mult_imp_div_less mult.commute)
  moreover have "k = i \<longleftrightarrow> k div 8 = i div 8 \<and> k mod 8 = i mod 8"
    by (metis div_mult_mod_eq)
  moreover have "i mod 8 = 6 \<and> k = i - 6 \<longleftrightarrow> k div 8 = i div 8 \<and> k mod 8 = 0 \<and> i mod 8 = 6"
  proof (cases "i mod 8 = 6")
    case True
    have "i - 6 = 8 * (i div 8)" using div_mult_mod_eq [of i 8] True by linarith
    moreover have "k = 8 * (i div 8) \<longleftrightarrow> k div 8 = i div 8 \<and> k mod 8 = 0"
      using div_mult_mod_eq [of k 8] by auto
    ultimately show ?thesis using True by simp
  qed simp
  ultimately show ?thesis
    using gc_clear_mask_bit [of "k mod 8" "i mod 8"]
    by (cases "k div 8 = i div 8") (simp_all add: gc_used_def bit_and_iff, blast)
qed

section \<open>Properties\<close>

lemma gc_init_ok: "gc_ok (gfc_gc_init ts)"
  by (auto simp: gc_ok_def gfc_gc_init_def gc_ptr_zero_def gc_used_def less_mult_imp_div_less
      sum_list_replicate)

lemma gc_find_slot:
  assumes ok: "gc_ok g" and free: "\<exists>i < gc_len g. \<not> gc_used g i"
  obtains idx j where "gc_find (take (gc_len g div 8) (gc_bits g)) 0 = (idx, j)"
    and "j < 8" and "idx * 8 + j < gc_len g" and "\<not> gc_used g (idx * 8 + j)"
proof -
  have all: "take (gc_len g div 8) (gc_bits g) = gc_bits g" using ok by (auto simp: gc_ok_def)
  obtain idx j where f: "gc_find (gc_bits g) 0 = (idx, j)" by force
  note b = gc_find_bounds [OF f]
  have idx: "idx < length (gc_bits g)"
  proof (rule ccontr)
    assume "\<not> idx < length (gc_bits g)"
    then have full: "\<forall>b \<in> set (gc_bits g). b = 255" using b by auto
    obtain i where i: "i < gc_len g" "\<not> gc_used g i" using free by blast
    then have "i div 8 < length (gc_bits g)" using ok by (auto simp: gc_ok_def less_mult_imp_div_less)
    then have "gc_bits g ! (i div 8) = 255" using full by simp
    moreover have "bit (255 :: 8 word) (7 - i mod 8)"
    proof -
      have "\<forall>n < 8. bit (255 :: 8 word) n" unfolding all_less_8 by simp
      moreover have "7 - i mod 8 < 8" by linarith
      ultimately show ?thesis by blast
    qed
    ultimately show False using i(2) by (simp add: gc_used_def)
  qed
  have "\<not> gc_used g (idx * 8 + j)" using b idx by (simp add: gc_used_def)
  moreover have "idx * 8 + j < gc_len g" using b idx ok by (auto simp: gc_ok_def)
  ultimately show thesis using that f b by (simp add: all)
qed

lemma gc_record_fresh:
  assumes ok: "gc_ok g" and i: "i < gc_len g" "\<not> gc_used g i"
    and r: "gp_ptr r \<noteq> 0" "gc_live g (gp_ptr r) = None" "gp_total r < 2 ^ 64"
    and g': "g' = g\<lparr>gc_bits := (gc_bits g)[i div 8 := gc_bits g ! (i div 8) OR gc_set_mask (i mod 8)],
       gc_ptrs := (gc_ptrs g)[i := r], gc_ts := now, gc_total := (gc_total g + gp_total r) mod 2 ^ 64\<rparr>"
  shows "gc_ok g' \<and> gc_live g' (gp_ptr r) = Some r
    \<and> (\<forall>p. p \<noteq> gp_ptr r \<longrightarrow> gc_live g' p = gc_live g p) \<and> gc_len g' = gc_len g"
proof -
  have old: "gp_ptr (gc_ptrs g ! i) = 0" "gp_total (gc_ptrs g ! i) = 0"
    using ok i by (auto simp: gc_ok_def)
  have used: "gc_used g' k \<longleftrightarrow> (if k = i then gp_ptr r \<noteq> 0 else gc_used g k)" if "k < gc_len g" for k
    using gc_used_set [of k g i] ok i that r(1) by (auto simp: g' gc_ok_def gc_used_def)
  have total: "gc_total g' = sum_list (map gp_total ((gc_ptrs g)[i := r])) mod 2 ^ 64"
    using ok i old by (simp add: g' gc_ok_def sum_list_map_update mod_simps)
  have ok': "gc_ok g'"
    using ok i r used total
    by (intro gc_okI_update [of g i g' r]) (auto simp: g' gc_live_None [OF ok r(1)])
  moreover have "gc_live g' (gp_ptr r) = Some r"
    unfolding gc_live_iff [OF ok' r(1)] using i ok by (intro exI [of _ i]) (simp add: g' gc_ok_def)
  moreover have "gc_live g' p = gc_live g p" if "p \<noteq> gp_ptr r" for p
  proof (cases "p = 0")
    case False
    then show ?thesis
      using gc_live_update [OF ok ok' i(1), of r p] that old by (simp add: g')
  qed (simp add: gc_live_def)
  ultimately show ?thesis by (simp add: g')
qed

lemma gc_malloc_ok:
  assumes ok: "gc_ok g" and ret: "ret \<noteq> 0" "gc_live g ret = None"
    and free: "\<exists>i < gc_len g. \<not> gc_used g i"
  shows "\<exists>g'. gfc_gc_malloc ret now junk sz len (Some g) = Inr (ret, Some g') \<and> gc_ok g'
        \<and> gc_live g' ret = Some \<lparr>gp_ptr = ret, gp_len = len, gp_size = sz,
             gp_total = (len * sz) mod 2 ^ 64, gp_ts = now\<rparr>
        \<and> (\<forall>p. p \<noteq> ret \<longrightarrow> gc_live g' p = gc_live g p) \<and> gc_len g' = gc_len g"
proof -
  from gc_find_slot [OF ok free] obtain idx j where
    f: "gc_find (take (gc_len g div 8) (gc_bits g)) 0 = (idx, j)" "j < 8"
    and slot: "idx * 8 + j < gc_len g" "\<not> gc_used g (idx * 8 + j)" by blast
  let ?r = "\<lparr>gp_ptr = ret, gp_len = len, gp_size = sz, gp_total = (len * sz) mod 2 ^ 64, gp_ts = now\<rparr>"
  have dm: "(idx * 8 + j) div 8 = idx" "(idx * 8 + j) mod 8 = j" using f(2) by simp_all
  from gc_record_fresh [OF ok slot, of ?r, OF _ _ _ refl, of now] ret
  show ?thesis using slot ret(1) by (simp add: gfc_gc_malloc_def f dm Let_def)
qed

text \<open>
  Allocating through the ledger: while one of its records is free, the pointer is recorded
  with its sizes, every other pointer keeps its record and the ledger stays consistent (bits and
  records agree, no pointer twice, the byte total is the sum). When all records are taken, the code
  that grows the ledger clears a byte at the record's index in the bit array, which is eight times
  smaller, and so writes outside it.
\<close>

theorem gfc_gc_malloc_correct:
  assumes ok: "gc_ok g" and ret: "ret \<noteq> 0" "gc_live g ret = None" and junk: "length (fst junk) = 8"
  shows "((\<exists>i < gc_len g. \<not> gc_used g i) \<longrightarrow>
      (\<exists>g'. gfc_gc_malloc ret now junk sz len (Some g) = Inr (ret, Some g') \<and> gc_ok g'
        \<and> gc_live g' ret = Some \<lparr>gp_ptr = ret, gp_len = len, gp_size = sz,
             gp_total = (len * sz) mod 2 ^ 64, gp_ts = now\<rparr>
        \<and> (\<forall>p. p \<noteq> ret \<longrightarrow> gc_live g' p = gc_live g p) \<and> gc_len g' = gc_len g))
    \<and> ((\<forall>i < gc_len g. gc_used g i) \<longrightarrow>
      gfc_gc_malloc ret now junk sz len (Some g) = Inl (Out_of_Bounds (gc_len g)))"
proof (intro conjI impI)
  assume "\<exists>i < gc_len g. \<not> gc_used g i"
  then show "\<exists>g'. gfc_gc_malloc ret now junk sz len (Some g) = Inr (ret, Some g') \<and> gc_ok g'
        \<and> gc_live g' ret = Some \<lparr>gp_ptr = ret, gp_len = len, gp_size = sz,
             gp_total = (len * sz) mod 2 ^ 64, gp_ts = now\<rparr>
        \<and> (\<forall>p. p \<noteq> ret \<longrightarrow> gc_live g' p = gc_live g p) \<and> gc_len g' = gc_len g"
    by (rule gc_malloc_ok [OF ok ret])
next
  assume all: "\<forall>i < gc_len g. gc_used g i"
  obtain idx j where f: "gc_find (gc_bits g) 0 = (idx, j)" by force
  note b = gc_find_bounds [OF f]
  have "idx = length (gc_bits g)"
  proof (rule ccontr)
    assume "idx \<noteq> length (gc_bits g)"
    then have "\<not> gc_used g (idx * 8 + j)" "idx * 8 + j < gc_len g"
      using b ok by (auto simp: gc_used_def gc_ok_def)
    then show False using all by blast
  qed
  then have "idx * 8 + j = gc_len g" "take (gc_len g div 8) (gc_bits g) = gc_bits g"
    "length (gc_bits g) + 8 \<le> gc_len g"
    using b ok by (auto simp: gc_ok_def)
  then show "gfc_gc_malloc ret now junk sz len (Some g) = Inl (Out_of_Bounds (gc_len g))"
    using ret(1) junk f by (simp add: gfc_gc_malloc_def Let_def)
qed

definition sample_gc :: "nat list \<Rightarrow> gfc_gc" where
  "sample_gc ptrs = foldl (\<lambda>g p. case gfc_gc_malloc p 0 ([], []) 1 16 (Some g) of
      Inr (_, Some g') \<Rightarrow> g' | _ \<Rightarrow> g) (gfc_gc_init 0) ptrs"

lemma gc_live_init: "gc_live (gfc_gc_init ts) p = None"
  by (auto simp: gc_live_def gfc_gc_init_def gc_index_None gc_ptr_zero_def)

lemma sample_gc_ok_snoc:
  assumes "gc_ok (sample_gc ps)" and "p \<noteq> 0" and "gc_live (sample_gc ps) p = None"
    and "63 < gc_len (sample_gc ps) \<and> \<not> gc_used (sample_gc ps) 63"
  shows "gc_ok (sample_gc (ps @ [p]))"
proof -
  have "\<exists>i < gc_len (sample_gc ps). \<not> gc_used (sample_gc ps) i" using assms(4) by blast
  from gc_malloc_ok [OF assms(1-3) this, of 0 "([], [])" 1 16] obtain g'
    where g': "gfc_gc_malloc p 0 ([], []) 1 16 (Some (sample_gc ps)) = Inr (p, Some g')" "gc_ok g'"
    by blast
  then have "sample_gc (ps @ [p]) = g'" unfolding sample_gc_def by simp
  then show ?thesis using g'(2) by simp
qed

lemma sample_gc_ok: "gc_ok (sample_gc [1, 2])" "gc_ok (sample_gc [1, 2, 3, 4, 5, 6, 7])"
proof -
  have "gc_ok (sample_gc [])" by (simp add: sample_gc_def gc_init_ok)
  then have "gc_ok (sample_gc ([] @ [1]))" by (rule sample_gc_ok_snoc) code_simp+
  from this [unfolded append.simps] have "gc_ok (sample_gc ([1] @ [2]))" by (rule sample_gc_ok_snoc) code_simp+
  then show two: "gc_ok (sample_gc [1, 2])" by simp
  then have "gc_ok (sample_gc ([1, 2] @ [3]))" by (rule sample_gc_ok_snoc) code_simp+
  from this [unfolded append.simps] have "gc_ok (sample_gc ([1, 2, 3] @ [4]))" by (rule sample_gc_ok_snoc) code_simp+
  from this [unfolded append.simps] have "gc_ok (sample_gc ([1, 2, 3, 4] @ [5]))" by (rule sample_gc_ok_snoc) code_simp+
  from this [unfolded append.simps] have "gc_ok (sample_gc ([1, 2, 3, 4, 5] @ [6]))" by (rule sample_gc_ok_snoc) code_simp+
  from this [unfolded append.simps] have "gc_ok (sample_gc ([1, 2, 3, 4, 5, 6] @ [7]))" by (rule sample_gc_ok_snoc) code_simp+
  then show "gc_ok (sample_gc [1, 2, 3, 4, 5, 6, 7])" by simp
qed

theorem gfc_gc_malloc_correct_witness:
  "\<exists>g'. gfc_gc_malloc 4096 7 (replicate 8 0, []) 8 10 (Some (gfc_gc_init 0)) = Inr (4096, Some g')
     \<and> gc_ok g' \<and> gc_live g' 4096 \<noteq> None"
proof -
  have "\<exists>i < gc_len (gfc_gc_init 0). \<not> gc_used (gfc_gc_init 0) i"
    by (intro exI [of _ 0]) (simp add: gfc_gc_init_def gc_used_def)
  then show ?thesis
    using gfc_gc_malloc_correct [OF gc_init_ok _ gc_live_init, of 4096 "(replicate 8 0, [])" 0 7 8 10]
    by auto
qed

lemma gc_free_state:
  assumes ok: "gc_ok g" and i: "i < gc_len g" and ptr: "gp_ptr (gc_ptrs g ! i) = ptr" "ptr \<noteq> 0"
  shows "gfc_gc_free ptr g = (GFC_GC_OK, g\<lparr>
      gc_bits := (gc_bits g)[i div 8 := gc_bits g ! (i div 8) AND gc_clear_mask (i mod 8)],
      gc_ptrs := (gc_ptrs g)[i := (gc_ptrs g ! i)\<lparr>gp_ptr := 0, gp_len := 0, gp_size := 0, gp_total := 0\<rparr>],
      gc_total := (gc_total g + 2 ^ 64 - gp_total (gc_ptrs g ! i)) mod 2 ^ 64\<rparr>)"
proof -
  have "gc_index (gc_ptrs g) ptr 0 = Some i"
    using ok i ptr by (intro gc_index_unique) (auto simp: gc_ok_def)
  then show ?thesis using ok ptr by (simp add: gfc_gc_free_def gc_ok_def)
qed

lemma gc_free_ok:
  assumes ok: "gc_ok g" and i: "i < gc_len g" and ptr: "gp_ptr (gc_ptrs g ! i) = ptr" "ptr \<noteq> 0"
    and mask: "\<not> (i mod 8 = 6 \<and> gc_used g (i - 6))"
  shows "\<exists>g'. gfc_gc_free ptr g = (GFC_GC_OK, g') \<and> gc_ok g' \<and> gc_live g' ptr = None
    \<and> (\<forall>p. p \<noteq> ptr \<longrightarrow> gc_live g' p = gc_live g p) \<and> gc_len g' = gc_len g"
proof -
  let ?r = "(gc_ptrs g ! i)\<lparr>gp_ptr := 0, gp_len := 0, gp_size := 0, gp_total := 0\<rparr>"
  obtain g' where free: "gfc_gc_free ptr g = (GFC_GC_OK, g')"
    and g': "g' = g\<lparr>
      gc_bits := (gc_bits g)[i div 8 := gc_bits g ! (i div 8) AND gc_clear_mask (i mod 8)],
      gc_ptrs := (gc_ptrs g)[i := ?r],
      gc_total := (gc_total g + 2 ^ 64 - gp_total (gc_ptrs g ! i)) mod 2 ^ 64\<rparr>"
    using gc_free_state [OF ok i ptr] by simp
  have used: "gc_used g' k \<longleftrightarrow> (if k = i then gp_ptr ?r \<noteq> 0 else gc_used g k)" if "k < gc_len g" for k
    using gc_used_clear [of k g i] ok i that mask by (auto simp: g' gc_ok_def gc_used_def)
  have len: "i < length (gc_ptrs g)" using ok i by (simp add: gc_ok_def)
  have total: "gc_total g' = sum_list (map gp_total ((gc_ptrs g)[i := ?r])) mod 2 ^ 64"
    using mod_sub_wrap [OF elem_le_sum_map [OF len], of gp_total "2 ^ 64"] ok len
    by (simp add: g' gc_ok_def sum_list_map_update)
  have ok': "gc_ok g'"
    using ok i used total by (intro gc_okI_update [of g i g' ?r]) (auto simp: g')
  moreover have "gc_live g' ptr = None"
    unfolding gc_live_None [OF ok' ptr(2)] using ok i ptr by (auto simp: g' gc_ok_def nth_list_update)
  moreover have "gc_live g' p = gc_live g p" if "p \<noteq> ptr" for p
  proof (cases "p = 0")
    case False
    then show ?thesis
      using gc_live_update [OF ok ok' i, of ?r p] that ptr by (simp add: g')
  qed (simp add: gc_live_def)
  ultimately show ?thesis using free by (auto simp: g')
qed

text \<open>
  Freeing: a pointer the ledger does not hold changes nothing and gives
  \<open>GFC_GC_NOT_FOUND\<close>; a pointer it holds is forgotten, all others keep their records and
  the ledger stays consistent, provided its record is not number 6 of its byte with record 0 of
  that byte in use.
\<close>

theorem gfc_gc_free_correct:
  assumes ok: "gc_ok g" and ptr: "ptr \<noteq> 0"
  shows "(gc_live g ptr = None \<longrightarrow> gfc_gc_free ptr g = (GFC_GC_NOT_FOUND, g))
    \<and> (\<forall>i < gc_len g. gp_ptr (gc_ptrs g ! i) = ptr \<longrightarrow> \<not> (i mod 8 = 6 \<and> gc_used g (i - 6)) \<longrightarrow>
        (\<exists>g'. gfc_gc_free ptr g = (GFC_GC_OK, g') \<and> gc_ok g' \<and> gc_live g' ptr = None
          \<and> (\<forall>p. p \<noteq> ptr \<longrightarrow> gc_live g' p = gc_live g p) \<and> gc_len g' = gc_len g))"
  using gc_free_ok [OF ok _ _ ptr] ptr
  by (auto simp: gfc_gc_free_def gc_live_def split: option.splits)

theorem gfc_gc_free_correct_witness:
  "gfc_gc_free 9 (sample_gc [1, 2]) = (GFC_GC_NOT_FOUND, sample_gc [1, 2])
   \<and> fst (gfc_gc_free 2 (sample_gc [1, 2])) = GFC_GC_OK"
proof -
  note ok = sample_gc_ok(1)
  have "gc_live (sample_gc [1, 2]) 9 = None" by code_simp
  moreover have "gp_ptr (gc_ptrs (sample_gc [1, 2]) ! 1) = 2" "1 < gc_len (sample_gc [1, 2])"
    by code_simp+
  ultimately show ?thesis
    using gfc_gc_free_correct [OF ok, of 9] gfc_gc_free_correct [OF ok, of 2] by fastforce
qed

lemma gc_find_first:
  "n < length bytes \<Longrightarrow> \<forall>k < n. bytes ! k = 255 \<Longrightarrow> bytes ! n \<noteq> 255
   \<Longrightarrow> gc_find bytes idx = (idx + n, gc_free_bit (bytes ! n))"
proof (induction bytes arbitrary: n idx)
  case (Cons b bytes)
  show ?case
  proof (cases n)
    case (Suc m)
    then have "b = 255" and "\<forall>k < m. bytes ! k = 255" using Cons.prems(2) by (auto simp: All_less_Suc2)
    then show ?thesis using Cons.IH [of m "Suc idx"] Cons.prems Suc by simp
  qed (use Cons.prems in simp)
qed simp

text \<open>
  The mask of record 6 clears record 0 as well: if a pointer in record \<open>i = 8 * m + 6\<close> is
  freed while record \<open>8 * m\<close> holds \<open>q\<close> and the records before it are taken, the next
  allocation overwrites the record of \<open>q\<close>, and freeing \<open>q\<close> later is answered with
  \<open>GFC_GC_NOT_FOUND\<close>, which \<open>gfc_list_free\<close> and \<open>gfc_map_free\<close> assert never happens.
\<close>

theorem gfc_gc_free_loses_record:
  assumes ok: "gc_ok g" and m: "8 * m + 6 < gc_len g"
    and ptr: "gp_ptr (gc_ptrs g ! (8 * m + 6)) = ptr" "ptr \<noteq> 0"
    and q: "gp_ptr (gc_ptrs g ! (8 * m)) = q" "q \<noteq> 0"
    and full: "\<forall>k < 8 * m. gc_used g k"
    and ret: "ret \<noteq> 0" "ret \<noteq> q"
  shows "\<exists>g' g''. gfc_gc_free ptr g = (GFC_GC_OK, g')
    \<and> gfc_gc_malloc ret now junk sz len (Some g') = Inr (ret, Some g'')
    \<and> fst (gfc_gc_free q g'') = GFC_GC_NOT_FOUND"
proof -
  let ?i = "8 * m + 6"
  let ?r = "(gc_ptrs g ! ?i)\<lparr>gp_ptr := 0, gp_len := 0, gp_size := 0, gp_total := 0\<rparr>"
  have dm: "?i div 8 = m" "?i mod 8 = 6" by simp_all
  obtain g' where free: "gfc_gc_free ptr g = (GFC_GC_OK, g')"
    and g': "g' = g\<lparr>gc_bits := (gc_bits g)[m := gc_bits g ! m AND gc_clear_mask 6],
      gc_ptrs := (gc_ptrs g)[?i := ?r],
      gc_total := (gc_total g + 2 ^ 64 - gp_total (gc_ptrs g ! ?i)) mod 2 ^ 64\<rparr>"
    using gc_free_state [OF ok m ptr] dm by simp
  have len: "m < length (gc_bits g)" "length (gc_ptrs g) = gc_len g" "8 * length (gc_bits g) = gc_len g"
    using ok m by (auto simp: gc_ok_def)
  have "gc_bits g ! k = 255" if "k < m" for k
    unfolding byte_eq_iff
  proof (intro allI impI)
    fix n :: nat assume n: "n < 8"
    have "gc_used g (8 * k + (7 - n))" using full that n by auto
    moreover have "\<forall>n < 8. bit (255 :: 8 word) n" unfolding all_less_8 by simp
    moreover have "(8 * k + d) div 8 = k \<and> (8 * k + d) mod 8 = d" if "d < 8" for d
      using that by simp
    from this [of "7 - n"] n have "(8 * k + (7 - n)) div 8 = k" "7 - (8 * k + (7 - n)) mod 8 = n"
      by auto
    ultimately show "bit (gc_bits g ! k) n = bit (255 :: 8 word) n"
      using n by (simp only: gc_used_def)
  qed
  moreover have clear: "\<not> bit (gc_bits g' ! m) 7"
    using gc_clear_mask_bit [of 0 6] len by (simp add: g' bit_and_iff)
  moreover have "gc_bits g' ! m \<noteq> 255"
    using clear by (auto simp: byte_eq_iff all_less_8)
  ultimately have find: "gc_find (gc_bits g') 0 = (m, gc_free_bit (gc_bits g' ! m))"
    using gc_find_first [of m "gc_bits g'" 0] len by (simp add: g')
  moreover have "gc_free_bit (gc_bits g' ! m) = 0"
    using clear by (auto simp: gc_free_bit_def byte_eq_iff all_less_8 bit_or_iff bit_numeral_rec)
  ultimately obtain g'' where mal: "gfc_gc_malloc ret now junk sz len (Some g') = Inr (ret, Some g'')"
    and p'': "gc_ptrs g'' = (gc_ptrs g')[8 * m := \<lparr>gp_ptr = ret, gp_len = len, gp_size = sz,
        gp_total = (len * sz) mod 2 ^ 64, gp_ts = now\<rparr>]" "gc_len g'' = gc_len g"
    using len m ret(1) by (simp add: gfc_gc_malloc_def Let_def g' mult.commute [of m 8])
  have "gp_ptr (gc_ptrs g'' ! k) \<noteq> q" if "k < gc_len g" for k
    using ok m q ret ptr that len by (auto simp: p'' g' nth_list_update gc_ok_def)
  then have "gc_index (take (gc_len g'') (gc_ptrs g'')) q 0 = None"
    using len by (auto simp: gc_index_None p'' g' all_set_conv_all_nth)
  then show ?thesis using free mal q(2) by (simp add: gfc_gc_free_def)
qed

theorem gfc_gc_free_loses_record_witness:
  "\<exists>g' g''. gfc_gc_free 7 (sample_gc [1, 2, 3, 4, 5, 6, 7]) = (GFC_GC_OK, g')
    \<and> gfc_gc_malloc 9 0 ([], []) 1 16 (Some g') = Inr (9, Some g'')
    \<and> fst (gfc_gc_free 1 g'') = GFC_GC_NOT_FOUND"
  by (rule gfc_gc_free_loses_record [where m = 0, OF sample_gc_ok(2)]) code_simp+

end
