(* ===== verification/Gfc_String.thy ===== *)
theory Gfc_String
  imports Gfc_List Gfc_Gc
begin

text \<open>
  Strings of the gfc library, \<open>src/3rd/gfc-0.1.1/src/gfc_string.c\<close>: the string object, whose
  buffer is its text without the terminating NUL, and the splitting the Linux monitor parses
  \<open>/proc/stat\<close> with.
\<close>

section \<open>String objects\<close>

definition gfc_string_new :: "string option \<Rightarrow> string option" where
  "gfc_string_new str = map_option cstr str"

definition gfc_string_concat :: "string \<Rightarrow> string option \<Rightarrow> string" where
  "gfc_string_concat buf val = (case val of None \<Rightarrow> buf | Some v \<Rightarrow> cstr buf @ cstr v)"

definition gfc_string_length :: "string \<Rightarrow> nat" where
  "gfc_string_length buf = length (cstr buf)"

text \<open>
  \<open>gfc_string_utf8\<close> and \<open>gfc_string_gbk\<close> on Linux: \<open>strcpy\<close>, whatever the length of the
  destination; \<open>None\<close> when that writes past it.
\<close>

definition gfc_string_utf8 :: "string option \<Rightarrow> string \<Rightarrow> nat \<Rightarrow> string option" where
  "gfc_string_utf8 src dst len =
     (case src of None \<Rightarrow> Some dst
      | Some s \<Rightarrow> if length (cstr s) < len then Some (cstr s) else None)"

section \<open>Splitting\<close>

text \<open>
  \<open>strtok\<close> with the separators \<open>sep\<close> on the rest of the string: \<open>None\<close> when only
  separators are left, else the token and what follows the byte that ended it.
\<close>

definition strtok :: "string \<Rightarrow> string \<Rightarrow> (string \<times> string) option" where
  "strtok sep s =
     (let u = dropWhile (\<lambda>c. c \<in> set sep) s
      in if u = [] then None
         else Some (takeWhile (\<lambda>c. c \<notin> set sep) u, drop 1 (dropWhile (\<lambda>c. c \<notin> set sep) u)))"

lemma strtok_shorter: "strtok sep s = Some (tok, rest) \<Longrightarrow> length rest < length s"
proof -
  assume a: "strtok sep s = Some (tok, rest)"
  have "length (dropWhile (\<lambda>c. c \<in> set sep) s) \<le> length s" by (rule length_dropWhile_le)
  moreover have "length (drop 1 (dropWhile (\<lambda>c. c \<notin> set sep) u)) < length u" if "u \<noteq> []" for u :: string
  proof -
    have "length (dropWhile (\<lambda>c. c \<notin> set sep) u) \<le> length u" by (rule length_dropWhile_le)
    moreover have "0 < length u" using that by simp
    ultimately show ?thesis unfolding length_drop by arith
  qed
  moreover from a have "dropWhile (\<lambda>c. c \<in> set sep) s \<noteq> []"
    "rest = drop 1 (dropWhile (\<lambda>c. c \<notin> set sep) (dropWhile (\<lambda>c. c \<in> set sep) s))"
    by (simp_all only: strtok_def Let_def split: if_splits) simp_all
  ultimately show ?thesis by (metis less_le_trans)
qed

text \<open>The loop of \<open>gfc_string_split\<close>; every token is copied with \<open>gfc_gc_dup\<close>.\<close>

function split_loop :: "string option list \<Rightarrow> string \<Rightarrow> string \<Rightarrow> string gfc_list \<Rightarrow> string gfc_list option" where
  "split_loop junk sep s ret =
     (case strtok sep s of
        None \<Rightarrow> Some ret
      | Some (token, rest) \<Rightarrow>
          (case gfc_list_append junk ret (gfc_gc_dup (Some token)) of
             None \<Rightarrow> None
           | Some ret' \<Rightarrow> split_loop junk sep rest ret'))"
  by pat_completeness auto
termination
  by (relation "measure (\<lambda>(junk, sep, s, ret). length s)") (auto simp: strtok_shorter)

declare split_loop.simps [simp del]

definition gfc_string_split :: "string option list \<Rightarrow> string \<Rightarrow> string \<Rightarrow> string gfc_list option" where
  "gfc_string_split junk str sep = split_loop junk (cstr sep) (cstr str) (gfc_list_new junk)"

section \<open>What splitting gives\<close>

text \<open>The tokens of a text: the maximal runs of bytes that are not separators.\<close>

function tokens :: "string \<Rightarrow> string \<Rightarrow> string list" where
  "tokens sep s =
     (let u = dropWhile (\<lambda>c. c \<in> set sep) s
      in if u = [] then []
         else takeWhile (\<lambda>c. c \<notin> set sep) u # tokens sep (dropWhile (\<lambda>c. c \<notin> set sep) u))"
  by pat_completeness auto
termination
proof (relation "measure (\<lambda>(sep, s). length s)", goal_cases)
  case (2 sep s u)
  have "hd u \<notin> set sep" using hd_dropWhile [of "\<lambda>c. c \<in> set sep" s] 2 by simp
  then have "length (dropWhile (\<lambda>c. c \<notin> set sep) u) < length u"
    using 2(2) length_dropWhile_le [of "\<lambda>c. c \<notin> set sep" "tl u"] by (cases u) auto
  moreover have "length u \<le> length s" using length_dropWhile_le [of "\<lambda>c. c \<in> set sep" s] 2(1) by simp
  ultimately show ?case by simp
qed simp

declare tokens.simps [simp del]

lemma tokens_skip: "tokens sep (dropWhile (\<lambda>c. c \<in> set sep) s) = tokens sep s"
proof -
  have idem: "dropWhile (\<lambda>c. c \<in> set sep) (dropWhile (\<lambda>c. c \<in> set sep) s)
      = dropWhile (\<lambda>c. c \<in> set sep) s"
    by (simp add: dropWhile_idem)
  show ?thesis
    by (subst (1 2) tokens.simps) (simp only: idem)
qed

lemma tokens_drop_sep: "tokens sep (drop 1 (dropWhile (\<lambda>c. c \<notin> set sep) u))
    = tokens sep (dropWhile (\<lambda>c. c \<notin> set sep) u)"
proof (cases "dropWhile (\<lambda>c. c \<notin> set sep) u")
  case (Cons c w)
  then have c: "c \<in> set sep" using hd_dropWhile [of "\<lambda>c. c \<notin> set sep" u] by auto
  then show ?thesis
    using tokens_skip [of sep "c # w"] tokens_skip [of sep w] Cons by simp
next
  case Nil
  show ?thesis by (simp only: Nil drop_Nil)
qed

lemma strtok_tokens:
  "tokens sep s = (case strtok sep s of None \<Rightarrow> [] | Some (tok, rest) \<Rightarrow> tok # tokens sep rest)"
proof (cases "dropWhile (\<lambda>c. c \<in> set sep) s = []")
  case True
  then show ?thesis by (simp only: tokens.simps [of sep s] strtok_def Let_def simp_thms if_True option.case)
next
  case False
  then show ?thesis
    by (simp only: tokens.simps [of sep s] strtok_def Let_def simp_thms if_False option.case prod.case tokens_drop_sep)
qed

lemma strtok_nonempty: "strtok sep s = Some (tok, rest) \<Longrightarrow> tok \<noteq> []"
  using hd_dropWhile [of "\<lambda>c. c \<in> set sep" s]
  by (cases "dropWhile (\<lambda>c. c \<in> set sep) s") (auto simp: strtok_def Let_def split: if_splits)

lemma strtok_set: "strtok sep s = Some (tok, rest) \<Longrightarrow> set tok \<subseteq> set s \<and> set rest \<subseteq> set s"
  by (auto simp: strtok_def Let_def split: if_splits
      dest!: in_set_dropD dest: set_takeWhileD set_dropWhileD)

lemma split_loop_tokens:
  "nul \<notin> set s \<Longrightarrow> 10 \<le> length junk \<Longrightarrow> gl_ok ret \<Longrightarrow>
     \<exists>l. split_loop junk sep s ret = Some l \<and> gl_ok l
       \<and> gl_content l = gl_content ret @ map Some (tokens sep s)"
proof (induction junk sep s ret rule: split_loop.induct)
  case (1 junk sep s ret)
  show ?case
  proof (cases "strtok sep s")
    case None
    then show ?thesis using 1 by (simp add: split_loop.simps [of junk sep s ret] strtok_tokens [of sep s])
  next
    case (Some tr)
    obtain tok rest where tr: "tr = (tok, rest)" by force
    note tok = strtok_nonempty [OF Some [unfolded tr]] strtok_set [OF Some [unfolded tr]]
    have nul: "nul \<notin> set tok" "nul \<notin> set rest" using tok(2) "1.prems"(1) by auto
    have dup: "gfc_gc_dup (Some tok) = Some tok" using tok(1) nul(1) by (simp add: gfc_gc_dup_def)
    from gfc_seq.append_ok [OF "1.prems"(2,3), of "Some tok"] obtain ret' where
      app: "gfc_list_append junk ret (Some tok) = Some ret'" "gl_ok ret'"
        "gl_content ret' = gl_content ret @ [Some tok]" by blast
    have app': "gfc_list_append junk ret (gfc_gc_dup (Some tok)) = Some ret'" using dup app(1) by simp
    from "1.IH" [OF Some tr [symmetric] app' nul(2) "1.prems"(2) app(2)] obtain l where
      "split_loop junk sep rest ret' = Some l" "gl_ok l"
      "gl_content l = gl_content ret' @ map Some (tokens sep rest)" by blast
    then show ?thesis
      using Some tr dup app by (simp add: split_loop.simps [of junk sep s ret] strtok_tokens [of sep s])
  qed
qed

lemma gfc_string_split_list:
  assumes "10 \<le> length junk"
  shows "\<exists>l. gfc_string_split junk str sep = Some l
    \<and> gfc_list_size l = length (tokens (cstr sep) (cstr str))
    \<and> (\<forall>i. gfc_list_get l i = (if i < length (tokens (cstr sep) (cstr str))
         then Some (tokens (cstr sep) (cstr str) ! i) else None))"
proof -
  from split_loop_tokens [of "cstr str" junk "gfc_list_new junk" "cstr sep"] assms
    gfc_seq.empty_ok [OF assms] obtain l where
    l: "gfc_string_split junk str sep = Some l" "gl_ok l"
      "gl_content l = map Some (tokens (cstr sep) (cstr str))"
    by (auto simp: gfc_string_split_def)
  have "gfc_list_size l = length (tokens (cstr sep) (cstr str))"
    using gfc_seq.count_content [OF l(2)] l(3) by simp
  moreover have "gfc_list_get l i = (if i < length (tokens (cstr sep) (cstr str))
      then Some (tokens (cstr sep) (cstr str) ! i) else None)" for i
    using gfc_seq.get_content [OF l(2), of i] unfolding l(3) by simp
  ultimately show ?thesis using l(1) by blast
qed

section \<open>Properties\<close>

text \<open>
  \<open>gfc_string_split\<close> always returns a list, whose elements are the maximal runs of bytes
  that are not separators, in order; no element is empty, so that several separators count as one.
\<close>

theorem gfc_string_split_tokens:
  assumes "10 \<le> length junk"
  shows "\<exists>l. gfc_string_split junk str sep = Some l
    \<and> gfc_list_size l = length (tokens (cstr sep) (cstr str))
    \<and> (\<forall>i. gfc_list_get l i = (if i < length (tokens (cstr sep) (cstr str))
         then Some (tokens (cstr sep) (cstr str) ! i) else None))"
  by (rule gfc_string_split_list [OF assms])

theorem gfc_string_split_tokens_witness:
  "\<exists>l. gfc_string_split (replicate 10 None) ''cpu  12 3'' '' '' = Some l \<and> gfc_list_get l 1 = Some ''12''"
proof -
  have t: "tokens (cstr '' '') (cstr ''cpu  12 3'') = [''cpu'', ''12'', ''3'']" by code_simp
  show ?thesis
    using gfc_string_split_tokens [of "replicate 10 None" "''cpu  12 3''" "'' ''"]
    unfolding t by force
qed

end
