(* ===== verification/Gw_Sqlite.thy ===== *)
theory Gw_Sqlite
  imports Gfc_List Gfc_Map
begin

text \<open>
  The settings database, \<open>src/src/gw_sqlite.c\<close>: the statements it is made with, opening it,
  executing a statement, and queries, whose result is a list of maps. It is a client of the
  interfaces \<open>sequence\<close> and \<open>dictionary\<close>.

  SQLite itself is a parameter: what \<open>sqlite3_open\<close> gives for a path, and what
  \<open>sqlite3_exec\<close> does to a database \<open>'db\<close>: its result code, the rows it hands to the
  callback, each the columns' names with their values or NULL, and the database afterwards.
\<close>

section \<open>What can go wrong\<close>

text \<open>
  The undefined behaviours of C this code can run into: a use of a null pointer, an access
  past the end of an array, a use of freed or uninitialised memory, an overflow of a signed
  integer or a division by zero, and those of the maps and lists. A function of the agent gives
  \<open>Inl\<close> of one of them, or \<open>Inr\<close> of its result.
\<close>

datatype gw_fault =
    Null_Pointer
  | Overflow
  | Use_After_Free
  | Uninitialised
  | Arithmetic
  | Map_Fault map_fault
  | List_Fault

text \<open>\<open>sqlite3*\<close>: NULL, an open database, or a pointer to one that was closed.\<close>

datatype 'db handle = Null_Handle | Handle 'db | Freed_Handle

record 'db sqlite_lib =
  sqlite3_open :: "string \<Rightarrow> int \<times> 'db handle"
  sqlite3_exec :: "'db \<Rightarrow> string \<Rightarrow> int \<times> (string \<times> string option) list list \<times> 'db"

abbreviation (input) SQLITE_OK :: int where "SQLITE_OK \<equiv> 0"
abbreviation (input) GW_SQLITE_OK :: int where "GW_SQLITE_OK \<equiv> 0"

section \<open>The statements\<close>

abbreviation (input) KEY_SERVER_ADDRESS :: string where "KEY_SERVER_ADDRESS \<equiv> ''SERVER.ADDRESS''"
abbreviation (input) KEY_SERVER_SNMP_PORT :: string where "KEY_SERVER_SNMP_PORT \<equiv> ''SERVER.SNMP.PORT''"
abbreviation (input) KEY_SERVER_WEB_PORT :: string where "KEY_SERVER_WEB_PORT \<equiv> ''SERVER.WEB.PORT''"
abbreviation (input) KEY_AGENT_SNMP_PORT :: string where "KEY_AGENT_SNMP_PORT \<equiv> ''AGENT.SNMP.PORT''"
abbreviation (input) KEY_AGENT_WEB_PORT :: string where "KEY_AGENT_WEB_PORT \<equiv> ''AGENT.WEB.PORT''"
abbreviation (input) KEY_AGENT_NAME :: string where "KEY_AGENT_NAME \<equiv> ''AGENT.NAME''"
abbreviation (input) KEY_AGENT_ACKNOWLEDGEMENT_ID :: string where
  "KEY_AGENT_ACKNOWLEDGEMENT_ID \<equiv> ''AGENT.ACKNOWLEDGEMENT.ID''"

definition quote :: char where "quote = CHR 0x27"

fun sql_lines :: "string list \<Rightarrow> string" where
  "sql_lines [] = []"
| "sql_lines [l] = l"
| "sql_lines (l # ls) = l @ newline # sql_lines ls"

text \<open>
  Every seed is an insertion of this shape; the names are UTF-8 texts. The last argument
  closes the statement.
\<close>

definition setting_insert :: "string \<Rightarrow> string \<Rightarrow> string \<Rightarrow> string \<Rightarrow> string \<Rightarrow> string" where
  "setting_insert stgcd stgnm stgtyp val fin =
     ''insert into tn_gw_stg (stgcd, stgnm, stgtyp, sta, lmt, val)'' @ [newline] @
     ''values ('' @ [quote] @ stgcd @ [quote] @ '', '' @ [quote] @ stgnm @ [quote] @ '', ''
     @ [quote] @ stgtyp @ [quote] @ '', '' @ [quote] @ ''E'' @ [quote] @ '', CURRENT_TIMESTAMP, ''
     @ [quote] @ val @ [quote] @ fin"

definition GW_SQL_SETTING_CREATE :: string where
  "GW_SQL_SETTING_CREATE = sql_lines [
     ''create table tn_gw_stg ('',
     ''  stgcd           text not null primary key,'',
     ''  stgnm           text,'',
     ''  stgtyp          text,'',
     ''  val             text,'',
     ''  opt             text,'',
     ''  nt              text,'',
     ''  sta             text,'',
     ''  lmt             text'',
     '');'']"

definition GW_SQL_SETTING_INSERT_ACKNOWLEDGEMENT_ID :: string where
  "GW_SQL_SETTING_INSERT_ACKNOWLEDGEMENT_ID = setting_insert KEY_AGENT_ACKNOWLEDGEMENT_ID
     (map char_of [0xE6, 0x9C, 0x8D, 0xE5, 0x8A, 0xA1, 0xE5, 0x99, 0xA8, 0xE8, 0xAF, 0x86, 0xE5,
      0x88, 0xAB, 0xE7, 0xBC, 0x96, 0xE7, 0xA0, 0x81 :: nat])
     ''AGENT'' [] '')''"

definition GW_SQL_SETTING_INSERT_SERVER_ADDRESS :: string where
  "GW_SQL_SETTING_INSERT_SERVER_ADDRESS = setting_insert KEY_SERVER_ADDRESS
     (map char_of [0xE7, 0xBD, 0x91, 0xE7, 0xAE, 0xA1, 0xE4, 0xB8, 0xAD, 0xE5, 0xBF, 0x83, 0xE6,
      0x9C, 0x8D, 0xE5, 0x8A, 0xA1, 0xE5, 0x9C, 0xB0, 0xE5, 0x9D, 0x80 :: nat])
     ''AGENT'' ''192.168.0.207'' '')''"

definition GW_SQL_SETTING_INSERT_SERVER_SNMP_PORT :: string where
  "GW_SQL_SETTING_INSERT_SERVER_SNMP_PORT = setting_insert KEY_SERVER_SNMP_PORT
     (map char_of [0xE7, 0xBD, 0x91, 0xE7, 0xAE, 0xA1, 0xE4, 0xB8, 0xAD, 0xE5, 0xBF, 0x83, 0xE7,
      0xBD, 0x91, 0xE7, 0xAE, 0xA1, 0xE7, 0xAB, 0xAF, 0xE5, 0x8F, 0xA3 :: nat])
     ''AGENT'' ''6162'' '')''"

definition GW_SQL_SETTING_INSERT_SERVER_WEB_PORT :: string where
  "GW_SQL_SETTING_INSERT_SERVER_WEB_PORT = setting_insert KEY_SERVER_WEB_PORT
     (map char_of [0xE7, 0xBD, 0x91, 0xE7, 0xAE, 0xA1, 0xE4, 0xB8, 0xAD, 0xE5, 0xBF, 0x83, 0xE5,
      0xBA, 0x94, 0xE7, 0x94, 0xA8, 0xE7, 0xAB, 0xAF, 0xE5, 0x8F, 0xA3 :: nat])
     ''AGENT'' ''8088'' '')''"

definition GW_SQL_SETTING_INSERT_AGENT_SNMP_PORT :: string where
  "GW_SQL_SETTING_INSERT_AGENT_SNMP_PORT = setting_insert KEY_AGENT_SNMP_PORT
     (map char_of [0xE6, 0x9C, 0xAC, 0xE5, 0x9C, 0xB0, 0xE7, 0xBD, 0x91, 0xE7, 0xAE, 0xA1, 0xE7,
      0xAB, 0xAF, 0xE5, 0x8F, 0xA3 :: nat])
     ''AGENT'' ''6161'' '')''"

definition GW_SQL_SETTING_INSERT_AGENT_WEB_PORT :: string where
  "GW_SQL_SETTING_INSERT_AGENT_WEB_PORT = setting_insert KEY_AGENT_WEB_PORT
     (map char_of [0xE6, 0x9C, 0xAC, 0xE5, 0x9C, 0xB0, 0xE5, 0xBA, 0x94, 0xE7, 0x94, 0xA8, 0xE7,
      0xAB, 0xAF, 0xE5, 0x8F, 0xA3 :: nat])
     ''AGENT'' ''10086'' '')''"

definition GW_SQL_SETTING_INSERT_AGENT_NAME :: string where
  "GW_SQL_SETTING_INSERT_AGENT_NAME = setting_insert KEY_AGENT_NAME
     (map char_of [0xE6, 0x9C, 0xAC, 0xE5, 0x9C, 0xB0, 0xE6, 0x9C, 0xBA, 0xE5, 0x99, 0xA8, 0xE5,
      0x90, 0x8D, 0xE7, 0xA7, 0xB0 :: nat])
     ''AGENT'' (map char_of [0xE6, 0x9C, 0xBA, 0xE5, 0x99, 0xA8, 0xE5, 0x90, 0x8D, 0xE7, 0xA7, 0xB0 :: nat])
     '')''"

definition GW_SQL_SETTING_INSERT_AGENT_MSSQL_ADDRESS :: string where
  "GW_SQL_SETTING_INSERT_AGENT_MSSQL_ADDRESS = setting_insert ''AGENT.MSSQL.ADDRESS''
     (''MSSQL'' @ map char_of [0xE6, 0x95, 0xB0, 0xE6, 0x8D, 0xAE, 0xE5, 0xBA, 0x93, 0xE5, 0x9C,
      0xB0, 0xE5, 0x9D, 0x80 :: nat])
     ''AGENT'' ''localhost'' '')''"

definition GW_SQL_SETTING_INSERT_AGENT_MSSQL_PORT :: string where
  "GW_SQL_SETTING_INSERT_AGENT_MSSQL_PORT = setting_insert ''AGENT.MSSQL.PORT''
     (''MSSQL'' @ map char_of [0xE6, 0x95, 0xB0, 0xE6, 0x8D, 0xAE, 0xE5, 0xBA, 0x93, 0xE7, 0xAB,
      0xAF, 0xE5, 0x8F, 0xA3 :: nat])
     ''AGENT'' ''1433'' '')''"

definition GW_SQL_SETTING_INSERT_AGENT_MSSQL_USERNAME :: string where
  "GW_SQL_SETTING_INSERT_AGENT_MSSQL_USERNAME = setting_insert ''AGENT.MSSQL.USERNAME''
     (''MSSQL'' @ map char_of [0xE6, 0x95, 0xB0, 0xE6, 0x8D, 0xAE, 0xE5, 0xBA, 0x93, 0xE7, 0x94,
      0xA8, 0xE6, 0x88, 0xB7 :: nat])
     ''AGENT'' ''sa'' '')''"

definition GW_SQL_SETTING_INSERT_AGENT_MSSQL_PASSWORD :: string where
  "GW_SQL_SETTING_INSERT_AGENT_MSSQL_PASSWORD = setting_insert ''AGENT.MSSQL.PASSWORD''
     (''MSSQL'' @ map char_of [0xE6, 0x95, 0xB0, 0xE6, 0x8D, 0xAE, 0xE5, 0xBA, 0x93, 0xE5, 0xAF,
      0x86, 0xE7, 0xA0, 0x81 :: nat])
     ''AGENT'' [] '')''"

definition mssql_slow_query :: string where
  "mssql_slow_query = sql_lines [
       [],
       ''select top 100'',
       ''  creation_time,'',
       ''  last_execution_time,'',
       ''  total_worker_time,'',
       ''  total_elapsed_time,'',
       ''  substring(st.text, qs.statement_start_offset / 2 + 1, ('',
       ''    case statement_end_offset'',
       ''    when -1 THEN DATALENGTH(st.text)'',
       ''    else qs.statement_end_offset'',
       ''    end - qs.statement_start_offset) / 2 + 1'',
       ''  ) as statement_text'',
       ''from sys.dm_exec_query_stats as qs'',
       ''cross apply sys.dm_exec_sql_text(qs.sql_handle) as st'',
       ''where 1 = 1'',
       ''and last_execution_time > {{{{lastExecutionTime}}}}'',
       ''order by total_worker_time desc;'',
       []]"

definition GW_SQL_SETTING_INSERT_MSSQL_SLOW_QUERY :: string where
  "GW_SQL_SETTING_INSERT_MSSQL_SLOW_QUERY = setting_insert ''MSSQL.SLOW_QUERY''
     (map char_of [0xE6, 0x85, 0xA2, 0xE6, 0x9F, 0xA5, 0xE8, 0xAF, 0xA2, 0xE6, 0x9F, 0xA5, 0xE8,
      0xAF, 0xA2 :: nat])
     ''MSSQL'' mssql_slow_query '');''"

definition mssql_lock :: string where
  "mssql_lock = sql_lines [
       [],
       ''SELECT  L.request_session_id AS SPID, '',
       ''    DB_NAME(L.resource_database_id) AS DatabaseName,'',
       ''    O.Name AS LockedObjectName, '',
       ''    P.object_id AS LockedObjectId, '',
       ''    L.resource_type AS LockedResource, '',
       ''    L.request_mode AS LockType,'',
       ''    ST.text AS SqlStatementText,        '',
       ''    ES.login_name AS LoginName,'',
       ''    ES.host_name AS HostName,'',
       ''    TST.is_user_transaction as IsUserTransaction,'',
       ''    AT.name as TransactionName,'',
       ''    CN.auth_scheme as AuthenticationMethod'',
       ''FROM    sys.dm_tran_locks L'',
       ''    JOIN sys.partitions P ON P.hobt_id = L.resource_associated_entity_id'',
       ''    JOIN sys.objects O ON O.object_id = P.object_id'',
       ''    JOIN sys.dm_exec_sessions ES ON ES.session_id = L.request_session_id'',
       ''    JOIN sys.dm_tran_session_transactions TST ON ES.session_id = TST.session_id'',
       ''    JOIN sys.dm_tran_active_transactions AT ON TST.transaction_id = AT.transaction_id'',
       ''    JOIN sys.dm_exec_connections CN ON CN.session_id = ES.session_id'',
       ''    CROSS APPLY sys.dm_exec_sql_text(CN.most_recent_sql_handle) AS ST'',
       ''WHERE   resource_database_id = db_id()'',
       ''ORDER BY L.request_session_id'']"

definition GW_SQL_SETTING_INSERT_MSSQL_LOCK :: string where
  "GW_SQL_SETTING_INSERT_MSSQL_LOCK = setting_insert ''MSSQL.LOCK''
     (map char_of [0xE6, 0xAD, 0xBB, 0xE9, 0x94, 0x81, 0xE6, 0x9F, 0xA5, 0xE8, 0xAF, 0xA2 :: nat])
     ''MSSQL'' mssql_lock '');''"

definition mssql_dead_lock :: string where
  "mssql_dead_lock = sql_lines [
       [],
       ''SELECT XEvent.query('' @ [quote, quote] @ ''(event/data/value/deadlock)[1]'' 
         @ [quote, quote] @ '') AS DeadlockGraph'',
       ''FROM ( '',
       ''  SELECT XEvent.query('' @ [quote, quote] @ ''.'' @ [quote, quote] @ '') AS XEvent'',
       ''  FROM ( '',
       ''    SELECT CAST(target_data AS XML) AS TargetData'',
       ''    FROM sys.dm_xe_session_targets st'',
       ''    JOIN sys.dm_xe_sessions s'',
       ''    ON s.address = st.event_session_address'',
       ''    WHERE s.name = '' @ [quote, quote] @ ''system_health'' @ [quote, quote],
       ''    AND st.target_name = '' @ [quote, quote] @ ''ring_buffer'' @ [quote, quote],
       ''  ) AS Data'',
       ''  CROSS APPLY '',
       ''  TargetData.nodes ('' @ [quote, quote] @ ''RingBufferTarget/event[@name='' @ [CHR 0x22] 
         @ ''xml_deadlock_report'' @ [CHR 0x22] @ '']'' @ [quote, quote] @ '') AS XEventData (XEvent)'',
       '') AS src'']"

definition GW_SQL_SETTING_INSERT_MSSQL_DEAD_LOCK :: string where
  "GW_SQL_SETTING_INSERT_MSSQL_DEAD_LOCK = setting_insert ''MSSQL.DEAD_LOCK''
     (map char_of [0xE6, 0xAD, 0xBB, 0xE9, 0x94, 0x81, 0xE6, 0x9F, 0xA5, 0xE8, 0xAF, 0xA2 :: nat])
     ''MSSQL'' mssql_dead_lock '');''"

definition gw_seed_statements :: "string list" where
  "gw_seed_statements = [
     GW_SQL_SETTING_CREATE,
     GW_SQL_SETTING_INSERT_ACKNOWLEDGEMENT_ID,
     GW_SQL_SETTING_INSERT_SERVER_ADDRESS,
     GW_SQL_SETTING_INSERT_SERVER_SNMP_PORT,
     GW_SQL_SETTING_INSERT_SERVER_WEB_PORT,
     GW_SQL_SETTING_INSERT_AGENT_NAME,
     GW_SQL_SETTING_INSERT_AGENT_SNMP_PORT,
     GW_SQL_SETTING_INSERT_AGENT_WEB_PORT,
     GW_SQL_SETTING_INSERT_AGENT_MSSQL_ADDRESS,
     GW_SQL_SETTING_INSERT_AGENT_MSSQL_PORT,
     GW_SQL_SETTING_INSERT_AGENT_MSSQL_USERNAME,
     GW_SQL_SETTING_INSERT_AGENT_MSSQL_PASSWORD,
     GW_SQL_SETTING_INSERT_MSSQL_SLOW_QUERY,
     GW_SQL_SETTING_INSERT_MSSQL_LOCK,
     GW_SQL_SETTING_INSERT_MSSQL_DEAD_LOCK]"

section \<open>Executing\<close>

definition gw_sqlite_close :: "'db handle \<Rightarrow> gw_fault + 'db handle" where
  "gw_sqlite_close h = (case h of Freed_Handle \<Rightarrow> Inl Use_After_Free | _ \<Rightarrow> Inr Null_Handle)"

text \<open>
  On a NULL handle \<open>sqlite3_exec\<close> refuses without setting \<open>errmsg\<close>, which
  \<open>gw_sqlite_execute\<close> then prints; it has no initial value there.
\<close>

definition gw_sqlite_execute :: "'db sqlite_lib \<Rightarrow> string \<Rightarrow> 'db handle
    \<Rightarrow> gw_fault + int \<times> 'db handle" where
  "gw_sqlite_execute lib sql h =
     (case h of
        Freed_Handle \<Rightarrow> Inl Use_After_Free
      | Null_Handle \<Rightarrow> Inl Uninitialised
      | Handle db \<Rightarrow>
          (case sqlite3_exec lib db sql of (rc, rows, db') \<Rightarrow>
             Inr (if rc \<noteq> 0 then rc else GW_SQLITE_OK, Handle db')))"

text \<open>A series of statements, their result codes ignored.\<close>

fun execute_all :: "'db sqlite_lib \<Rightarrow> string list \<Rightarrow> 'db handle \<Rightarrow> gw_fault + 'db handle" where
  "execute_all lib [] h = Inr h"
| "execute_all lib (sql # sqls) h =
     (case gw_sqlite_execute lib sql h of Inl f \<Rightarrow> Inl f | Inr (rc, h') \<Rightarrow> execute_all lib sqls h')"

text \<open>
  \<open>gw_sqlite_open\<close>. When \<open>sqlite3_open\<close> fails it closes the handle it was given, and
  leaves it in the global variable.
\<close>

definition gw_sqlite_open :: "'db sqlite_lib \<Rightarrow> string \<Rightarrow> 'db handle
    \<Rightarrow> gw_fault + int \<times> 'db handle" where
  "gw_sqlite_open lib work_directory h =
     (case (case h of Null_Handle \<Rightarrow> Inr Null_Handle | _ \<Rightarrow> gw_sqlite_close h) of
        Inl f \<Rightarrow> Inl f
      | Inr _ \<Rightarrow>
          (let dbpath = cstr work_directory @ ''/guardwatch.db''
           in if length dbpath \<ge> 1024 then Inl Overflow
              else (case sqlite3_open lib dbpath of (rc, h1) \<Rightarrow>
                if rc \<noteq> SQLITE_OK
                then Inr (rc, case h1 of Null_Handle \<Rightarrow> Null_Handle | _ \<Rightarrow> Freed_Handle)
                else (case execute_all lib gw_seed_statements h1 of
                        Inl f \<Rightarrow> Inl f | Inr h2 \<Rightarrow> Inr (0, h2)))))"

section \<open>Querying\<close>

text \<open>
  The memory that maps and lists are made of, and the fuel of \<open>gfc_map_put\<close>, are the
  arguments \<open>fuel\<close>, \<open>fresh\<close> and \<open>junk\<close> of those theories.
\<close>

fun callback_columns :: "nat \<Rightarrow> string fresh \<Rightarrow> string gfc_map \<Rightarrow> (string \<times> string option) list
    \<Rightarrow> gw_fault + string gfc_map" where
  "callback_columns fuel fresh row [] = Inr row"
| "callback_columns fuel fresh row ((name, val) # cols) =
     (case val of
        None \<Rightarrow> callback_columns fuel fresh row cols
      | Some v \<Rightarrow>
          (case gfc_map_put fuel fresh row name (Some (cstr v)) of
             Inl f \<Rightarrow> Inl (Map_Fault f)
           | Inr (rc, row') \<Rightarrow> callback_columns fuel fresh row' cols))"

definition gw_sqlite_callback :: "nat \<Rightarrow> string fresh \<Rightarrow> string gfc_map option list
    \<Rightarrow> string gfc_map gfc_list \<Rightarrow> (string \<times> string option) list
    \<Rightarrow> gw_fault + string gfc_map gfc_list" where
  "gw_sqlite_callback fuel fresh junk result cols =
     (case gfc_map_new fresh of
        None \<Rightarrow> Inl Null_Pointer
      | Some row \<Rightarrow>
          (case callback_columns fuel fresh row cols of
             Inl f \<Rightarrow> Inl f
           | Inr row' \<Rightarrow>
               (case gfc_list_append junk result (Some row') of
                  None \<Rightarrow> Inl List_Fault | Some result' \<Rightarrow> Inr result')))"

fun callback_rows :: "nat \<Rightarrow> string fresh \<Rightarrow> string gfc_map option list
    \<Rightarrow> string gfc_map gfc_list \<Rightarrow> (string \<times> string option) list list
    \<Rightarrow> gw_fault + string gfc_map gfc_list" where
  "callback_rows fuel fresh junk result [] = Inr result"
| "callback_rows fuel fresh junk result (cols # rows) =
     (case gw_sqlite_callback fuel fresh junk result cols of
        Inl f \<Rightarrow> Inl f | Inr result' \<Rightarrow> callback_rows fuel fresh junk result' rows)"

text \<open>
  \<open>gw_sqlite_query\<close>: whatever \<open>sqlite3_exec\<close> returns, the code is \<open>GW_SQLITE_OK\<close>.
  A NULL handle gives no rows.
\<close>

definition gw_sqlite_query :: "'db sqlite_lib \<Rightarrow> nat \<Rightarrow> string fresh \<Rightarrow> string gfc_map option list
    \<Rightarrow> string \<Rightarrow> 'db handle \<Rightarrow> gw_fault + int \<times> string gfc_map gfc_list \<times> 'db handle" where
  "gw_sqlite_query lib fuel fresh junk sql h =
     (case h of
        Freed_Handle \<Rightarrow> Inl Use_After_Free
      | Null_Handle \<Rightarrow> Inr (GW_SQLITE_OK, gfc_list_new junk, Null_Handle)
      | Handle db \<Rightarrow>
          (case sqlite3_exec lib db sql of (rc, rows, db') \<Rightarrow>
             (case callback_rows fuel fresh junk (gfc_list_new junk) rows of
                Inl f \<Rightarrow> Inl f | Inr result \<Rightarrow> Inr (GW_SQLITE_OK, result, Handle db'))))"

section \<open>Rows\<close>

text \<open>The columns of a row that the callback puts, and the value a row has for a key.\<close>

definition row_pairs :: "(string \<times> string option) list \<Rightarrow> (string \<times> string option) list" where
  "row_pairs cols = map (\<lambda>(k, v). (k, map_option cstr v)) (filter (\<lambda>(k, v). v \<noteq> None) cols)"

definition row_value :: "(string \<times> string option) list \<Rightarrow> string \<Rightarrow> string option" where
  "row_value cols key = (case map_of (rev (row_pairs cols)) key of None \<Rightarrow> None | Some v \<Rightarrow> v)"

definition row_ok :: "(string \<times> string option) list \<Rightarrow> bool" where
  "row_ok cols \<longleftrightarrow> length cols \<le> 8 \<and> (\<forall>k \<in> fst ` set cols. gm_key_ok k)"

text \<open>A map that holds what a row delivered.\<close>

definition holds_row :: "(string \<times> string option) list \<Rightarrow> string gfc_map \<Rightarrow> bool" where
  "holds_row cols row \<longleftrightarrow> (\<forall>key. gm_key_ok key \<longrightarrow>
     gfc_map_get row key = (case row_value cols key of
       Some v \<Rightarrow> (GFC_ERROR_MAP_OK, Some v) | None \<Rightarrow> (GFC_ERROR_MAP_MISSING, None)))"

lemma row_pairs_simps [simp]:
  "row_pairs [] = []"
  "row_pairs ((k, None) # cols) = row_pairs cols"
  "row_pairs ((k, Some v) # cols) = (k, Some (cstr v)) # row_pairs cols"
  by (simp_all add: row_pairs_def)

lemma row_pairs_Some: "(k, v) \<in> set (row_pairs cols) \<Longrightarrow> v \<noteq> None"
  by (auto simp: row_pairs_def)

lemma row_pairs_keys: "fst ` set (row_pairs cols) \<subseteq> fst ` set cols"
  by (force simp: row_pairs_def)

lemma row_pairs_length: "length (row_pairs cols) \<le> length cols"
  by (simp add: row_pairs_def)

lemma row_value_Some:
  "map_of (rev (row_pairs cols)) key = (case row_value cols key of None \<Rightarrow> None | Some v \<Rightarrow> Some (Some v))"
proof (cases "map_of (rev (row_pairs cols)) key")
  case (Some v)
  then have "(key, v) \<in> set (row_pairs cols)" by (metis map_of_SomeD set_rev)
  then have "v \<noteq> None" by (rule row_pairs_Some)
  then show ?thesis using Some by (auto simp: row_value_def)
qed (simp add: row_value_def)

lemma callback_columns_insert:
  "gm_ok r m \<Longrightarrow> r + length (row_pairs cols) \<le> 8 \<Longrightarrow> \<forall>k \<in> fst ` set (row_pairs cols). gm_key_ok k
   \<Longrightarrow> 0 < fuel \<Longrightarrow> insert_each gm_ins m (row_pairs cols) = Some m'
   \<Longrightarrow> callback_columns fuel fresh m cols = Inr m'"
proof (induction cols arbitrary: r m)
  case (Cons c cols)
  obtain k v where c: "c = (k, v)" by force
  show ?case
  proof (cases v)
    case None
    then show ?thesis using Cons.IH [OF Cons.prems(1)] Cons.prems(2-) c by simp
  next
    case (Some w)
    have r: "r < 8" and k: "gm_key_ok k" using Cons.prems(2,3) c Some by auto
    from gm_dict.ins_ok [OF Cons.prems(1) r k, of "Some (cstr w)"] obtain m1 where
      m1: "gm_ins m k (Some (cstr w)) = Some m1" "gm_ok (Suc r) m1" by blast
    have "callback_columns fuel fresh m1 cols = Inr m'"
      using Cons.IH [OF m1(2)] Cons.prems(2-) c Some m1(1) by simp
    then show ?thesis using gm_put_ins [OF Cons.prems(1) r k m1(1) Cons.prems(4)] c Some by simp
  qed
qed simp

lemma gw_sqlite_callback_ok:
  assumes "zeroed fresh" and "fresh INITIAL_SIZE \<noteq> None" and "10 \<le> length junk" and "0 < fuel"
    and "row_ok cols" and "gl_ok result"
  shows "\<exists>result' row. gw_sqlite_callback fuel fresh junk result cols = Inr result' \<and> gl_ok result'
    \<and> gl_content result' = gl_content result @ [Some row] \<and> holds_row cols row"
proof -
  obtain m where m: "gfc_map_new fresh = Some m" using assms(2) by (auto simp: gfc_map_new_def)
  note new = gm_new_ok [OF m assms(1)]
  have keys: "\<forall>k \<in> fst ` set (row_pairs cols). gm_key_ok k"
    using assms(5) row_pairs_keys [of cols] unfolding row_ok_def by blast
  have len: "0 + length (row_pairs cols) \<le> 8"
    using assms(5) row_pairs_length [of cols] by (simp add: row_ok_def)
  from gm_dict.insert_each_ok [OF new [THEN conjunct1] len keys] obtain m' where
    m': "insert_each gm_ins m (row_pairs cols) = Some m'" "gm_ok (0 + length (row_pairs cols)) m'"
    "\<forall>k. gm_key_ok k \<longrightarrow> gm_look m' k = (gm_look m ++ map_of (rev (row_pairs cols))) k" by blast
  have "callback_columns fuel fresh m cols = Inr m'"
    by (rule callback_columns_insert [OF new [THEN conjunct1] len keys assms(4) m'(1)])
  moreover from gfc_seq.append_ok [OF assms(3,6), of "Some m'"] obtain result' where
    "gfc_list_append junk result (Some m') = Some result'" "gl_ok result'"
    "gl_content result' = gl_content result @ [Some m']" by blast
  moreover have "holds_row cols m'"
  proof -
    have "map_ok m'" using m'(2) by (simp add: gm_ok_def)
    moreover have "gm_look m' k = map_of (rev (row_pairs cols)) k" if "gm_key_ok k" for k
      using m'(3) that gm_new_ok [OF m assms(1)] by (simp add: map_add_def split: option.split)
    ultimately show ?thesis
      by (auto simp: holds_row_def gm_get_look row_value_Some split: option.split)
  qed
  ultimately show ?thesis using m by (auto simp: gw_sqlite_callback_def)
qed

lemma callback_rows_ok:
  "zeroed fresh \<Longrightarrow> fresh INITIAL_SIZE \<noteq> None \<Longrightarrow> 10 \<le> length junk \<Longrightarrow> 0 < fuel
   \<Longrightarrow> \<forall>cols \<in> set rows. row_ok cols \<Longrightarrow> gl_ok result \<Longrightarrow>
   \<exists>result' maps. callback_rows fuel fresh junk result rows = Inr result' \<and> gl_ok result'
     \<and> gl_content result' = gl_content result @ map Some maps \<and> list_all2 holds_row rows maps"
proof (induction rows arbitrary: result)
  case Nil
  then show ?case by (intro exI [of _ result] exI [of _ "[]"]) simp
next
  case (Cons cols rows)
  from gw_sqlite_callback_ok [OF Cons.prems(1-4) _ Cons.prems(6), of cols] Cons.prems(5)
  obtain result1 row where r1: "gw_sqlite_callback fuel fresh junk result cols = Inr result1"
    "gl_ok result1" "gl_content result1 = gl_content result @ [Some row]" "holds_row cols row" by auto
  from Cons.IH [OF Cons.prems(1-4) _ r1(2)] Cons.prems(5) obtain result2 maps where
    "callback_rows fuel fresh junk result1 rows = Inr result2" "gl_ok result2"
    "gl_content result2 = gl_content result1 @ map Some maps" "list_all2 holds_row rows maps" by auto
  then show ?case using r1 by (intro exI [of _ result2] exI [of _ "row # maps"]) simp
qed

text \<open>A query, for its clients: its result represents the rows.\<close>

definition result_of :: "(string \<times> string option) list list \<Rightarrow> string gfc_map gfc_list \<Rightarrow> bool" where
  "result_of rows l \<longleftrightarrow> gfc_list_size l = length rows
     \<and> (\<forall>i < length rows. \<exists>row. gfc_list_get l i = Some row \<and> holds_row (rows ! i) row)"

lemma gw_sqlite_query_ok:
  assumes "sqlite3_exec lib db sql = (rc, rows, db')" and "\<forall>cols \<in> set rows. row_ok cols"
    and "zeroed fresh" and "fresh INITIAL_SIZE \<noteq> None" and "10 \<le> length junk" and "0 < fuel"
  shows "\<exists>l. gw_sqlite_query lib fuel fresh junk sql (Handle db) = Inr (GW_SQLITE_OK, l, Handle db')
    \<and> result_of rows l"
proof -
  note empty = gfc_seq.empty_ok [OF assms(5)]
  from callback_rows_ok [OF assms(3-6) assms(2), of "gfc_list_new junk"] empty obtain l maps where
    l: "callback_rows fuel fresh junk (gfc_list_new junk) rows = Inr l" "gl_ok l"
      "gl_content l = map Some maps" "list_all2 holds_row rows maps" by auto
  have len: "length maps = length rows" using l(4) by (simp add: list_all2_lengthD)
  have "gfc_list_size l = length rows" using gfc_seq.count_content [OF l(2)] l(3) len by simp
  moreover have "gfc_list_get l i = Some (maps ! i) \<and> holds_row (rows ! i) (maps ! i)"
    if "i < length rows" for i
    using gfc_seq.get_content [OF l(2), of i] l(3,4) len that by (simp add: list_all2_nthD)
  ultimately show ?thesis
    using l(1) assms(1) by (auto simp: gw_sqlite_query_def result_of_def)
qed

section \<open>Properties\<close>


definition sample_fresh :: "'a fresh" where
  "sample_fresh n = Some (replicate n \<lparr>me_key = [], me_in_use = 0, me_data = None\<rparr>)"

lemma sample_fresh_ok: "zeroed sample_fresh" "sample_fresh n \<noteq> None"
  by (auto simp: sample_fresh_def zeroed_def)

definition sample_lib :: "unit sqlite_lib" where
  "sample_lib = \<lparr>sqlite3_open = (\<lambda>path. (0, Handle ())),
     sqlite3_exec = (\<lambda>db sql. (1, [[(''stgcd'', Some ''AGENT.NAME''), (''nt'', None)]], ()))\<rparr>"


text \<open>The settings a series of insertions adds to those that are there.\<close>

fun seeded :: "(string \<rightharpoonup> string) \<Rightarrow> (string \<times> string) list \<Rightarrow> (string \<rightharpoonup> string)" where
  "seeded m [] = m"
| "seeded m ((k, v) # kvs) = seeded (if k \<in> dom m then m else m(k \<mapsto> v)) kvs"

lemma seeded_keeps: "m k = Some v \<Longrightarrow> seeded m kvs k = Some v"
proof (induction m kvs rule: seeded.induct)
  case (2 m k' v' kvs)
  have "(if k' \<in> dom m then m else m(k' \<mapsto> v')) k = Some v" using 2(2) by auto
  from 2(1) [OF this] show ?case by simp
qed simp

lemma seeded_new: "distinct (map fst kvs) \<Longrightarrow> m k = None \<Longrightarrow> seeded m kvs k = map_of kvs k"
proof (induction m kvs rule: seeded.induct)
  case (2 m k' v kvs)
  show ?case
  proof (cases "k = k'")
    case True
    then show ?thesis using 2(3) by (auto simp: domIff intro: seeded_keeps)
  next
    case False
    then show ?thesis using 2 by (auto simp: domIff)
  qed
qed simp

text \<open>The text an SQL literal stands for, and the default of every setting.\<close>

fun sql_literal :: "string \<Rightarrow> string" where
  "sql_literal (c # d # cs) =
     (if c = quote \<and> d = quote then quote # sql_literal cs else c # sql_literal (d # cs))"
| "sql_literal cs = cs"

definition gw_defaults :: "(string \<times> string) list" where
  "gw_defaults = [
     (KEY_AGENT_ACKNOWLEDGEMENT_ID, []), (KEY_SERVER_ADDRESS, ''192.168.0.207''),
     (KEY_SERVER_SNMP_PORT, ''6162''), (KEY_SERVER_WEB_PORT, ''8088''),
     (KEY_AGENT_NAME, map char_of [0xE6, 0x9C, 0xBA, 0xE5, 0x99, 0xA8, 0xE5, 0x90, 0x8D, 0xE7, 0xA7,
        0xB0 :: nat]),
     (KEY_AGENT_SNMP_PORT, ''6161''), (KEY_AGENT_WEB_PORT, ''10086''),
     (''AGENT.MSSQL.ADDRESS'', ''localhost''), (''AGENT.MSSQL.PORT'', ''1433''),
     (''AGENT.MSSQL.USERNAME'', ''sa''), (''AGENT.MSSQL.PASSWORD'', []),
     (''MSSQL.SLOW_QUERY'', sql_literal mssql_slow_query), (''MSSQL.LOCK'', sql_literal mssql_lock),
     (''MSSQL.DEAD_LOCK'', sql_literal mssql_dead_lock)]"

text \<open>
  What SQLite documents of a table with a primary key, on the statements of the seeding: creating
  the table again fails, and inserting a key that is there fails and changes nothing.
  \<open>settings\<close> reads the table of a database.
\<close>

definition table_law :: "'db sqlite_lib \<Rightarrow> ('db \<Rightarrow> string \<rightharpoonup> string) \<Rightarrow> bool" where
  "table_law lib settings \<longleftrightarrow>
     (\<forall>db. settings (snd (snd (sqlite3_exec lib db GW_SQL_SETTING_CREATE))) = settings db)
     \<and> (\<forall>db. \<forall>(sql, k, v) \<in> set (zip (tl gw_seed_statements) gw_defaults).
          settings (snd (snd (sqlite3_exec lib db sql))) =
            (if k \<in> dom (settings db) then settings db else (settings db)(k \<mapsto> v)))"

lemma execute_seeds:
  "length sqls = length kvs \<Longrightarrow>
     \<forall>db. \<forall>(sql, k, v) \<in> set (zip sqls kvs). settings (snd (snd (sqlite3_exec lib db sql))) =
            (if k \<in> dom (settings db) then settings db else (settings db)(k \<mapsto> v)) \<Longrightarrow>
     \<exists>db'. execute_all lib sqls (Handle db) = Inr (Handle db')
       \<and> settings db' = seeded (settings db) kvs"
proof (induction sqls kvs arbitrary: db rule: list_induct2)
  case (Cons sql sqls kv kvs)
  obtain k v where kv: "kv = (k, v)" by force
  obtain rc rows db1 where ex: "sqlite3_exec lib db sql = (rc, rows, db1)" by (metis prod_cases3)
  have "settings (snd (snd (sqlite3_exec lib db sql))) =
      (if k \<in> dom (settings db) then settings db else (settings db)(k \<mapsto> v))"
    using Cons.prems kv by simp
  then have "settings db1 = (if k \<in> dom (settings db) then settings db else (settings db)(k \<mapsto> v))"
    using ex by simp
  moreover from Cons.IH [of db1] Cons.prems obtain db' where
    "execute_all lib sqls (Handle db1) = Inr (Handle db')" "settings db' = seeded (settings db1) kvs"
    by auto
  ultimately show ?case using ex kv by (simp add: gw_sqlite_execute_def)
qed simp


text \<open>A database that is its table, with the statements of the seeding.\<close>

definition table_lib :: "(string \<times> string) list sqlite_lib" where
  "table_lib = \<lparr>sqlite3_open = (\<lambda>path. (0, Handle [(KEY_SERVER_ADDRESS, ''10.0.0.1'')])),
     sqlite3_exec = (\<lambda>db sql. case map_of (zip (tl gw_seed_statements) gw_defaults) sql of
        None \<Rightarrow> (1, [], db)
      | Some (k, v) \<Rightarrow> if k \<in> fst ` set db then (19, [], db) else (0, [], (k, v) # db))\<rparr>"

text \<open>The first literal of an insertion is its key, so the statements are distinct.\<close>

definition stmt_key :: "string \<Rightarrow> string" where
  "stmt_key sql = takeWhile (\<lambda>c. c \<noteq> quote) (drop 1 (dropWhile (\<lambda>c. c \<noteq> quote) sql))"

lemma stmt_key_insert: "quote \<notin> set k \<Longrightarrow> stmt_key (setting_insert k n t v f) = k"
  by (auto simp: stmt_key_def setting_insert_def takeWhile_tail quote_def)

lemma seed_keys: "map stmt_key (tl gw_seed_statements) = map fst gw_defaults"
  by (simp add: gw_seed_statements_def gw_defaults_def stmt_key_insert quote_def
      GW_SQL_SETTING_INSERT_ACKNOWLEDGEMENT_ID_def GW_SQL_SETTING_INSERT_SERVER_ADDRESS_def
      GW_SQL_SETTING_INSERT_SERVER_SNMP_PORT_def GW_SQL_SETTING_INSERT_SERVER_WEB_PORT_def
      GW_SQL_SETTING_INSERT_AGENT_NAME_def GW_SQL_SETTING_INSERT_AGENT_SNMP_PORT_def
      GW_SQL_SETTING_INSERT_AGENT_WEB_PORT_def GW_SQL_SETTING_INSERT_AGENT_MSSQL_ADDRESS_def
      GW_SQL_SETTING_INSERT_AGENT_MSSQL_PORT_def GW_SQL_SETTING_INSERT_AGENT_MSSQL_USERNAME_def
      GW_SQL_SETTING_INSERT_AGENT_MSSQL_PASSWORD_def GW_SQL_SETTING_INSERT_MSSQL_SLOW_QUERY_def
      GW_SQL_SETTING_INSERT_MSSQL_LOCK_def GW_SQL_SETTING_INSERT_MSSQL_DEAD_LOCK_def)

lemma seeds_distinct: "distinct (tl gw_seed_statements)"
proof -
  have "distinct (map stmt_key (tl gw_seed_statements))"
    unfolding seed_keys by (simp add: gw_defaults_def)
  then show ?thesis by (simp only: distinct_map)
qed

lemma create_no_seed: "GW_SQL_SETTING_CREATE \<notin> set (tl gw_seed_statements)"
proof
  assume "GW_SQL_SETTING_CREATE \<in> set (tl gw_seed_statements)"
  then have "stmt_key GW_SQL_SETTING_CREATE \<in> set (map fst gw_defaults)"
    unfolding seed_keys [symmetric] by simp
  moreover have "stmt_key GW_SQL_SETTING_CREATE = []"
    by (simp add: stmt_key_def GW_SQL_SETTING_CREATE_def quote_def)
  ultimately show False by (simp add: gw_defaults_def)
qed

lemma table_lib_law: "table_law table_lib map_of"
proof -
  have len: "length (tl gw_seed_statements) = length gw_defaults"
    by (simp add: gw_seed_statements_def gw_defaults_def)
  have "map_of (zip (tl gw_seed_statements) gw_defaults) GW_SQL_SETTING_CREATE = None"
    using create_no_seed len by (simp add: map_of_zip_is_None)
  moreover have "map_of (zip (tl gw_seed_statements) gw_defaults) sql = Some (k, v)"
    if "(sql, k, v) \<in> set (zip (tl gw_seed_statements) gw_defaults)" for sql k v
    using that seeds_distinct len by (simp add: map_of_eq_Some_iff)
  ultimately show ?thesis
    unfolding table_law_def table_lib_def dom_map_of_conv_image_fst by force
qed


text \<open>
  C14. When SQLite cannot open the file, it returns an error and a handle, which
  \<open>gw_sqlite_open\<close> closes but keeps; \<open>gw_app_start\<close> does not look at the code, so its query
  for the settings is run on a closed database, and reopening closes it a second time.
\<close>

theorem gw_sqlite_open_failure:
  assumes "sqlite3_open lib (cstr dir @ ''/guardwatch.db'') = (rc, Handle db)" and "rc \<noteq> 0"
    and "length (cstr dir) < 1010"
  shows "gw_sqlite_open lib dir Null_Handle = Inr (rc, Freed_Handle)
    \<and> gw_sqlite_query lib fuel fresh junk sql Freed_Handle = Inl Use_After_Free
    \<and> gw_sqlite_open lib dir Freed_Handle = Inl Use_After_Free"
  using assms by (simp add: gw_sqlite_open_def gw_sqlite_query_def gw_sqlite_close_def Let_def)

theorem gw_sqlite_open_failure_witness:
  "gw_sqlite_open \<lparr>sqlite3_open = (\<lambda>path. (14, Handle ())), sqlite3_exec = (\<lambda>db sql. (0, [], ()))\<rparr>
     ''/x'' Null_Handle = Inr (14, Freed_Handle)"
  using gw_sqlite_open_failure [of "\<lparr>sqlite3_open = (\<lambda>path. (14, Handle ())),
      sqlite3_exec = (\<lambda>db sql. (0, [], ()))\<rparr>" "''/x''" 14 "()"]
  by (simp add: cstr_def)

end
