(* ===== verification/Gw_Sql.thy ===== *)
theory Gw_Sql
  imports Mustach_Render Mustach_Levels
begin

text \<open>
  SQL from templates, \<open>src/src/gw_sql.c\<close>, with the templates of \<open>src/src/gw_sqlite.c\<close>.
  The JSON parser of json-c is a parameter: what \<open>json_tokener_parse\<close> makes of a text.
\<close>

definition GW_SQL_SETTING_INSERT :: string where
  "GW_SQL_SETTING_INSERT =
     ''insert into tn_gw_stg (''
     @ ''  stgcd, stgnm, stgtyp, val, opt, nt, sta, lmt''
     @ '') values (''
     @ ''  {{{stgcd}}}, {{{stgnm}}}, {{{stgtyp}}}, {{{val}}}, {{{opt}}}, {{{nt}}}, {{{sta}}}, {{{lmt}}} ''
     @ '')''"

definition GW_SQL_SETTING_UPDATE :: string where
  "GW_SQL_SETTING_UPDATE =
     ''update tn_gw_stg ''
     @ ''set    stgcd = {{{stgcd}}}, stgnm = {{{stgnm}}}, stgtyp = {{{stgtyp}}}, val = {{{val}}}, ''
     @ ''opt = {{{opt}}}, nt = {{{nt}}}, sta = {{{sta}}}, lmt = {{{lmt}}} ''
     @ ''where  stgcd = {{{stgcd}}}''"

definition GW_SQL_SETTING_DELETE :: string where
  "GW_SQL_SETTING_DELETE =
     ''delete from tn_gw_stg '' @ [newline] @ ''where  stgcd = {{{stgcd}}}'' @ [newline]"

definition GW_SQL_SETTING_FIND :: string where
  "GW_SQL_SETTING_FIND =
     ''select stgcd, stgnm, stgtyp, val, opt, nt, sta, lmt ''
     @ ''from   tn_gw_stg ''
     @ ''where  1 = 1 ''
     @ ''{{#stgcd}}''
     @ ''and    stgcd = {{{stgcd}}} ''
     @ ''{{/stgcd}}''"

text \<open>
  \<open>gw_sql_get\<close>: the return code and \<open>*sql\<close>. \<open>e0\<close> is the uninitialised cursor,
  \<open>out\<close> the memory stream of the result, \<open>fs\<close> the files a partial could name.
\<close>

definition gw_sql_get :: "(string \<Rightarrow> 'd json) \<Rightarrow> 'd json_env \<Rightarrow> 'd expl \<Rightarrow> nat \<Rightarrow> cfile option
    \<Rightarrow> (string \<Rightarrow> string option option) \<Rightarrow> string \<Rightarrow> string \<Rightarrow> (int \<times> string option) option" where
  "gw_sql_get json_tokener_parse je e0 fuel out fs tpl json_params =
     (let len = length (cstr tpl);
          params = json_tokener_parse json_params
      in mustach_json_c_mem je e0 fuel tpl len params 0 None fs out)"

section \<open>The callbacks over JSON data, without extensions\<close>

abbreviation sql_iwrap :: "'d json_env \<Rightarrow> (string \<Rightarrow> string option option) \<Rightarrow> 'd expl iwrap" where
  "sql_iwrap je fs \<equiv> json_iwrap je 0 None None None fs"

named_theorems sql_cursor \<open>how the cursor answers a simple name\<close>

lemma has_0 [simp]: "\<not> has 0 m"
  by (simp add: has_def)

lemma getkey_plain:
  assumes "name \<noteq> []" and "CHR ''.'' \<notin> set name" and "CHR 0x5C \<notin> set name"
  shows "getkey name 0 = Some (name, [])"
proof -
  have "CHR ''.'' \<notin> set n \<Longrightarrow> CHR 0x5C \<notin> set n \<Longrightarrow> dotted_key n = (n, [])" for n
    by (induction n rule: dotted_key.induct) auto
  then show ?thesis using assms by (simp add: getkey_def)
qed

lemma wrap_init_flags [simp]: "w_flags (wrap_init itf 0 ec wc hk fs) = 0"
  by (simp add: wrap_init_def)

lemma wrap_sel_plain:
  assumes "name \<noteq> []" and "CHR ''.'' \<notin> set name" and "CHR 0x5C \<notin> set name"
  shows "wrap_sel (wrap_init (mustach_json_c_wrap_itf je) 0 None None None fs) name e =
    (case json_search (ex_stack e) name (ex_depth e) of
       Some j \<Rightarrow> (S_ok, e\<lparr>ex_selection := j\<rparr>) | None \<Rightarrow> (S_none, e\<lparr>ex_selection := JNull\<rparr>))"
proof -
  have "name \<noteq> ''.''" using assms by auto
  moreover have "getkey [] 0 = None" by (simp add: getkey_def)
  ultimately show ?thesis
    using getkey_plain [OF assms]
    by (auto simp: wrap_sel_def Let_def mustach_json_c_wrap_itf_def json_sel_def sel_compared_def
        sel_subkeys.simps split: option.splits)
qed

lemma sql_emit [sql_cursor]:
  "f_room f = None \<Longrightarrow> iw_emit (sql_iwrap je fs) x False (e, f) = (0, e, written x f)"
  by (simp add: wrap_emit_def wrap_init_def wrap_write_def fwrite_fits)

lemma sql_emit_text [sql_cursor]:
  "f_room f = None \<Longrightarrow> emit_text (sql_iwrap je fs) x (e, f) = (0, e, written x f)"
  unfolding emit_text_def using sql_emit [of f je fs x e] by (cases "x = []") simp_all

text \<open>A variable whose value is a string, printed without escaping.\<close>

lemma sql_put [sql_cursor]:
  assumes "name \<noteq> []" and "CHR ''.'' \<notin> set name" and "CHR 0x5C \<notin> set name"
    and "json_search (ex_stack e) name (ex_depth e) = Some (JString v)" and "f_room f = None"
  shows "iw_put (sql_iwrap je fs) name False (e, f)
    = (0, e\<lparr>ex_selection := JString v\<rparr>, written (cstr v) f)"
proof -
  have "wrap_get (wrap_init (mustach_json_c_wrap_itf je) 0 None None None fs) name e
      = (0, \<lparr>sb_value = Some v, sb_length = 0\<rparr>, e\<lparr>ex_selection := JString v\<rparr>)"
    using assms(4)
    by (simp add: wrap_get_def getoptional_def wrap_sel_plain [OF assms(1-3)] sel_ok_def sel_objiter_def)
       (simp add: mustach_json_c_wrap_itf_def json_get_def sbuf_reset_def)
  moreover have "take (length (cstr v)) v = cstr v" by (simp add: cstr_def takeWhile_eq_take [symmetric])
  ultimately show ?thesis
    using sql_emit [of f je fs "cstr v" "e\<lparr>ex_selection := JString v\<rparr>"] assms(5)
    by (auto simp: iwrap_put_def sbuf_length_def sbuf_bytes_def)
qed

section \<open>The query for the settings\<close>

definition find_all :: string where
  "find_all = ''select stgcd, stgnm, stgtyp, val, opt, nt, sta, lmt from   tn_gw_stg where  1 = 1 ''"

definition find_items :: "item list" where
  "find_items = [Sec find_all False ''stgcd'' [Var ''and    stgcd = '' Triple ''stgcd''] '' '']"

lemma find_template: "GW_SQL_SETTING_FIND = print_items find_items @ []"
  by (simp add: GW_SQL_SETTING_FIND_def find_items_def find_all_def)

lemma find_ok:
  "items_ok find_items" "find_items \<noteq> []" "\<exists>c \<in> set (lead (hd find_items)). \<not> isspace c"
  "items_depth find_items \<le> 256" "plain []" "length (print_items find_items @ []) < 2 ^ 63"
  by (simp_all add: find_items_def find_all_def plain_def name_ok_def isspace_def)

text \<open>The cursor at its start, and in the section of a string.\<close>

definition at_root :: "'d json \<Rightarrow> 'd expl \<Rightarrow> bool" where
  "at_root root e \<longleftrightarrow> length (ex_stack e) = MUSTACH_MAX_DEPTH \<and> ex_depth e = 0 \<and> jf_obj (ex_stack e ! 0) = root"

lemma at_root_selection [simp]: "at_root root (e\<lparr>ex_selection := j\<rparr>) = at_root root e"
  by (simp add: at_root_def)

lemma json_start_root: "length (ex_stack e) = MUSTACH_MAX_DEPTH \<Longrightarrow> fst (json_start e) = 0
    \<and> at_root (ex_root e) (snd (json_start e))"
  by (simp add: json_start_def at_root_def ex_set_top_def)

definition in_string :: "'d json \<Rightarrow> string \<Rightarrow> 'd expl \<Rightarrow> bool" where
  "in_string root v e \<longleftrightarrow> length (ex_stack e) = MUSTACH_MAX_DEPTH \<and> ex_depth e = 1
     \<and> jf_obj (ex_stack e ! 0) = root \<and> jf_obj (ex_stack e ! 1) = JString v
     \<and> \<not> jf_is_objiter (ex_stack e ! 1) \<and> jf_index (ex_stack e ! 1) = 0 \<and> jf_count (ex_stack e ! 1) = 1"

lemma in_string_selection [simp]: "in_string root v (e\<lparr>ex_selection := j\<rparr>) = in_string root v e"
  by (simp add: in_string_def)

lemma enter_absent:
  assumes "at_root (JObject ms) e" and "map_of ms ''stgcd'' = None"
  shows "iw_enter (sql_iwrap je fs) ''stgcd'' e = (0, e\<lparr>ex_selection := JNull\<rparr>)"
  using assms wrap_sel_plain [of "''stgcd''" je fs e]
  by (simp add: wrap_enter_def at_root_def json_object_object_get_ex_def)

lemma enter_string:
  assumes "at_root (JObject ms) e" and "map_of ms ''stgcd'' = Some (JString v)"
  shows "(v = [] \<and> (\<exists>e'. iw_enter (sql_iwrap je fs) ''stgcd'' e = (0, e') \<and> at_root (JObject ms) e'))
    \<or> (v \<noteq> [] \<and> (\<exists>e'. iw_enter (sql_iwrap je fs) ''stgcd'' e = (1, e') \<and> in_string (JObject ms) v e'))"
  using assms wrap_sel_plain [of "''stgcd''" je fs e]
  by (cases "v = []")
     (simp_all add: wrap_enter_def at_root_def json_object_object_get_ex_def sel_objiter_def
       mustach_json_c_wrap_itf_def json_enter_def Let_def json_object_get_boolean_def ex_set_top_def
       ex_top_def in_string_def)

lemma next_string: "in_string root v e \<Longrightarrow> \<exists>e'. iw_next (sql_iwrap je fs) e = (0, e')"
  by (simp add: json_next_def Let_def ex_top_def in_string_def)

lemma find_renders_string:
  assumes root: "at_root (JObject ms) e" and room: "f_room f = None"
    and v: "map_of ms ''stgcd'' = Some (JString v)" "v \<noteq> []"
  shows "\<exists>e'. renders (sql_iwrap je fs) find_items (e, f)
    (e', written (find_all @ ''and    stgcd = '' @ cstr v @ '' '') f)"
proof -
  let ?w = "''and    stgcd = '' @ cstr v @ '' ''"
  note emits = sql_emit_text [where je = je and fs = fs]
  obtain e1 where e1: "iw_enter (sql_iwrap je fs) ''stgcd'' e = (1, e1)" "in_string (JObject ms) v e1"
    using enter_string [OF root v(1), of je fs] assms(4) by auto
  let ?e2 = "e1\<lparr>ex_selection := JString v\<rparr>"
  have rooms: "f_room (written b f) = None" for b using room by simp
  have search: "json_search (ex_stack e1) ''stgcd'' (ex_depth e1) = Some (JString v)"
    using e1(2) v(1) by (simp add: in_string_def json_object_object_get_ex_def)
  have "iw_put (sql_iwrap je fs) ''stgcd'' (Triple = Escaped) (e1, written (find_all @ ''and    stgcd = '') f)
      = (0, ?e2, written (find_all @ ''and    stgcd = '' @ cstr v) f)"
    using sql_put [OF _ _ _ search rooms, of je fs "find_all @ ''and    stgcd = ''"] by simp
  from renders_rounds.var [OF emits [OF rooms, of "''and    stgcd = ''" e1 find_all, simplified] order_refl
      this order_refl renders_rounds.none]
  have body: "renders (sql_iwrap je fs) [Var ''and    stgcd = '' Triple ''stgcd''] (e1, written find_all f)
      (?e2, written (find_all @ ''and    stgcd = '' @ cstr v) f)" .
  obtain e3 where nxt: "iw_next (sql_iwrap je fs) ?e2 = (0, e3)"
    using next_string [of "JObject ms" v ?e2 je fs] e1(2) by auto
  from renders_rounds.last_round [OF body emits [OF rooms, of "'' ''" ?e2] order_refl nxt]
  have rounds: "rounds (sql_iwrap je fs) [Var ''and    stgcd = '' Triple ''stgcd''] '' '' (e1, written find_all f)
      (snd (iw_leave (sql_iwrap je fs) e3), written (find_all @ ?w) f)"
    using assms(4) by simp
  from renders_rounds.present [OF emits [OF room, of find_all e] order_refl e1(1) zero_less_one rounds
      renders_rounds.none]
  show ?thesis unfolding find_items_def by blast
qed

lemma find_renders:
  assumes root: "at_root (JObject ms) e" and room: "f_room f = None"
    and stgcd: "map_of ms ''stgcd'' = None \<and> w = [] \<or> (\<exists>v. map_of ms ''stgcd'' = Some (JString v)
      \<and> w = (if v = [] then [] else ''and    stgcd = '' @ cstr v @ '' ''))"
  shows "\<exists>e'. renders (sql_iwrap je fs) find_items (e, f) (e', written (find_all @ w) f)"
proof -
  have absent: "\<exists>e'. renders (sql_iwrap je fs) find_items (e, f) (e', written (find_all @ w) f)"
    if "iw_enter (sql_iwrap je fs) ''stgcd'' e = (0, e1)" "w = []" for e1
    using renders_rounds.absent [OF sql_emit_text [OF room, of je fs find_all e] order_refl that(1)
        renders_rounds.none] that(2)
    unfolding find_items_def by auto
  from stgcd show ?thesis
  proof
    assume "map_of ms ''stgcd'' = None \<and> w = []"
    then show ?thesis using absent [OF enter_absent [OF root]] by blast
  next
    assume "\<exists>v. map_of ms ''stgcd'' = Some (JString v)
      \<and> w = (if v = [] then [] else ''and    stgcd = '' @ cstr v @ '' '')"
    then obtain v where v: "map_of ms ''stgcd'' = Some (JString v)"
      "w = (if v = [] then [] else ''and    stgcd = '' @ cstr v @ '' '')" by blast
    show ?thesis
    proof (cases "v = []")
      case True
      then show ?thesis using absent enter_string [OF root v(1), of je fs] v(2) by auto
    next
      case False
      then show ?thesis using find_renders_string [OF root room v(1)] v(2) by simp
    qed
  qed
qed

text \<open>The settings query rendered; rendering takes fuel.\<close>

lemma gw_sql_find_ok:
  assumes "json_tokener_parse params = JObject ms" and "length (ex_stack e0) = MUSTACH_MAX_DEPTH"
    and "map_of ms ''stgcd'' = None \<and> w = [] \<or> (\<exists>v. map_of ms ''stgcd'' = Some (JString v)
      \<and> w = (if v = [] then [] else ''and    stgcd = '' @ cstr v @ '' ''))"
  shows "\<exists>fuel. 0 < fuel \<and> gw_sql_get json_tokener_parse je e0 fuel (Some \<lparr>f_data = [], f_room = None\<rparr>) fs
      GW_SQL_SETTING_FIND params
    = Some (0, Some (''select stgcd, stgnm, stgtyp, val, opt, nt, sta, lmt from   tn_gw_stg where  1 = 1 '' @ w))"
proof -
  let ?f = "\<lparr>f_data = [], f_room = None\<rparr>" and ?e = "e0\<lparr>ex_root := JObject ms\<rparr>"
  have start: "fst (json_start ?e) = 0" "at_root (JObject ms) (snd (json_start ?e))"
    using json_start_root [of ?e] assms(2) by simp_all
  obtain e' where r: "renders (sql_iwrap je fs) find_items (snd (json_start ?e), ?f)
      (e', written (find_all @ w) ?f)"
    using find_renders [OF start(2) _ assms(3), of ?f je fs] by auto
  have last: "iw_emit (sql_iwrap je fs) [] False (e', written (find_all @ w) ?f) = (0, e', written (find_all @ w) ?f)"
    using sql_emit [of "written (find_all @ w) ?f" je fs "[]" e'] by simp
  from renders_process [OF r find_ok(1-5) last order_refl find_ok(6)] obtain fuel where
    run: "process fuel (sql_iwrap je fs) [] GW_SQL_SETTING_FIND (length GW_SQL_SETTING_FIND)
      (snd (json_start ?e), ?f) = Some (0, e', written (find_all @ w) ?f)"
    unfolding find_template by blast
  then have "0 < fuel" by (cases fuel) (simp_all add: process_def)
  have "cstr GW_SQL_SETTING_FIND = GW_SQL_SETTING_FIND"
    by (rule cstr_id) (simp add: GW_SQL_SETTING_FIND_def)
  then have "gw_sql_get json_tokener_parse je e0 fuel (Some ?f) fs GW_SQL_SETTING_FIND params
      = Some (0, Some (find_all @ w))"
    using run start(1) assms(1)
    by (simp add: gw_sql_get_def mustach_json_c_mem_def mustach_wrap_mem_def mustach_mem_def
        mustach_file_def itf_valid_def json_iwrap_def)
       (simp add: mustach_wrap_itf_def wrap_start_def wrap_stop_def mustach_json_c_wrap_itf_def
        memfile_close_def fwrite_def written_def prod.case_eq_if)
  with \<open>0 < fuel\<close> show ?thesis unfolding find_all_def by blast
qed

section \<open>Properties\<close>

text \<open>
  C11. For the settings query, \<open>gw_sql_get\<close> returns 0 and the statement without a condition when
  the parameters have no \<open>stgcd\<close> (as \<open>gw_app_start\<close> calls it, with "{}") or an empty one; a
  string \<open>stgcd\<close> is copied into the condition as it is, neither quoted nor escaped.
\<close>

theorem gw_sql_find:
  assumes "json_tokener_parse params = JObject ms" and "length (ex_stack e0) = MUSTACH_MAX_DEPTH"
    and "map_of ms ''stgcd'' = None \<and> w = [] \<or> (\<exists>v. map_of ms ''stgcd'' = Some (JString v)
      \<and> w = (if v = [] then [] else ''and    stgcd = '' @ cstr v @ '' ''))"
  shows "\<exists>fuel. gw_sql_get json_tokener_parse je e0 fuel (Some \<lparr>f_data = [], f_room = None\<rparr>) fs
      GW_SQL_SETTING_FIND params
    = Some (0, Some (''select stgcd, stgnm, stgtyp, val, opt, nt, sta, lmt from   tn_gw_stg where  1 = 1 '' @ w))"
  using gw_sql_find_ok [of json_tokener_parse params ms e0 w je fs] assms by blast

theorem gw_sql_find_witness:
  "\<exists>fuel. gw_sql_get (\<lambda>_. JObject [(''stgcd'', JString ''1 or 1'')]) sample_env (sample_cursor [])
       fuel (Some \<lparr>f_data = [], f_room = None\<rparr>) (\<lambda>_. None) GW_SQL_SETTING_FIND ''{}''
     = Some (0, Some (''select stgcd, stgnm, stgtyp, val, opt, nt, sta, lmt from   tn_gw_stg where  1 = 1 ''
         @ ''and    stgcd = 1 or 1 ''))"
proof -
  let ?ms = "[(''stgcd'', JString ''1 or 1'')]" and ?w = "''and    stgcd = 1 or 1 ''"
  have "length (ex_stack (sample_cursor [])) = 256" by (simp add: sample_cursor_def)
  moreover have "map_of ?ms ''stgcd'' = None \<and> ?w = [] \<or> (\<exists>v. map_of ?ms ''stgcd'' = Some (JString v)
      \<and> ?w = (if v = [] then [] else ''and    stgcd = '' @ cstr v @ '' ''))"
    by (simp add: cstr_def)
  ultimately show ?thesis
    using gw_sql_find [of "\<lambda>_. JObject ?ms" "''{}''" ?ms "sample_cursor []" ?w sample_env "\<lambda>_. None"]
    by auto
qed

end
