(* ===== verification/Gw_App.thy ===== *)
theory Gw_App
  imports Gw_Sqlite Gw_Sql
begin

text \<open>
  The application, \<open>src/src/gw_app.c\<close>: its settings, the paths and round-robin databases made
  at initialisation, the start that opens the database, loads the settings and creates the four
  threads, and the stop that clears their flags.
\<close>

section \<open>Settings\<close>

text \<open>\<open>gw_app_settings_t\<close>: character arrays, of 1024 bytes but the three file names (2048).\<close>

record gw_app_settings =
  gs_acknowledgement_id :: string
  gs_server_address :: string
  gs_server_snmp_port :: string
  gs_server_web_port :: string
  gs_server_web_root :: string
  gs_agent_name :: string
  gs_agent_snmp_port :: string
  gs_agent_web_port :: string
  gs_cpu_rrd_file :: string
  gs_mem_rrd_file :: string
  gs_vol_rrd_file :: string

text \<open>\<open>strcpy\<close> of a text, or of NULL, into an array of \<open>n\<close> bytes.\<close>

definition copy_text :: "nat \<Rightarrow> string option \<Rightarrow> gw_fault + string" where
  "copy_text n src =
     (case src of
        None \<Rightarrow> Inl Null_Pointer
      | Some s \<Rightarrow> if length (cstr s) < n then Inr (cstr s) else Inl Overflow)"

section \<open>Threads and flags\<close>

text \<open>
  A thread is \<open>Created\<close> until it has run up to its loop, and then \<open>Looping\<close>, for the daemon
  with whether its sets of descriptors are initialised; it returns, or the process dies of it. The
  flags are the four globals that \<open>src/src/linux/gw_main.c\<close> defines with value 1.
\<close>

datatype thread_kind = Trap | Daemon | Os | Http

datatype thread_state = Created | Looping bool | Exited | Crashed

record 'db app =
  ap_settings :: gw_app_settings
  ap_db :: "'db handle"
  ap_snmp_daemon_running :: int
  ap_snmp_trap_running :: int
  ap_http_web_running :: int
  ap_os_collect_running :: int
  ap_threads :: "(thread_kind \<times> thread_state) list"

text \<open>What the functions of this file use of the libraries, and the memory they run in.\<close>

record ('db, 'd) agent_env =
  ae_sqlite :: "'db sqlite_lib"
  ae_tokener_parse :: "string \<Rightarrow> 'd json"
  ae_json :: "'d json_env"
  ae_expl :: "'d expl"
  ae_stream :: "cfile option"
  ae_files :: "string \<Rightarrow> string option option"
  ae_fresh :: "string fresh"
  ae_junk :: "string gfc_map option list"

section \<open>Initialisation\<close>

text \<open>
  \<open>gw_app_init\<close>: the new settings and the arguments of the three calls of
  \<open>rrd_create\<close>, whose failures are only printed.
\<close>

definition rrd_create_argv :: "string \<Rightarrow> string \<Rightarrow> string list" where
  "rrd_create_argv file ds = [''create'', file, ''-s'', ''5'', ds, ''RRA:AVERAGE:0.5:1:600'']"

definition gw_app_init :: "string \<Rightarrow> gw_app_settings \<Rightarrow> gw_fault + string list list \<times> gw_app_settings" where
  "gw_app_init work_directory s =
     (let logdir = cstr work_directory @ ''/log''; rrddir = cstr work_directory @ ''/rrd''
      in if length logdir \<ge> 1024 \<or> length rrddir \<ge> 1024 then Inl Overflow
         else
           let cpu = rrddir @ ''/cpu.rrd''; mem = rrddir @ ''/memory.rrd''; vol = rrddir @ ''/volume.rrd''
           in Inr ([rrd_create_argv cpu ''DS:cpu:GAUGE:600:0:100'',
                    rrd_create_argv mem ''DS:mem:GAUGE:600:U:U'',
                    rrd_create_argv vol ''DS:vol:GAUGE:600:U:U''],
                   s\<lparr>gs_cpu_rrd_file := cpu, gs_mem_rrd_file := mem, gs_vol_rrd_file := vol\<rparr>))"

section \<open>Loading the settings\<close>

text \<open>The keys \<open>gw_app_start\<close> compares with, in its order, and the array each is copied to.\<close>

definition setting_fields :: "(string \<times> (string \<Rightarrow> gw_app_settings \<Rightarrow> gw_app_settings)) list" where
  "setting_fields =
     [(KEY_AGENT_ACKNOWLEDGEMENT_ID, \<lambda>v s. s\<lparr>gs_acknowledgement_id := v\<rparr>),
      (KEY_SERVER_ADDRESS, \<lambda>v s. s\<lparr>gs_server_address := v\<rparr>),
      (KEY_SERVER_SNMP_PORT, \<lambda>v s. s\<lparr>gs_server_snmp_port := v\<rparr>),
      (KEY_SERVER_WEB_PORT, \<lambda>v s. s\<lparr>gs_server_web_port := v\<rparr>),
      (KEY_AGENT_SNMP_PORT, \<lambda>v s. s\<lparr>gs_agent_snmp_port := v\<rparr>),
      (KEY_AGENT_WEB_PORT, \<lambda>v s. s\<lparr>gs_agent_web_port := v\<rparr>),
      (KEY_AGENT_NAME, \<lambda>v s. s\<lparr>gs_agent_name := v\<rparr>)]"

fun load_fields :: "(string \<times> (string \<Rightarrow> gw_app_settings \<Rightarrow> gw_app_settings)) list \<Rightarrow> string
    \<Rightarrow> string gfc_map \<Rightarrow> gw_app_settings \<Rightarrow> gw_fault + gw_app_settings" where
  "load_fields [] key row s = Inr s"
| "load_fields ((k, upd) # flds) key row s =
     (if strcmp key k = 0
      then (case copy_text 1024 (snd (gfc_map_get row ''val'')) of
              Inl f \<Rightarrow> Inl f | Inr v \<Rightarrow> load_fields flds key row (upd v s))
      else load_fields flds key row s)"

definition load_row :: "string gfc_map option \<Rightarrow> gw_app_settings \<Rightarrow> gw_fault + gw_app_settings" where
  "load_row r s =
     (case r of
        None \<Rightarrow> Inl Null_Pointer
      | Some row \<Rightarrow>
          (case snd (gfc_map_get row ''stgcd'') of
             None \<Rightarrow> Inl Null_Pointer
           | Some key \<Rightarrow> load_fields setting_fields (cstr key) row s))"

function load_rows :: "string gfc_map gfc_list \<Rightarrow> nat \<Rightarrow> gw_app_settings \<Rightarrow> gw_fault + gw_app_settings" where
  "load_rows result i s =
     (if i < gfc_list_size result
      then (case load_row (gfc_list_get result i) s of
              Inl f \<Rightarrow> Inl f | Inr s' \<Rightarrow> load_rows result (Suc i) s')
      else Inr s)"
  by pat_completeness auto
termination
  by (relation "measure (\<lambda>(result, i, s). gfc_list_size result - i)") auto

declare load_rows.simps [simp del]

section \<open>Starting and stopping\<close>

text \<open>
  \<open>gw_app_start\<close>; the fuel is that of the template engine and of \<open>gfc_map_put\<close>. The code of
  \<open>gw_sqlite_open\<close> is not looked at. SQLite takes a NULL statement as an empty one.
\<close>

definition gw_app_start :: "('db, 'd) agent_env \<Rightarrow> nat \<Rightarrow> string \<Rightarrow> string \<Rightarrow> 'db app
    \<Rightarrow> (gw_fault + 'db app) option" where
  "gw_app_start env fuel work_directory resources_path a =
     (case gw_sqlite_open (ae_sqlite env) work_directory (ap_db a) of
        Inl f \<Rightarrow> Some (Inl f)
      | Inr (_, h) \<Rightarrow>
          (case gw_sql_get (ae_tokener_parse env) (ae_json env) (ae_expl env) fuel (ae_stream env)
                  (ae_files env) GW_SQL_SETTING_FIND ''{}'' of
             None \<Rightarrow> None
           | Some (_, sql) \<Rightarrow>
               Some
                 (if length (cstr resources_path @ ''/www'') \<ge> 1024 then Inl Overflow
                  else
                    let s = (ap_settings a)\<lparr>gs_server_web_root := cstr resources_path @ ''/www''\<rparr>
                    in (case gw_sqlite_query (ae_sqlite env) fuel (ae_fresh env) (ae_junk env)
                               (case sql of None \<Rightarrow> [] | Some q \<Rightarrow> q) h of
                          Inl f \<Rightarrow> Inl f
                        | Inr (_, result, h') \<Rightarrow>
                            (case load_rows result 0 s of
                               Inl f \<Rightarrow> Inl f
                             | Inr s' \<Rightarrow>
                                 Inr (a\<lparr>ap_settings := s', ap_db := h',
                                        ap_snmp_daemon_running :=
                                          (if ap_snmp_daemon_running a = 0 then 2
                                           else ap_snmp_daemon_running a),
                                        ap_threads := ap_threads a
                                          @ [(Trap, Created), (Daemon, Created), (Os, Created),
                                             (Http, Created)]\<rparr>))))))"

definition gw_app_stop :: "'db app \<Rightarrow> 'db app" where
  "gw_app_stop a = a\<lparr>ap_snmp_daemon_running := 0, ap_snmp_trap_running := 0,
                     ap_http_web_running := 0, ap_os_collect_running := 0\<rparr>"

section \<open>What loading computes\<close>

text \<open>Assigning a series of settings, and reading a setting by its key.\<close>

definition assign_setting :: "string \<times> string \<Rightarrow> gw_app_settings \<Rightarrow> gw_app_settings" where
  "assign_setting kv s = (case map_of setting_fields (fst kv) of None \<Rightarrow> s | Some upd \<Rightarrow> upd (snd kv) s)"

definition setting_getters :: "(string \<times> (gw_app_settings \<Rightarrow> string)) list" where
  "setting_getters =
     [(KEY_AGENT_ACKNOWLEDGEMENT_ID, gs_acknowledgement_id), (KEY_SERVER_ADDRESS, gs_server_address),
      (KEY_SERVER_SNMP_PORT, gs_server_snmp_port), (KEY_SERVER_WEB_PORT, gs_server_web_port),
      (KEY_AGENT_SNMP_PORT, gs_agent_snmp_port), (KEY_AGENT_WEB_PORT, gs_agent_web_port),
      (KEY_AGENT_NAME, gs_agent_name)]"

lemma getters_fields:
  "\<forall>(k, get) \<in> set setting_getters. \<forall>(k', upd) \<in> set setting_fields.
     get (upd v s) = (if k' = k then v else get s)"
  by (simp add: setting_getters_def setting_fields_def)

lemma getters_web_root: "(k, get) \<in> set setting_getters \<Longrightarrow> get (s\<lparr>gs_server_web_root := r\<rparr>) = get s"
  by (auto simp: setting_getters_def)

lemma getters_keys: "(k, get) \<in> set setting_getters \<Longrightarrow> k \<in> fst ` set setting_fields"
proof -
  have "map fst setting_getters = map fst setting_fields"
    by (simp add: setting_getters_def setting_fields_def)
  then have "fst ` set setting_getters = fst ` set setting_fields" by (metis set_map)
  then show "(k, get) \<in> set setting_getters \<Longrightarrow> k \<in> fst ` set setting_fields" by force
qed

lemma assign_setting_get:
  assumes "(k, get) \<in> set setting_getters"
  shows "get (assign_setting kv s) = (if fst kv = k then snd kv else get s)"
proof (cases "map_of setting_fields (fst kv)")
  case None
  then have "fst kv \<noteq> k" using getters_keys [OF assms] by (auto simp: map_of_eq_None_iff)
  then show ?thesis using None by (simp add: assign_setting_def)
next
  case (Some upd)
  then have "(fst kv, upd) \<in> set setting_fields" by (rule map_of_SomeD)
  from bspec [OF bspec [OF getters_fields assms, unfolded prod.case] this, unfolded prod.case]
  show ?thesis using Some by (simp add: assign_setting_def)
qed

lemma assign_setting_others [simp]:
  "gs_server_web_root (assign_setting kv s) = gs_server_web_root s"
  "gs_cpu_rrd_file (assign_setting kv s) = gs_cpu_rrd_file s"
  "gs_mem_rrd_file (assign_setting kv s) = gs_mem_rrd_file s"
  "gs_vol_rrd_file (assign_setting kv s) = gs_vol_rrd_file s"
  by (cases kv; simp add: assign_setting_def setting_fields_def)+

lemma assign_settings_get:
  "(k, get) \<in> set setting_getters \<Longrightarrow>
     get (fold assign_setting kvs s) = (case map_of (rev kvs) k of Some v \<Rightarrow> v | None \<Rightarrow> get s)"
proof (induction kvs arbitrary: s)
  case (Cons kv kvs)
  then show ?case
    by (auto simp: assign_setting_get map_add_def split: option.split)
qed simp

lemma load_fields_other: "key \<notin> fst ` set flds \<Longrightarrow> load_fields flds key row s = Inr s"
  by (induction flds key row s rule: load_fields.induct) auto

lemma load_fields_one:
  "distinct (map fst flds) \<Longrightarrow> load_fields flds key row s =
     (case map_of flds key of
        None \<Rightarrow> Inr s
      | Some upd \<Rightarrow> (case copy_text 1024 (snd (gfc_map_get row ''val'')) of
                       Inl f \<Rightarrow> Inl f | Inr v \<Rightarrow> Inr (upd v s)))"
  by (induction flds key row s rule: load_fields.induct)
     (auto simp: load_fields_other split: sum.splits)

lemma setting_fields_distinct: "distinct (map fst setting_fields)"
  by (simp add: setting_fields_def)

text \<open>A row of the settings table: its key and its value, which fits its array.\<close>

definition setting_row :: "(string \<times> string option) list \<Rightarrow> string \<times> string \<Rightarrow> bool" where
  "setting_row cols kv \<longleftrightarrow> row_ok cols \<and> row_value cols ''stgcd'' = Some (fst kv)
     \<and> row_value cols ''val'' = Some (snd kv) \<and> cstr (fst kv) = fst kv \<and> cstr (snd kv) = snd kv
     \<and> length (snd kv) < 1024"

lemma setting_rows_pairs:
  "list_all2 setting_row rows kvs \<Longrightarrow> \<forall>kv \<in> set kvs. length (snd kv) < 1024 \<and> cstr (snd kv) = snd kv"
  "list_all2 setting_row rows kvs \<Longrightarrow> \<forall>cols \<in> set rows. row_ok cols"
  by (induction rule: list_all2_induct) (auto simp: setting_row_def)

lemma load_row_assign:
  assumes "holds_row cols row" and "setting_row cols kv"
  shows "load_row (Some row) s = Inr (assign_setting kv s)"
proof -
  have keys: "gm_key_ok ''stgcd''" "gm_key_ok ''val''" by (simp_all add: gm_key_ok_def)
  have "snd (gfc_map_get row ''stgcd'') = Some (fst kv)" "snd (gfc_map_get row ''val'') = Some (snd kv)"
    using assms keys by (simp_all add: holds_row_def setting_row_def)
  then show ?thesis
    using assms(2) by (auto simp: load_row_def load_fields_one [OF setting_fields_distinct]
        assign_setting_def copy_text_def setting_row_def split: option.split)
qed

lemma load_rows_assign:
  assumes "result_of rows l" and "list_all2 setting_row rows kvs"
  shows "i \<le> length rows \<Longrightarrow> load_rows l i s = Inr (fold assign_setting (drop i kvs) s)"
proof (induction "length rows - i" arbitrary: i s)
  case 0
  then show ?case
    using assms by (subst load_rows.simps) (simp add: result_of_def list_all2_lengthD)
next
  case (Suc n)
  then have i: "i < length rows" by simp
  then obtain row where row: "gfc_list_get l i = Some row" "holds_row (rows ! i) row"
    using assms(1) by (auto simp: result_of_def)
  have "setting_row (rows ! i) (kvs ! i)" "length kvs = length rows"
    using assms(2) i by (auto simp: list_all2_nthD list_all2_lengthD)
  moreover have "load_rows l (Suc i) s' = Inr (fold assign_setting (drop (Suc i) kvs) s')" for s'
    using Suc.hyps(1) [of "Suc i"] Suc.hyps(2) i by simp
  moreover have "i < gfc_list_size l" using assms(1) i by (simp add: result_of_def)
  ultimately show ?case
    using load_row_assign [OF row(2)] row(1) i
    by (subst load_rows.simps) (simp add: Cons_nth_drop_Suc [symmetric])
qed

lemma gw_app_start_ok:
  assumes opn: "gw_sqlite_open (ae_sqlite env) dir (ap_db a) = Inr (rc, Handle db)"
    and exec: "sqlite3_exec (ae_sqlite env) db
      ''select stgcd, stgnm, stgtyp, val, opt, nt, sta, lmt from   tn_gw_stg where  1 = 1 '' = (rc', rows, db')"
    and rows: "list_all2 setting_row rows kvs"
    and parse: "ae_tokener_parse env ''{}'' = JObject []" and expl: "length (ex_stack (ae_expl env)) = 256"
    and mem: "ae_stream env = Some \<lparr>f_data = [], f_room = None\<rparr>" "zeroed (ae_fresh env)"
      "ae_fresh env INITIAL_SIZE \<noteq> None" "10 \<le> length (ae_junk env)"
    and res: "length (cstr res) < 1020"
  shows "\<exists>fuel a'. gw_app_start env fuel dir res a = Some (Inr a') \<and> ap_db a' = Handle db'
    \<and> (\<forall>(k, get) \<in> set setting_getters. get (ap_settings a') =
         (case map_of (rev kvs) k of Some v \<Rightarrow> v | None \<Rightarrow> get (ap_settings a)))
    \<and> gs_server_web_root (ap_settings a') = cstr res @ ''/www''
    \<and> ap_threads a' = ap_threads a @ [(Trap, Created), (Daemon, Created), (Os, Created), (Http, Created)]
    \<and> ap_snmp_daemon_running a' = (if ap_snmp_daemon_running a = 0 then 2 else ap_snmp_daemon_running a)"
proof -
  let ?sql = "''select stgcd, stgnm, stgtyp, val, opt, nt, sta, lmt from   tn_gw_stg where  1 = 1 ''"
  let ?s = "(ap_settings a)\<lparr>gs_server_web_root := cstr res @ ''/www''\<rparr>"
  obtain fuel where fuel: "0 < fuel" and sql: "gw_sql_get (ae_tokener_parse env) (ae_json env) (ae_expl env) fuel (ae_stream env)
      (ae_files env) GW_SQL_SETTING_FIND ''{}'' = Some (0, Some (?sql @ []))"
    using gw_sql_find_ok [of "ae_tokener_parse env" "''{}''" "[]" "ae_expl env" "[]" "ae_json env" "ae_files env"]
      parse expl unfolding mem(1) by auto
  have ok: "\<forall>cols \<in> set rows. row_ok cols"
    using rows by (auto simp: setting_row_def list_all2_conv_all_nth in_set_conv_nth)
  obtain l where query: "gw_sqlite_query (ae_sqlite env) fuel (ae_fresh env) (ae_junk env) ?sql (Handle db)
      = Inr (0, l, Handle db')" and l: "result_of rows l"
    using gw_sqlite_query_ok [OF exec ok mem(2-4) fuel] by auto
  have load: "load_rows l 0 ?s = Inr (fold assign_setting kvs ?s)"
    using load_rows_assign [OF l rows, of 0 ?s] by simp
  have getters: "get (fold assign_setting kvs ?s) = (case map_of (rev kvs) k of Some v \<Rightarrow> v | None \<Rightarrow> get (ap_settings a))"
    if "(k, get) \<in> set setting_getters" for k get
    using assign_settings_get [OF that, of kvs ?s] getters_web_root [OF that] by (simp cong: option.case_cong)
  have root: "gs_server_web_root (fold assign_setting kvs s) = gs_server_web_root s" for s
    by (induction kvs arbitrary: s) simp_all
  have "gw_app_start env fuel dir res a = Some (Inr (a\<lparr>ap_settings := fold assign_setting kvs ?s,
      ap_db := Handle db', ap_snmp_daemon_running :=
        (if ap_snmp_daemon_running a = 0 then 2 else ap_snmp_daemon_running a),
      ap_threads := ap_threads a @ [(Trap, Created), (Daemon, Created), (Os, Created), (Http, Created)]\<rparr>))"
    using opn sql query load res by (simp add: gw_app_start_def Let_def)
  then show ?thesis using getters root by (intro exI [of _ fuel] exI) auto
qed

section \<open>Properties\<close>


text \<open>An agent whose database has one setting.\<close>

definition name_lib :: "unit sqlite_lib" where
  "name_lib = \<lparr>sqlite3_open = (\<lambda>path. (0, Handle ())),
     sqlite3_exec = (\<lambda>db sql.
       (0, if take 6 sql = ''select'' then [[(''stgcd'', Some ''AGENT.NAME''), (''val'', Some ''pc'')]] else [],
        ()))\<rparr>"

definition sample_agent_env :: "(unit, unit) agent_env" where
  "sample_agent_env = \<lparr>ae_sqlite = name_lib, ae_tokener_parse = (\<lambda>_. JObject []), ae_json = sample_env,
     ae_expl = sample_cursor [], ae_stream = Some \<lparr>f_data = [], f_room = None\<rparr>, ae_files = (\<lambda>_. None),
     ae_fresh = sample_fresh, ae_junk = replicate 10 None\<rparr>"

definition sample_settings :: gw_app_settings where
  "sample_settings = \<lparr>gs_acknowledgement_id = [], gs_server_address = ''h'', gs_server_snmp_port = [],
     gs_server_web_port = [], gs_server_web_root = [], gs_agent_name = [], gs_agent_snmp_port = [],
     gs_agent_web_port = [], gs_cpu_rrd_file = [], gs_mem_rrd_file = [], gs_vol_rrd_file = []\<rparr>"

definition sample_app :: "unit app" where
  "sample_app = \<lparr>ap_settings = sample_settings, ap_db = Null_Handle, ap_snmp_daemon_running = 0,
     ap_snmp_trap_running = 1, ap_http_web_running = 1, ap_os_collect_running = 1, ap_threads = []\<rparr>"

lemma execute_all_unit:
  "execute_all lib sqls (Handle ()) = Inr (Handle ())" for lib :: "unit sqlite_lib"
  by (induction sqls) (auto simp: gw_sqlite_execute_def split: prod.split)

lemma sample_start:
  "gw_sqlite_open (ae_sqlite sample_agent_env) ''/w'' (ap_db sample_app) = Inr (0, Handle ())"
  "sqlite3_exec (ae_sqlite sample_agent_env) ()
      ''select stgcd, stgnm, stgtyp, val, opt, nt, sta, lmt from   tn_gw_stg where  1 = 1 ''
    = (0, [[(''stgcd'', Some ''AGENT.NAME''), (''val'', Some ''pc'')]], ())"
  "list_all2 setting_row [[(''stgcd'', Some ''AGENT.NAME''), (''val'', Some ''pc'')]] [(KEY_AGENT_NAME, ''pc'')]"
  "ae_tokener_parse sample_agent_env ''{}'' = JObject []" "length (ex_stack (ae_expl sample_agent_env)) = 256"
  "ae_stream sample_agent_env = Some \<lparr>f_data = [], f_room = None\<rparr>" "zeroed (ae_fresh sample_agent_env)"
  "ae_fresh sample_agent_env INITIAL_SIZE \<noteq> None" "10 \<le> length (ae_junk sample_agent_env)"
  "length (cstr ''/r'') < 1020"
  using sample_fresh_ok
  by (simp_all add: gw_sqlite_open_def sample_agent_env_def sample_app_def name_lib_def execute_all_unit
      cstr_def Let_def setting_row_def row_ok_def gm_key_ok_def row_value_def sample_cursor_def)


end
