(* ===== verification/Gw_Snmpd.thy ===== *)
theory Gw_Snmpd
  imports Gw_App
begin

text \<open>
  The agent's SNMP side, \<open>src/src/gw_snmpd.c\<close>: its object identifiers and MIB variables, the
  heartbeat trap, and what the daemon sets up in net-snmp before it serves. net-snmp itself is a
  parameter.
\<close>

section \<open>Object identifiers\<close>

type_synonym snmp_oid = "nat list"

definition oid_sys_uptime :: snmp_oid where
  "oid_sys_uptime = [1, 3, 6, 1, 2, 1, 1, 3, 0]"

definition oid_gw :: snmp_oid where
  "oid_gw = [1, 3, 6, 1, 4, 1, 80717, 1]"

definition oid_gw_heartbeat :: snmp_oid where
  "oid_gw_heartbeat = [1, 3, 6, 1, 4, 1, 80717, 1, 3, 1]"

definition oid_gw_trap_address :: snmp_oid where
  "oid_gw_trap_address = [1, 3, 6, 1, 4, 1, 80717, 1, 1, 1, 0]"

definition oid_gw_agent_name :: snmp_oid where
  "oid_gw_agent_name = [1, 3, 6, 1, 4, 1, 80717, 1, 1, 2, 0]"

abbreviation (input) ASN_OCTET_STR :: nat where "ASN_OCTET_STR \<equiv> 4"
abbreviation (input) ASN_OBJECT_ID :: nat where "ASN_OBJECT_ID \<equiv> 6"

section \<open>The MIB\<close>

text \<open>\<open>struct variable7\<close>, without the handler, which is \<open>gw_snmpd_access\<close> for all.\<close>

record mib_variable =
  mv_magic :: nat
  mv_type :: nat
  mv_writable :: bool
  mv_name :: snmp_oid

definition var_gw :: "mib_variable list" where
  "var_gw =
     [\<lparr>mv_magic = 1, mv_type = ASN_OBJECT_ID, mv_writable = True, mv_name = [1]\<rparr>,
      \<lparr>mv_magic = 11, mv_type = ASN_OCTET_STR, mv_writable = True, mv_name = [1, 1]\<rparr>,
      \<lparr>mv_magic = 12, mv_type = ASN_OCTET_STR, mv_writable = True, mv_name = [1, 2]\<rparr>,
      \<lparr>mv_magic = 13, mv_type = ASN_OCTET_STR, mv_writable = True, mv_name = [1, 3]\<rparr>,
      \<lparr>mv_magic = 2, mv_type = ASN_OBJECT_ID, mv_writable = False, mv_name = [2]\<rparr>,
      \<lparr>mv_magic = 3, mv_type = ASN_OBJECT_ID, mv_writable = False, mv_name = [3]\<rparr>,
      \<lparr>mv_magic = 31, mv_type = ASN_OBJECT_ID, mv_writable = False, mv_name = [3, 1]\<rparr>]"

text \<open>\<open>gw_snmpd_register\<close>: the arguments of \<open>register_mib\<close>, whose failure is only logged.\<close>

definition gw_snmpd_register :: "string \<times> mib_variable list \<times> snmp_oid" where
  "gw_snmpd_register = (''guardwatch-agent'', var_gw, oid_gw)"

section \<open>The heartbeat\<close>

record varbind =
  vb_name :: snmp_oid
  vb_type :: nat
  vb_val :: string

text \<open>
  \<open>snmp_add_var\<close>, a parameter: the variables of the PDU with one more, or as they were. An
  \<open>oid\<close> is eight bytes, little end first.
\<close>

type_synonym add_var = "varbind list \<Rightarrow> snmp_oid \<Rightarrow> nat \<Rightarrow> string \<Rightarrow> varbind list"

definition oid_bytes :: "snmp_oid \<Rightarrow> string" where
  "oid_bytes = concat \<circ> map (\<lambda>n. map (\<lambda>i. char_of (n div 256 ^ i)) [0 ..< 8])"

definition heartbeat_peer :: "gw_app_settings \<Rightarrow> string" where
  "heartbeat_peer s = gs_server_address s @ '':'' @ gs_server_snmp_port s"

definition heartbeat_message :: "gw_app_settings \<Rightarrow> string" where
  "heartbeat_message s = gs_acknowledgement_id s @ ''/'' @ gs_agent_web_port s"

text \<open>
  \<open>gw_snmpd_heartbeat\<close>: the peer and the variables of the trap it sends, \<open>None\<close> when the
  session does not open (\<open>ok\<close>). The first variable loses those behind it and becomes the
  message, under the name of the agent.
\<close>

definition gw_snmpd_heartbeat :: "add_var \<Rightarrow> int \<Rightarrow> bool \<Rightarrow> gw_app_settings
    \<Rightarrow> gw_fault + (string \<times> varbind list) option" where
  "gw_snmpd_heartbeat snmp_add_var uptime ok s =
     (let peername = heartbeat_peer s; csysuptime = dec_str uptime; sending_message = heartbeat_message s
      in if length peername \<ge> 2048 then Inl Overflow
         else if \<not> ok then Inr None
         else if length csysuptime \<ge> 20 then Inl Overflow
         else
           (case snmp_add_var (snmp_add_var [] oid_sys_uptime 116 csysuptime)
                   oid_gw_heartbeat ASN_OBJECT_ID (oid_bytes oid_gw_heartbeat) of
              [] \<Rightarrow> Inl Null_Pointer
            | _ # _ \<Rightarrow>
                if length sending_message \<ge> 2048 then Inl Overflow
                else Inr (Some (peername,
                       [\<lparr>vb_name = oid_gw_agent_name, vb_type = ASN_OCTET_STR, vb_val = sending_message\<rparr>]))))"

text \<open>The settings fit their arrays; then so do the peer and the message.\<close>

definition settings_fit :: "gw_app_settings \<Rightarrow> bool" where
  "settings_fit s \<longleftrightarrow> length (gs_acknowledgement_id s) < 1024 \<and> length (gs_server_address s) < 1024
     \<and> length (gs_server_snmp_port s) < 1024 \<and> length (gs_agent_web_port s) < 1024"

lemma gw_snmpd_heartbeat_sends:
  assumes "settings_fit s" and "\<And>vs n t v. snmp_add_var vs n t v = vs \<or> (\<exists>b. snmp_add_var vs n t v = vs @ [b])"
    and "snmp_add_var [] oid_sys_uptime 116 (dec_str uptime) \<noteq> []" and "length (dec_str uptime) < 20"
  shows "gw_snmpd_heartbeat snmp_add_var uptime True s = Inr (Some (heartbeat_peer s,
     [\<lparr>vb_name = oid_gw_agent_name, vb_type = ASN_OCTET_STR, vb_val = heartbeat_message s\<rparr>]))"
proof -
  let ?vs = "snmp_add_var [] oid_sys_uptime 116 (dec_str uptime)"
  have "snmp_add_var ?vs oid_gw_heartbeat ASN_OBJECT_ID (oid_bytes oid_gw_heartbeat) \<noteq> []"
    using assms(2) [of ?vs oid_gw_heartbeat ASN_OBJECT_ID "oid_bytes oid_gw_heartbeat"] assms(3) by auto
  moreover have "length (heartbeat_peer s) < 2048" "length (heartbeat_message s) < 2048"
    using assms(1) by (simp_all add: settings_fit_def heartbeat_peer_def heartbeat_message_def)
  ultimately show ?thesis
    using assms(4) by (simp add: gw_snmpd_heartbeat_def Let_def split: list.split)
qed

section \<open>What the daemon sets up\<close>

datatype ds_value = DS_Boolean bool | DS_Int int | DS_String string

text \<open>The settings of net-snmp: the store, the name, the value.\<close>

definition snmpd_settings :: "(string \<times> string \<times> ds_value) list" where
  "snmpd_settings =
     [(''APPLICATION'', ''AGENT_NO_ROOT_ACCESS'', DS_Boolean True),
      (''APPLICATION'', ''AGENT_AGENTX_MASTER'', DS_Boolean True),
      (''LIBRARY'', ''DONT_LOAD_HOST_FILES'', DS_Boolean True),
      (''APPLICATION'', ''AGENT_AGENTX_TIMEOUT'', DS_Int (- 1)),
      (''APPLICATION'', ''AGENT_AGENTX_RETRIES'', DS_Int (- 1)),
      (''APPLICATION'', ''AGENT_CACHE_TIMEOUT'', DS_Int 5),
      (''APPLICATION'', ''AGENT_PORTS'', DS_String ''udp:0.0.0.0:6161''),
      (''LIBRARY'', ''APPTYPE'', DS_String ''guardwatch-agent'')]"

definition snmpd_logpath :: "string \<Rightarrow> gw_fault + string" where
  "snmpd_logpath work_directory =
     (let logpath = cstr work_directory @ ''/log/snmp.log''
      in if length logpath \<ge> 2048 then Inl Overflow else Inr logpath)"

end
