(* ===== verification/Gw_Os.thy ===== *)
theory Gw_Os
  imports Gw_Sqlite Gfc_String Json_C
begin

text \<open>
  Operating system metrics on Linux, \<open>src/src/linux/gw_os.c\<close>: the monitors that read
  \<open>/proc/stat\<close> and \<open>/proc/meminfo\<close> and update the round-robin databases, and the
  functions that read those databases back as JSON. It is a client of the interface
  \<open>sequence\<close>, through \<open>gfc_string_split\<close>.
\<close>

section \<open>Doubles and round-robin databases\<close>

text \<open>
  The double arithmetic the monitors do, in the order they do it, and the \<open>printf\<close> format
  of its result.
\<close>

record 'd doubles =
  db_of_int :: "int \<Rightarrow> 'd"
  db_minus :: "'d \<Rightarrow> 'd \<Rightarrow> 'd"
  db_times :: "'d \<Rightarrow> 'd \<Rightarrow> 'd"
  db_divide :: "'d \<Rightarrow> 'd \<Rightarrow> 'd"
  db_isnan :: "'d \<Rightarrow> bool"
  db_print_2f :: "'d \<Rightarrow> string"

text \<open>
  What \<open>rrd_fetch\<close> answers when it succeeds: the times of the first and last row, the step,
  the names of the data sources, and the values.
\<close>

record 'd rrd_rows =
  rr_start :: "64 word"
  rr_end :: "64 word"
  rr_step :: "64 word"
  rr_ds_names :: "string list"
  rr_values :: "'d list"

section \<open>Reading files\<close>

text \<open>
  The files are read with a buffer of 4096 bytes; \<open>strstr\<close> gives the text from the first
  occurrence on.
\<close>

abbreviation fgets_line :: "string \<Rightarrow> string" where "fgets_line \<equiv> fgets 4096"

abbreviation fgets_lines :: "string \<Rightarrow> string list" where "fgets_lines \<equiv> fgets_all 4096"

fun strstr :: "string \<Rightarrow> string \<Rightarrow> string option" where
  "strstr [] needle = (if needle = [] then Some [] else None)"
| "strstr (c # s) needle =
     (if take (length needle) (c # s) = needle then Some (c # s) else strstr s needle)"

section \<open>Integers of C\<close>

text \<open>A result that must fit a \<open>long\<close>, and \<open>atoi\<close>, which keeps the low 32 bits.\<close>

definition fits_long :: "int \<Rightarrow> bool" where
  "fits_long i \<longleftrightarrow> - (2 ^ 63) \<le> i \<and> i < 2 ^ 63"

definition fits_int :: "int \<Rightarrow> bool" where
  "fits_int i \<longleftrightarrow> - (2 ^ 31) \<le> i \<and> i < 2 ^ 31"

lemma sint_32_small: "fits_int i \<Longrightarrow> sint (word_of_int i :: 32 word) = i"
  unfolding fits_int_def by (intro sint_32_id) simp_all

definition atoi :: "string \<Rightarrow> int" where
  "atoi s = sint (word_of_int (atoll s) :: 32 word)"

section \<open>The monitors\<close>

text \<open>The \<open>long\<close>s at some indices of a list of strings; \<open>atol\<close> of NULL is a fault.\<close>

fun atol_fields :: "string gfc_list \<Rightarrow> nat list \<Rightarrow> gw_fault + int list" where
  "atol_fields strs [] = Inr []"
| "atol_fields strs (i # is) =
     (case gfc_list_get strs i of
        None \<Rightarrow> Inl Null_Pointer
      | Some s \<Rightarrow> (case atol_fields strs is of Inl f \<Rightarrow> Inl f | Inr ns \<Rightarrow> Inr (atoll s # ns)))"

text \<open>The sums of \<open>long\<close>s from left to right.\<close>

fun sum_long :: "int \<Rightarrow> int list \<Rightarrow> gw_fault + int" where
  "sum_long acc [] = Inr acc"
| "sum_long acc (n # ns) = (if fits_long (acc + n) then sum_long (acc + n) ns else Inl Arithmetic)"

definition cpu_value :: "'d doubles \<Rightarrow> string option list \<Rightarrow> string \<Rightarrow> gw_fault + string" where
  "cpu_value D junk line =
     (case gfc_string_split junk line '' '' of
        None \<Rightarrow> Inl List_Fault
      | Some strs \<Rightarrow>
          (case atol_fields strs [1 ..< 8] of
             Inl f \<Rightarrow> Inl f
           | Inr ns \<Rightarrow>
               (case sum_long (hd ns) (tl ns) of
                  Inl f \<Rightarrow> Inl f
                | Inr tot \<Rightarrow>
                    let idle = ns ! 3
                    in if \<not> fits_long (idle * 100) then Inl Arithmetic
                       else Inr (''N:'' @ db_print_2f D (db_minus D (db_of_int D 100)
                              (db_divide D (db_of_int D (idle * 100)) (db_of_int D tot)))))))"

text \<open>
  \<open>gw_os_cpu_monitor\<close>, from the contents of \<open>/proc/stat\<close> (\<open>None\<close> when it cannot be
  opened) to the arguments of \<open>rrd_update\<close>.
\<close>

definition gw_os_cpu_monitor :: "'d doubles \<Rightarrow> string option list \<Rightarrow> string option \<Rightarrow> string
    \<Rightarrow> gw_fault + string list" where
  "gw_os_cpu_monitor D junk stat cpu_rrd_file =
     (case stat of
        None \<Rightarrow> Inl Null_Pointer
      | Some text0 \<Rightarrow>
          (case (if text0 = [] then Inr [] else cpu_value D junk (fgets_line text0)) of
             Inl f \<Rightarrow> Inl f
           | Inr v \<Rightarrow> Inr [''update'', cpu_rrd_file, v]))"

text \<open>The loop over \<open>/proc/meminfo\<close>: the last line with each name, until both are there.\<close>

fun meminfo_scan :: "string list \<Rightarrow> string \<Rightarrow> string \<Rightarrow> string \<times> string" where
  "meminfo_scan [] line_total line_free = (line_total, line_free)"
| "meminfo_scan (line # lines) line_total line_free =
     (if line_total \<noteq> [] \<and> line_free \<noteq> [] then (line_total, line_free)
      else meminfo_scan lines
             (if strstr (cstr line) ''MemTotal'' \<noteq> None then cstr line else line_total)
             (if strstr (cstr line) ''MemFree'' \<noteq> None then cstr line else line_free))"

definition meminfo_number :: "string \<Rightarrow> gw_fault + int" where
  "meminfo_number line = (case strstr line '':'' of None \<Rightarrow> Inl Null_Pointer | Some s \<Rightarrow> Inr (atoi (tl s)))"

definition gw_os_memory_monitor :: "'d doubles \<Rightarrow> string option \<Rightarrow> string \<Rightarrow> gw_fault + string list" where
  "gw_os_memory_monitor D meminfo mem_rrd_file =
     (case meminfo of
        None \<Rightarrow> Inl Null_Pointer
      | Some text0 \<Rightarrow>
          (let r = meminfo_scan (fgets_lines text0) [] []
           in case meminfo_number (fst r) of
                Inl f \<Rightarrow> Inl f
              | Inr total_mem \<Rightarrow>
                  (case meminfo_number (snd r) of
                     Inl f \<Rightarrow> Inl f
                   | Inr free_mem \<Rightarrow>
                       if \<not> fits_int (total_mem - free_mem) then Inl Arithmetic
                       else Inr [''update'', mem_rrd_file,
                              ''N:'' @ db_print_2f D (db_divide D
                                 (db_times D (db_of_int D (total_mem - free_mem)) (db_of_int D 100))
                                 (db_of_int D total_mem))])))"

section \<open>Reading the metrics\<close>

definition rrd_fetch_argv :: "string \<Rightarrow> string list" where
  "rrd_fetch_argv file = [''fetch'', file, ''AVERAGE'', ''--resolution'', ''5s'', ''--start'',
     ''now-60'', ''--end'', ''now'']"

text \<open>
  \<open>(end - start) / step - 1\<close>: \<open>time_t\<close> by \<open>unsigned long\<close>, computed as 64-bit
  words and stored in an \<open>int\<close>; and the time of row \<open>i\<close>, taken as an \<open>int32_t\<close>.
\<close>

definition rrd_count :: "'d rrd_rows \<Rightarrow> int" where
  "rrd_count r = sint (ucast ((rr_end r - rr_start r) div rr_step r - 1) :: 32 word)"

definition rrd_time :: "'d rrd_rows \<Rightarrow> int \<Rightarrow> int" where
  "rrd_time r i = sint (ucast (rr_start r + word_of_int i * rr_step r) :: 32 word)"

definition rrd_value :: "'d doubles \<Rightarrow> 'd \<Rightarrow> 'd json" where
  "rrd_value D v = JDouble (if \<not> db_isnan D v then v else db_of_int D (-1))"

text \<open>
  \<open>gw_os_cpu\<close> and \<open>gw_os_memory\<close>, which differ in the file alone; the result is the
  text \<open>*result\<close> is set to, \<open>None\<close> when \<open>rrd_fetch\<close> fails and it stays NULL.
\<close>

definition rrd_json :: "'d doubles \<Rightarrow> 'd rrd_rows \<Rightarrow> gw_fault + 'd json" where
  "rrd_json D r =
     (if rr_step r = 0 then Inl Arithmetic
      else let count = nat (rrd_count r)
           in if rr_ds_names r = [] \<or> length (rr_values r) < count then Inl Overflow
              else Inr (JObject
                [(''name'', JString (cstr (hd (rr_ds_names r)))),
                 (''times'', JArray (map (\<lambda>i. JInt (rrd_time r (int i))) [0 ..< count])),
                 (''values'', JArray (map (\<lambda>i. rrd_value D (rr_values r ! i)) [0 ..< count]))]))"

definition gw_os_cpu :: "'d doubles \<Rightarrow> 'd json_env \<Rightarrow> (string list \<Rightarrow> 'd rrd_rows option) \<Rightarrow> string
    \<Rightarrow> gw_fault + string option" where
  "gw_os_cpu D je rrd_fetch cpu_rrd_file =
     (case rrd_fetch (rrd_fetch_argv cpu_rrd_file) of
        None \<Rightarrow> Inr None
      | Some r \<Rightarrow>
          (case rrd_json D r of
             Inl f \<Rightarrow> Inl f | Inr j \<Rightarrow> Inr (Some (cstr (json_to_string je True j)))))"

definition gw_os_memory :: "'d doubles \<Rightarrow> 'd json_env \<Rightarrow> (string list \<Rightarrow> 'd rrd_rows option) \<Rightarrow> string
    \<Rightarrow> gw_fault + string option" where
  "gw_os_memory D je rrd_fetch mem_rrd_file =
     (case rrd_fetch (rrd_fetch_argv mem_rrd_file) of
        None \<Rightarrow> Inr None
      | Some r \<Rightarrow>
          (case rrd_json D r of
             Inl f \<Rightarrow> Inl f | Inr j \<Rightarrow> Inr (Some (cstr (json_to_string je True j)))))"

text \<open>On Linux neither volumes nor processes are read: \<open>*result\<close> stays NULL.\<close>

definition gw_os_volumes :: "gw_fault + string option" where
  "gw_os_volumes = Inr None"

definition gw_os_processes :: "gw_fault + string option" where
  "gw_os_processes = Inr None"


section \<open>Lines of the two files\<close>

text \<open>The first line of \<open>/proc/stat\<close>, without its line break.\<close>

definition stat_line :: "nat list \<Rightarrow> string" where
  "stat_line ns = ''cpu '' @ concat (map (\<lambda>n. '' '' @ dec_digits n) ns)"

lemma tokens_spaces: "c \<in> set sep \<Longrightarrow> tokens sep (c # s) = tokens sep s"
  using tokens_skip [of sep "c # s"] tokens_skip [of sep s] by simp

lemma tokens_word:
  assumes "w \<noteq> []" and "set w \<inter> set sep = {}" and "s = [] \<or> hd s \<in> set sep"
  shows "tokens sep (w @ s) = w # tokens sep s"
proof -
  have w: "\<forall>c \<in> set w. c \<notin> set sep" using assms(2) by auto
  have s: "takeWhile (\<lambda>c. c \<notin> set sep) s = []" "dropWhile (\<lambda>c. c \<notin> set sep) s = s"
    using assms(3) by (cases s; simp)+
  have "dropWhile (\<lambda>c. c \<in> set sep) (w @ s) = w @ s" using assms(1) w by (cases w) simp_all
  moreover have "takeWhile (\<lambda>c. c \<notin> set sep) (w @ s) = w" "dropWhile (\<lambda>c. c \<notin> set sep) (w @ s) = s"
    using w s by (simp_all add: takeWhile_append2 dropWhile_append2)
  ultimately show ?thesis using assms(1) by (simp add: tokens.simps [of sep "w @ s"] Let_def)
qed

lemma tokens_words:
  "\<forall>w \<in> set ws. w \<noteq> [] \<and> CHR 0x20 \<notin> set w \<Longrightarrow>
     tokens '' '' (concat (map (\<lambda>w. CHR 0x20 # w) ws)) = ws"
proof (induction ws)
  case Nil
  then show ?case by (simp add: tokens.simps)
next
  case (Cons w ws)
  let ?s = "concat (map (\<lambda>w. CHR 0x20 # w) ws)"
  have "?s = [] \<or> hd ?s \<in> set '' ''" by (cases ws) simp_all
  then have "tokens '' '' (w @ ?s) = w # tokens '' '' ?s" using Cons.prems by (intro tokens_word) simp_all
  then show ?case using Cons by (simp add: tokens_spaces)
qed

text \<open>The fields of that line: the digits of each number, the last with the line break.\<close>

definition stat_fields :: "nat list \<Rightarrow> string list" where
  "stat_fields ns = map dec_digits (butlast ns) @ [dec_digits (last ns) @ [newline]]"

lemma stat_line_chars: "newline \<notin> set (stat_line ns)" "nul \<notin> set (stat_line ns)"
  by (auto simp: stat_line_def)

lemma stat_line_tokens:
  assumes "ns \<noteq> []"
  shows "tokens '' '' (stat_line ns @ [newline]) = ''cpu'' # stat_fields ns"
proof -
  have line: "stat_line ns @ [newline]
      = ''cpu'' @ '' '' @ concat (map (\<lambda>w. CHR 0x20 # w) (stat_fields ns))"
    using assms by (induction ns) (auto simp: stat_line_def stat_fields_def)
  have "\<forall>w \<in> set (stat_fields ns). w \<noteq> [] \<and> CHR 0x20 \<notin> set w"
    by (auto simp: stat_fields_def dec_digits_nonempty)
  then show ?thesis
    unfolding line using tokens_words [of "stat_fields ns"]
    by (subst tokens_word) (simp_all add: tokens_spaces)
qed

lemma stat_fields_atoll:
  assumes "i < length ns" and "\<forall>n \<in> set ns. int n < 2 ^ 63"
  shows "atoll (stat_fields ns ! i) = int (ns ! i)"
proof (cases "i < length ns - 1")
  case True
  then show ?thesis
    using atoll_dec [of "[]" "[]" "ns ! i"] assms by (simp add: stat_fields_def nth_append nth_butlast)
next
  case False
  then have "i = length ns - 1" "ns \<noteq> []" using assms(1) by auto
  then show ?thesis
    using atoll_dec [of "[]" "[newline]" "last ns"] assms
    by (simp add: stat_fields_def nth_append last_conv_nth isdigit_def)
qed

lemma sum_long_nat:
  "0 \<le> acc \<Longrightarrow> acc + int (sum_list ns) < 2 ^ 63 \<Longrightarrow> sum_long acc (map int ns) = Inr (acc + int (sum_list ns))"
  by (induction ns arbitrary: acc) (auto simp: fits_long_def)

lemma cpu_value_line:
  assumes "10 \<le> length junk" and "7 \<le> length ns" and "int (sum_list ns) < 2 ^ 63"
    and "int (ns ! 3) * 100 < 2 ^ 63"
  shows "cpu_value D junk (stat_line ns @ [newline]) = Inr (''N:'' @ db_print_2f D
     (db_minus D (db_of_int D 100) (db_divide D (db_of_int D (int (ns ! 3) * 100))
        (db_of_int D (int (sum_list (take 7 ns)))))))"
proof -
  have ns: "ns \<noteq> []" using assms(2) by auto
  have cstr: "cstr (stat_line ns @ [newline]) = stat_line ns @ [newline]" "cstr '' '' = '' ''"
    using stat_line_chars by (simp_all add: cstr_id)
  from gfc_string_split_list [OF assms(1), of "stat_line ns @ [newline]" "'' ''"] obtain l where
    split: "gfc_string_split junk (stat_line ns @ [newline]) '' '' = Some l"
    and l: "\<And>i. gfc_list_get l i = (if i < Suc (length (stat_fields ns)) then Some ((''cpu'' # stat_fields ns) ! i) else None)"
    unfolding cstr stat_line_tokens [OF ns] by auto
  have small: "int n < 2 ^ 63" if "n \<in> set ns" for n
    using member_le_sum_list [OF that] assms(3) by linarith
  have len: "length (stat_fields ns) = length ns" using ns by (cases ns) (simp_all add: stat_fields_def)
  have field: "gfc_list_get l (Suc i) = Some (stat_fields ns ! i) \<and> atoll (stat_fields ns ! i) = int (ns ! i)"
    if "i < 7" for i
    using that assms(2) l len small by (simp add: stat_fields_atoll)
  have atol: "atol_fields strs is = Inr (map (\<lambda>i. int (ns ! i)) js)" if "strs = l" "is = map Suc js" "\<forall>j \<in> set js. j < 7" for strs "is" js
    using that field by (induction js arbitrary: "is") auto
  have "map (\<lambda>i. int (ns ! i)) [0 ..< 7] = map int (take 7 ns)"
    using assms(2) by (intro nth_equalityI) simp_all
  then have fields7: "atol_fields l [1 ..< 8] = Inr (map int (take 7 ns))"
    using atol [of l "[1 ..< 8]" "[0 ..< 7]"] by (simp add: map_Suc_upt)
  have tot: "sum_list (take 7 ns) \<le> sum_list ns"
    by (metis append_take_drop_id le_add1 sum_list_append)
  have "take 7 ns = hd ns # tl (take 7 ns)" using assms(2) by (cases ns) simp_all
  then have "hd (map int (take 7 ns)) = int (hd ns)" "tl (map int (take 7 ns)) = map int (tl (take 7 ns))"
    "sum_list (take 7 ns) = hd ns + sum_list (tl (take 7 ns))"
    by (metis list.map_sel(1) list.sel(1) list.distinct(1), metis map_tl, metis sum_list.Cons)
  then have sum: "sum_long (hd (map int (take 7 ns))) (tl (map int (take 7 ns))) = Inr (int (sum_list (take 7 ns)))"
    using sum_long_nat [of "int (hd ns)" "tl (take 7 ns)"] tot assms(3) by simp
  have idle: "(map int (take 7 ns)) ! 3 = int (ns ! 3)" using assms(2) by simp
  have "fits_long (int (ns ! 3) * 100)" using assms(4) by (simp add: fits_long_def)
  then show ?thesis
    unfolding cpu_value_def split option.case fields7 sum.case sum Let_def idle by simp
qed

section \<open>Lines of \<open>/proc/meminfo\<close>\<close>

lemma strstr_absent: "x \<notin> set s \<Longrightarrow> strstr s (x # xs) = None"
  by (induction s) auto

lemma strstr_char: "c \<notin> set p \<Longrightarrow> strstr (p @ c # s) [c] = Some (c # s)"
  by (induction p) auto

lemma meminfo_scan_done: "t \<noteq> [] \<Longrightarrow> f \<noteq> [] \<Longrightarrow> meminfo_scan ls t f = (t, f)"
  by (cases ls) simp_all

text \<open>A line of the file: a name, a colon, spaces, a number and its unit.\<close>

definition meminfo_line :: "string \<Rightarrow> nat \<Rightarrow> nat \<Rightarrow> string" where
  "meminfo_line name pad n = name @ CHR '':'' # replicate pad (CHR 0x20) @ dec_digits n @ '' kB''"

lemma meminfo_line_chars:
  "newline \<notin> set name \<Longrightarrow> newline \<notin> set (meminfo_line name pad n)"
  "nul \<notin> set name \<Longrightarrow> cstr (meminfo_line name pad n @ [newline]) = meminfo_line name pad n @ [newline]"
  by (auto simp: meminfo_line_def intro!: cstr_id)

lemma meminfo_number_line:
  assumes "CHR '':'' \<notin> set name" and "n < 2 ^ 31"
  shows "meminfo_number (meminfo_line name pad n @ [newline]) = Inr (int n)"
proof -
  let ?s = "replicate pad (CHR 0x20) @ dec_digits n @ '' kB'' @ [newline]"
  have "strstr (meminfo_line name pad n @ [newline]) '':'' = Some (CHR '':'' # ?s)"
    using strstr_char [OF assms(1), of ?s] by (simp add: meminfo_line_def)
  moreover have "atoll ?s = int n"
    using atoll_dec [of "replicate pad (CHR 0x20)" "'' kB'' @ [newline]" n] assms(2)
    by (simp add: isspace_def isdigit_def)
  moreover have "sint (word_of_int (int n) :: 32 word) = int n"
    using assms(2) by (intro sint_32_small) (simp add: fits_int_def)
  ultimately show ?thesis by (simp add: meminfo_number_def atoi_def)
qed

section \<open>Times and counts\<close>

text \<open>Rows of a fetch whose times stay below \<open>2 ^ 31\<close>: \<open>n\<close> values after the first.\<close>

definition rows_ok :: "'d rrd_rows \<Rightarrow> nat \<Rightarrow> nat \<Rightarrow> nat \<Rightarrow> bool" where
  "rows_ok r start0 step n \<longleftrightarrow> rr_start r = of_nat start0 \<and> rr_step r = of_nat step
     \<and> rr_end r = of_nat (start0 + step * (n + 1)) \<and> 0 < step \<and> start0 + step * (n + 1) < 2 ^ 31"

lemma of_nat_div_64:
  assumes "a < 2 ^ 64" and "b < 2 ^ 64"
  shows "(of_nat a :: 64 word) div of_nat b = of_nat (a div b)"
proof -
  have "unat ((of_nat a :: 64 word) div of_nat b) = unat (of_nat (a div b) :: 64 word)"
    using assms le_less_trans [OF div_le_dividend assms(1), of b]
    by (simp add: unat_div_distrib unsigned_of_nat take_bit_nat_eq_self)
  then show ?thesis by (simp only: unsigned_word_eqI)
qed

lemma ucast_of_nat_32: "(ucast (of_nat a :: 64 word) :: 32 word) = of_nat a"
  by (simp add: unsigned_of_nat word_of_nat_eq_iff take_bit_take_bit)

lemma sint_of_nat_32: "a < 2 ^ 31 \<Longrightarrow> sint (of_nat a :: 32 word) = int a"
  using sint_32_small [of "int a"] by (simp add: fits_int_def)

lemma rows_small:
  fixes s t n :: nat
  assumes "s + t * (n + 1) < 2 ^ 31" and "0 < t"
  shows "n < 2 ^ 31" and "i < n \<Longrightarrow> s + i * t < 2 ^ 31"
proof -
  have "n + 1 \<le> t * (n + 1)" using mult_le_mono1 [of 1 t "n + 1"] assms(2) by (simp only: mult_1)
  then show "n < 2 ^ 31" using assms(1) by linarith
  show "s + i * t < 2 ^ 31" if "i < n"
  proof -
    have "i * t \<le> t * (n + 1)" using that by (simp add: mult.commute [of i] mult_le_mono2 del: mult_Suc_right)
    then show ?thesis using assms(1) by linarith
  qed
qed

lemma rows_ok_count:
  assumes "rows_ok r start0 step n"
  shows "rrd_count r = int n" and "i < n \<Longrightarrow> rrd_time r (int i) = int (start0 + i * step)" and "rr_step r \<noteq> 0"
proof -
  note ok = assms [unfolded rows_ok_def]
  note small = rows_small [of start0 step n, OF conjunct2 [OF conjunct2 [OF conjunct2 [OF conjunct2 [OF ok]]]]]
  have step: "0 < step" "step < 2 ^ 64" "step * (n + 1) < 2 ^ 64" using ok by simp_all
  have "rr_end r - rr_start r = of_nat (step * (n + 1))" using ok by (simp add: algebra_simps)
  moreover have "(of_nat (step * (n + 1)) :: 64 word) div of_nat step = of_nat (n + 1)"
    unfolding of_nat_div_64 [OF step(3,2)] using step(1) by (simp only: nonzero_mult_div_cancel_left neq0_conv)
  ultimately have "(rr_end r - rr_start r) div rr_step r - 1 = of_nat n" using ok by simp
  then show "rrd_count r = int n"
    using small(1) step(1) by (simp add: rrd_count_def ucast_of_nat_32 sint_of_nat_32)
  show "rrd_time r (int i) = int (start0 + i * step)" if "i < n"
  proof -
    have "rr_start r + word_of_int (int i) * rr_step r = of_nat (start0 + i * step)" using ok by simp
    then show ?thesis
      unfolding rrd_time_def by (simp only: ucast_of_nat_32) (rule sint_of_nat_32 [OF small(2) [OF step(1) that]])
  qed
  show "rr_step r \<noteq> 0"
  proof
    assume "rr_step r = 0"
    then have "unat (of_nat step :: 64 word) = 0" using ok by simp
    moreover have "unat (of_nat step :: 64 word) = step"
      using step(2) by (simp only: unsigned_of_nat) (simp add: take_bit_nat_eq_self)
    ultimately show False using step(1) by simp
  qed
qed

section \<open>Properties\<close>

text \<open>
  C15. From a \<open>/proc/stat\<close> whose first line gives the processor's times \<open>ns\<close>, the
  monitor passes \<open>rrd_update\<close> the load: 100 less the share of the fourth time, idle, in the
  sum of the first seven, in the order of operations the code rounds in.
\<close>

theorem gw_os_cpu_monitor_load:
  assumes "10 \<le> length junk" and "7 \<le> length ns" and "int (sum_list ns) < 2 ^ 63"
    and "int (ns ! 3) * 100 < 2 ^ 63" and "length (stat_line ns) < 4095"
  shows "gw_os_cpu_monitor D junk (Some (stat_line ns @ newline # rest)) file
    = Inr [''update'', file, ''N:'' @ db_print_2f D
       (db_minus D (db_of_int D 100) (db_divide D (db_of_int D (int (ns ! 3) * 100))
          (db_of_int D (int (sum_list (take 7 ns))))))]"
  using cpu_value_line [OF assms(1-4), of D] fgets_first [OF stat_line_chars(1), where n = 4096 and rest = rest] assms(5)
  by (simp add: gw_os_cpu_monitor_def)

text \<open>Doubles for examples: integers, with a printed form.\<close>

definition int_doubles :: "int doubles" where
  "int_doubles = \<lparr>db_of_int = id, db_minus = (-), db_times = (*), db_divide = (div),
     db_isnan = (\<lambda>_. False), db_print_2f = dec_str\<rparr>"

theorem gw_os_cpu_monitor_load_witness:
  "gw_os_cpu_monitor int_doubles (replicate 10 None) (Some (''cpu  1 2 3 5 4 5 0 9'' @ [newline])) ''c''
    = Inr [''update'', ''c'', ''N:'' @ dec_str 75]"
proof -
  have "stat_line [1, 2, 3, 5, 4, 5, 0, 9] = ''cpu  1 2 3 5 4 5 0 9''"
    by (simp add: stat_line_def dec_digits.simps)
  then show ?thesis
    using gw_os_cpu_monitor_load [of "replicate 10 None" "[1, 2, 3, 5, 4, 5, 0, 9]" int_doubles "[]" "''c''"]
    by (simp add: int_doubles_def)
qed

text \<open>
  From a \<open>/proc/meminfo\<close> that starts with the total and the free memory, the monitor
  passes \<open>rrd_update\<close> the share in use, when both numbers are below \<open>2 ^ 31\<close> kB.
\<close>

theorem gw_os_memory_monitor_usage:
  assumes "mt < 2 ^ 31" and "mf < 2 ^ 31" and "length (meminfo_line ''MemTotal'' p mt) < 4095"
    and "length (meminfo_line ''MemFree'' q mf) < 4095"
  shows "gw_os_memory_monitor D (Some (meminfo_line ''MemTotal'' p mt @ newline
       # meminfo_line ''MemFree'' q mf @ newline # rest)) file
    = Inr [''update'', file, ''N:'' @ db_print_2f D (db_divide D
        (db_times D (db_of_int D (int mt - int mf)) (db_of_int D 100)) (db_of_int D (int mt)))]"
proof -
  let ?t = "meminfo_line ''MemTotal'' p mt" and ?f = "meminfo_line ''MemFree'' q mf"
  have lines: "fgets_lines (?t @ newline # ?f @ newline # rest) = (?t @ [newline]) # (?f @ [newline]) # fgets_lines rest"
    using fgets_all_first [of ?t 4096 "?f @ newline # rest"] fgets_all_first [of ?f 4096 rest] assms(3,4)
      meminfo_line_chars(1) [of "''MemTotal''" p mt] meminfo_line_chars(1) [of "''MemFree''" q mf]
    by simp
  have cstr: "cstr (?t @ [newline]) = ?t @ [newline]" "cstr (?f @ [newline]) = ?f @ [newline]"
    by (simp_all add: meminfo_line_chars(2))
  have "strstr (?t @ [newline]) ''MemTotal'' \<noteq> None" "strstr (?t @ [newline]) ''MemFree'' = None"
    "strstr (?f @ [newline]) ''MemTotal'' = None" "strstr (?f @ [newline]) ''MemFree'' \<noteq> None"
    by (simp_all add: meminfo_line_def strstr_absent)
  then have "meminfo_scan (fgets_lines (?t @ newline # ?f @ newline # rest)) [] [] = (?t @ [newline], ?f @ [newline])"
    by (simp add: lines cstr meminfo_scan_done)
  moreover have "meminfo_number (?t @ [newline]) = Inr (int mt)" "meminfo_number (?f @ [newline]) = Inr (int mf)"
    using assms(1,2) by (simp_all add: meminfo_number_line)
  moreover have "fits_int (int mt - int mf)" using assms(1,2) by (simp add: fits_int_def)
  ultimately show ?thesis by (simp add: gw_os_memory_monitor_def Let_def)
qed

theorem gw_os_memory_monitor_usage_witness:
  "gw_os_memory_monitor int_doubles (Some (''MemTotal: 20 kB'' @ newline # ''MemFree: 5 kB'' @ [newline])) ''m''
    = Inr [''update'', ''m'', ''N:'' @ dec_str 75]"
proof -
  have "meminfo_line ''MemTotal'' 1 20 = ''MemTotal: 20 kB''" "meminfo_line ''MemFree'' 1 5 = ''MemFree: 5 kB''"
    by (simp_all add: meminfo_line_def dec_digits.simps)
  then show ?thesis
    using gw_os_memory_monitor_usage [of 20 5 1 1 int_doubles "[]" "''m''"] by (simp add: int_doubles_def)
qed



end
