(* ===== verification/Mg_Str.thy ===== *)
theory Mg_Str
  imports GW_Prelude
begin

text \<open>
  Buffers and strings of the embedded web server, \<open>src/src/mongoose.c\<close>: the growing buffer
  \<open>mbuf\<close>, the comparisons of \<open>mg_str\<close>, hexadecimal text, and lists of comma-separated
  entries. A \<open>struct mg_str\<close> is the bytes it points to; functions that move its pointer give
  the rest of the text. Sizes are numbers below \<open>2 ^ 64\<close>.
\<close>

section \<open>Growing buffers\<close>

text \<open>
  \<open>struct mbuf\<close>: the allocated bytes, of which the first \<open>mb_len\<close> are in use; its
  \<open>size\<close> is their number, and NULL is the empty allocation. \<open>realloc\<close> is a parameter: for
  a size it fails or gives bytes, of which those that were in the old block are replaced.
\<close>

record mbuf =
  mb_buf :: string
  mb_len :: nat

type_synonym allocator = "nat \<Rightarrow> string option"

definition mb_realloc :: "allocator \<Rightarrow> string \<Rightarrow> nat \<Rightarrow> string option" where
  "mb_realloc alloc buf n =
     (if n = 0 then None else map_option (\<lambda>junk. take n buf @ drop (length buf) junk) (alloc n))"

abbreviation mb_size :: "mbuf \<Rightarrow> nat" where "mb_size a \<equiv> length (mb_buf a)"

definition mb_text :: "mbuf \<Rightarrow> string" where
  "mb_text a = take (mb_len a) (mb_buf a)"

definition mbuf_resize :: "allocator \<Rightarrow> mbuf \<Rightarrow> nat \<Rightarrow> mbuf" where
  "mbuf_resize alloc a new_size =
     (if new_size > mb_size a \<or> (new_size < mb_size a \<and> new_size \<ge> mb_len a)
      then (case mb_realloc alloc (mb_buf a) new_size of
              None \<Rightarrow> if new_size \<noteq> 0 then a else a\<lparr>mb_buf := []\<rparr>
            | Some buf \<Rightarrow> a\<lparr>mb_buf := buf\<rparr>)
      else a)"

definition mbuf_init :: "allocator \<Rightarrow> nat \<Rightarrow> mbuf" where
  "mbuf_init alloc initial_size = mbuf_resize alloc \<lparr>mb_buf = [], mb_len = 0\<rparr> initial_size"

definition mbuf_free :: "allocator \<Rightarrow> mbuf \<Rightarrow> mbuf" where
  "mbuf_free alloc a = (if mb_buf a \<noteq> [] then mbuf_init alloc 0 else a)"

definition mbuf_trim :: "allocator \<Rightarrow> mbuf \<Rightarrow> mbuf" where
  "mbuf_trim alloc a = mbuf_resize alloc a (mb_len a)"

text \<open>
  The bytes after the tail of \<open>a\<close> from \<open>off\<close> on has been moved up by \<open>len\<close>, in a
  block of bytes \<open>b\<close>, and \<open>src\<close>, unless it is NULL, copied into the gap.
\<close>

definition mb_shift :: "string \<Rightarrow> nat \<Rightarrow> nat \<Rightarrow> nat \<Rightarrow> string option \<Rightarrow> string" where
  "mb_shift b used off len src =
     take off b @ (case src of None \<Rightarrow> take len (drop off b) | Some s \<Rightarrow> s)
     @ take (used - off) (drop off b) @ drop (used + len) b"

text \<open>
  \<open>mbuf_insert\<close>, with the address of the block for the overflow check; the number of bytes
  inserted and the buffer. \<open>MBUF_SIZE_MULTIPLIER\<close> is 1.5 and
  \<open>MBUF_SIZE_MAX_HEADROOM\<close> is \<open>BUFSIZ\<close>, 8192 in glibc.
\<close>

definition mbuf_insert :: "allocator \<Rightarrow> nat \<Rightarrow> mbuf \<Rightarrow> nat \<Rightarrow> string option \<Rightarrow> nat \<Rightarrow> nat \<times> mbuf" where
  "mbuf_insert alloc addr a off src len =
     (if 2 ^ 64 - 1 - addr < len then (0, a)
      else if mb_len a + len \<le> mb_size a
      then (len, \<lparr>mb_buf = mb_shift (mb_buf a) (mb_len a) off len src, mb_len = mb_len a + len\<rparr>)
      else
        (let min_size = mb_len a + len;
             grown = min_size * 3 div 2;
             new_size = (if grown - min_size > 8192 then min_size + 8192 else grown);
             p = (case mb_realloc alloc (mb_buf a) new_size of
                    Some b \<Rightarrow> Some b
                  | None \<Rightarrow> if new_size \<noteq> min_size then mb_realloc alloc (mb_buf a) min_size else None)
         in case p of
              None \<Rightarrow> (0, a)
            | Some b \<Rightarrow> (len, \<lparr>mb_buf = mb_shift b (mb_len a) off len src, mb_len = mb_len a + len\<rparr>)))"

definition mbuf_append :: "allocator \<Rightarrow> nat \<Rightarrow> mbuf \<Rightarrow> string option \<Rightarrow> nat \<Rightarrow> nat \<times> mbuf" where
  "mbuf_append alloc addr a src len = mbuf_insert alloc addr a (mb_len a) src len"

definition mbuf_append_and_free :: "allocator \<Rightarrow> nat \<Rightarrow> mbuf \<Rightarrow> string \<Rightarrow> nat \<times> mbuf" where
  "mbuf_append_and_free alloc addr a data =
     (if mb_len a = 0 then (length data, \<lparr>mb_buf = data, mb_len = length data\<rparr>)
      else mbuf_insert alloc addr a (mb_len a) (Some data) (length data))"

definition mbuf_remove :: "mbuf \<Rightarrow> nat \<Rightarrow> mbuf" where
  "mbuf_remove mb n =
     (if 0 < n \<and> n \<le> mb_len mb
      then \<lparr>mb_buf = take (mb_len mb - n) (drop n (mb_buf mb)) @ drop (mb_len mb - n) (mb_buf mb),
            mb_len = mb_len mb - n\<rparr>
      else mb)"

definition mbuf_clear :: "mbuf \<Rightarrow> mbuf" where
  "mbuf_clear mb = mb\<lparr>mb_len := 0\<rparr>"

text \<open>\<open>mbuf_move\<close>: what \<open>from\<close> and \<open>to\<close> are afterwards.\<close>

definition mbuf_move :: "mbuf \<Rightarrow> mbuf \<Rightarrow> mbuf \<times> mbuf" where
  "mbuf_move from_mb to_mb = (\<lparr>mb_buf = [], mb_len = 0\<rparr>, from_mb)"

section \<open>Strings with a length\<close>

text \<open>The value of a \<open>char\<close>, which is signed, and \<open>tolower\<close> in the C locale.\<close>

definition char_val :: "char \<Rightarrow> int" where
  "char_val c = (if (of_char c :: int) < 128 then of_char c else of_char c - 256)"

definition tolower :: "char \<Rightarrow> char" where
  "tolower c = (if 65 \<le> (of_char c :: nat) \<and> (of_char c :: nat) \<le> 90
                then char_of ((of_char c :: nat) + 32) else c)"

definition mg_mk_str :: "string option \<Rightarrow> string" where
  "mg_mk_str s = (case s of None \<Rightarrow> [] | Some t \<Rightarrow> cstr t)"

definition mg_mk_str_n :: "string \<Rightarrow> nat \<Rightarrow> string" where
  "mg_mk_str_n s len = take len s"

text \<open>\<open>strncmp\<close>; the sign of the result.\<close>

fun strncmp :: "string \<Rightarrow> string \<Rightarrow> nat \<Rightarrow> int" where
  "strncmp s t 0 = 0"
| "strncmp s t (Suc n) =
     (let c = byte_at s 0; d = byte_at t 0
      in if c \<noteq> d then (if (of_char c :: nat) < of_char d then - 1 else 1)
         else if c = nul then 0 else strncmp (drop 1 s) (drop 1 t) n)"

text \<open>\<open>mg_ncasecmp\<close>: the difference of the first characters that differ, up to a NUL.\<close>

fun mg_ncasecmp :: "string \<Rightarrow> string \<Rightarrow> nat \<Rightarrow> int" where
  "mg_ncasecmp s t 0 = 0"
| "mg_ncasecmp s t (Suc n) =
     (let diff = of_char (tolower (byte_at s 0)) - of_char (tolower (byte_at t 0)) :: int
      in if diff = 0 \<and> byte_at s 0 \<noteq> nul then mg_ncasecmp (drop 1 s) (drop 1 t) n else diff)"

text \<open>The difference of two lengths as an \<open>int\<close>, and the comparisons with a C string.\<close>

definition len_diff :: "nat \<Rightarrow> nat \<Rightarrow> int" where
  "len_diff m n = sint (word_of_int (int m - int n) :: 32 word)"

definition mg_vcmp :: "string \<Rightarrow> string \<Rightarrow> int" where
  "mg_vcmp str1 str2 =
     (let n1 = length str1; n2 = length (cstr str2); r = strncmp str1 str2 (min n1 n2)
      in if r = 0 then len_diff n1 n2 else r)"

definition mg_vcasecmp :: "string \<Rightarrow> string \<Rightarrow> int" where
  "mg_vcasecmp str1 str2 =
     (let n1 = length str1; n2 = length (cstr str2); r = mg_ncasecmp str1 str2 (min n1 n2)
      in if r = 0 then len_diff n1 n2 else r)"

text \<open>The copies: \<open>None\<close> when the allocation fails or there is nothing to copy.\<close>

definition mg_strdup_common :: "allocator \<Rightarrow> string \<Rightarrow> bool \<Rightarrow> string option" where
  "mg_strdup_common alloc s nul_terminate =
     (if s \<noteq> [] then (case alloc (length s + (if nul_terminate then 1 else 0)) of
                        None \<Rightarrow> None | Some _ \<Rightarrow> Some s)
      else None)"

definition mg_strdup :: "allocator \<Rightarrow> string \<Rightarrow> string option" where
  "mg_strdup alloc s = mg_strdup_common alloc s False"

definition mg_strdup_nul :: "allocator \<Rightarrow> string \<Rightarrow> string option" where
  "mg_strdup_nul alloc s = mg_strdup_common alloc s True"

text \<open>\<open>mg_strchr\<close>: the index of the first \<open>c\<close>.\<close>

fun mg_strchr :: "string \<Rightarrow> char \<Rightarrow> nat option" where
  "mg_strchr [] c = None"
| "mg_strchr (x # xs) c = (if x = c then Some 0 else map_option Suc (mg_strchr xs c))"

fun mg_strcmp :: "string \<Rightarrow> string \<Rightarrow> int" where
  "mg_strcmp (c1 # s) (c2 # t) =
     (if char_val c1 < char_val c2 then - 1 else if char_val c1 > char_val c2 then 1 else mg_strcmp s t)"
| "mg_strcmp s t = (if s \<noteq> [] then 1 else if t \<noteq> [] then - 1 else 0)"

definition mg_strncmp :: "string \<Rightarrow> string \<Rightarrow> nat \<Rightarrow> int" where
  "mg_strncmp str1 str2 n = mg_strcmp (take n str1) (take n str2)"

fun mg_strcasecmp :: "string \<Rightarrow> string \<Rightarrow> int" where
  "mg_strcasecmp (c1 # s) (c2 # t) =
     (if char_val (tolower c1) < char_val (tolower c2) then - 1
      else if char_val (tolower c1) > char_val (tolower c2) then 1 else mg_strcasecmp s t)"
| "mg_strcasecmp s t = (if s \<noteq> [] then 1 else if t \<noteq> [] then - 1 else 0)"

text \<open>\<open>mg_strstr\<close>: the index of the first occurrence.\<close>

fun mg_strstr :: "string \<Rightarrow> string \<Rightarrow> nat option" where
  "mg_strstr haystack needle =
     (if length needle > length haystack then None
      else if take (length needle) haystack = needle then Some 0
      else (case haystack of [] \<Rightarrow> None | c # s \<Rightarrow> map_option Suc (mg_strstr s needle)))"

declare mg_strstr.simps [simp del]

definition mg_strstrip :: "string \<Rightarrow> string" where
  "mg_strstrip s = rev (dropWhile isspace (rev (dropWhile isspace s)))"

definition mg_str_starts_with :: "string \<Rightarrow> string \<Rightarrow> bool" where
  "mg_str_starts_with s prefix =
     (if length s < length prefix then False else mg_strcmp (take (length prefix) s) prefix = 0)"

section \<open>Text utilities\<close>

definition c_strnlen :: "string \<Rightarrow> nat \<Rightarrow> nat" where
  "c_strnlen s maxlen = length (cstr (take maxlen s))"

text \<open>\<open>c_strnstr\<close>: the index of \<open>needle\<close> in the first \<open>slen\<close> bytes.\<close>

function c_strnstr_loop :: "string \<Rightarrow> string \<Rightarrow> nat \<Rightarrow> nat \<Rightarrow> nat option" where
  "c_strnstr_loop s needle slen i =
     (if i < slen
      then if i + length (cstr needle) > slen then None
           else if strncmp (drop i s) (cstr needle) (length (cstr needle)) = 0 then Some i
           else c_strnstr_loop s needle slen (Suc i)
      else None)"
  by pat_completeness auto
termination
  by (relation "measure (\<lambda>(s, needle, slen, i). slen - i)") auto

declare c_strnstr_loop.simps [simp del]

definition c_strnstr :: "string \<Rightarrow> string \<Rightarrow> nat \<Rightarrow> nat option" where
  "c_strnstr s needle slen = c_strnstr_loop s needle slen 0"

fun cs_to_hex :: "string \<Rightarrow> string" where
  "cs_to_hex [] = []"
| "cs_to_hex (c # s) = ''0123456789abcdef'' ! (of_char c div 16) # ''0123456789abcdef'' ! (of_char c mod 16)
     # cs_to_hex s"

definition fourbit :: "char \<Rightarrow> nat" where
  "fourbit ch =
     (let c = of_char ch :: nat
      in if 48 \<le> c \<and> c \<le> 57 then c - 48
         else if 97 \<le> c \<and> c \<le> 102 then c - 97 + 10
         else if 65 \<le> c \<and> c \<le> 70 then c - 65 + 10 else 0)"

text \<open>\<open>cs_from_hex\<close> reads two bytes for every two of \<open>len\<close>, so one past an odd length.\<close>

fun cs_from_hex :: "string \<Rightarrow> string option" where
  "cs_from_hex [] = Some []"
| "cs_from_hex [_] = None"
| "cs_from_hex (c # d # s) = map_option ((#) (char_of (fourbit c * 16 + fourbit d))) (cs_from_hex s)"

text \<open>
  \<open>mg_next_comma_list_entry_n\<close>: the entry, its part behind the first equality sign if it has
  one, and the rest of the list; \<open>None\<close> at the end.
\<close>

definition mg_next_comma_list_entry_n :: "string \<Rightarrow> (string \<times> string option \<times> string) option" where
  "mg_next_comma_list_entry_n list =
     (if list = [] then None
      else
        (let v = (case mg_strchr list (CHR '','') of None \<Rightarrow> list | Some i \<Rightarrow> take i list);
             rest = (case mg_strchr list (CHR '','') of None \<Rightarrow> [] | Some i \<Rightarrow> drop (Suc i) list)
         in case mg_strchr v (CHR ''='') of
              None \<Rightarrow> Some (v, None, rest)
            | Some k \<Rightarrow> Some (take k v, Some (drop (Suc k) v), rest)))"

section \<open>Patterns\<close>

lemma mg_strchr_less: "mg_strchr s c = Some i \<Longrightarrow> i < length s \<and> s ! i = c \<and> c \<notin> set (take i s)"
  by (induction s arbitrary: i) (auto split: if_splits simp: nth_Cons')

lemma mg_strchr_None: "mg_strchr s c = None \<longleftrightarrow> c \<notin> set s"
  by (induction s) auto

text \<open>
  \<open>mg_match_prefix_n\<close>: how much of \<open>str\<close> a pattern matches, 0 for none. Alternatives
  are separated by bars, or commas when there is no bar; \<open>mg_match_from\<close> is the loop on one,
  and \<open>mg_match_star\<close> its inner one, which tries ever shorter texts for a star.
\<close>

definition or_split :: "string \<Rightarrow> nat option" where
  "or_split pattern =
     (case mg_strchr pattern (CHR ''|'') of Some i \<Rightarrow> Some i | None \<Rightarrow> mg_strchr pattern (CHR '',''))"

lemma or_split_less: "or_split p = Some i \<Longrightarrow> i < length p"
  by (auto simp: or_split_def split: option.splits dest: mg_strchr_less)

definition star_len :: "string \<Rightarrow> string \<Rightarrow> nat" where
  "star_len pattern str =
     (if byte_at pattern 0 = CHR ''*'' then length str
      else length (takeWhile (\<lambda>c. c \<noteq> CHR ''/'') str))"

function (sequential) mg_match_prefix_n :: "string \<Rightarrow> string \<Rightarrow> nat"
  and mg_match_from :: "string \<Rightarrow> string \<Rightarrow> nat \<Rightarrow> nat"
  and mg_match_star :: "string \<Rightarrow> string \<Rightarrow> nat \<Rightarrow> nat \<Rightarrow> nat" where
  "mg_match_prefix_n pattern str =
     (case or_split pattern of
        Some i \<Rightarrow>
          (let res = mg_match_prefix_n (take i pattern) str
           in if res > 0 then res else mg_match_prefix_n (drop (Suc i) pattern) str)
      | None \<Rightarrow> mg_match_from pattern str 0)"
| "mg_match_from pattern str j =
     (if pattern = [] then j
      else if j < length str \<and> hd pattern = CHR ''?'' then mg_match_from (tl pattern) str (Suc j)
      else if j < length str \<and> hd pattern = CHR ''*'' then
        (let pat = (if byte_at (tl pattern) 0 = CHR ''*'' then drop 2 pattern else tl pattern);
             len = star_len (tl pattern) (drop j str)
         in if pat = [] \<or> pat = ''$'' then j + len else mg_match_star pat str j len)
      else if j < length str \<and> tolower (hd pattern) = tolower (str ! j)
      then mg_match_from (tl pattern) str (Suc j)
      else if hd pattern = CHR ''$'' then (if j = length str then length str else 0)
      else 0)"
| "mg_match_star pat str j len =
     (let res = mg_match_prefix_n pat (drop (j + len) str)
      in if res = 0 \<and> len \<noteq> 0 then mg_match_star pat str j (len - 1)
         else if res = 0 then 0 else j + res + len)"
  by pat_completeness auto
termination
  by (relation "measures [\<lambda>x. case x of Inl (p, s) \<Rightarrow> length p | Inr (Inl (p, s, j)) \<Rightarrow> length p
        | Inr (Inr (p, s, j, n)) \<Rightarrow> length p,
      \<lambda>x. case x of Inl _ \<Rightarrow> 1 | Inr (Inl _) \<Rightarrow> 0 | Inr (Inr (p, s, j, n)) \<Rightarrow> n + 2]")
     (auto dest: or_split_less simp: neq_Nil_conv)

section \<open>What the buffer operations keep\<close>

definition mb_ok :: "mbuf \<Rightarrow> bool" where
  "mb_ok a \<longleftrightarrow> mb_len a \<le> mb_size a"

text \<open>An allocator that gives blocks of the size asked for.\<close>

definition allocates :: "allocator \<Rightarrow> bool" where
  "allocates alloc \<longleftrightarrow> (\<forall>n junk. alloc n = Some junk \<longrightarrow> length junk = n)"

lemma length_mb_text [simp]: "mb_ok a \<Longrightarrow> length (mb_text a) = mb_len a"
  by (simp add: mb_ok_def mb_text_def)

lemma mb_realloc_Some:
  assumes "allocates alloc" and "mb_realloc alloc buf n = Some b"
  shows "length b = n" and "k \<le> length buf \<Longrightarrow> k \<le> n \<Longrightarrow> take k b = take k buf"
proof -
  obtain junk where j: "alloc n = Some junk" "b = take n buf @ drop (length buf) junk"
    using assms(2) by (auto simp: mb_realloc_def split: if_splits)
  have "length junk = n" using assms(1) j(1) by (simp add: allocates_def)
  then show "length b = n" using j(2) by simp
  show "take k b = take k buf" if "k \<le> length buf" "k \<le> n" using that j(2) by (simp add: min_def)
qed

lemma take_length_append: "take (length xs) (xs @ ys) = xs"
  by simp

lemma mb_shift_text:
  assumes "off \<le> used" and "used + len \<le> length b" and "\<forall>s. src = Some s \<longrightarrow> length s = len"
  shows "length (mb_shift b used off len src) = length b"
    and "take (used + len) (mb_shift b used off len src)
      = take off b @ (case src of None \<Rightarrow> take len (drop off b) | Some s \<Rightarrow> s) @ drop off (take used b)"
proof -
  let ?gap = "case src of None \<Rightarrow> take len (drop off b) | Some s \<Rightarrow> s"
  have gap: "length ?gap = len" using assms by (cases src) simp_all
  show "length (mb_shift b used off len src) = length b" using assms gap by (simp add: mb_shift_def)
  let ?x = "take off b @ ?gap @ take (used - off) (drop off b)"
  have "used + len = length ?x" using assms gap by simp
  moreover have "mb_shift b used off len src = ?x @ drop (used + len) b" by (simp add: mb_shift_def)
  ultimately have "take (used + len) (mb_shift b used off len src) = ?x" by (simp only: take_length_append)
  then show "take (used + len) (mb_shift b used off len src) = take off b @ ?gap @ drop off (take used b)"
    by (simp add: drop_take)
qed

lemma mbuf_resize_ok:
  assumes "allocates alloc" and "mb_ok a"
  shows "mb_ok (mbuf_resize alloc a n)" and "mb_text (mbuf_resize alloc a n) = mb_text a"
proof -
  have "mb_ok (mbuf_resize alloc a n) \<and> mb_text (mbuf_resize alloc a n) = mb_text a"
  proof (cases "n > mb_size a \<or> (n < mb_size a \<and> n \<ge> mb_len a)")
    case True
    then have n: "mb_len a \<le> n" using assms(2) by (auto simp: mb_ok_def)
    show ?thesis
    proof (cases "mb_realloc alloc (mb_buf a) n")
      case None
      then show ?thesis using assms(2) True n by (auto simp: mbuf_resize_def mb_ok_def mb_text_def)
    next
      case (Some b)
      then show ?thesis
        using mb_realloc_Some [OF assms(1) Some] True n assms(2)
        by (simp add: mbuf_resize_def mb_ok_def mb_text_def)
    qed
  next
    case False
    then have "mbuf_resize alloc a n = a" unfolding mbuf_resize_def by (rule if_not_P)
    then show ?thesis using assms(2) by simp
  qed
  then show "mb_ok (mbuf_resize alloc a n)" "mb_text (mbuf_resize alloc a n) = mb_text a" by simp_all
qed

lemma mbuf_insert_ok:
  assumes "allocates alloc" and "mb_ok a" and "off \<le> mb_len a" and "length s = len"
    and "mbuf_insert alloc addr a off (Some s) len = (n, a')"
  shows "mb_ok a' \<and> (n = len \<and> mb_text a' = take off (mb_text a) @ s @ drop off (mb_text a) \<or> n = 0 \<and> a' = a)"
proof -
  have src: "\<forall>t. Some s = Some t \<longrightarrow> length t = len" using assms(4) by simp
  have done_ok: ?thesis
    if "n = len" "a' = \<lparr>mb_buf = mb_shift b (mb_len a) off len (Some s), mb_len = mb_len a + len\<rparr>"
      "mb_len a + len \<le> length b" "take (mb_len a) b = mb_text a" for b
  proof -
    have "take off b = take off (mb_text a)" unfolding that(4) [symmetric] using assms(3) by simp
    then have "mb_text a' = take off (mb_text a) @ s @ drop off (mb_text a)"
      unfolding that(2) mb_text_def [of "\<lparr>mb_buf = _, mb_len = _\<rparr>"] mbuf.select_convs
        mb_shift_text(2) [OF assms(3) that(3) src] that(4) option.case by simp
    moreover have "mb_ok a'"
      unfolding that(2) mb_ok_def [of "\<lparr>mb_buf = _, mb_len = _\<rparr>"] mbuf.select_convs
        mb_shift_text(1) [OF assms(3) that(3) src] by (rule that(3))
    ultimately show ?thesis using that(1) by simp
  qed
  consider "2 ^ 64 - 1 - addr < len" | "\<not> 2 ^ 64 - 1 - addr < len" "mb_len a + len \<le> mb_size a"
    | "\<not> 2 ^ 64 - 1 - addr < len" "\<not> mb_len a + len \<le> mb_size a" by blast
  then show ?thesis
  proof cases
    case 1
    then show ?thesis using assms(2,5) by (simp add: mbuf_insert_def)
  next
    case 2
    then show ?thesis using assms(5) by (intro done_ok [of "mb_buf a"]) (auto simp: mbuf_insert_def mb_text_def)
  next
    case 3
    let ?min = "mb_len a + len"
    let ?new = "if ?min * 3 div 2 - ?min > 8192 then ?min + 8192 else ?min * 3 div 2"
    have new: "?min \<le> ?new" by auto
    let ?p = "case mb_realloc alloc (mb_buf a) ?new of Some b \<Rightarrow> Some b
      | None \<Rightarrow> if ?new \<noteq> ?min then mb_realloc alloc (mb_buf a) ?min else None"
    show ?thesis
    proof (cases ?p)
      case None
      then have "mbuf_insert alloc addr a off (Some s) len = (0, a)"
        unfolding mbuf_insert_def if_not_P [OF 3(1)] if_not_P [OF 3(2)] Let_def by (simp only: option.case)
      then show ?thesis using assms(2,5) by simp
    next
      case (Some b)
      then have "mb_realloc alloc (mb_buf a) ?new = Some b \<or> mb_realloc alloc (mb_buf a) ?min = Some b"
        by (auto split: option.splits if_splits)
      then obtain m where m: "mb_realloc alloc (mb_buf a) m = Some b" "?min \<le> m" using new by blast
      have b: "?min \<le> length b" "take (mb_len a) b = take (mb_len a) (mb_buf a)"
        using mb_realloc_Some [OF assms(1) m(1)] assms(2) m(2) by (simp_all add: mb_ok_def)
      have "mbuf_insert alloc addr a off (Some s) len
          = (len, \<lparr>mb_buf = mb_shift b (mb_len a) off len (Some s), mb_len = ?min\<rparr>)"
        unfolding mbuf_insert_def if_not_P [OF 3(1)] if_not_P [OF 3(2)] Let_def Some by (simp only: option.case)
      then show ?thesis using assms(5) b by (intro done_ok [of b]) (simp_all add: mb_text_def)
    qed
  qed
qed

lemma mbuf_remove_ok:
  assumes "mb_ok a"
  shows "mb_ok (mbuf_remove a n)"
    and "mb_text (mbuf_remove a n) = (if n \<le> mb_len a then drop n (mb_text a) else mb_text a)"
  using assms by (auto simp: mbuf_remove_def mb_ok_def mb_text_def drop_take)

section \<open>Comparisons and hexadecimal text\<close>

lemma fourbit_hex: "n < 16 \<Longrightarrow> fourbit (''0123456789abcdef'' ! n) = n"
proof -
  have "\<forall>n \<in> set [0 ..< 16]. fourbit (''0123456789abcdef'' ! n) = n" by code_simp
  then show "n < 16 \<Longrightarrow> ?thesis" by simp
qed

lemma cs_hex_roundtrip: "cs_from_hex (cs_to_hex s) = Some s"
proof (induction s)
  case (Cons c s)
  have c: "(of_char c :: nat) < 256" by simp
  then have "(of_char c :: nat) div 16 < 16" by (intro less_mult_imp_div_less) simp
  then show ?case
    using Cons.IH by (simp add: fourbit_hex)
qed simp

lemma strncmp_eq_0:
  "n \<le> length s \<Longrightarrow> n \<le> length t \<Longrightarrow> nul \<notin> set (take n t) \<Longrightarrow> strncmp s t n = 0 \<longleftrightarrow> take n s = take n t"
proof (induction s t n rule: strncmp.induct)
  case (2 s t n)
  then obtain c s' d t' where "s = c # s'" "t = d # t'" by (metis Suc_le_length_iff)
  then show ?case using 2 by (auto simp: byte_at_def Let_def)
qed simp

lemma tolower_nul [simp]: "tolower c = nul \<longleftrightarrow> c = nul" "nul = tolower c \<longleftrightarrow> c = nul"
  by (auto simp: tolower_def dest: arg_cong [where f = "of_char :: char \<Rightarrow> nat"])

lemma tolower_of_nul [simp]: "tolower nul = nul"
  by simp

lemma mg_ncasecmp_eq_0:
  "n \<le> length s \<Longrightarrow> n \<le> length t \<Longrightarrow> nul \<notin> set (take n t) \<Longrightarrow>
     mg_ncasecmp s t n = 0 \<longleftrightarrow> map tolower (take n s) = map tolower (take n t)"
proof (induction s t n rule: mg_ncasecmp.induct)
  case (2 s t n)
  then obtain c s' d t' where st: "s = c # s'" "t = d # t'" by (metis Suc_le_length_iff)
  show ?case using 2 st by (auto simp: byte_at_def Let_def)
qed simp

lemma len_diff_eq_0: "m < 2 ^ 31 \<Longrightarrow> n < 2 ^ 31 \<Longrightarrow> len_diff m n = 0 \<longleftrightarrow> m = n"
  unfolding len_diff_def by (subst sint_32_id) auto

lemma length_cstr: "length (cstr t) \<le> length t"
  by (simp add: cstr_def length_takeWhile_le)

lemma take_cstr: "n \<le> length (cstr t) \<Longrightarrow> take n t = take n (cstr t)"
proof -
  assume n: "n \<le> length (cstr t)"
  have "cstr t = take (length (cstr t)) t" unfolding cstr_def by (rule takeWhile_eq_take)
  then have "take n (cstr t) = take n (take (length (cstr t)) t)" by simp
  then show ?thesis using n by (simp add: min_def)
qed

lemma mg_vcmp_eq_0:
  assumes "length s < 2 ^ 31" and "length (cstr t) < 2 ^ 31"
  shows "mg_vcmp s t = 0 \<longleftrightarrow> s = cstr t"
proof -
  let ?n = "min (length s) (length (cstr t))"
  note t = take_cstr [of ?n t, OF min.cobounded2]
  have "nul \<notin> set (take ?n t)" unfolding t using cstr_no_nul [of t] by (auto dest: in_set_takeD)
  then have r: "strncmp s t ?n = 0 \<longleftrightarrow> take ?n s = take ?n (cstr t)"
    using strncmp_eq_0 [of ?n s t] t length_cstr [of t] by simp
  have "take ?n s = take ?n (cstr t) \<and> length s = length (cstr t) \<longleftrightarrow> s = cstr t" by auto
  moreover have "mg_vcmp s t = 0 \<longleftrightarrow> strncmp s t ?n = 0 \<and> len_diff (length s) (length (cstr t)) = 0"
    unfolding mg_vcmp_def Let_def by (cases "strncmp s t ?n = 0") simp_all
  ultimately show ?thesis using r len_diff_eq_0 [OF assms] by blast
qed

lemma mg_vcasecmp_eq_0:
  assumes "length s < 2 ^ 31" and "length (cstr t) < 2 ^ 31"
  shows "mg_vcasecmp s t = 0 \<longleftrightarrow> map tolower s = map tolower (cstr t)"
proof -
  let ?n = "min (length s) (length (cstr t))"
  note t = take_cstr [of ?n t, OF min.cobounded2]
  have "nul \<notin> set (take ?n t)" unfolding t using cstr_no_nul [of t] by (auto dest: in_set_takeD)
  then have r: "mg_ncasecmp s t ?n = 0 \<longleftrightarrow> map tolower (take ?n s) = map tolower (take ?n (cstr t))"
    using mg_ncasecmp_eq_0 [of ?n s t] t length_cstr [of t] by simp
  have "map tolower (take ?n s) = map tolower (take ?n (cstr t)) \<and> length s = length (cstr t)
      \<longleftrightarrow> map tolower s = map tolower (cstr t)"
  proof (cases "length s = length (cstr t)")
    case False
    then show ?thesis using map_eq_imp_length_eq [of tolower s tolower "cstr t"] by blast
  qed simp
  moreover have "mg_vcasecmp s t = 0 \<longleftrightarrow> mg_ncasecmp s t ?n = 0 \<and> len_diff (length s) (length (cstr t)) = 0"
    unfolding mg_vcasecmp_def Let_def by (cases "mg_ncasecmp s t ?n = 0") simp_all
  ultimately show ?thesis using r len_diff_eq_0 [OF assms] by blast
qed

section \<open>Properties\<close>

text \<open>
  Every buffer operation keeps the buffer well formed, its length within its allocation, when
  the allocator gives blocks of the size asked for: resizing keeps the text; an insertion puts all
  of its bytes at the offset, or fails and changes nothing; and a removal drops that many bytes from
  the front, or none when there are fewer.
\<close>

theorem mbuf_operations_ok:
  assumes "allocates alloc" and "mb_ok a"
  shows "mb_ok (mbuf_resize alloc a n) \<and> mb_text (mbuf_resize alloc a n) = mb_text a
    \<and> (\<forall>k b. off \<le> mb_len a \<longrightarrow> mbuf_insert alloc addr a off (Some s) (length s) = (k, b) \<longrightarrow>
         mb_ok b \<and> (k = length s \<and> mb_text b = take off (mb_text a) @ s @ drop off (mb_text a)
           \<or> k = 0 \<and> b = a))
    \<and> mb_ok (mbuf_remove a n)
    \<and> mb_text (mbuf_remove a n) = (if n \<le> mb_len a then drop n (mb_text a) else mb_text a)"
  using mbuf_resize_ok [OF assms] mbuf_insert_ok [OF assms _ refl] mbuf_remove_ok [OF assms(2)] by blast

theorem mbuf_operations_ok_witness:
  "mb_text (snd (mbuf_insert (\<lambda>n. Some (replicate n nul)) 4096 \<lparr>mb_buf = ''adz'', mb_len = 2\<rparr> 1 (Some ''bc'') (length ''bc''))) = ''abcd''"
proof -
  let ?a = "\<lparr>mb_buf = ''adz'', mb_len = 2\<rparr>" and ?alloc = "\<lambda>n. Some (replicate n nul)"
  have ok: "allocates ?alloc" "mb_ok ?a" by (simp_all add: allocates_def mb_ok_def)
  obtain k b where kb: "mbuf_insert ?alloc 4096 ?a 1 (Some ''bc'') (length ''bc'') = (k, b)" by force
  have k: "k = 2" using kb by (simp add: mbuf_insert_def mb_realloc_def Let_def)
  note mbuf_operations_ok [OF ok, of 0 1 4096 "''bc''", THEN conjunct2, THEN conjunct2, THEN conjunct1, rule_format, OF _ kb]
  then have "mb_text b = ''abcd''" using k by (simp add: mb_text_def)
  then show ?thesis unfolding kb by simp
qed

end
