(* ===== verification/Mg_Http.thy ===== *)
theory Mg_Http
  imports Mg_Str
begin

text \<open>
  The HTTP parser of the embedded web server, \<open>src/src/mongoose.c\<close>: requests and responses
  with their headers, the bodies in chunks, URL-encoded text and form variables.

  A \<open>struct mg_str\<close> that points into the received bytes is an index into them, or NULL, and a
  length. Lengths are \<open>size_t\<close>: numbers modulo \<open>2 ^ 64\<close>.
\<close>

section \<open>Parts of a message\<close>

record mg_str =
  ms_p :: "nat option"
  ms_len :: nat

definition mg_null_str :: mg_str where
  "mg_null_str = \<lparr>ms_p = None, ms_len = 0\<rparr>"

definition ms_text :: "string \<Rightarrow> mg_str \<Rightarrow> string" where
  "ms_text mem m = (case ms_p m of None \<Rightarrow> [] | Some p \<Rightarrow> substr mem p (ms_len m))"

abbreviation (input) SIZE_MAX :: nat where "SIZE_MAX \<equiv> 2 ^ 64 - 1"
abbreviation (input) MG_HTTP_CONTENT_LENGTH_UNKNOWN :: nat where "MG_HTTP_CONTENT_LENGTH_UNKNOWN \<equiv> 2 ^ 64 - 1"
abbreviation (input) MG_MAX_HTTP_HEADERS :: nat where "MG_MAX_HTTP_HEADERS \<equiv> 40"

text \<open>The header names and values are those of the slots in use, which come first.\<close>

record http_message =
  hm_message :: mg_str
  hm_body :: mg_str
  hm_method :: mg_str
  hm_uri :: mg_str
  hm_proto :: mg_str
  hm_resp_code :: int
  hm_resp_status_msg :: mg_str
  hm_query_string :: mg_str
  hm_headers :: "(mg_str \<times> mg_str) list"
  hm_content_length :: nat

abbreviation CR :: char where "CR \<equiv> CHR 0x0D"

definition isprint :: "char \<Rightarrow> bool" where
  "isprint c \<longleftrightarrow> 32 \<le> (of_char c :: nat) \<and> (of_char c :: nat) \<le> 126"

text \<open>
  \<open>mg_skip\<close>: the text up to a delimiter, and the index behind the delimiters.
  \<open>strchr\<close> finds the terminating NUL too, so that a NUL counts as one.
\<close>

definition delim :: "string \<Rightarrow> char \<Rightarrow> bool" where
  "delim delims c \<longleftrightarrow> c \<in> set delims \<or> c = nul"

definition mg_skip :: "string \<Rightarrow> nat \<Rightarrow> nat \<Rightarrow> string \<Rightarrow> nat \<times> mg_str" where
  "mg_skip mem s e delims =
     (let l = length (takeWhile (\<lambda>c. \<not> delim delims c) (substr mem s (e - s)));
          d = length (takeWhile (delim delims) (substr mem (s + l) (e - (s + l))))
      in (s + l + d, \<lparr>ms_p = Some s, ms_len = l\<rparr>))"

section \<open>Requests and responses\<close>

text \<open>\<open>mg_http_get_request_len\<close>, on the bytes from index \<open>i\<close> on.\<close>

fun http_request_len :: "string \<Rightarrow> nat \<Rightarrow> int" where
  "http_request_len [] i = 0"
| "http_request_len (c # s) i =
     (if \<not> isprint c \<and> c \<noteq> CR \<and> c \<noteq> newline \<and> (of_char c :: nat) < 128 then - 1
      else if c = newline \<and> 1 \<le> length s \<and> s ! 0 = newline then int i + 2
      else if c = newline \<and> 2 \<le> length s \<and> s ! 0 = CR \<and> s ! 1 = newline then int i + 3
      else http_request_len s (Suc i))"

definition mg_http_get_request_len :: "string \<Rightarrow> int" where
  "mg_http_get_request_len buf = http_request_len buf 0"

text \<open>
  \<open>mg_http_parse_headers\<close>: the loop, with the slots filled so far. A header without a value is
  passed over; one whose name starts with \<open>Content-Length\<close> sets the lengths.
\<close>

definition trim_spaces :: "string \<Rightarrow> mg_str \<Rightarrow> mg_str" where
  "trim_spaces mem v = v\<lparr>ms_len := length (rev (dropWhile (\<lambda>c. c = CHR 0x20) (rev (ms_text mem v))))\<rparr>"

definition content_length :: "string \<Rightarrow> mg_str \<Rightarrow> nat" where
  "content_length mem v = nat (atoll (drop (case ms_p v of None \<Rightarrow> 0 | Some p \<Rightarrow> p) mem) mod 2 ^ 64)"

definition set_lengths :: "nat \<Rightarrow> nat \<Rightarrow> http_message \<Rightarrow> http_message" where
  "set_lengths len n req =
     req\<lparr>hm_body := (hm_body req)\<lparr>ms_len := n\<rparr>,
         hm_message := (hm_message req)\<lparr>ms_len := (len + n) mod 2 ^ 64\<rparr>,
         hm_content_length := n\<rparr>"

lemma mg_skip_parts:
  obtains l d where "mg_skip mem s e delims = (s + l + d, \<lparr>ms_p = Some s, ms_len = l\<rparr>)" "l \<le> e - s" "d \<le> e - (s + l)"
proof -
  let ?l = "length (takeWhile (\<lambda>c. \<not> delim delims c) (substr mem s (e - s)))"
  let ?d = "length (takeWhile (delim delims) (substr mem (s + ?l) (e - (s + ?l))))"
  have "?l \<le> e - s" by (rule le_trans [OF length_takeWhile_le]) simp
  moreover have "?d \<le> e - (s + ?l)" by (rule le_trans [OF length_takeWhile_le]) simp
  moreover have "mg_skip mem s e delims = (s + ?l + ?d, \<lparr>ms_p = Some s, ms_len = ?l\<rparr>)"
    by (simp add: mg_skip_def Let_def)
  ultimately show ?thesis by (rule that [rotated])
qed

lemma mg_skip_progress:
  assumes "mg_skip mem s e delims = (s', m)"
  shows "s \<le> s'" and "s < s' \<Longrightarrow> s' \<le> e" and "ms_p m = Some s" and "s + ms_len m \<le> s'" and "0 < ms_len m \<Longrightarrow> s < s'"
proof -
  obtain l d where "mg_skip mem s e delims = (s + l + d, \<lparr>ms_p = Some s, ms_len = l\<rparr>)" "l \<le> e - s" "d \<le> e - (s + l)"
    by (rule mg_skip_parts)
  then show "s \<le> s'" "s < s' \<Longrightarrow> s' \<le> e" "ms_p m = Some s" "s + ms_len m \<le> s'" "0 < ms_len m \<Longrightarrow> s < s'"
    using assms by auto
qed

function http_headers_loop :: "string \<Rightarrow> nat \<Rightarrow> nat \<Rightarrow> nat \<Rightarrow> http_message \<Rightarrow> nat \<times> http_message" where
  "http_headers_loop mem s e len req =
     (if length (hm_headers req) < MG_MAX_HTTP_HEADERS - 1
      then
        (let (s1, k) = mg_skip mem s e '': '';
             (s2, v0) = mg_skip mem s1 e [CR, newline];
             v = trim_spaces mem v0
         in if ms_len k \<noteq> 0 \<and> ms_len v = 0 then http_headers_loop mem s2 e len req
            else if ms_len k = 0 \<or> ms_len v = 0 then (s2, req)
            else
              (let req1 = (if mg_ncasecmp (drop s mem) ''Content-Length'' 14 = 0
                           then set_lengths len (content_length mem v) req else req)
               in http_headers_loop mem s2 e len (req1\<lparr>hm_headers := hm_headers req @ [(k, v)]\<rparr>)))
      else (s, req))"
  by pat_completeness auto
termination
proof (relation "measures [\<lambda>(mem, s, e, len, req). 40 - length (hm_headers req), \<lambda>(mem, s, e, len, req). e - s]",
    goal_cases)
  case (2 mem s e len req x s1 k y s2 v0 v)
  have k: "mg_skip mem s e '': '' = (s1, k)" and v: "mg_skip mem s1 e [CR, newline] = (s2, v0)"
    and "0 < ms_len k" using 2 by simp_all
  then have "s < s1" "s1 \<le> e" "s1 \<le> s2" using mg_skip_progress [OF k] mg_skip_progress [OF v] by simp_all
  then show ?case by simp
qed auto

declare http_headers_loop.simps [simp del]

definition mg_http_parse_headers :: "string \<Rightarrow> nat \<Rightarrow> nat \<Rightarrow> nat \<Rightarrow> http_message \<Rightarrow> nat \<times> http_message" where
  "mg_http_parse_headers mem s e len req =
     http_headers_loop mem s e len (req\<lparr>hm_content_length := MG_HTTP_CONTENT_LENGTH_UNKNOWN\<rparr>)"

text \<open>The message after \<open>memset\<close>, with the body behind the head of \<open>len\<close> bytes.\<close>

definition http_message_init :: "nat \<Rightarrow> http_message" where
  "http_message_init len =
     \<lparr>hm_message = \<lparr>ms_p = Some 0, ms_len = SIZE_MAX\<rparr>, hm_body = \<lparr>ms_p = Some len, ms_len = SIZE_MAX\<rparr>,
      hm_method = mg_null_str, hm_uri = mg_null_str, hm_proto = mg_null_str, hm_resp_code = 0,
      hm_resp_status_msg = mg_null_str, hm_query_string = mg_null_str, hm_headers = [],
      hm_content_length = 0\<rparr>"

text \<open>The request line; \<open>None\<close> when it has fewer than three parts.\<close>

definition http_request_line :: "string \<Rightarrow> nat \<Rightarrow> nat \<Rightarrow> http_message \<Rightarrow> (nat \<times> http_message) option" where
  "http_request_line mem s e hm =
     (let (s1, method) = mg_skip mem s e '' '';
          (s2, uri) = mg_skip mem s1 e '' '';
          (s3, proto) = mg_skip mem s2 e [CR, newline]
      in if s1 \<le> s \<or> s2 \<le> s1 then None
         else
           (let hm1 = hm\<lparr>hm_method := method, hm_proto := proto\<rparr>
            in Some (s3, case mg_strchr (ms_text mem uri) (CHR ''?'') of
                 None \<Rightarrow> hm1\<lparr>hm_uri := uri\<rparr>
               | Some q \<Rightarrow> hm1\<lparr>hm_uri := uri\<lparr>ms_len := q\<rparr>,
                              hm_query_string := \<lparr>ms_p = Some (s1 + q + 1), ms_len = ms_len uri - (q + 1)\<rparr>\<rparr>)))"

text \<open>The status line; \<open>None\<close> when it has no code from 100 to 599.\<close>

definition http_status_line :: "string \<Rightarrow> nat \<Rightarrow> nat \<Rightarrow> http_message \<Rightarrow> (nat \<times> http_message) option" where
  "http_status_line mem s e hm =
     (let (s1, proto) = mg_skip mem s e '' '';
          code = sint (word_of_int (atoll (drop s1 mem)) :: 32 word)
      in if e - s1 < 4 \<or> \<not> isdigit (byte_at mem s1) \<or> byte_at mem (s1 + 3) \<noteq> CHR 0x20 then None
         else if code < 100 \<or> code \<ge> 600 then None
         else
           (let (s2, msg) = mg_skip mem (s1 + 4) e [CR, newline]
            in Some (s2, hm\<lparr>hm_proto := proto, hm_resp_code := code, hm_resp_status_msg := msg\<rparr>)))"

text \<open>
  \<open>mg_parse_http\<close> on the bytes received: its result, and what it made of \<open>*hm\<close>, which it
  leaves as it was when the head is incomplete or malformed.
\<close>

definition mg_parse_http :: "string \<Rightarrow> bool \<Rightarrow> int \<times> http_message option" where
  "mg_parse_http mem is_req =
     (let rlen = mg_http_get_request_len mem
      in if rlen \<le> 0 then (rlen, None)
         else
           (let len = nat rlen;
                s = length (takeWhile isspace (take len mem));
                hm = http_message_init len
            in case (if is_req then http_request_line mem s len hm else http_status_line mem s len hm) of
                 None \<Rightarrow> (- 1, None)
               | Some (s1, hm1) \<Rightarrow>
                   (let hm2 = snd (mg_http_parse_headers mem s1 len len hm1);
                        method = ms_text mem (hm_method hm2)
                    in (rlen, Some
                         (if ms_len (hm_body hm2) = SIZE_MAX \<and> is_req \<and> mg_vcasecmp method ''PUT'' \<noteq> 0
                             \<and> mg_vcasecmp method ''POST'' \<noteq> 0
                          then hm2\<lparr>hm_body := (hm_body hm2)\<lparr>ms_len := 0\<rparr>,
                                  hm_message := (hm_message hm2)\<lparr>ms_len := len\<rparr>\<rparr>
                          else hm2)))))"

text \<open>\<open>mg_get_http_header\<close>: the value of the first header with the name.\<close>

definition mg_get_http_header :: "string \<Rightarrow> http_message \<Rightarrow> string \<Rightarrow> mg_str option" where
  "mg_get_http_header mem hm name =
     map_option snd (find (\<lambda>(k, v). ms_p k \<noteq> None \<and> ms_len k = length (cstr name)
       \<and> mg_ncasecmp (ms_text mem k) name (length (cstr name)) = 0)
       (takeWhile (\<lambda>(k, v). 0 < ms_len k) (hm_headers hm)))"

section \<open>Bodies in chunks\<close>

definition isxdigit :: "char \<Rightarrow> bool" where
  "isxdigit c \<longleftrightarrow> c \<in> set ''0123456789abcdefABCDEF''"

text \<open>The size of a chunk: how many digits it has and its value; at most six digits.\<close>

fun chunk_digits :: "string \<Rightarrow> nat \<Rightarrow> nat \<Rightarrow> (nat \<times> nat) option" where
  "chunk_digits (c # s) i n =
     (if isxdigit c then if Suc i > 6 then None else chunk_digits s (Suc i) (n * 16 + fourbit c)
      else Some (i, n))"
| "chunk_digits [] i n = Some (i, n)"

text \<open>
  \<open>mg_http_parse_chunk\<close>: the length of the first chunk of \<open>buf\<close>, and where in it its
  data are and how long; \<open>None\<close> when it returns 0.
\<close>

definition mg_http_parse_chunk :: "string \<Rightarrow> (nat \<times> nat \<times> nat) option" where
  "mg_http_parse_chunk buf =
     (case chunk_digits buf 0 0 of
        None \<Rightarrow> None
      | Some (i, n) \<Rightarrow>
          if i = 0 \<or> i + 2 > length buf \<or> buf ! i \<noteq> CR \<or> buf ! (i + 1) \<noteq> newline then None
          else
            (let j = i + 2 + n
             in if j + 2 > length buf \<or> buf ! j \<noteq> CR \<or> buf ! (j + 1) \<noteq> newline then None
                else Some (j + 2, i + 2, n)))"

definition memmove :: "string \<Rightarrow> nat \<Rightarrow> nat \<Rightarrow> nat \<Rightarrow> string" where
  "memmove buf dst src n =
     map (\<lambda>j. if dst \<le> j \<and> j < dst + n then byte_at buf (src + (j - dst)) else buf ! j) [0 ..< length buf]"

lemma parse_chunk_bounds:
  assumes "mg_http_parse_chunk buf = Some (n, off, k)"
  shows "0 < n" and "n \<le> length buf" and "off + k + 2 = n" and "0 < off"
  using assms by (auto simp: mg_http_parse_chunk_def Let_def split: option.splits if_splits)

lemma length_memmove [simp]: "length (memmove buf dst src n) = length buf"
  by (simp add: memmove_def)

text \<open>
  The loop of \<open>mg_handle_chunked\<close>: the bytes, how far the chunks have been read, how many
  bytes of body they gave, and whether the last one was empty.
\<close>

function chunk_loop :: "string \<Rightarrow> nat \<Rightarrow> nat \<Rightarrow> string \<times> nat \<times> nat \<times> bool" where
  "chunk_loop buf i body_len =
     (case mg_http_parse_chunk (drop i buf) of
        None \<Rightarrow> (buf, i, body_len, False)
      | Some (n, off, data_len) \<Rightarrow>
          (let buf1 = memmove buf body_len (i + off) data_len
           in if data_len = 0 then (buf1, i + n, body_len, True)
              else chunk_loop buf1 (i + n) (body_len + data_len)))"
  by pat_completeness auto
termination
proof (relation "measure (\<lambda>(buf, i, body_len). length buf - i)", goal_cases)
  case (2 buf i body_len x n y off data_len buf1)
  then have "0 < n" "n \<le> length (drop i buf)" using parse_chunk_bounds [of "drop i buf" n off data_len] by simp_all
  then show ?case using 2 by simp
qed simp

declare chunk_loop.simps [simp del]

text \<open>
  \<open>mg_handle_chunked\<close> on the bytes behind the head: the body length it returns, the one it
  stores, the bytes left in the buffer, the message, and whether the handler was called with
  \<open>MG_EV_HTTP_CHUNK\<close>; \<open>delete_chunk\<close> says whether that sets \<open>MG_F_DELETE_CHUNK\<close>, and
  \<open>req_len\<close> is the length of the head.
\<close>

record chunk_result =
  cr_body_len :: nat
  cr_pd_body_len :: nat
  cr_buf :: string
  cr_message :: http_message
  cr_event :: bool

definition mg_handle_chunked :: "bool \<Rightarrow> nat \<Rightarrow> string \<Rightarrow> nat \<Rightarrow> http_message \<Rightarrow> chunk_result" where
  "mg_handle_chunked delete_chunk req_len buf pd_body_len hm =
     (case chunk_loop buf pd_body_len pd_body_len of (buf1, i, body_len, zero_chunk_received) \<Rightarrow>
        let hm1 = (if i > pd_body_len then hm\<lparr>hm_body := (hm_body hm)\<lparr>ms_len := body_len\<rparr>\<rparr> else hm);
            pd_body_len1 = (if i > body_len then if delete_chunk then 0 else body_len else pd_body_len);
            buf2 = (if i > body_len then (if delete_chunk then [] else take body_len buf1) @ drop i buf1 else buf1);
            hm2 = (if i > body_len \<and> delete_chunk then hm1\<lparr>hm_body := (hm_body hm1)\<lparr>ms_len := 0\<rparr>\<rparr> else hm1);
            hm3 = (if i > body_len \<and> zero_chunk_received
                   then hm2\<lparr>hm_message := (hm_message hm2)\<lparr>ms_len := pd_body_len1 + length buf - i + req_len\<rparr>\<rparr>
                   else hm2)
        in \<lparr>cr_body_len = body_len, cr_pd_body_len = pd_body_len1, cr_buf = buf2, cr_message = hm3,
            cr_event = (i > body_len)\<rparr>)"

section \<open>URL-encoded text\<close>

text \<open>
  \<open>mg_url_decode\<close> with room for \<open>room\<close> bytes and the NUL; \<open>None\<close> stands for -1, a
  malformed text or one that does not fit.
\<close>

fun url_decode :: "bool \<Rightarrow> string \<Rightarrow> nat \<Rightarrow> string option" where
  "url_decode form [] room = Some []"
| "url_decode form (c # s) 0 = None"
| "url_decode form (c # s) (Suc room) =
     (if c = CHR ''%'' then
        (case s of
           x # y # t \<Rightarrow>
             if isxdigit x \<and> isxdigit y
             then map_option ((#) (char_of (fourbit x * 16 + fourbit y))) (url_decode form t room) else None
         | _ \<Rightarrow> None)
      else map_option ((#) (if form \<and> c = CHR ''+'' then CHR 0x20 else c)) (url_decode form s room))"

definition mg_url_decode :: "string \<Rightarrow> nat \<Rightarrow> bool \<Rightarrow> string option" where
  "mg_url_decode src dst_len is_form_url_encoded =
     url_decode is_form_url_encoded src (dst_len - 1)"

text \<open>
  \<open>mg_get_http_var\<close>: the index of the value of a variable, and the codes with the decoded
  value. What \<open>dst\<close> holds after a failed decoding is not modelled.
\<close>

function http_var_find :: "string \<Rightarrow> string \<Rightarrow> nat \<Rightarrow> nat option" where
  "http_var_find buf name p =
     (if p + length name < length buf
      then if (p = 0 \<or> buf ! (p - 1) = CHR ''&'') \<and> buf ! (p + length name) = CHR ''=''
             \<and> mg_ncasecmp name (drop p buf) (length name) = 0
           then Some (p + length name + 1) else http_var_find buf name (Suc p)
      else None)"
  by pat_completeness auto
termination
  by (relation "measure (\<lambda>(buf, name, p). length buf - p)") auto

declare http_var_find.simps [simp del]

definition mg_get_http_var :: "string \<Rightarrow> string option \<Rightarrow> nat option \<Rightarrow> int \<times> string" where
  "mg_get_http_var buf name dst =
     (case dst of
        None \<Rightarrow> (- 2, [])
      | Some dst_len \<Rightarrow>
          if dst_len = 0 then (- 2, [])
          else
            (case name of
               None \<Rightarrow> (- 1, [])
             | Some nm \<Rightarrow>
                 if buf = [] then (- 1, [])
                 else
                   (case http_var_find buf (cstr nm) 0 of
                      None \<Rightarrow> (- 4, [])
                    | Some p \<Rightarrow>
                        (case mg_url_decode (takeWhile (\<lambda>c. c \<noteq> CHR ''&'') (drop p buf)) dst_len True of
                           None \<Rightarrow> (- 3, []) | Some v \<Rightarrow> (int (length v), v)))))"

section \<open>Where the parts of a message are\<close>

text \<open>A part that is NULL or lies in the first \<open>e\<close> bytes.\<close>

definition ms_inside :: "nat \<Rightarrow> mg_str \<Rightarrow> bool" where
  "ms_inside e m \<longleftrightarrow> (case ms_p m of None \<Rightarrow> ms_len m = 0 | Some p \<Rightarrow> p + ms_len m \<le> e)"

definition head_inside :: "nat \<Rightarrow> http_message \<Rightarrow> bool" where
  "head_inside e hm \<longleftrightarrow> ms_inside e (hm_method hm) \<and> ms_inside e (hm_uri hm) \<and> ms_inside e (hm_proto hm)
     \<and> ms_inside e (hm_query_string hm) \<and> ms_inside e (hm_resp_status_msg hm)"

definition headers_inside :: "nat \<Rightarrow> http_message \<Rightarrow> bool" where
  "headers_inside e hm \<longleftrightarrow> length (hm_headers hm) \<le> MG_MAX_HTTP_HEADERS - 1
     \<and> (\<forall>(k, v) \<in> set (hm_headers hm). ms_inside e k \<and> ms_inside e v \<and> 0 < ms_len k \<and> 0 < ms_len v)"

lemma request_len_bounds: "0 < http_request_len s i \<Longrightarrow> http_request_len s i \<le> int (i + length s)"
proof (induction s i rule: http_request_len.induct)
  case (2 c s i)
  then show ?case by (auto split: if_splits)
qed simp

lemma mg_skip_inside:
  assumes "mg_skip mem s e delims = (s', m)" and "s \<le> e"
  shows "s' \<le> e" and "ms_inside e m"
proof -
  show s': "s' \<le> e" using mg_skip_progress [OF assms(1)] assms(2) by (cases "s < s'") auto
  then show "ms_inside e m" using mg_skip_progress [OF assms(1)] by (simp add: ms_inside_def)
qed

lemma trim_spaces_inside: "ms_inside e v \<Longrightarrow> ms_inside e (trim_spaces mem v)"
proof -
  have "length (rev (dropWhile (\<lambda>c. c = CHR 0x20) (rev (ms_text mem v)))) \<le> ms_len v"
    using le_trans [OF length_dropWhile_le [of "\<lambda>c. c = CHR 0x20" "rev (ms_text mem v)"]]
    by (simp add: ms_text_def split: option.split)
  then show "ms_inside e v \<Longrightarrow> ?thesis" by (auto simp: trim_spaces_def ms_inside_def split: option.splits)
qed

lemma set_lengths_same [simp]:
  "head_inside e (set_lengths len n req) = head_inside e req" "hm_headers (set_lengths len n req) = hm_headers req"
  by (simp_all add: set_lengths_def head_inside_def)

lemma http_headers_loop_inside:
  "s \<le> e \<Longrightarrow> headers_inside e req \<Longrightarrow> head_inside e req \<Longrightarrow> http_headers_loop mem s e len req = (s', req') \<Longrightarrow>
     headers_inside e req' \<and> head_inside e req'"
proof (induction mem s e len req rule: http_headers_loop.induct)
  case (1 mem s e len req)
  note loop = http_headers_loop.simps [of mem s e len req]
  show ?case
  proof (cases "length (hm_headers req) < MG_MAX_HTTP_HEADERS - 1")
    case False
    then show ?thesis using "1.prems" loop by simp
  next
    case True
    obtain s1 k where k: "mg_skip mem s e '': '' = (s1, k)" by force
    obtain s2 v0 where v0: "mg_skip mem s1 e [CR, newline] = (s2, v0)" by force
    let ?v = "trim_spaces mem v0"
    note ik = mg_skip_inside [OF k "1.prems"(1)]
    note iv = mg_skip_inside [OF v0 ik(1)]
    note IH = "1.IH" [OF True k [symmetric] refl v0 [symmetric] refl refl]
    show ?thesis
    proof (cases "ms_len k \<noteq> 0 \<and> ms_len ?v = 0")
      case empty: True
      then show ?thesis using IH(1) [OF empty iv(1) "1.prems"(2,3)] "1.prems"(4) True k v0 loop by simp
    next
      case nonempty: False
      show ?thesis
      proof (cases "ms_len k = 0 \<or> ms_len ?v = 0")
        case last: True
        then have "req' = req" using "1.prems"(4) True k v0 nonempty loop by (simp add: Let_def split: if_splits)
        then show ?thesis using "1.prems" by simp
      next
        case more: False
        let ?req1 = "if mg_ncasecmp (drop s mem) ''Content-Length'' 14 = 0
          then set_lengths len (content_length mem ?v) req else req"
        let ?req2 = "?req1\<lparr>hm_headers := hm_headers req @ [(k, ?v)]\<rparr>"
        have "headers_inside e ?req2"
          using "1.prems"(2) True more ik(2) trim_spaces_inside [OF iv(2)] by (auto simp: headers_inside_def)
        moreover have "head_inside e ?req2" using "1.prems"(3) by (simp add: head_inside_def set_lengths_def)
        moreover have "http_headers_loop mem s2 e len ?req2 = (s', req')"
          using "1.prems"(4) True k v0 nonempty more loop by (simp add: Let_def)
        ultimately show ?thesis using IH(2) [OF nonempty more refl iv(1)] by blast
      qed
    qed
  qed
qed

lemma http_line_inside:
  assumes "s \<le> e" and "head_inside e hm" and "headers_inside e hm"
    and "(if is_req then http_request_line mem s e hm else http_status_line mem s e hm) = Some (s', hm')"
  shows "s' \<le> e \<and> head_inside e hm' \<and> headers_inside e hm'"
proof (cases is_req)
  case True
  obtain s1 m where m: "mg_skip mem s e '' '' = (s1, m)" by force
  obtain s2 u where u: "mg_skip mem s1 e '' '' = (s2, u)" by force
  obtain s3 pr where pr: "mg_skip mem s2 e [CR, newline] = (s3, pr)" by force
  note im = mg_skip_inside [OF m assms(1)]
  note iu = mg_skip_inside [OF u im(1)]
  note ipr = mg_skip_inside [OF pr iu(1)]
  have up: "ms_p u = Some s1" using mg_skip_progress [OF u] by simp
  have q: "ms_inside e \<lparr>ms_p = Some (s1 + i + 1), ms_len = ms_len u - (i + 1)\<rparr> \<and> ms_inside e (u\<lparr>ms_len := i\<rparr>)"
    if "mg_strchr (ms_text mem u) (CHR ''?'') = Some i" for i
  proof -
    have "i < length (ms_text mem u)" using mg_strchr_less [OF that] by simp
    then have "i < ms_len u" using up by (simp add: ms_text_def)
    then show ?thesis using iu(2) up by (simp add: ms_inside_def)
  qed
  show ?thesis
    using True assms(2-4) im iu ipr q
    by (auto simp: http_request_line_def m u pr Let_def head_inside_def headers_inside_def split: if_splits option.splits)
next
  case False
  obtain s1 pr where pr: "mg_skip mem s e '' '' = (s1, pr)" by force
  obtain s2 m where m: "mg_skip mem (s1 + 4) e [CR, newline] = (s2, m)" by force
  note ipr = mg_skip_inside [OF pr assms(1)]
  have "\<not> e - s1 < 4" using False assms(4) by (auto simp: http_status_line_def pr m Let_def split: if_splits)
  then have "s1 + 4 \<le> e" by simp
  note im = mg_skip_inside [OF m this]
  show ?thesis
    using False assms(2-4) ipr im
    by (auto simp: http_status_line_def pr m Let_def head_inside_def headers_inside_def split: if_splits)
qed

lemma mg_parse_http_inside:
  assumes "mg_parse_http mem is_req = (r, Some hm)"
  shows "0 < r \<and> r \<le> int (length mem) \<and> head_inside (nat r) hm \<and> headers_inside (nat r) hm"
proof -
  have pos: "0 < mg_http_get_request_len mem"
    using assms by (auto simp: mg_parse_http_def Let_def split: if_splits)
  let ?len = "nat (mg_http_get_request_len mem)"
  let ?s = "length (takeWhile isspace (take ?len mem))"
  let ?line = "if is_req then http_request_line mem ?s ?len (http_message_init ?len)
    else http_status_line mem ?s ?len (http_message_init ?len)"
  obtain s1 hm1 where line: "?line = Some (s1, hm1)"
    using assms pos by (cases ?line) (simp_all add: mg_parse_http_def Let_def del: if_split_asm split: prod.splits)
  obtain s2 hm2 where hdrs: "mg_http_parse_headers mem s1 ?len ?len hm1 = (s2, hm2)" by force
  have r: "r = mg_http_get_request_len mem"
    and hm: "hm = hm2 \<or> hm = hm2\<lparr>hm_body := (hm_body hm2)\<lparr>ms_len := 0\<rparr>, hm_message := (hm_message hm2)\<lparr>ms_len := ?len\<rparr>\<rparr>"
    using assms pos line hdrs by (auto simp: mg_parse_http_def Let_def split: if_splits)
  have len: "mg_http_get_request_len mem \<le> int (length mem)"
    using request_len_bounds [of mem 0] pos by (simp add: mg_http_get_request_len_def)
  have "?s \<le> ?len" by (rule le_trans [OF length_takeWhile_le]) simp
  moreover have "head_inside ?len (http_message_init ?len)" "headers_inside ?len (http_message_init ?len)"
    by (simp_all add: http_message_init_def head_inside_def headers_inside_def mg_null_str_def ms_inside_def)
  ultimately have l: "s1 \<le> ?len" "head_inside ?len hm1" "headers_inside ?len hm1"
    using http_line_inside [OF _ _ _ line] by blast+
  have "headers_inside ?len hm2 \<and> head_inside ?len hm2"
    using hdrs l unfolding mg_http_parse_headers_def
    by (intro http_headers_loop_inside [OF l(1)]) (simp_all add: head_inside_def headers_inside_def)
  then show ?thesis using r hm pos len by (auto simp: head_inside_def headers_inside_def)
qed

section \<open>Requests as they are written\<close>

abbreviation CRLF :: string where "CRLF \<equiv> [CR, newline]"

fun headers_text :: "(string \<times> string) list \<Rightarrow> string" where
  "headers_text [] = []"
| "headers_text ((k, v) # hs) = k @ '': '' @ v @ (if hs = [] then CRLF @ CRLF else CRLF) @ headers_text hs"

definition request_text :: "string \<Rightarrow> string \<Rightarrow> string \<Rightarrow> (string \<times> string) list \<Rightarrow> string" where
  "request_text method uri proto hs =
     method @ '' '' @ uri @ '' '' @ proto @ (if hs = [] then CRLF @ CRLF else CRLF) @ headers_text hs"

text \<open>A printable word without some characters; a header as it can be read back.\<close>

definition word_ok :: "string \<Rightarrow> string \<Rightarrow> bool" where
  "word_ok excl w \<longleftrightarrow> w \<noteq> [] \<and> (\<forall>c \<in> set w. isprint c \<and> c \<notin> set excl)"

definition header_ok :: "string \<times> string \<Rightarrow> bool" where
  "header_ok h \<longleftrightarrow> word_ok '': '' (fst h) \<and> word_ok [] (snd h) \<and> hd (snd h) \<notin> set '': '' \<and> last (snd h) \<noteq> CHR 0x20"

lemma isprint_other: "isprint c \<Longrightarrow> c \<noteq> nul \<and> c \<noteq> CR \<and> c \<noteq> newline"
  by (auto simp: isprint_def)

lemma isprint_isspace: "isprint c \<Longrightarrow> isspace c \<longleftrightarrow> c = CHR 0x20"
  by (auto simp: isspace_def isprint_def)

lemma mg_skip_at:
  assumes "mem = pre @ w @ ds @ rest @ post" and "s = length pre" and "e = length (pre @ w @ ds @ rest)"
    and "\<forall>c \<in> set w. \<not> delim delims c" and "\<forall>c \<in> set ds. delim delims c"
    and "ds \<noteq> [] \<or> rest = []" and "rest = [] \<or> \<not> delim delims (hd rest)"
  shows "mg_skip mem s e delims = (length (pre @ w @ ds), \<lparr>ms_p = Some s, ms_len = length w\<rparr>)"
proof -
  have a: "substr mem s (e - s) = w @ ds @ rest" using assms(1-3) by (simp add: substr_def)
  have l: "takeWhile (\<lambda>c. \<not> delim delims c) (w @ ds @ rest) = w"
  proof (cases ds)
    case Nil
    then show ?thesis using assms(4,6) by (simp add: takeWhile_eq_all_conv)
  next
    case (Cons d ds')
    then show ?thesis using assms(4,5) by (simp add: takeWhile_append2)
  qed
  have b: "substr mem (s + length w) (e - (s + length w)) = ds @ rest" using assms(1-3) by (simp add: substr_def)
  have d: "takeWhile (delim delims) (ds @ rest) = ds"
    using assms(5,7) by (cases rest) (simp_all add: takeWhile_append2 takeWhile_eq_all_conv)
  show ?thesis unfolding mg_skip_def a l b d Let_def using assms(2) by simp
qed

lemma delim_word:
  "word_ok excl w \<Longrightarrow> set delims \<subseteq> set excl \<union> {CR, newline} \<Longrightarrow> \<forall>c \<in> set w. \<not> delim delims c"
  using isprint_other by (fastforce simp: word_ok_def delim_def)

lemma ms_text_at: "mem = pre @ w @ rest \<Longrightarrow> ms_text mem \<lparr>ms_p = Some (length pre), ms_len = length w\<rparr> = w"
  by (simp add: ms_text_def substr_def)

text \<open>The head is as long as the text: no line in it is empty but the last.\<close>

lemma request_len_word:
  "\<forall>c \<in> set w. isprint c \<Longrightarrow> http_request_len (w @ s) i = http_request_len s (i + length w)"
proof (induction w arbitrary: i)
  case (Cons c w)
  then have "isprint c" "c \<noteq> newline" using isprint_other [of c] by auto
  then show ?case using Cons by simp
qed simp

lemma request_len_crlf:
  "isprint c \<Longrightarrow> http_request_len (CRLF @ c # s) i = http_request_len (c # s) (i + 2)"
  using isprint_other [of c] by simp

lemma request_len_end: "http_request_len (CRLF @ CRLF @ s) i = int i + 4"
  by simp

lemma request_len_headers:
  "\<forall>h \<in> set hs. header_ok h \<Longrightarrow>
     http_request_len ((if hs = [] then CRLF @ CRLF else CRLF) @ headers_text hs @ body) i
       = int (i + length ((if hs = [] then CRLF @ CRLF else CRLF) @ headers_text hs))"
proof (induction hs arbitrary: i)
  case Nil
  then show ?case by simp
next
  case (Cons h hs)
  obtain k v where h: "h = (k, v)" by force
  have ok: "word_ok '': '' k" "word_ok [] v" using Cons.prems h by (simp_all add: header_ok_def)
  then obtain c k' where k: "k = c # k'" "isprint c" by (cases k) (auto simp: word_ok_def)
  have pr: "\<forall>c \<in> set (k @ '': '' @ v). isprint c" using ok by (auto simp: word_ok_def isprint_def)
  have "http_request_len (CRLF @ k @ '': '' @ v @ (if hs = [] then CRLF @ CRLF else CRLF) @ headers_text hs @ body) i
      = http_request_len ((k @ '': '' @ v) @ (if hs = [] then CRLF @ CRLF else CRLF) @ headers_text hs @ body) (i + 2)"
    using request_len_crlf [OF k(2), of "k' @ '': '' @ v @ (if hs = [] then CRLF @ CRLF else CRLF) @ headers_text hs @ body" i]
    by (simp add: k(1))
  also have "\<dots> = http_request_len ((if hs = [] then CRLF @ CRLF else CRLF) @ headers_text hs @ body)
      (i + 2 + length (k @ '': '' @ v))"
    by (rule request_len_word [OF pr])
  also have "\<dots> = int (i + 2 + length (k @ '': '' @ v)
      + length ((if hs = [] then CRLF @ CRLF else CRLF) @ headers_text hs))"
    using Cons by simp
  finally show ?case using h by simp
qed

lemma request_len_text:
  assumes "word_ok '' '' method" and "word_ok '' '' uri" and "word_ok [] proto" and "\<forall>h \<in> set hs. header_ok h"
  shows "mg_http_get_request_len (request_text method uri proto hs @ body) = int (length (request_text method uri proto hs))"
proof -
  have pr: "\<forall>c \<in> set (method @ '' '' @ uri @ '' '' @ proto). isprint c"
    using assms(1-3) by (auto simp: word_ok_def isprint_def)
  show ?thesis
    using request_len_word [OF pr, of "(if hs = [] then CRLF @ CRLF else CRLF) @ headers_text hs @ body" 0]
      request_len_headers [OF assms(4), of body "length (method @ '' '' @ uri @ '' '' @ proto)"]
    by (simp add: mg_http_get_request_len_def request_text_def)
qed

section \<open>Reading a request back\<close>

lemma of_char_eq_0: "(of_char c :: int) = 0 \<longleftrightarrow> c = nul"
  using of_char_eq_iff [of c nul, where 'a = int] by simp

lemma ncasecmp_eq_0:
  "nul \<notin> set t \<Longrightarrow> mg_ncasecmp s t (length t) = 0 \<longleftrightarrow> map tolower (take (length t) s) = map tolower t"
proof (induction t arbitrary: s)
  case (Cons d t)
  show ?case
  proof (cases s)
    case Nil
    then show ?thesis using Cons.prems by (auto simp: byte_at_def Let_def of_char_eq_0)
  next
    case (Cons c s')
    then show ?thesis using Cons.prems Cons.IH [of s'] by (auto simp: byte_at_def Let_def)
  qed
qed simp

text \<open>The names that are taken for \<open>Content-Length\<close>.\<close>

definition cl_header :: "string \<Rightarrow> bool" where
  "cl_header k \<longleftrightarrow> map tolower (take 14 k) = map tolower ''Content-Length''"

lemma cl_header_cmp: "mg_ncasecmp (k @ '': '' @ s) ''Content-Length'' 14 = 0 \<longleftrightarrow> cl_header k"
proof -
  have len: "length ''Content-Length'' = 14" by simp
  have cmp: "mg_ncasecmp (k @ '': '' @ s) ''Content-Length'' 14 = 0
      \<longleftrightarrow> map tolower (take 14 (k @ '': '' @ s)) = map tolower ''Content-Length''"
    unfolding len [symmetric] by (rule ncasecmp_eq_0) simp
  show ?thesis
  proof (cases "14 \<le> length k")
    case True
    then have "take 14 (k @ '': '' @ s) = take 14 k" by simp
    then show ?thesis unfolding cmp cl_header_def by (simp only:)
  next
    case False
    have "CHR '':'' \<in> set (take 14 (k @ '': '' @ s))" using False by (cases "14 - length k") auto
    then have "tolower (CHR '':'') \<in> set (map tolower (take 14 (k @ '': '' @ s)))" unfolding set_map by blast
    moreover have "tolower (CHR '':'') \<notin> set (map tolower ''Content-Length'')" by code_simp
    ultimately have "map tolower (take 14 (k @ '': '' @ s)) \<noteq> map tolower ''Content-Length''" by metis
    moreover have "length (map tolower (take 14 k)) \<noteq> length (map tolower ''Content-Length'')" using False by simp
    ultimately show ?thesis unfolding cmp cl_header_def by metis
  qed
qed

lemma digits_val_stop: "digits_val acc (s @ CR # t) = digits_val acc s"
  by (induction s arbitrary: acc) (simp_all add: isdigit_def)

lemma atoll_stop:
  assumes "s \<noteq> []" and "\<not> isspace (hd s)"
  shows "atoll (s @ CR # t) = atoll s"
proof -
  obtain c s' where s: "s = c # s'" using assms(1) by (cases s) auto
  have "dropWhile isspace (s @ CR # t) = s @ CR # t" "dropWhile isspace s = s" using assms(2) s by simp_all
  then show ?thesis
    using s digits_val_stop [of _ s' t] digits_val_stop [of _ "c # s'" t] by (simp add: atoll_def parse_int_def Let_def byte_at_def)
qed

text \<open>The lengths the headers set, one after the other.\<close>

definition header_length :: "(string \<times> string) list \<Rightarrow> nat \<Rightarrow> nat" where
  "header_length hs n = fold (\<lambda>(k, v) n. if cl_header k then nat (atoll v mod 2 ^ 64) else n) hs n"

definition same_line :: "http_message \<Rightarrow> http_message \<Rightarrow> bool" where
  "same_line a b \<longleftrightarrow> hm_method a = hm_method b \<and> hm_uri a = hm_uri b \<and> hm_proto a = hm_proto b
     \<and> hm_query_string a = hm_query_string b \<and> ms_p (hm_body a) = ms_p (hm_body b)"

definition header_texts :: "string \<Rightarrow> http_message \<Rightarrow> (string \<times> string) list" where
  "header_texts mem hm = map (\<lambda>(k, v). (ms_text mem k, ms_text mem v)) (hm_headers hm)"

lemma word_hd: "word_ok excl w \<Longrightarrow> isprint (hd w)"
  by (cases w) (auto simp: word_ok_def)

lemma trim_spaces_at:
  assumes "mem = pre @ v @ rest" and "word_ok [] v" and "last v \<noteq> CHR 0x20"
  shows "trim_spaces mem \<lparr>ms_p = Some (length pre), ms_len = length v\<rparr> = \<lparr>ms_p = Some (length pre), ms_len = length v\<rparr>"
proof -
  have "v \<noteq> []" using assms(2) by (simp add: word_ok_def)
  then have "dropWhile (\<lambda>c. c = CHR 0x20) (rev v) = rev v" using assms(3) by (cases v rule: rev_cases) auto
  then show ?thesis by (simp add: trim_spaces_def ms_text_at [OF assms(1)])
qed

lemma http_headers_loop_last:
  "length (hm_headers req) \<le> 39 \<Longrightarrow> http_headers_loop mem e e len req = (e, req)"
proof -
  assume "length (hm_headers req) \<le> 39"
  have skip: "mg_skip mem e e d = (e, \<lparr>ms_p = Some e, ms_len = 0\<rparr>)" for d by (simp add: mg_skip_def)
  show ?thesis
    by (subst http_headers_loop.simps) (simp add: skip trim_spaces_def ms_text_def)
qed

lemma headers_text_hd:
  assumes "\<forall>h \<in> set hs. header_ok h"
  shows "headers_text hs = [] \<or> \<not> delim CRLF (hd (headers_text hs))"
proof (cases hs)
  case (Cons h' hs')
  obtain k' v' where h': "h' = (k', v')" by force
  then have k': "word_ok '': '' k'" using assms Cons by (simp add: header_ok_def)
  then have "hd (headers_text hs) = hd k'" using Cons h' by (simp add: word_ok_def)
  then show ?thesis using isprint_other [OF word_hd [OF k']] by (simp add: delim_def)
qed simp

lemma http_headers_read:
  "mem = pre @ headers_text hs @ body \<Longrightarrow> e = length (pre @ headers_text hs) \<Longrightarrow> \<forall>h \<in> set hs. header_ok h
   \<Longrightarrow> length (hm_headers req) + length hs \<le> 39 \<Longrightarrow>
   \<exists>req'. http_headers_loop mem (length pre) e len req = (e, req') \<and> header_texts mem req' = header_texts mem req @ hs
     \<and> same_line req' req \<and> hm_content_length req' = header_length hs (hm_content_length req)
     \<and> ms_len (hm_body req') = header_length hs (ms_len (hm_body req))"
proof (induction hs arbitrary: pre req)
  case Nil
  then show ?case by (simp add: http_headers_loop_last header_length_def same_line_def)
next
  case (Cons h hs)
  obtain k v where h: "h = (k, v)" by force
  let ?fin = "if hs = [] then CRLF @ CRLF else CRLF"
  have ok: "word_ok '': '' k" "word_ok [] v" "hd v \<notin> set '': ''" "last v \<noteq> CHR 0x20"
    using Cons.prems(3) h by (simp_all add: header_ok_def)
  have hd_v: "\<not> delim '': '' (hd v)" using ok(2,3) isprint_other [OF word_hd [OF ok(2)]] by (simp add: delim_def)
  have mem: "mem = pre @ k @ '': '' @ (v @ ?fin @ headers_text hs) @ body" using Cons.prems(1) h by simp
  have e: "e = length (pre @ k @ '': '' @ v @ ?fin @ headers_text hs)" using Cons.prems(2) h by simp
  have skip_k: "mg_skip mem (length pre) e '': '' = (length (pre @ k @ '': ''), \<lparr>ms_p = Some (length pre), ms_len = length k\<rparr>)"
    using ok(2) hd_v delim_word [OF ok(1), of "'': ''"]
    by (intro mg_skip_at [OF mem refl]) (auto simp: e delim_def word_ok_def)
  let ?pre = "pre @ k @ '': ''"
  have mem2: "mem = ?pre @ v @ ?fin @ headers_text hs @ body" using mem by simp
  have nxt: "headers_text hs = [] \<or> \<not> delim CRLF (hd (headers_text hs))"
    using Cons.prems(3) by (intro headers_text_hd) simp
  have skip_v: "mg_skip mem (length ?pre) e CRLF = (length (?pre @ v @ ?fin), \<lparr>ms_p = Some (length ?pre), ms_len = length v\<rparr>)"
    using nxt delim_word [OF ok(2), of CRLF]
    by (intro mg_skip_at [OF mem2 refl]) (auto simp: e delim_def)
  have trim: "trim_spaces mem \<lparr>ms_p = Some (length ?pre), ms_len = length v\<rparr> = \<lparr>ms_p = Some (length ?pre), ms_len = length v\<rparr>"
    by (rule trim_spaces_at [OF mem2 ok(2,4)])
  let ?k = "\<lparr>ms_p = Some (length pre), ms_len = length k\<rparr>" and ?v = "\<lparr>ms_p = Some (length ?pre), ms_len = length v\<rparr>"
  let ?n = "nat (atoll v mod 2 ^ 64)"
  let ?req = "(if cl_header k then set_lengths len ?n req else req)\<lparr>hm_headers := hm_headers req @ [(?k, ?v)]\<rparr>"
  have "drop (length pre) mem = k @ '': '' @ v @ ?fin @ headers_text hs @ body" using mem by simp
  then have cl: "mg_ncasecmp (drop (length pre) mem) ''Content-Length'' 14 = 0 \<longleftrightarrow> cl_header k"
    by (simp only: cl_header_cmp)
  have "v \<noteq> []" "\<not> isspace (hd v)"
    using ok(2,3) isprint_isspace [OF word_hd [OF ok(2)]] by (simp_all add: word_ok_def)
  moreover have "drop (length ?pre) mem = v @ CR # tl ?fin @ headers_text hs @ body" using mem2 by simp
  ultimately have n: "content_length mem ?v = ?n" by (simp add: content_length_def atoll_stop)
  have nonempty: "k \<noteq> []" "v \<noteq> []" using ok(1,2) by (simp_all add: word_ok_def)
  have step: "http_headers_loop mem (length pre) e len req = http_headers_loop mem (length (?pre @ v @ ?fin)) e len ?req"
    using Cons.prems(4) nonempty
    by (subst http_headers_loop.simps) (simp add: skip_k skip_v trim cl n Let_def del: length_append)
  have "\<exists>req'. http_headers_loop mem (length (?pre @ v @ ?fin)) e len ?req = (e, req')
      \<and> header_texts mem req' = header_texts mem ?req @ hs
      \<and> same_line req' ?req \<and> hm_content_length req' = header_length hs (hm_content_length ?req)
      \<and> ms_len (hm_body req') = header_length hs (ms_len (hm_body ?req))"
    using Cons.prems mem2 e by (intro Cons.IH) simp_all
  then obtain req' where r: "http_headers_loop mem (length (?pre @ v @ ?fin)) e len ?req = (e, req')"
    "header_texts mem req' = header_texts mem ?req @ hs" "same_line req' ?req"
    "hm_content_length req' = header_length hs (hm_content_length ?req)"
    "ms_len (hm_body req') = header_length hs (ms_len (hm_body ?req))" by blast
  have "header_texts mem ?req = header_texts mem req @ [(k, v)]"
    using ms_text_at [OF mem] ms_text_at [OF mem2] by (simp add: header_texts_def)
  moreover have "same_line ?req req" by (simp add: same_line_def set_lengths_def)
  moreover have "hm_content_length ?req = header_length [(k, v)] (hm_content_length req)"
    "ms_len (hm_body ?req) = header_length [(k, v)] (ms_len (hm_body req))"
    by (simp_all add: header_length_def set_lengths_def)
  ultimately show ?case
    using r step h by (intro exI [of _ req']) (simp add: header_length_def same_line_def)
qed

text \<open>The request line; the query is what follows the first question mark.\<close>

definition uri_path :: "string \<Rightarrow> string" where
  "uri_path uri = takeWhile (\<lambda>c. c \<noteq> CHR ''?'') uri"

definition uri_query :: "string \<Rightarrow> string" where
  "uri_query uri = drop 1 (dropWhile (\<lambda>c. c \<noteq> CHR ''?'') uri)"

lemma mg_strchr_split:
  "mg_strchr s c = Some i \<Longrightarrow> takeWhile (\<lambda>x. x \<noteq> c) s = take i s \<and> dropWhile (\<lambda>x. x \<noteq> c) s = drop i s"
  by (induction s arbitrary: i) (auto split: if_splits)

lemma uri_split_None: "mg_strchr uri (CHR ''?'') = None \<Longrightarrow> uri_path uri = uri \<and> uri_query uri = []"
  unfolding mg_strchr_None by (induction uri) (auto simp: uri_path_def uri_query_def)

lemma http_request_line_read:
  assumes "mem = request_text method uri proto hs @ body"
    and "word_ok '' '' method" and "word_ok '' '' uri" and "word_ok '' '' proto" and "\<forall>h \<in> set hs. header_ok h"
    and e: "e = length (request_text method uri proto hs)"
  defines "pre \<equiv> method @ '' '' @ uri @ '' '' @ proto @ (if hs = [] then CRLF @ CRLF else CRLF)"
  shows "\<exists>hm'. http_request_line mem 0 e hm = Some (length pre, hm')
    \<and> ms_text mem (hm_method hm') = method \<and> ms_text mem (hm_proto hm') = proto
    \<and> ms_text mem (hm_uri hm') = uri_path uri \<and> (hm_query_string hm = mg_null_str \<longrightarrow> ms_text mem (hm_query_string hm') = uri_query uri)
    \<and> hm_headers hm' = hm_headers hm \<and> hm_body hm' = hm_body hm"
proof -
  let ?fin = "if hs = [] then CRLF @ CRLF else CRLF"
  let ?p1 = "method @ '' ''" let ?p2 = "?p1 @ uri @ '' ''"
  let ?m = "\<lparr>ms_p = Some 0, ms_len = length method\<rparr>" and ?u = "\<lparr>ms_p = Some (length ?p1), ms_len = length uri\<rparr>"
    and ?pr = "\<lparr>ms_p = Some (length ?p2), ms_len = length proto\<rparr>"
  have no_sp: "w \<noteq> [] \<and> \<not> delim '' '' (hd w)" if "word_ok '' '' w" for w
    using delim_word [OF that, of "'' ''"] that by (cases w) (auto simp: word_ok_def)
  have mem1: "mem = [] @ method @ '' '' @ (uri @ '' '' @ proto @ ?fin @ headers_text hs) @ body"
    and mem2: "mem = ?p1 @ uri @ '' '' @ (proto @ ?fin @ headers_text hs) @ body"
    and mem3: "mem = ?p2 @ proto @ ?fin @ headers_text hs @ body"
    using assms(1) by (simp_all add: request_text_def)
  have s1: "mg_skip mem 0 e '' '' = (length ?p1, ?m)"
    using mg_skip_at [OF mem1, of 0 e "'' ''"] delim_word [OF assms(2), of "'' ''"] no_sp [OF assms(3)] e
    by (simp add: request_text_def delim_def hd_append)
  have s2: "mg_skip mem (length ?p1) e '' '' = (length ?p2, ?u)"
    using mg_skip_at [OF mem2 refl, of e "'' ''"] delim_word [OF assms(3), of "'' ''"] no_sp [OF assms(4)] e
    by (simp add: request_text_def delim_def hd_append)
  have nxt: "headers_text hs = [] \<or> \<not> delim CRLF (hd (headers_text hs))" using assms(5) by (rule headers_text_hd)
  have s3: "mg_skip mem (length ?p2) e CRLF = (length pre, ?pr)"
    using mg_skip_at [OF mem3 refl, of e CRLF] delim_word [OF assms(4), of CRLF] nxt e
    by (auto simp: request_text_def delim_def pre_def)
  have uri: "ms_text mem ?u = uri" using ms_text_at [of mem ?p1 uri] mem2 by simp
  have pos: "\<not> (length ?p1 \<le> 0 \<or> length ?p2 \<le> length ?p1)" by simp
  let ?hm = "hm\<lparr>hm_method := ?m, hm_proto := ?pr\<rparr>"
  let ?hm' = "case mg_strchr uri (CHR ''?'') of None \<Rightarrow> ?hm\<lparr>hm_uri := ?u\<rparr>
    | Some q \<Rightarrow> ?hm\<lparr>hm_uri := ?u\<lparr>ms_len := q\<rparr>, hm_query_string := \<lparr>ms_p = Some (length ?p1 + q + 1), ms_len = length uri - (q + 1)\<rparr>\<rparr>"
  have line: "http_request_line mem 0 e hm = Some (length pre, ?hm')"
    unfolding http_request_line_def s1 s2 s3 Let_def prod.case uri if_not_P [OF pos] by (simp cong: option.case_cong)
  have texts: "ms_text mem ?m = method" "ms_text mem ?pr = proto"
    using ms_text_at [OF mem1] ms_text_at [OF mem3] by simp_all
  show ?thesis
  proof (cases "mg_strchr uri (CHR ''?'')")
    case None
    then show ?thesis using line texts uri uri_split_None [OF None] by (simp add: ms_text_def mg_null_str_def)
  next
    case (Some q)
    have q: "q < length uri" using mg_strchr_less [OF Some] by simp
    have "ms_text mem (?u\<lparr>ms_len := q\<rparr>) = take q uri"
      using q mem2 by (simp add: ms_text_def substr_def)
    moreover have "ms_text mem \<lparr>ms_p = Some (length ?p1 + q + 1), ms_len = length uri - (q + 1)\<rparr> = drop (Suc q) uri"
      using q mem2 by (simp add: ms_text_def substr_def)
    ultimately show ?thesis
      using line texts Some mg_strchr_split [OF Some] by (simp add: uri_path_def uri_query_def)
  qed
qed

text \<open>The lengths agree, and the headers are found by their names.\<close>

definition lengths_agree :: "nat \<Rightarrow> http_message \<Rightarrow> bool" where
  "lengths_agree len hm \<longleftrightarrow> ms_len (hm_body hm) = hm_content_length hm
     \<and> (hm_content_length hm = SIZE_MAX \<or> ms_len (hm_message hm) = (len + hm_content_length hm) mod 2 ^ 64)"

lemma headers_loop_lengths:
  "http_headers_loop mem s e len req = (s1, req1) \<Longrightarrow> lengths_agree len req \<Longrightarrow> lengths_agree len req1"
proof (induction mem s e len req rule: http_headers_loop.induct)
  case (1 mem s e len req)
  note prems = "1.prems"
  show ?case
  proof (cases "length (hm_headers req) < MG_MAX_HTTP_HEADERS - 1")
    case False
    then show ?thesis using prems by (subst (asm) http_headers_loop.simps) simp
  next
    case True
    obtain s2 k where k: "mg_skip mem s e '': '' = (s2, k)" by force
    obtain s3 v0 where v: "mg_skip mem s2 e [CR, newline] = (s3, v0)" by force
    let ?v = "trim_spaces mem v0"
    let ?req = "if mg_ncasecmp (drop s mem) ''Content-Length'' 14 = 0 then set_lengths len (content_length mem ?v) req else req"
    consider "ms_len k \<noteq> 0 \<and> ms_len ?v = 0" | "\<not> (ms_len k \<noteq> 0 \<and> ms_len ?v = 0)" "ms_len k = 0 \<or> ms_len ?v = 0"
      | "\<not> (ms_len k \<noteq> 0 \<and> ms_len ?v = 0)" "\<not> (ms_len k = 0 \<or> ms_len ?v = 0)" by argo
    then show ?thesis
    proof cases
      case 1
      then have "http_headers_loop mem s3 e len req = (s1, req1)"
        using prems(1) True k v by (subst (asm) http_headers_loop.simps) simp
      then show ?thesis using "1.IH"(1) [OF True k [symmetric] refl v [symmetric] refl refl 1] prems(2) by simp
    next
      case 2
      then have "req1 = req" using prems(1) True k v by (subst (asm) http_headers_loop.simps) auto
      then show ?thesis using prems(2) by simp
    next
      case 3
      let ?next = "?req\<lparr>hm_headers := hm_headers req @ [(k, ?v)]\<rparr>"
      have "http_headers_loop mem s3 e len ?next = (s1, req1)"
        using prems(1) True k v 3 by (subst (asm) http_headers_loop.simps) (simp add: Let_def)
      moreover have "lengths_agree len ?next" using prems(2) by (simp add: lengths_agree_def set_lengths_def)
      ultimately show ?thesis using "1.IH"(2) [OF True k [symmetric] refl v [symmetric] refl refl 3 refl] by blast
    qed
  qed
qed

lemma line_body:
  "http_request_line mem s e hm = Some (s1, hm1) \<Longrightarrow> hm_body hm1 = hm_body hm"
  "http_status_line mem s e hm = Some (s1, hm1) \<Longrightarrow> hm_body hm1 = hm_body hm"
  by (auto simp: http_request_line_def http_status_line_def Let_def split: prod.splits option.splits if_splits)

lemma parse_message_len:
  assumes "mg_parse_http mem is_req = (rlen, Some hm)"
  shows "hm_content_length hm \<noteq> SIZE_MAX \<Longrightarrow> ms_len (hm_message hm) = (nat rlen + hm_content_length hm) mod 2 ^ 64"
    and "hm_content_length hm = SIZE_MAX \<Longrightarrow> ms_len (hm_body hm) = 0 \<Longrightarrow> ms_len (hm_message hm) = nat rlen"
proof -
  have pos: "\<not> mg_http_get_request_len mem \<le> 0"
    using assms by (auto simp: mg_parse_http_def Let_def split: if_splits)
  let ?len = "nat (mg_http_get_request_len mem)"
  let ?s = "length (takeWhile isspace (take ?len mem))"
  let ?line = "if is_req then http_request_line mem ?s ?len (http_message_init ?len)
    else http_status_line mem ?s ?len (http_message_init ?len)"
  obtain s1 hm1 where line: "?line = Some (s1, hm1)"
    using assms pos by (cases ?line) (simp_all add: mg_parse_http_def Let_def del: if_split_asm split: prod.splits)
  obtain s2 hm2 where hdrs: "http_headers_loop mem s1 ?len ?len (hm1\<lparr>hm_content_length := SIZE_MAX\<rparr>) = (s2, hm2)" by force
  have "ms_len (hm_body hm1) = SIZE_MAX"
    using line_body [of mem ?s ?len "http_message_init ?len" s1 hm1] line
    by (simp add: http_message_init_def split: if_splits)
  then have "lengths_agree ?len hm2" using headers_loop_lengths [OF hdrs] by (simp add: lengths_agree_def)
  then show "hm_content_length hm \<noteq> SIZE_MAX \<Longrightarrow> ms_len (hm_message hm) = (nat rlen + hm_content_length hm) mod 2 ^ 64"
    and "hm_content_length hm = SIZE_MAX \<Longrightarrow> ms_len (hm_body hm) = 0 \<Longrightarrow> ms_len (hm_message hm) = nat rlen"
    using assms pos line hdrs unfolding mg_parse_http_def Let_def if_not_P [OF pos] line option.case prod.case
      mg_http_parse_headers_def hdrs snd_conv
    by (auto simp: lengths_agree_def split: if_splits)
qed

text \<open>The value of a header among those that were written.\<close>

definition header_named :: "string \<Rightarrow> string \<times> string \<Rightarrow> bool" where
  "header_named name h \<longleftrightarrow> length (fst h) = length (cstr name) \<and> mg_ncasecmp (fst h) name (length (cstr name)) = 0"

definition header_value :: "string \<Rightarrow> (string \<times> string) list \<Rightarrow> string option" where
  "header_value name hs = map_option snd (find (header_named name) hs)"

lemma find_map_same: "list_all (\<lambda>x. P x \<longleftrightarrow> Q (f x)) xs \<Longrightarrow> map_option f (find P xs) = find Q (map f xs)"
  by (induction xs) auto

lemma get_header_value:
  assumes "headers_inside e hm" and "e \<le> length mem"
  shows "map_option (ms_text mem) (mg_get_http_header mem hm name) = header_value name (header_texts mem hm)"
proof -
  let ?P = "\<lambda>(k, v). ms_p k \<noteq> None \<and> ms_len k = length (cstr name) \<and> mg_ncasecmp (ms_text mem k) name (length (cstr name)) = 0"
  let ?f = "\<lambda>(k, v). (ms_text mem k, ms_text mem v)"
  have h: "\<forall>(k, v) \<in> set (hm_headers hm). ms_inside e k \<and> ms_inside e v \<and> 0 < ms_len k \<and> 0 < ms_len v"
    using assms(1) by (simp add: headers_inside_def)
  then have all: "takeWhile (\<lambda>(k, v). 0 < ms_len k) (hm_headers hm) = hm_headers hm"
    by (auto simp: takeWhile_eq_all_conv)
  have "list_all (\<lambda>x. ?P x \<longleftrightarrow> header_named name (?f x)) (hm_headers hm)"
    using h assms(2) by (fastforce simp: list_all_iff header_named_def ms_inside_def ms_text_def split: option.splits)
  then have found: "map_option ?f (find ?P (hm_headers hm)) = find (header_named name) (header_texts mem hm)"
    unfolding header_texts_def by (rule find_map_same)
  have "map_option (ms_text mem) (map_option snd x) = map_option snd (map_option ?f x)" for x
    by (cases x) auto
  then show ?thesis unfolding mg_get_http_header_def all header_value_def found [symmetric] .
qed

lemma parse_request_text:
  assumes "word_ok '' '' method" and "word_ok '' '' uri" and "word_ok '' '' proto" and "\<forall>h \<in> set hs. header_ok h"
    and "length hs \<le> 39" and "length method < 2 ^ 31"
  defines "head \<equiv> request_text method uri proto hs"
  shows "\<exists>hm. mg_parse_http (head @ body) True = (int (length head), Some hm)
    \<and> ms_text (head @ body) (hm_method hm) = method \<and> ms_text (head @ body) (hm_uri hm) = uri_path uri
    \<and> ms_text (head @ body) (hm_query_string hm) = uri_query uri \<and> ms_text (head @ body) (hm_proto hm) = proto
    \<and> header_texts (head @ body) hm = hs \<and> hm_content_length hm = header_length hs SIZE_MAX
    \<and> hm_body hm = \<lparr>ms_p = Some (length head), ms_len =
        (if header_length hs SIZE_MAX = SIZE_MAX \<and> map tolower method \<notin> {map tolower ''PUT'', map tolower ''POST''}
         then 0 else header_length hs SIZE_MAX)\<rparr>"
proof -
  let ?mem = "head @ body" and ?len = "length head"
  have proto: "word_ok [] proto" using assms(3) by (simp add: word_ok_def)
  have rlen: "mg_http_get_request_len ?mem = int ?len"
    unfolding head_def by (rule request_len_text [OF assms(1,2) proto assms(4)])
  have "head \<noteq> []" "\<not> isspace (hd head)"
    using assms(1) isprint_isspace [OF word_hd [OF assms(1)]] by (cases "method"; auto simp: head_def request_text_def word_ok_def)+
  then have s: "length (takeWhile isspace (take ?len ?mem)) = 0" by (cases head) simp_all
  have pos: "\<not> int ?len \<le> 0" using \<open>head \<noteq> []\<close> by simp
  obtain s1 hm1 where line: "http_request_line ?mem 0 ?len (http_message_init ?len) = Some (s1, hm1)"
      "s1 = length (method @ '' '' @ uri @ '' '' @ proto @ (if hs = [] then CRLF @ CRLF else CRLF))"
      "ms_text ?mem (hm_method hm1) = method" "ms_text ?mem (hm_proto hm1) = proto"
      "ms_text ?mem (hm_uri hm1) = uri_path uri" "ms_text ?mem (hm_query_string hm1) = uri_query uri"
      "hm_headers hm1 = []" "hm_body hm1 = \<lparr>ms_p = Some ?len, ms_len = SIZE_MAX\<rparr>"
    using http_request_line_read [OF _ assms(1-4), of ?mem body ?len "http_message_init ?len"]
    by (auto simp: head_def http_message_init_def)
  let ?hm1 = "hm1\<lparr>hm_content_length := SIZE_MAX\<rparr>"
  have "\<exists>hm2. http_headers_loop ?mem s1 ?len ?len ?hm1 = (?len, hm2)
      \<and> header_texts ?mem hm2 = header_texts ?mem ?hm1 @ hs \<and> same_line hm2 ?hm1
      \<and> hm_content_length hm2 = header_length hs (hm_content_length ?hm1)
      \<and> ms_len (hm_body hm2) = header_length hs (ms_len (hm_body ?hm1))"
    unfolding line(2) using assms(4,5) line(7)
    by (intro http_headers_read [where body = body]) (simp_all add: head_def request_text_def)
  then obtain hm2 where hm2: "http_headers_loop ?mem s1 ?len ?len ?hm1 = (?len, hm2)"
      "header_texts ?mem hm2 = hs" "same_line hm2 ?hm1" "hm_content_length hm2 = header_length hs SIZE_MAX"
      "ms_len (hm_body hm2) = header_length hs SIZE_MAX"
    using line(7,8) by (auto simp: header_texts_def)
  have meth: "ms_text ?mem (hm_method hm2) = method" "ms_p (hm_body hm2) = Some ?len"
    using hm2(3) line(3,8) by (simp_all add: same_line_def)
  have cmp: "mg_vcasecmp method m = 0 \<longleftrightarrow> map tolower method = map tolower m" if "m = ''PUT'' \<or> m = ''POST''" for m
    using that mg_vcasecmp_eq_0 [OF assms(6), of m] by (auto simp: cstr_def)
  let ?hm = "if header_length hs SIZE_MAX = SIZE_MAX \<and> map tolower method \<notin> {map tolower ''PUT'', map tolower ''POST''}
    then hm2\<lparr>hm_body := (hm_body hm2)\<lparr>ms_len := 0\<rparr>, hm_message := (hm_message hm2)\<lparr>ms_len := ?len\<rparr>\<rparr> else hm2"
  have hdrs: "snd (mg_http_parse_headers ?mem s1 ?len ?len hm1) = hm2"
    unfolding mg_http_parse_headers_def hm2(1) by simp
  have guard: "(ms_len (hm_body hm2) = SIZE_MAX \<and> True \<and> mg_vcasecmp method ''PUT'' \<noteq> 0 \<and> mg_vcasecmp method ''POST'' \<noteq> 0)
      \<longleftrightarrow> header_length hs SIZE_MAX = SIZE_MAX \<and> map tolower method \<notin> {map tolower ''PUT'', map tolower ''POST''}"
    unfolding hm2(5) using cmp [of "''PUT''"] cmp [of "''POST''"] by blast
  have parse: "mg_parse_http ?mem True = (int ?len, Some ?hm)"
    unfolding mg_parse_http_def rlen Let_def if_not_P [OF pos] nat_int s if_True line(1) option.case prod.case
      hdrs meth(1) guard by (rule refl)
  have "hm_body hm2 = \<lparr>ms_p = Some ?len, ms_len = header_length hs SIZE_MAX\<rparr>" using meth(2) hm2(5) by simp
  then show ?thesis
    using parse hm2 line(3-6) by (intro exI [of _ ?hm]) (simp add: same_line_def header_texts_def)
qed

section \<open>Properties\<close>

text \<open>
  C21. A request with any printable words in its first line and any headers (at most 39) is read
  back: the parser returns the length of the head and finds in it the method, the path up to the
  question mark, the query behind it, the protocol and every header, in order. The body begins
  behind the head; its length is that of the last \<open>Content-Length\<close>, unknown if there is none, and
  then 0 unless the method is PUT or POST.
\<close>

theorem mg_parse_http_request:
  assumes "word_ok '' '' method" and "word_ok '' '' uri" and "word_ok '' '' proto" and "\<forall>h \<in> set hs. header_ok h"
    and "length hs \<le> 39" and "length method < 2 ^ 31"
  defines "head \<equiv> request_text method uri proto hs"
  shows "\<exists>hm. mg_parse_http (head @ body) True = (int (length head), Some hm)
    \<and> ms_text (head @ body) (hm_method hm) = method \<and> ms_text (head @ body) (hm_uri hm) = uri_path uri
    \<and> ms_text (head @ body) (hm_query_string hm) = uri_query uri \<and> ms_text (head @ body) (hm_proto hm) = proto
    \<and> header_texts (head @ body) hm = hs \<and> hm_content_length hm = header_length hs SIZE_MAX
    \<and> hm_body hm = \<lparr>ms_p = Some (length head), ms_len =
        (if header_length hs SIZE_MAX = SIZE_MAX \<and> map tolower method \<notin> {map tolower ''PUT'', map tolower ''POST''}
         then 0 else header_length hs SIZE_MAX)\<rparr>"
  using parse_request_text [OF assms(1-6), of body] unfolding head_def .

text \<open>
  C22. Whatever bytes are received, as a request or a response: when the parser succeeds, the head
  ends within them, every part of the first line and every header lies in the head, no name or value
  is empty, and at most 39 of the 40 slots for headers are used.
\<close>

theorem mg_parse_http_bounds:
  assumes "mg_parse_http mem is_req = (r, Some hm)"
  shows "0 < r \<and> r \<le> int (length mem) \<and> head_inside (nat r) hm \<and> headers_inside (nat r) hm"
  by (rule mg_parse_http_inside [OF assms])

theorem mg_parse_http_request_witness:
  "\<exists>hm. mg_parse_http (request_text ''POST'' ''/a?x=1'' ''HTTP/1.1'' [(''Host'', ''h''), (''content-length'', ''2'')] @ ''{}'') True
       = (52, Some hm)
     \<and> ms_text (request_text ''POST'' ''/a?x=1'' ''HTTP/1.1'' [(''Host'', ''h''), (''content-length'', ''2'')] @ ''{}'') (hm_query_string hm)
       = ''x=1'' \<and> hm_content_length hm = 2"
proof -
  let ?hs = "[(''Host'', ''h''), (''content-length'', ''2'')]"
  have ok: "word_ok '' '' ''POST''" "word_ok '' '' ''/a?x=1''" "word_ok '' '' ''HTTP/1.1''" "\<forall>h \<in> set ?hs. header_ok h"
    by (simp_all add: word_ok_def header_ok_def isprint_def)
  have len: "length (request_text ''POST'' ''/a?x=1'' ''HTTP/1.1'' ?hs) = 52" "uri_query ''/a?x=1'' = ''x=1''"
    by (simp_all add: request_text_def uri_query_def)
  have n: "header_length ?hs (2 ^ 64 - 1) = 2" by code_simp
  have "length ?hs \<le> 39" "length ''POST'' < 2 ^ 31" by simp_all
  from mg_parse_http_request [OF ok this, of "''{}''"] show ?thesis
    unfolding len n by auto
qed

theorem mg_parse_http_bounds_witness:
  "\<exists>hm. mg_parse_http (''GET / HTTP/1.1'' @ CRLF @ CRLF) True = (18, Some hm) \<and> head_inside 18 hm \<and> headers_inside 18 hm"
proof -
  have "fst (mg_parse_http (''GET / HTTP/1.1'' @ CRLF @ CRLF) True) = 18"
    "map_option hm_headers (snd (mg_parse_http (''GET / HTTP/1.1'' @ CRLF @ CRLF) True)) = Some []"
    by code_simp+
  then obtain hm where "mg_parse_http (''GET / HTTP/1.1'' @ CRLF @ CRLF) True = (18, Some hm)"
    by (cases "mg_parse_http (''GET / HTTP/1.1'' @ CRLF @ CRLF) True") auto
  from mg_parse_http_bounds [OF this] this show ?thesis by auto
qed

end
