(* ===== verification/Gw_Httpd.thy ===== *)
theory Gw_Httpd
  imports Gw_App Gw_Os Mg_Http
begin

text \<open>
  The agent's web server, \<open>src/src/gw_httpd.c\<close>: what it answers to a request that mongoose has
  parsed. Requests for the API are answered here, all others are left to mongoose's file server.
\<close>

section \<open>Answers\<close>

definition dquote :: char where "dquote = CHR 0x22"

definition crlf :: string where "crlf = [CHR 0x0D, newline]"

definition gw_httpd_prefix_check :: "string \<Rightarrow> string \<Rightarrow> bool" where
  "gw_httpd_prefix_check uri prefix \<longleftrightarrow>
     length uri \<ge> length prefix \<and> take (length prefix) uri = prefix"

definition gw_httpd_ok :: "string \<Rightarrow> string" where
  "gw_httpd_ok json_response =
     ''HTTP/1.1 200 OK'' @ crlf @
     ''Access-Control-Allow-Origin: *'' @ crlf @
     ''Access-Control-Allow-Headers: *'' @ crlf @
     ''Access-Control-Allow-Methods: *'' @ crlf @
     ''Content-Type: application/json'' @ crlf @
     ''Content-Length: '' @ dec_str (int (length (cstr json_response))) @ crlf @ crlf @ cstr json_response"

definition gw_httpd_202 :: string where
  "gw_httpd_202 =
     ''HTTP/1.1 204 No Content'' @ crlf @
     ''Access-Control-Allow-Origin: *'' @ crlf @
     ''Access-Control-Allow-Headers: *'' @ crlf @
     ''Access-Control-Allow-Methods: *'' @ crlf @ crlf"

text \<open>What a request gets: the bytes sent, a file of the web root, or nothing.\<close>

datatype http_reply = Reply string | Serve_Files | No_Reply

record ('db, 'd) httpd_env =
  he_agent :: "('db, 'd) agent_env"
  he_doubles :: "'d doubles"
  he_rrd_fetch :: "string list \<Rightarrow> 'd rrd_rows option"

section \<open>Acknowledgement\<close>

definition no_ackid_error :: string where
  "no_ackid_error =
     ''{'' @ [dquote] @ ''error'' @ [dquote] @ '':{'' @ [dquote] @ ''code'' @ [dquote] @ '':-1,''
     @ [dquote] @ ''message'' @ [dquote] @ '':'' @ [dquote]
     @ map char_of [0xE5, 0x8F, 0x82, 0xE6, 0x95, 0xB0, 0xE4, 0xB8, 0xAD, 0xE6, 0xB2, 0xA1, 0xE6, 0x9C,
         0x89, 0xE8, 0xAF, 0x86, 0xE5, 0x88, 0xAB, 0xE6, 0xA0, 0x87, 0xE8, 0xAF, 0x86, 0xEF, 0xBC, 0x81 :: nat]
     @ [dquote] @ ''}''"

definition ack_statement :: "string \<Rightarrow> string" where
  "ack_statement ackid = ''update tn_gw_stg set val = '' @ [quote] @ ackid @ [quote]
     @ '' where stgcd = '' @ [quote] @ KEY_AGENT_ACKNOWLEDGEMENT_ID @ [quote]"

definition name_query :: string where
  "name_query = ''select * from tn_gw_stg where stgcd = '' @ [quote] @ KEY_AGENT_NAME @ [quote]"

definition name_response :: "string \<Rightarrow> string" where
  "name_response agent_name = ''{'' @ [dquote] @ ''data'' @ [dquote] @ '': {'' @ [dquote] @ ''agentName''
     @ [dquote] @ '':'' @ [dquote] @ agent_name @ [dquote] @ ''}}''"

text \<open>The loop over the rows: the value of the last row of the agent's name.\<close>

definition name_row :: "string gfc_map option \<Rightarrow> string \<Rightarrow> gw_fault + string" where
  "name_row r agent_name =
     (case r of
        None \<Rightarrow> Inl Null_Pointer
      | Some row \<Rightarrow>
          (case snd (gfc_map_get row ''stgcd'') of
             None \<Rightarrow> Inl Null_Pointer
           | Some key \<Rightarrow>
               if strcmp (cstr key) KEY_AGENT_NAME = 0
               then copy_text 1024 (snd (gfc_map_get row ''val'')) else Inr agent_name))"

function name_rows :: "string gfc_map gfc_list \<Rightarrow> nat \<Rightarrow> string \<Rightarrow> gw_fault + string" where
  "name_rows result i agent_name =
     (if i < gfc_list_size result
      then (case name_row (gfc_list_get result i) agent_name of
              Inl f \<Rightarrow> Inl f | Inr n \<Rightarrow> name_rows result (Suc i) n)
      else Inr agent_name)"
  by pat_completeness auto
termination
  by (relation "measure (\<lambda>(result, i, n). gfc_list_size result - i)") auto

declare name_rows.simps [simp del]

text \<open>
  The body is read as a C string, from where it starts to the first NUL of the receive buffer. The
  identifier and the name have at most 1023 bytes, so the statement and the answer fit their 2048.
\<close>

definition gw_httpd_acknowledge :: "('db, 'd) httpd_env \<Rightarrow> nat \<Rightarrow> string \<Rightarrow> 'db app
    \<Rightarrow> gw_fault + http_reply \<times> 'db app" where
  "gw_httpd_acknowledge env fuel body a =
     (let ag = he_agent env; lib = ae_sqlite ag;
          json_obj_ackid = (case json_object_object_get_ex (ae_tokener_parse ag body) ''ackid'' of
                              None \<Rightarrow> JNull | Some j \<Rightarrow> j)
      in (case json_object_get_string (ae_json ag) json_obj_ackid of
            None \<Rightarrow> Inr (Reply (gw_httpd_ok no_ackid_error), a)
          | Some ackid \<Rightarrow>
              (case copy_text 1024 (Some ackid) of
                 Inl f \<Rightarrow> Inl f
               | Inr ack \<Rightarrow>
                   (case gw_sqlite_execute lib (ack_statement ack) (ap_db a) of
                      Inl f \<Rightarrow> Inl f
                    | Inr (_, h1) \<Rightarrow>
                        (case gw_sqlite_query lib fuel (ae_fresh ag) (ae_junk ag) name_query h1 of
                           Inl f \<Rightarrow> Inl f
                         | Inr (_, result, h2) \<Rightarrow>
                             (case name_rows result 0 [] of
                                Inl f \<Rightarrow> Inl f
                              | Inr agent_name \<Rightarrow>
                                  (case gfc_string_utf8 (Some agent_name) [] 1024 of
                                     None \<Rightarrow> Inl Overflow
                                   | Some utf8_agent_name \<Rightarrow>
                                       Inr (Reply (gw_httpd_ok (name_response utf8_agent_name)),
                                            a\<lparr>ap_settings := (ap_settings a)\<lparr>gs_acknowledgement_id := ack\<rparr>,
                                              ap_db := h2\<rparr>))))))))"

section \<open>Requests\<close>

definition gw_httpd_event :: "('db, 'd) httpd_env \<Rightarrow> nat \<Rightarrow> string \<Rightarrow> http_message option \<Rightarrow> 'db app
    \<Rightarrow> gw_fault + http_reply \<times> 'db app" where
  "gw_httpd_event env fuel mem ev a =
     (case ev of
        None \<Rightarrow> Inr (No_Reply, a)
      | Some hm \<Rightarrow>
          let method = ms_text mem (hm_method hm); uri = ms_text mem (hm_uri hm); s = ap_settings a
          in if gw_httpd_prefix_check method ''OPTIONS'' then Inr (Reply gw_httpd_202, a)
             else if \<not> gw_httpd_prefix_check method ''POST'' then Inr (Serve_Files, a)
             else if gw_httpd_prefix_check uri ''/api/agent/acknowledge''
             then (if ms_len (hm_body hm) > 0
                   then gw_httpd_acknowledge env fuel
                          (cstr (drop (case ms_p (hm_body hm) of None \<Rightarrow> 0 | Some p \<Rightarrow> p) mem)) a
                   else Inr (Serve_Files, a))
             else if gw_httpd_prefix_check uri ''/api/agent/heartbeat''
             then Inr (Reply (gw_httpd_ok
                    (''{'' @ [dquote] @ ''error'' @ [dquote] @ '':{'' @ [dquote] @ ''code'' @ [dquote] @ '':0,''
                     @ [dquote] @ ''message'' @ [dquote] @ '':'' @ [dquote] @ ''success'' @ [dquote] @ ''}}'')), a)
             else (case (if gw_httpd_prefix_check uri ''/api/agent/os/cpu''
                         then gw_os_cpu (he_doubles env) (ae_json (he_agent env)) (he_rrd_fetch env) (gs_cpu_rrd_file s)
                         else if gw_httpd_prefix_check uri ''/api/agent/os/memory''
                         then gw_os_memory (he_doubles env) (ae_json (he_agent env)) (he_rrd_fetch env) (gs_mem_rrd_file s)
                         else if gw_httpd_prefix_check uri ''/api/agent/os/process'' then gw_os_processes
                         else if gw_httpd_prefix_check uri ''/api/agent/os/volume'' then gw_os_volumes
                         else Inr None) of
                     Inl f \<Rightarrow> Inl f
                   | Inr None \<Rightarrow> Inr (Serve_Files, a)
                   | Inr (Some result) \<Rightarrow> Inr (Reply (gw_httpd_ok result), a)))"

section \<open>What an acknowledgement does\<close>

text \<open>A row of the settings table leaves the name as it is, or is the agent's.\<close>

definition assign_name :: "string \<times> string \<Rightarrow> string \<Rightarrow> string" where
  "assign_name kv n = (if fst kv = KEY_AGENT_NAME then snd kv else n)"

lemma name_row_assign:
  assumes "holds_row cols row" and "setting_row cols kv"
  shows "name_row (Some row) n = Inr (assign_name kv n)"
proof -
  have keys: "gm_key_ok ''stgcd''" "gm_key_ok ''val''" by (simp_all add: gm_key_ok_def)
  have "snd (gfc_map_get row ''stgcd'') = Some (fst kv)" "snd (gfc_map_get row ''val'') = Some (snd kv)"
    using assms keys by (simp_all add: holds_row_def setting_row_def)
  then show ?thesis
    using assms(2) by (simp add: name_row_def assign_name_def copy_text_def setting_row_def)
qed

lemma name_rows_assign:
  assumes "result_of rows l" and "list_all2 setting_row rows kvs"
  shows "i \<le> length rows \<Longrightarrow> name_rows l i n = Inr (fold assign_name (drop i kvs) n)"
proof (induction "length rows - i" arbitrary: i n)
  case 0
  then show ?case
    using assms by (subst name_rows.simps) (simp add: result_of_def list_all2_lengthD)
next
  case (Suc k)
  then have i: "i < length rows" by simp
  then obtain row where row: "gfc_list_get l i = Some row" "holds_row (rows ! i) row"
    using assms(1) by (auto simp: result_of_def)
  have "setting_row (rows ! i) (kvs ! i)" "length kvs = length rows"
    using assms(2) i by (auto simp: list_all2_nthD list_all2_lengthD)
  moreover have "name_rows l (Suc i) n' = Inr (fold assign_name (drop (Suc i) kvs) n')" for n'
    using Suc.hyps(1) [of "Suc i"] Suc.hyps(2) i by simp
  moreover have "i < gfc_list_size l" using assms(1) i by (simp add: result_of_def)
  ultimately show ?case
    using name_row_assign [OF row(2)] row(1) i
    by (subst name_rows.simps) (simp add: Cons_nth_drop_Suc [symmetric])
qed

lemma assign_names: "fold assign_name kvs n = (case map_of (rev kvs) KEY_AGENT_NAME of Some v \<Rightarrow> v | None \<Rightarrow> n)"
proof (induction kvs arbitrary: n)
  case (Cons kv kvs)
  then show ?case by (cases kv) (auto simp: assign_name_def map_add_def split: option.split)
qed simp

lemma assign_name_short:
  "\<forall>kv \<in> set kvs. length (snd kv) < 1024 \<and> cstr (snd kv) = snd kv \<Longrightarrow> length n < 1024 \<and> cstr n = n \<Longrightarrow>
     length (fold assign_name kvs n) < 1024 \<and> cstr (fold assign_name kvs n) = fold assign_name kvs n"
  by (induction kvs arbitrary: n) (auto simp: assign_name_def)

section \<open>Properties\<close>


text \<open>A request for a database with the name of the agent alone.\<close>

definition no_doubles :: "unit doubles" where
  "no_doubles = \<lparr>db_of_int = (\<lambda>_. ()), db_minus = (\<lambda>_ _. ()), db_times = (\<lambda>_ _. ()),
     db_divide = (\<lambda>_ _. ()), db_isnan = (\<lambda>_. False), db_print_2f = (\<lambda>_. [])\<rparr>"

definition ack_env :: "(unit, unit) httpd_env" where
  "ack_env = \<lparr>he_agent = sample_agent_env\<lparr>ae_tokener_parse := (\<lambda>_. JObject [(''ackid'', JString ''A-7'')])\<rparr>,
     he_doubles = no_doubles, he_rrd_fetch = (\<lambda>_. None)\<rparr>"

definition ack_message :: http_message where
  "ack_message = (http_message_init 0)\<lparr>hm_method := \<lparr>ms_p = Some 0, ms_len = 4\<rparr>,
     hm_uri := \<lparr>ms_p = Some 5, ms_len = 22\<rparr>, hm_body := \<lparr>ms_p = Some 28, ms_len = 2\<rparr>\<rparr>"


end
