(* ===== verification/Gw_Agent.thy ===== *)
theory Gw_Agent
  imports Gw_Snmpd Gw_Httpd
begin

text \<open>
  The running agent: \<open>src/src/linux/gw_main.c\<close>, the four threads it starts
  (\<open>gw_snmpd_trap\<close>, \<open>gw_snmpd_serve\<close>, \<open>gw_os_start\<close>, \<open>gw_httpd_serve\<close>), the flags
  they share with \<open>gw_app_stop\<close>, and the requests the web server answers, as a step relation on
  the state of the process.
\<close>

section \<open>The process\<close>

datatype handler = Default | Sigint_Handler | Gw_Snmpd_Shutdown

text \<open>
  The application, the signal handlers, whether the process has ended, and what it has done to the
  outside: the settings, MIB and instance registrations of net-snmp, the calls of \<open>rrd_update\<close>, the traps sent, the root of the
  web server and the answers.
\<close>

record 'db agent =
  ag_app :: "'db app"
  ag_sigint :: handler
  ag_sigterm :: handler
  ag_exit :: bool
  ag_ds :: "(string \<times> string \<times> ds_value) list"
  ag_mibs :: "(string \<times> mib_variable list \<times> snmp_oid) list"
  ag_instances :: "snmp_oid list"
  ag_updates :: "string list list"
  ag_traps :: "(string \<times> varbind list) list"
  ag_document_root :: string
  ag_replies :: "http_reply list"

text \<open>What the threads use, and what the world answers in one turn of a thread.\<close>

record ('db, 'd) system =
  sy_httpd :: "('db, 'd) httpd_env"
  sy_add_var :: add_var
  sy_tokens :: "string option list"
  sy_fuel :: nat
  sy_dir :: string

record input =
  in_ok :: bool
  in_master_ok :: bool
  in_stat :: "string option"
  in_meminfo :: "string option"
  in_uptime :: int

definition alive :: "'db agent \<Rightarrow> bool" where
  "alive a \<longleftrightarrow> \<not> ag_exit a \<and> (\<forall>(k, s) \<in> set (ap_threads (ag_app a)). s \<noteq> Crashed)"

section \<open>The threads\<close>

text \<open>
  One turn of each: up to the loop when it is \<open>Created\<close>, then the test of its flag and the body,
  if the flag lets it. A fault in a thread is \<open>Crashed\<close>.
\<close>

definition gw_snmpd_trap :: "('db, 'd) system \<Rightarrow> input \<Rightarrow> thread_state \<Rightarrow> 'db agent \<Rightarrow> thread_state \<times> 'db agent" where
  "gw_snmpd_trap sy inp st a =
     (case st of
        Created \<Rightarrow> (Looping True, a\<lparr>ag_app := (ag_app a)\<lparr>ap_snmp_trap_running := 1\<rparr>\<rparr>)
      | Looping b \<Rightarrow>
          if ap_snmp_trap_running (ag_app a) = 0 then (Exited, a)
          else (case gw_snmpd_heartbeat (sy_add_var sy) (in_uptime inp) (in_ok inp) (ap_settings (ag_app a)) of
                  Inl f \<Rightarrow> (Crashed, a)
                | Inr None \<Rightarrow> (Looping b, a)
                | Inr (Some t) \<Rightarrow> (Looping b, a\<lparr>ag_traps := ag_traps a @ [t]\<rparr>))
      | _ \<Rightarrow> (st, a))"

text \<open>
  The daemon returns when the agent or the master agent of net-snmp cannot be initialised; with the flag 2 it initialises nothing,
  neither its sets of descriptors, which it cleans up when the loop ends.
\<close>

definition gw_snmpd_serve :: "('db, 'd) system \<Rightarrow> input \<Rightarrow> thread_state \<Rightarrow> 'db agent \<Rightarrow> thread_state \<times> 'db agent" where
  "gw_snmpd_serve sy inp st a =
     (case st of
        Created \<Rightarrow>
          if ap_snmp_daemon_running (ag_app a) = 2 then (Looping False, a)
          else
            (let a1 = a\<lparr>ag_sigterm := Gw_Snmpd_Shutdown, ag_sigint := Gw_Snmpd_Shutdown,
                        ag_ds := ag_ds a @ snmpd_settings\<rparr>
             in case snmpd_logpath (sy_dir sy) of
                  Inl f \<Rightarrow> (Crashed, a1)
                | Inr logpath \<Rightarrow>
                    if \<not> in_ok inp then (Exited, a1)
                    else (if in_master_ok inp then Looping True else Exited,
                          a1\<lparr>ag_instances := ag_instances a1 @ [oid_gw_trap_address]\<rparr>))
      | Looping fds \<Rightarrow>
          if ap_snmp_daemon_running (ag_app a) \<noteq> 0 then (st, a)
          else if fds then (Exited, a) else (Crashed, a)
      | _ \<Rightarrow> (st, a))"

definition gw_os_start :: "('db, 'd) system \<Rightarrow> input \<Rightarrow> thread_state \<Rightarrow> 'db agent \<Rightarrow> thread_state \<times> 'db agent" where
  "gw_os_start sy inp st a =
     (case st of
        Created \<Rightarrow> (Looping True, a)
      | Looping b \<Rightarrow>
          if ap_os_collect_running (ag_app a) \<noteq> 1 then (Exited, a)
          else
            (let D = he_doubles (sy_httpd sy); s = ap_settings (ag_app a)
             in case gw_os_cpu_monitor D (sy_tokens sy) (in_stat inp) (gs_cpu_rrd_file s) of
                  Inl f \<Rightarrow> (Crashed, a)
                | Inr cpu \<Rightarrow>
                    (case gw_os_memory_monitor D (in_meminfo inp) (gs_mem_rrd_file s) of
                       Inl f \<Rightarrow> (Crashed, a\<lparr>ag_updates := ag_updates a @ [cpu]\<rparr>)
                     | Inr mem \<Rightarrow> (Looping b, a\<lparr>ag_updates := ag_updates a @ [cpu, mem]\<rparr>)))
      | _ \<Rightarrow> (st, a))"

text \<open>A port that cannot be bound gives NULL, which the next call uses.\<close>

definition gw_httpd_serve :: "('db, 'd) system \<Rightarrow> input \<Rightarrow> thread_state \<Rightarrow> 'db agent \<Rightarrow> thread_state \<times> 'db agent" where
  "gw_httpd_serve sy inp st a =
     (case st of
        Created \<Rightarrow>
          (let a1 = a\<lparr>ag_app := (ag_app a)\<lparr>ap_http_web_running := 1\<rparr>\<rparr>
           in if in_ok inp
              then (Looping True, a1\<lparr>ag_document_root := gs_server_web_root (ap_settings (ag_app a1))\<rparr>)
              else (Crashed, a1))
      | Looping b \<Rightarrow> if ap_http_web_running (ag_app a) \<noteq> 1 then (Exited, a) else (st, a)
      | _ \<Rightarrow> (st, a))"

definition thread_step :: "('db, 'd) system \<Rightarrow> input \<Rightarrow> thread_kind \<Rightarrow> thread_state \<Rightarrow> 'db agent
    \<Rightarrow> thread_state \<times> 'db agent" where
  "thread_step sy inp k =
     (case k of Trap \<Rightarrow> gw_snmpd_trap sy inp | Daemon \<Rightarrow> gw_snmpd_serve sy inp
      | Os \<Rightarrow> gw_os_start sy inp | Http \<Rightarrow> gw_httpd_serve sy inp)"

definition set_thread :: "nat \<Rightarrow> thread_kind \<times> thread_state \<Rightarrow> 'db agent \<Rightarrow> 'db agent" where
  "set_thread i t a = a\<lparr>ag_app := (ag_app a)\<lparr>ap_threads := (ap_threads (ag_app a))[i := t]\<rparr>\<rparr>"

definition run_thread :: "('db, 'd) system \<Rightarrow> nat \<times> input \<Rightarrow> 'db agent \<Rightarrow> 'db agent" where
  "run_thread sy e a =
     (let ts = ap_threads (ag_app a)
      in if alive a \<and> fst e < length ts
         then (let (k, s) = ts ! fst e; (s1, a1) = thread_step sy (snd e) k s a
               in set_thread (fst e) (k, s1) a1)
         else a)"

section \<open>The other events\<close>

definition agent_stop :: "'db agent \<Rightarrow> 'db agent" where
  "agent_stop a = a\<lparr>ag_app := gw_app_stop (ag_app a)\<rparr>"

text \<open>\<open>sigint_handler\<close> ends the process; the handler the daemon installs does nothing.\<close>

definition agent_interrupt :: "'db agent \<Rightarrow> 'db agent" where
  "agent_interrupt a = (if ag_sigint a = Gw_Snmpd_Shutdown then a else a\<lparr>ag_exit := True\<rparr>)"

text \<open>A request is answered by a web server thread in its loop.\<close>

definition agent_request :: "('db, 'd) system \<Rightarrow> string \<Rightarrow> http_message option \<Rightarrow> 'db agent \<Rightarrow> 'db agent" where
  "agent_request sy mem ev a =
     (case gw_httpd_event (sy_httpd sy) (sy_fuel sy) mem ev (ag_app a) of
        Inl f \<Rightarrow> a\<lparr>ag_exit := True\<rparr>
      | Inr (r, app) \<Rightarrow> a\<lparr>ag_app := app, ag_replies := ag_replies a @ [r]\<rparr>)"

text \<open>
  \<open>main\<close>: the working directory in the home of the user, the initialisation and the start. The
  home is copied to arrays of 4096 and 1024 bytes.
\<close>

definition gw_main_workdir :: "string option \<Rightarrow> gw_fault + string" where
  "gw_main_workdir home =
     (case home of
        None \<Rightarrow> Inl Null_Pointer
      | Some h \<Rightarrow>
          (let workdir = cstr h @ ''/.guardwatch-agent''
           in if length workdir \<ge> 1024 then Inl Overflow else Inr workdir))"

definition gw_main :: "('db, 'd) system \<Rightarrow> string option \<Rightarrow> 'db agent \<Rightarrow> (gw_fault + 'db agent) option" where
  "gw_main sy home a =
     (case gw_main_workdir home of
        Inl f \<Rightarrow> Some (Inl f)
      | Inr workdir \<Rightarrow>
          (case gw_app_init workdir (ap_settings (ag_app a)) of
             Inl f \<Rightarrow> Some (Inl f)
           | Inr (_, s) \<Rightarrow>
               (case gw_app_start (he_agent (sy_httpd sy)) (sy_fuel sy) workdir workdir
                       ((ag_app a)\<lparr>ap_settings := s\<rparr>) of
                  None \<Rightarrow> None
                | Some (Inl f) \<Rightarrow> Some (Inl f)
                | Some (Inr app) \<Rightarrow> Some (Inr (a\<lparr>ag_app := app, ag_mibs := ag_mibs a @ [gw_snmpd_register],
                                               ag_sigint := Sigint_Handler\<rparr>)))))"

inductive agent_step :: "('db, 'd) system \<Rightarrow> 'db agent \<Rightarrow> 'db agent \<Rightarrow> bool" for sy where
  run: "alive a \<Longrightarrow> agent_step sy a (run_thread sy e a)"
| start: "alive a \<Longrightarrow> gw_app_start (he_agent (sy_httpd sy)) (sy_fuel sy) (sy_dir sy) root (ag_app a) = Some (Inr app)
    \<Longrightarrow> agent_step sy a (a\<lparr>ag_app := app, ag_mibs := ag_mibs a @ [gw_snmpd_register]\<rparr>)"
| start_fault: "alive a \<Longrightarrow> gw_app_start (he_agent (sy_httpd sy)) (sy_fuel sy) (sy_dir sy) root (ag_app a) = Some (Inl f)
    \<Longrightarrow> agent_step sy a (a\<lparr>ag_exit := True\<rparr>)"
| stop: "alive a \<Longrightarrow> agent_step sy a (agent_stop a)"
| interrupt: "alive a \<Longrightarrow> agent_step sy a (agent_interrupt a)"
| request: "alive a \<Longrightarrow> (Http, Looping b) \<in> set (ap_threads (ag_app a))
    \<Longrightarrow> agent_step sy a (agent_request sy mem ev a)"

inductive_cases agent_stepE: "agent_step sy a b"

section \<open>Flags and threads\<close>

lemma gw_app_start_flags:
  assumes "gw_app_start env fuel dir res a = Some (Inr b)"
  shows "ap_os_collect_running b = ap_os_collect_running a" "ap_snmp_trap_running b = ap_snmp_trap_running a"
    "ap_http_web_running b = ap_http_web_running a"
    "ap_snmp_daemon_running b = (if ap_snmp_daemon_running a = 0 then 2 else ap_snmp_daemon_running a)"
    "ap_threads b = ap_threads a @ [(Trap, Created), (Daemon, Created), (Os, Created), (Http, Created)]"
  using assms by (auto simp: gw_app_start_def Let_def split: sum.splits prod.splits option.splits if_splits)

text \<open>A request changes no flag and no thread.\<close>

definition same_control :: "'db app \<Rightarrow> 'db app \<Rightarrow> bool" where
  "same_control a b \<longleftrightarrow> ap_snmp_daemon_running b = ap_snmp_daemon_running a
     \<and> ap_snmp_trap_running b = ap_snmp_trap_running a \<and> ap_http_web_running b = ap_http_web_running a
     \<and> ap_os_collect_running b = ap_os_collect_running a \<and> ap_threads b = ap_threads a"

lemma gw_httpd_acknowledge_control:
  "gw_httpd_acknowledge env fuel body a = Inr (r, b) \<Longrightarrow> same_control a b"
  unfolding gw_httpd_acknowledge_def same_control_def
  by (simp add: Let_def split: option.split_asm sum.split_asm prod.split_asm) auto

lemma gw_httpd_event_control:
  assumes "gw_httpd_event env fuel mem ev a = Inr (r, b)"
  shows "same_control a b"
proof -
  have "b = a \<or> (\<exists>body. gw_httpd_acknowledge env fuel body a = Inr (r, b))"
    using assms unfolding gw_httpd_event_def Let_def
    by (auto split: option.splits sum.splits if_splits)
  moreover have "same_control a a" by (simp add: same_control_def)
  ultimately show ?thesis using gw_httpd_acknowledge_control by blast
qed

lemma run_thread_split:
  "run_thread sy e a = a \<or>
   (\<exists>k s s1 a1. alive a \<and> fst e < length (ap_threads (ag_app a)) \<and> ap_threads (ag_app a) ! fst e = (k, s)
      \<and> thread_step sy (snd e) k s a = (s1, a1) \<and> run_thread sy e a = set_thread (fst e) (k, s1) a1)"
  by (auto simp: run_thread_def Let_def split: prod.split)

lemmas thread_defs = thread_step_def gw_snmpd_trap_def gw_snmpd_serve_def gw_os_start_def gw_httpd_serve_def

lemma thread_step_no_collection:
  assumes "ap_os_collect_running (ag_app a) = 0" and "thread_step sy inp k s a = (s1, a1)"
  shows "ag_updates a1 = ag_updates a \<and> ap_os_collect_running (ag_app a1) = 0"
proof (cases k)
  case Trap
  then show ?thesis using assms
    by (auto simp: thread_step_def gw_snmpd_trap_def split: thread_state.splits if_splits sum.splits option.splits)
next
  case Daemon
  then show ?thesis using assms
    by (auto simp: thread_step_def gw_snmpd_serve_def Let_def split: thread_state.splits if_splits sum.splits)
next
  case Os
  then show ?thesis using assms
    by (auto simp: thread_step_def gw_os_start_def split: thread_state.splits if_splits)
next
  case Http
  then show ?thesis using assms
    by (auto simp: thread_step_def gw_httpd_serve_def Let_def split: thread_state.splits if_splits)
qed

lemma agent_step_no_collection:
  assumes "agent_step sy a b" and "ap_os_collect_running (ag_app a) = 0"
  shows "ag_updates b = ag_updates a \<and> ap_os_collect_running (ag_app b) = 0"
  using assms(1)
proof cases
  case (run e)
  then show ?thesis
    using run_thread_split [of sy e a] assms(2)
    by (auto simp: set_thread_def dest: thread_step_no_collection [OF assms(2)])
next
  case (request s mem ev)
  then show ?thesis using assms(2)
    by (auto simp: agent_request_def same_control_def dest!: gw_httpd_event_control split: sum.splits)
qed (use assms(2) in \<open>auto simp: gw_app_start_flags agent_stop_def gw_app_stop_def agent_interrupt_def\<close>)

section \<open>Stopping\<close>

text \<open>After a stop, with no thread before its loop: the flags are clear, and a turn is the last.\<close>

definition quiet :: "'db agent \<Rightarrow> bool" where
  "quiet a \<longleftrightarrow> \<not> ag_exit a \<and> ap_snmp_daemon_running (ag_app a) = 0 \<and> ap_snmp_trap_running (ag_app a) = 0
     \<and> ap_http_web_running (ag_app a) = 0 \<and> ap_os_collect_running (ag_app a) = 0
     \<and> (\<forall>(k, s) \<in> set (ap_threads (ag_app a)). s = Looping True \<or> s = Exited)"

lemma quiet_turn:
  "quiet a \<Longrightarrow> (k, s) \<in> set (ap_threads (ag_app a)) \<Longrightarrow> thread_step sy inp k s a = (Exited, a)"
  unfolding quiet_def thread_defs by (cases k) auto

lemma quiet_run:
  assumes "quiet a" and "i < length (ap_threads (ag_app a))"
  shows "run_thread sy (i, inp) a = set_thread i (fst (ap_threads (ag_app a) ! i), Exited) a"
    and "quiet (run_thread sy (i, inp) a)"
proof -
  obtain k s where ks: "ap_threads (ag_app a) ! i = (k, s)" by force
  then have mem: "(k, s) \<in> set (ap_threads (ag_app a))" using assms(2) by (metis nth_mem)
  have "alive a" using assms(1) by (auto simp: alive_def quiet_def)
  then show eq: "run_thread sy (i, inp) a = set_thread i (fst (ap_threads (ag_app a) ! i), Exited) a"
    using quiet_turn [OF assms(1) mem, of sy inp] assms(2) ks by (simp add: run_thread_def)
  show "quiet (run_thread sy (i, inp) a)"
    unfolding eq using assms(1) by (auto simp: quiet_def set_thread_def dest!: subsetD [OF set_update_subset_insert])
qed

lemma quiet_schedule:
  assumes "quiet a"
  shows "quiet (fold (run_thread sy) sched a)
    \<and> length (ap_threads (ag_app (fold (run_thread sy) sched a))) = length (ap_threads (ag_app a))
    \<and> ag_updates (fold (run_thread sy) sched a) = ag_updates a
    \<and> ag_traps (fold (run_thread sy) sched a) = ag_traps a
    \<and> (\<forall>i < length (ap_threads (ag_app a)). i \<in> fst ` set sched \<or> snd (ap_threads (ag_app a) ! i) = Exited \<longrightarrow>
         snd (ap_threads (ag_app (fold (run_thread sy) sched a)) ! i) = Exited)"
  using assms
proof (induction sched arbitrary: a)
  case (Cons e sched)
  obtain i inp where e: "e = (i, inp)" by force
  show ?case
  proof (cases "i < length (ap_threads (ag_app a))")
    case True
    note r = quiet_run [OF Cons.prems True, of sy inp]
    define a1 where "a1 = run_thread sy (i, inp) a"
    have a1: "ap_threads (ag_app a1) = (ap_threads (ag_app a))[i := (fst (ap_threads (ag_app a) ! i), Exited)]"
      "ag_updates a1 = ag_updates a" "ag_traps a1 = ag_traps a"
      using r(1) by (simp_all add: a1_def set_thread_def)
    have ih: "quiet (fold (run_thread sy) sched a1)"
      "length (ap_threads (ag_app (fold (run_thread sy) sched a1))) = length (ap_threads (ag_app a1))"
      "ag_updates (fold (run_thread sy) sched a1) = ag_updates a1"
      "ag_traps (fold (run_thread sy) sched a1) = ag_traps a1"
      and ends: "\<And>j. j < length (ap_threads (ag_app a1)) \<Longrightarrow> j \<in> fst ` set sched \<or> snd (ap_threads (ag_app a1) ! j) = Exited \<Longrightarrow>
         snd (ap_threads (ag_app (fold (run_thread sy) sched a1)) ! j) = Exited"
      using Cons.IH [OF r(2), folded a1_def] by auto
    have "snd (ap_threads (ag_app (fold (run_thread sy) sched a1)) ! j) = Exited"
      if "j < length (ap_threads (ag_app a))" "j \<in> fst ` set (e # sched) \<or> snd (ap_threads (ag_app a) ! j) = Exited" for j
      using that e a1(1) by (intro ends) (cases "j = i"; auto)+
    then show ?thesis using ih a1 by (simp add: e a1_def [symmetric])
  next
    case False
    then have "run_thread sy e a = a" by (simp add: run_thread_def e Let_def)
    then show ?thesis using Cons.IH [OF Cons.prems] False e by auto
  qed
qed simp

text \<open>
  A thread that only reaches its loop after the stop undoes it: \<open>gw_httpd_serve\<close> sets its flag, so
  from then on no turn of any thread ends it.
\<close>

lemma thread_step_http_running:
  assumes "thread_step sy inp k s a = (s1, a1)" and "ap_http_web_running (ag_app a) = 1"
  shows "ap_http_web_running (ag_app a1) = 1 \<and> ap_threads (ag_app a1) = ap_threads (ag_app a)
    \<and> (k = Http \<and> s = Looping True \<longrightarrow> s1 = Looping True)"
  using assms
  by (cases k) (auto simp: thread_defs Let_def split: thread_state.splits if_splits sum.splits option.splits)

lemma late_start_survives:
  assumes "ap_http_web_running (ag_app a) = 1" and "i < length (ap_threads (ag_app a))"
    and "ap_threads (ag_app a) ! i = (Http, Looping True)"
  shows "ap_threads (ag_app (fold (run_thread sy) sched a)) ! i = (Http, Looping True)"
  using assms
proof (induction sched arbitrary: a)
  case (Cons e sched)
  let ?b = "run_thread sy e a"
  have "ap_http_web_running (ag_app ?b) = 1 \<and> length (ap_threads (ag_app ?b)) = length (ap_threads (ag_app a))
      \<and> ap_threads (ag_app ?b) ! i = (Http, Looping True)"
    using run_thread_split [of sy e a] Cons.prems
    by (auto simp: set_thread_def nth_list_update dest!: thread_step_http_running)
  then show ?case using Cons.IH [of ?b] Cons.prems(2) by simp
qed simp

text \<open>The daemon takes the signals: once it has initialised, an interrupt does nothing.\<close>

lemma daemon_takes_interrupt:
  assumes "alive a" "i < length (ap_threads (ag_app a))" "ap_threads (ag_app a) ! i = (Daemon, Created)"
    and "ap_snmp_daemon_running (ag_app a) = 1"
  shows "agent_interrupt (run_thread sy (i, inp) a) = run_thread sy (i, inp) a"
  using assms
  by (auto simp: run_thread_def thread_step_def gw_snmpd_serve_def set_thread_def agent_interrupt_def Let_def
      split: sum.splits)

section \<open>Properties\<close>

text \<open>An agent with its four threads in their loops, and a turn in which everything works.\<close>

definition sample_system :: "nat \<Rightarrow> (unit, unit) system" where
  "sample_system fuel = \<lparr>sy_httpd = \<lparr>he_agent = sample_agent_env, he_doubles = no_doubles, he_rrd_fetch = (\<lambda>_. None)\<rparr>,
     sy_add_var = (\<lambda>vs n t v. vs @ [\<lparr>vb_name = n, vb_type = t, vb_val = v\<rparr>]),
     sy_tokens = replicate 10 None, sy_fuel = fuel, sy_dir = ''/w''\<rparr>"

definition sample_input :: input where
  "sample_input = \<lparr>in_ok = True, in_master_ok = True, in_stat = None, in_meminfo = None, in_uptime = 7\<rparr>"

definition sample_agent :: "(thread_kind \<times> thread_state) list \<Rightarrow> unit agent" where
  "sample_agent ts = \<lparr>ag_app = sample_app\<lparr>ap_threads := ts\<rparr>, ag_sigint = Gw_Snmpd_Shutdown,
     ag_sigterm = Gw_Snmpd_Shutdown, ag_exit = False, ag_ds = snmpd_settings, ag_mibs = [gw_snmpd_register],
     ag_instances = [oid_gw_trap_address],
     ag_updates = [[''update'']], ag_traps = [], ag_document_root = [], ag_replies = []\<rparr>"

text \<open>
  C17. Once the agent has been stopped, the performance counters are never collected again: whatever
  happens afterwards, restarts included, no call of \<open>rrd_update\<close> is made, for nothing sets
  \<open>_gw_os_collect_running\<close> back to 1.
\<close>

theorem agent_stop_ends_collection:
  assumes "(agent_step sy)\<^sup>*\<^sup>* (agent_stop a) b"
  shows "ag_updates b = ag_updates a \<and> ap_os_collect_running (ag_app b) = 0"
  using assms
proof (induction rule: rtranclp_induct)
  case base
  then show ?case by (simp add: agent_stop_def gw_app_stop_def)
next
  case (step b c)
  then show ?case using agent_step_no_collection by metis
qed

theorem agent_stop_ends_collection_witness:
  "ag_updates (run_thread (sample_system 1) (0, sample_input) (agent_stop (sample_agent [(Os, Looping True)]))) = [[''update'']]"
proof -
  let ?a = "agent_stop (sample_agent [(Os, Looping True)])"
  have "alive ?a" by (simp add: alive_def agent_stop_def gw_app_stop_def sample_agent_def)
  then have "(agent_step (sample_system 1))\<^sup>*\<^sup>* ?a (run_thread (sample_system 1) (0, sample_input) ?a)"
    by (intro r_into_rtranclp agent_step.run)
  from agent_stop_ends_collection [OF this] show ?thesis by (simp add: sample_agent_def)
qed



text \<open>
  C19. A restart after a stop cannot be stopped: the flag 0 becomes 2, so the new daemon goes to its
  loop without its initialisation, and when the flag is cleared again it cleans up sets of
  descriptors that were never initialised, which ends the process.
\<close>

theorem agent_restart_crashes:
  assumes "alive a" and "ap_snmp_daemon_running (ag_app a) = 0"
    and "gw_app_start (he_agent (sy_httpd sy)) (sy_fuel sy) dir res (ag_app a) = Some (Inr app)"
  shows "\<exists>j. ap_threads app ! j = (Daemon, Created)
    \<and> \<not> alive (run_thread sy (j, inp2) (agent_stop (run_thread sy (j, inp1) (a\<lparr>ag_app := app\<rparr>))))"
proof -
  let ?j = "Suc (length (ap_threads (ag_app a)))" and ?a = "a\<lparr>ag_app := app\<rparr>"
  note st = gw_app_start_flags [OF assms(3)]
  have j: "?j < length (ap_threads app)" "ap_threads app ! ?j = (Daemon, Created)"
    using st(5) by (simp_all add: nth_append)
  have "alive ?a" using assms(1) st(5) by (auto simp: alive_def)
  then have b: "run_thread sy (?j, inp1) ?a = set_thread ?j (Daemon, Looping False) ?a"
    using j st(4) assms(2) by (simp add: run_thread_def thread_step_def gw_snmpd_serve_def)
  let ?b = "agent_stop (set_thread ?j (Daemon, Looping False) ?a)"
  have "alive ?b" using \<open>alive ?a\<close>
    by (auto simp: alive_def agent_stop_def gw_app_stop_def set_thread_def dest!: subsetD [OF set_update_subset_insert])
  moreover have "ap_threads (ag_app ?b) ! ?j = (Daemon, Looping False)" "?j < length (ap_threads (ag_app ?b))"
    "ap_snmp_daemon_running (ag_app ?b) = 0"
    using j by (simp_all add: agent_stop_def gw_app_stop_def set_thread_def)
  ultimately have c: "run_thread sy (?j, inp2) ?b = set_thread ?j (Daemon, Crashed) ?b"
    by (simp add: run_thread_def thread_step_def gw_snmpd_serve_def)
  have "(Daemon, Crashed) \<in> set ((ap_threads (ag_app ?b))[?j := (Daemon, Crashed)])"
    using j(1) by (intro set_update_memI) (simp add: agent_stop_def gw_app_stop_def set_thread_def)
  then have "\<not> alive (run_thread sy (?j, inp2) ?b)" unfolding c
    by (auto simp: alive_def set_thread_def)
  then show ?thesis using j b by auto
qed

theorem agent_restart_crashes_witness:
  "\<exists>fuel app j. gw_app_start sample_agent_env fuel ''/w'' ''/r'' (sample_app\<lparr>ap_threads := []\<rparr>) = Some (Inr app)
     \<and> \<not> alive (run_thread (sample_system fuel) (j, sample_input) (agent_stop
           (run_thread (sample_system fuel) (j, sample_input) ((sample_agent [])\<lparr>ag_app := app\<rparr>))))"
proof -
  have app: "sample_app\<lparr>ap_threads := []\<rparr> = sample_app" by (simp add: sample_app_def)
  obtain fuel app where start: "gw_app_start sample_agent_env fuel ''/w'' ''/r'' sample_app = Some (Inr app)"
    using gw_app_start_ok [OF sample_start] by blast
  have a: "alive (sample_agent [])" "ap_snmp_daemon_running (ag_app (sample_agent [])) = 0"
    by (simp_all add: alive_def sample_agent_def sample_app_def)
  have "gw_app_start (he_agent (sy_httpd (sample_system fuel))) (sy_fuel (sample_system fuel)) ''/w'' ''/r''
      (ag_app (sample_agent [])) = Some (Inr app)"
    using start by (simp add: sample_system_def sample_agent_def app)
  from agent_restart_crashes [OF a this] show ?thesis using start unfolding app by blast
qed

end
