(* ===== verification/Mg_Chunk.thy ===== *)
theory Mg_Chunk
  imports Mg_Http
begin

text \<open>
  Chunked bodies: what \<open>mg_handle_chunked\<close> of \<open>Mg_Http\<close> makes of the chunks a peer sends.
\<close>

section \<open>Chunks as they are written\<close>

fun hex_digits :: "nat \<Rightarrow> string" where
  "hex_digits n =
     (if n < 16 then [''0123456789abcdef'' ! n] else hex_digits (n div 16) @ [''0123456789abcdef'' ! (n mod 16)])"

declare hex_digits.simps [simp del]

definition chunk_text :: "string \<Rightarrow> string" where
  "chunk_text d = hex_digits (length d) @ CRLF @ d @ CRLF"

lemma hex_char: "n < 16 \<Longrightarrow> isxdigit (''0123456789abcdef'' ! n)"
proof -
  have "\<forall>n \<in> set [0 ..< 16]. isxdigit (''0123456789abcdef'' ! n)" by code_simp
  then show "n < 16 \<Longrightarrow> ?thesis" by simp
qed

lemma hex_digits_length: "n < 16 ^ k \<Longrightarrow> 0 < k \<Longrightarrow> length (hex_digits n) \<le> k"
proof (induction k arbitrary: n)
  case (Suc k)
  show ?case
  proof (cases "n < 16")
    case True
    then show ?thesis by (simp add: hex_digits.simps [of n])
  next
    case False
    then have "n div 16 < 16 ^ k" "0 < k" using Suc.prems(1) by (auto simp: less_mult_imp_div_less mult.commute intro: gr0I)
    then show ?thesis using Suc.IH [of "n div 16"] False by (simp add: hex_digits.simps [of n])
  qed
qed simp

lemma hex_digits_nonempty: "hex_digits n \<noteq> []"
  by (simp add: hex_digits.simps [of n])

lemma chunk_digits_hex:
  "i + length (hex_digits n) \<le> 6 \<Longrightarrow>
     chunk_digits (hex_digits n @ s) i acc = chunk_digits s (i + length (hex_digits n)) (acc * 16 ^ length (hex_digits n) + n)"
proof (induction n arbitrary: i acc s rule: hex_digits.induct)
  case (1 n)
  show ?case
  proof (cases "n < 16")
    case True
    then show ?thesis using "1.prems" hex_char [of n] fourbit_hex [of n] by (simp add: hex_digits.simps [of n])
  next
    case False
    have len: "length (hex_digits n) = Suc (length (hex_digits (n div 16)))" using False by (simp add: hex_digits.simps [of n])
    have c: "isxdigit (''0123456789abcdef'' ! (n mod 16))" "fourbit (''0123456789abcdef'' ! (n mod 16)) = n mod 16"
      using hex_char [of "n mod 16"] fourbit_hex [of "n mod 16"] by simp_all
    have "hex_digits n @ s = hex_digits (n div 16) @ (''0123456789abcdef'' ! (n mod 16)) # s"
      using False by (simp add: hex_digits.simps [of n])
    then show ?thesis
      using "1.IH" [OF False, of i "(''0123456789abcdef'' ! (n mod 16)) # s" acc] "1.prems" c unfolding len
      by (simp add: algebra_simps)
  qed
qed

lemma parse_chunk_text:
  assumes "length d < 16 ^ 6"
  shows "mg_http_parse_chunk (chunk_text d @ rest)
    = Some (length (chunk_text d), length (hex_digits (length d)) + 2, length d)"
proof -
  let ?h = "hex_digits (length d)"
  have len: "length ?h \<le> 6" by (rule hex_digits_length [OF assms]) simp
  have digits: "chunk_digits (chunk_text d @ rest) 0 0 = Some (length ?h, length d)"
    using chunk_digits_hex [of 0 "length d" "CRLF @ d @ CRLF @ rest" 0] len by (simp add: chunk_text_def isxdigit_def)
  let ?buf = "chunk_text d @ rest"
  have size: "length ?buf = length ?h + 4 + length d + length rest" by (simp add: chunk_text_def)
  have at: "?buf ! (length ?h + i) = (CRLF @ d @ CRLF @ rest) ! i" for i
    unfolding chunk_text_def append_assoc by (rule nth_append_length_plus)
  have i: "length ?h = length ?h + 0" "length ?h + 2 + length d = length ?h + (2 + length d)"
    "length ?h + 2 + length d + 1 = length ?h + (3 + length d)" by simp_all
  have eol: "?buf ! length ?h = CR" "?buf ! (length ?h + 1) = newline"
    "?buf ! (length ?h + 2 + length d) = CR" "?buf ! (length ?h + 2 + length d + 1) = newline"
    by (subst i(1), subst at, simp) (subst at, simp, subst i(2), subst at, simp add: nth_append,
      subst i(3), subst at, simp add: nth_append)
  have ok: "\<not> (length ?h = 0 \<or> length ?h + 2 > length ?buf \<or> ?buf ! length ?h \<noteq> CR \<or> ?buf ! (length ?h + 1) \<noteq> newline)"
    "\<not> (length ?h + 2 + length d + 2 > length ?buf \<or> ?buf ! (length ?h + 2 + length d) \<noteq> CR
        \<or> ?buf ! (length ?h + 2 + length d + 1) \<noteq> newline)"
    unfolding eol using size hex_digits_nonempty [of "length d"] by simp_all
  have n: "length ?h + 2 + length d + 2 = length (chunk_text d)" by (simp add: chunk_text_def)
  show ?thesis
    unfolding mg_http_parse_chunk_def digits option.case prod.case Let_def if_not_P [OF ok(1)] if_not_P [OF ok(2)]
    by (simp only: n)
qed

section \<open>Collapsing\<close>

lemma drop_memmove: "dst + n \<le> j \<Longrightarrow> drop j (memmove buf dst src n) = drop j buf"
  by (rule nth_equalityI) (simp_all add: memmove_def)

lemma take_memmove:
  assumes "dst \<le> src" and "src + n \<le> length buf"
  shows "take (dst + n) (memmove buf dst src n) = take dst buf @ take n (drop src buf)"
  using assms by (intro nth_equalityI) (auto simp: memmove_def nth_append byte_at_def)

lemma chunk_loop_text:
  "drop i buf = concat (map chunk_text ds) @ chunk_text [] @ rest \<Longrightarrow> \<forall>d \<in> set ds. d \<noteq> [] \<and> length d < 16 ^ 6
   \<Longrightarrow> b \<le> i \<Longrightarrow> i \<le> length buf \<Longrightarrow>
   \<exists>buf'. chunk_loop buf i b
       = (buf', i + length (concat (map chunk_text ds) @ chunk_text []), b + length (concat ds), True)
     \<and> length buf' = length buf \<and> take (b + length (concat ds)) buf' = take b buf @ concat ds
     \<and> drop (i + length (concat (map chunk_text ds) @ chunk_text [])) buf' = rest"
proof (induction ds arbitrary: buf i b)
  case Nil
  let ?h = "length (hex_digits 0) + 2"
  have parse: "mg_http_parse_chunk (drop i buf) = Some (length (chunk_text []), ?h, 0)"
    using parse_chunk_text [of "[]" rest] Nil.prems(1) by simp
  let ?buf = "memmove buf b (i + ?h) 0"
  have "length (chunk_text []) + length rest = length buf - i" using arg_cong [OF Nil.prems(1), of length] by simp
  moreover have "take b ?buf = take b buf" by (rule nth_equalityI) (simp_all add: memmove_def)
  moreover have "drop (i + length (chunk_text [])) ?buf = drop (length (chunk_text [])) (drop i buf)"
    using Nil.prems(3) by (subst drop_memmove) (simp_all add: add.commute)
  then have "drop (i + length (chunk_text [])) ?buf = rest" using Nil.prems(1) by simp
  ultimately show ?case
    using parse by (subst chunk_loop.simps) simp
next
  case (Cons d ds)
  let ?h = "length (hex_digits (length d)) + 2" and ?n = "length (chunk_text d)"
  have d: "d \<noteq> []" "length d < 16 ^ 6" using Cons.prems(2) by simp_all
  let ?tail = "concat (map chunk_text ds) @ chunk_text [] @ rest"
  have drop_i: "drop i buf = chunk_text d @ ?tail" using Cons.prems(1) by simp
  have parse: "mg_http_parse_chunk (drop i buf) = Some (?n, ?h, length d)"
    unfolding drop_i by (rule parse_chunk_text [OF d(2)])
  have size: "?n + length ?tail = length buf - i" using arg_cong [OF drop_i, of length] by simp
  have n: "?n = ?h + length d + 2" by (simp add: chunk_text_def)
  let ?buf = "memmove buf b (i + ?h) (length d)"
  have drop_at: "drop (i + k) buf = drop k (drop i buf)" for k by (simp add: add.commute)
  have data: "take (length d) (drop (i + ?h) buf) = d" unfolding drop_at drop_i by (simp add: chunk_text_def)
  have "i + ?h + length d \<le> length buf" using size n Cons.prems(4) by simp
  then have take: "take (b + length d) ?buf = take b buf @ d"
    using take_memmove [of b "i + ?h" "length d" buf] Cons.prems(3) data by simp
  have "drop (i + ?n) ?buf = drop (i + ?n) buf" by (rule drop_memmove) (use Cons.prems(3) n in simp)
  also have "\<dots> = ?tail" unfolding drop_at drop_i by simp
  finally have drop: "drop (i + ?n) ?buf = ?tail" .
  have len: "b + length d \<le> i + ?n" "i + ?n \<le> length ?buf" using Cons.prems(3,4) n size by simp_all
  have ds: "\<forall>d \<in> set ds. d \<noteq> [] \<and> length d < 16 ^ 6" using Cons.prems(2) by simp
  from Cons.IH [OF drop ds len] obtain buf' where buf':
    "chunk_loop ?buf (i + ?n) (b + length d) = (buf', i + ?n + length (concat (map chunk_text ds) @ chunk_text []),
       b + length d + length (concat ds), True)"
    "length buf' = length ?buf" "take (b + length d + length (concat ds)) buf' = take (b + length d) ?buf @ concat ds"
    "drop (i + ?n + length (concat (map chunk_text ds) @ chunk_text [])) buf' = rest" by blast
  have "chunk_loop buf i b = chunk_loop ?buf (i + ?n) (b + length d)"
    using parse d(1) by (subst chunk_loop.simps) simp
  then show ?case using buf' take by (intro exI [of _ buf']) (simp add: add.assoc)
qed

section \<open>Properties\<close>



end
