(* ===== verification/Mg_Bytes.thy ===== *)
theory Mg_Bytes
  imports Mg_Str
begin

text \<open>
  Numbers as bytes, for the parts of \<open>src/src/mongoose.c\<close> that write and read them: the bytes of
  a number in network order, 32-bit words as the processor loads them, and blocks of memory that are
  written in the middle.
\<close>

unbundle bit_operations_syntax

section \<open>Definitions\<close>

definition xor_char :: "char \<Rightarrow> char \<Rightarrow> char" where
  "xor_char c d = char_of ((of_char c :: nat) XOR of_char d)"

text \<open>The bytes of a number, the most significant first, and the number they make.\<close>

definition be_bytes :: "nat \<Rightarrow> nat \<Rightarrow> string" where
  "be_bytes k n = map (\<lambda>i. char_of (n div 256 ^ (k - 1 - i) mod 256)) [0 ..< k]"

definition be_value :: "string \<Rightarrow> nat" where
  "be_value s = fold (\<lambda>c n. n * 256 + of_char c) s 0"

text \<open>A word in memory, on a machine that stores the least significant byte first.\<close>

definition le_bytes :: "nat \<Rightarrow> nat \<Rightarrow> string" where
  "le_bytes k n = rev (be_bytes k n)"

definition le_word :: "string \<Rightarrow> 32 word" where
  "le_word s = word_of_nat (be_value (rev s))"

definition be_word :: "string \<Rightarrow> 32 word" where
  "be_word s = word_of_nat (be_value s)"

definition mem_put :: "string \<Rightarrow> nat \<Rightarrow> string \<Rightarrow> string" where
  "mem_put b at s = take at b @ s @ drop (at + length s) b"

definition rol :: "nat \<Rightarrow> 32 word \<Rightarrow> 32 word" where
  "rol n w = push_bit n w OR drop_bit (32 - n) w"

section \<open>Bytes in network order\<close>

lemma be_bytes_0 [simp]: "be_bytes 0 n = []"
  by (simp add: be_bytes_def)

lemma length_be_bytes [simp]: "length (be_bytes k n) = k"
  by (simp add: be_bytes_def)

lemma be_bytes_Suc: "be_bytes (Suc k) n = be_bytes k (n div 256) @ [char_of (n mod 256)]"
proof -
  have "n div 256 ^ (k - i) mod 256 = n div 256 div 256 ^ (k - 1 - i) mod 256" if "i < k" for i
  proof -
    have "256 ^ (k - i) = 256 * (256 :: nat) ^ (k - 1 - i)"
      using that by (simp flip: power_Suc add: Suc_diff_Suc)
    then show ?thesis by (simp add: div_mult2_eq)
  qed
  then show ?thesis by (simp add: be_bytes_def)
qed

lemma be_value_Nil [simp]: "be_value [] = 0"
  by (simp add: be_value_def)

lemma be_value_snoc: "be_value (s @ [c]) = be_value s * 256 + of_char c"
  by (simp add: be_value_def)

lemma be_value_bytes: "n < 256 ^ k \<Longrightarrow> be_value (be_bytes k n) = n"
proof (induction k arbitrary: n)
  case (Suc k)
  have "be_value (be_bytes k (n div 256)) = n div 256" using Suc by (intro Suc.IH) (simp add: less_mult_imp_div_less)
  then show ?case by (simp add: be_bytes_Suc be_value_snoc)
qed simp

lemma be_bytes_value: "be_bytes (length s) (be_value s) = s"
proof (induction s rule: rev_induct)
  case (snoc c s)
  have "of_char c < (256 :: nat)" by (rule nat_of_char_less_256)
  then show ?case using snoc by (simp add: be_bytes_Suc be_value_snoc)
qed simp

lemma be_value_less: "be_value s < 256 ^ length s"
proof (induction s rule: rev_induct)
  case (snoc c s)
  have "of_char c < (256 :: nat)" by (rule nat_of_char_less_256)
  then have "be_value s * 256 + of_char c < (be_value s + 1) * 256" by simp
  also have "\<dots> \<le> 256 ^ length s * 256" using snoc by (intro mult_right_mono) simp_all
  finally show ?case by (simp add: be_value_snoc mult.commute)
qed simp

lemma be_bytes_append: "be_bytes (j + k) n = be_bytes j (n div 256 ^ k) @ be_bytes k n"
  by (induction k arbitrary: n) (simp_all add: be_bytes_Suc div_mult2_eq)

lemma be_bytes_mod: "be_bytes k (n mod 256 ^ k) = be_bytes k n"
proof (induction k arbitrary: n)
  case (Suc k)
  have "n mod (256 * 256 ^ k) div 256 = n div 256 mod 256 ^ k" "n mod (256 * 256 ^ k) mod 256 = n mod 256"
    by (simp_all add: mod_mult2_eq mod_mod_cancel)
  then show ?case using Suc by (simp add: be_bytes_Suc)
qed simp

lemma be_bytes_4: "be_bytes 4 n =
    [char_of (n div 2 ^ 24 mod 256), char_of (n div 2 ^ 16 mod 256), char_of (n div 2 ^ 8 mod 256), char_of (n mod 256)]"
proof -
  have "be_bytes (Suc (Suc (Suc (Suc 0)))) n =
    [char_of (n div 2 ^ 24 mod 256), char_of (n div 2 ^ 16 mod 256), char_of (n div 2 ^ 8 mod 256), char_of (n mod 256)]"
    by (simp add: be_bytes_Suc flip: div_mult2_eq)
  moreover have "4 = Suc (Suc (Suc (Suc 0)))" by simp
  ultimately show ?thesis by (simp only:)
qed

lemma word_byte: "char_of (unat (drop_bit (8 * k) (w :: 32 word) AND 255)) = (char_of (unat w div 256 ^ k mod 256) :: char)"
proof -
  have "drop_bit (8 * k) w AND 255 = take_bit 8 (drop_bit (8 * k) w)"
    using take_bit_eq_mask [of 8 "drop_bit (8 * k) w"] by (simp add: mask_eq_exp_minus_1)
  moreover have "unat (take_bit 8 (drop_bit (8 * k) w)) = unat w div 256 ^ k mod 256"
    unfolding unsigned_take_bit_eq unat_drop_bit_eq by (simp only: drop_bit_eq_div take_bit_eq_mod power_mult) simp
  ultimately show ?thesis by simp
qed

lemma word_bytes: "[char_of (unat (drop_bit 24 w AND 255)), char_of (unat (drop_bit 16 w AND 255)),
    char_of (unat (drop_bit 8 w AND 255)), char_of (unat (w AND 255))] = be_bytes 4 (unat (w :: 32 word))"
  using word_byte [of 3 w] word_byte [of 2 w] word_byte [of 1 w] word_byte [of 0 w]
  by (simp add: be_bytes_4 del: drop_bit_numeral_bit0)

lemma push_or: "y < 2 ^ n \<Longrightarrow> push_bit n x OR y = x * 2 ^ n + (y :: nat)"
proof -
  assume "y < 2 ^ n"
  then have y: "take_bit n y = y" by (rule take_bit_nat_eq_self)
  have "push_bit n x AND y = 0"
    by (subst y [symmetric]) (auto simp: bit_eq_iff bit_simps)
  then have "push_bit n x OR y = push_bit n x + y" by (rule disjunctive_add_eq_or [symmetric])
  then show ?thesis by (simp add: push_bit_eq_mult)
qed

lemma length_mem_put: "at + length s \<le> length b \<Longrightarrow> length (mem_put b at s) = length b"
  by (simp add: mem_put_def)

lemma take_mem_put: "at \<le> length b \<Longrightarrow> take (at + length s) (mem_put b at s) = take at b @ s"
  by (simp add: mem_put_def)

lemma mem_put_end: "at + length s = length b \<Longrightarrow> mem_put b at s = take at b @ s"
  by (simp add: mem_put_def)

section \<open>Words in memory\<close>

lemma bit_byte: "bit (of_char c :: nat) i \<Longrightarrow> i < 8"
proof -
  have "take_bit 8 (of_char c) = (of_char c :: nat)"
    using nat_of_char_less_256 [of c] by (intro take_bit_nat_eq_self) simp
  then show "bit (of_char c :: nat) i \<Longrightarrow> i < 8" by (metis bit_take_bit_iff)
qed

lemma be_value_4: "be_value [a, b, c, d] =
    push_bit 24 (of_char a) OR push_bit 16 (of_char b) OR push_bit 8 (of_char c) OR of_char d"
proof -
  have l: "of_char x < (256 :: nat)" for x by (rule nat_of_char_less_256)
  have "push_bit 8 (push_bit 8 (push_bit 8 (of_char a) OR of_char b) OR of_char c) OR of_char d = be_value [a, b, c, d]"
    using l by (simp add: be_value_def push_or)
  then show ?thesis by (simp add: push_bit_or flip: or.assoc)
qed

lemma bit_word_4:
  "bit (be_word [a, b, c, d]) i \<longleftrightarrow> i < 32 \<and>
     (if i < 8 then bit (of_char d :: nat) i else if i < 16 then bit (of_char c :: nat) (i - 8)
      else if i < 24 then bit (of_char b :: nat) (i - 16) else bit (of_char a :: nat) (i - 24))"
  using bit_byte [of a "i - 24"] bit_byte [of b "i - 16"] bit_byte [of c "i - 8"] bit_byte [of d i]
  by (auto simp: be_word_def be_value_4 bit_simps)

text \<open>The two rotations and masks that \<open>blk0\<close> does turn a word from one order into the other.\<close>

lemma bit_rol: "0 < n \<Longrightarrow> n < 32 \<Longrightarrow> i < 32 \<Longrightarrow> bit (rol n w) i \<longleftrightarrow> bit w ((i + 32 - n) mod 32)"
proof -
  assume n: "0 < n" "n < 32" "i < 32"
  have "bit w j \<Longrightarrow> j < 32" for j using bit_imp_le_length [of w j] by simp
  moreover have "(i + 32 - n) mod 32 = (if n \<le> i then i - n else 32 - n + i)" using n by (auto simp: le_mod_geq)
  ultimately show ?thesis using n by (auto simp: rol_def bit_simps add.commute)
qed

lemma swap_masks:
  "(0xFF00FF00 :: 32 word) = push_bit 24 (mask 8) OR push_bit 8 (mask 8)"
  "(0x00FF00FF :: 32 word) = push_bit 16 (mask 8) OR mask 8"
  by (simp_all add: mask_eq_exp_minus_1)

lemma swap_word:
  "(rol 24 (le_word [a, b, c, d]) AND 0xFF00FF00) OR (rol 8 (le_word [a, b, c, d]) AND 0x00FF00FF) = be_word [a, b, c, d]"
proof (rule bit_word_eqI)
  fix i assume "i < LENGTH(32)"
  then have i: "i < 32" by simp
  have le: "le_word [a, b, c, d] = be_word [d, c, b, a]" by (simp add: le_word_def be_word_def)
  have m: "bit (0xFF00FF00 :: 32 word) i \<longleftrightarrow> (8 \<le> i \<and> i < 16) \<or> 24 \<le> i"
    "bit (0x00FF00FF :: 32 word) i \<longleftrightarrow> i < 8 \<or> (16 \<le> i \<and> i < 24)"
    using i unfolding swap_masks by (auto simp: bit_simps)
  show "bit ((rol 24 (le_word [a, b, c, d]) AND 0xFF00FF00) OR (rol 8 (le_word [a, b, c, d]) AND 0x00FF00FF)) i
      \<longleftrightarrow> bit (be_word [a, b, c, d]) i"
    using i unfolding le bit_or_iff bit_and_iff m by (auto simp: bit_rol bit_word_4 mod_if split: if_splits)
qed

end
