(* ===== verification/Mg_Uri.thy ===== *)
theory Mg_Uri
  imports Mg_Http Mg_Base64
begin

text \<open>
  URIs of the embedded web server, \<open>src/src/mongoose.c\<close>: taking a URI apart with a state
  machine, putting one together, resolving dot segments, and URL encoding. Building is a client of
  the interface \<open>byte_sink\<close>, through \<open>heap\<close>.
\<close>

section \<open>Taking a URI apart\<close>

text \<open>
  \<open>parse_uri_component\<close>: the text up to a separator, and the index behind it.
\<close>

definition parse_uri_component :: "string \<Rightarrow> nat \<Rightarrow> nat \<Rightarrow> string \<Rightarrow> nat \<times> mg_str" where
  "parse_uri_component mem p e seps =
     (let q = p + length (takeWhile (\<lambda>c. c \<notin> set seps) (substr mem p (e - p)))
      in (if q < e then Suc q else q, \<lparr>ms_p = Some p, ms_len = q - p\<rparr>))"

datatype uri_state = P_START | P_SCHEME_OR_PORT | P_USER_INFO | P_HOST | P_PORT | P_REST

record uri_parts =
  up_scheme :: mg_str
  up_user_info :: mg_str
  up_host :: mg_str
  up_port :: "32 word"
  up_path :: mg_str
  up_query :: mg_str
  up_fragment :: mg_str

definition uri_parts_init :: uri_parts where
  "uri_parts_init = \<lparr>up_scheme = mg_null_str, up_user_info = mg_null_str, up_host = mg_null_str, up_port = 0,
     up_path = mg_null_str, up_query = mg_null_str, up_fragment = mg_null_str\<rparr>"

text \<open>The index, from \<open>p\<close> on, of a byte of \<open>stop\<close>, or the end.\<close>

definition scan_to :: "string \<Rightarrow> nat \<Rightarrow> nat \<Rightarrow> string \<Rightarrow> nat" where
  "scan_to mem p e stop = p + length (takeWhile (\<lambda>c. c \<notin> set stop) (substr mem p (e - p)))"

text \<open>The digits of a port: any bytes up to a slash, modulo \<open>2 ^ 32\<close>.\<close>

definition port_value :: "string \<Rightarrow> 32 word \<Rightarrow> 32 word" where
  "port_value s = fold (\<lambda>c port. port * 10 + word_of_int (char_val c - 48)) s"

text \<open>
  One turn of the loop of \<open>mg_parse_uri\<close>, at an index before the end \<open>e\<close>; \<open>None\<close> for the
  return with -1. The state for the host reads the byte at the index behind an at sign, which
  may be the end.
\<close>

definition uri_step :: "string \<Rightarrow> nat \<Rightarrow> uri_state \<times> nat \<times> uri_parts \<Rightarrow> (uri_state \<times> nat \<times> uri_parts) option" where
  "uri_step mem e st =
     (case st of (state, p, u) \<Rightarrow>
        (case state of
           P_START \<Rightarrow>
             if byte_at mem p = CHR ''['' then Some (P_HOST, p, u)
             else
               (let q = scan_to mem p e '':/'';
                    u1 = u\<lparr>up_host := \<lparr>ms_p = Some 0, ms_len = q\<rparr>\<rparr>
                in if q < e \<and> byte_at mem q = CHR '':'' then Some (P_SCHEME_OR_PORT, q, u)
                   else if q < e then Some (P_REST, q, u1) else Some (P_START, q, u1))
         | P_SCHEME_OR_PORT \<Rightarrow>
             if e - p \<ge> 3 \<and> strncmp (drop p mem) ''://'' 3 = 0
             then Some (P_USER_INFO, p + 3, u\<lparr>up_scheme := \<lparr>ms_p = Some 0, ms_len = p\<rparr>\<rparr>)
             else Some (P_PORT, p, u\<lparr>up_host := \<lparr>ms_p = Some 0, ms_len = p\<rparr>\<rparr>)
         | P_USER_INFO \<Rightarrow>
             (let q = scan_to mem p e ''@[/'';
                  r = (if q = e \<or> byte_at mem q = CHR ''/'' \<or> byte_at mem q = CHR ''['' then p else q)
              in Some (P_HOST, r, u\<lparr>up_user_info := \<lparr>ms_p = Some p, ms_len = r - p\<rparr>\<rparr>))
         | P_HOST \<Rightarrow>
             (let p1 = (if byte_at mem p = CHR ''@'' then Suc p else p);
                  bracket = byte_at mem p1 = CHR ''['';
                  q0 = scan_to mem p1 e '']'';
                  q = (if bracket then Suc q0 else scan_to mem p1 e '':/'');
                  u1 = u\<lparr>up_host := \<lparr>ms_p = Some p1, ms_len = q - p1\<rparr>\<rparr>
              in if bracket \<and> \<not> q0 < e then None
                 else if q < e \<and> byte_at mem q = CHR '':'' then Some (P_PORT, q, u1)
                 else if q < e \<and> byte_at mem q = CHR ''/'' then Some (P_REST, q, u1)
                 else Some (P_HOST, q, u1))
         | P_PORT \<Rightarrow>
             (let q = scan_to mem (Suc p) e ''/'';
                  u1 = u\<lparr>up_port := port_value (substr mem (Suc p) (q - Suc p)) (up_port u)\<rparr>
              in Some (if q < e then P_REST else P_PORT, q, u1))
         | P_REST \<Rightarrow>
             (let (p1, path) = parse_uri_component mem p e ''?#'';
                  (p2, query) = (if p1 < e \<and> byte_at mem (p1 - 1) = CHR ''?''
                                 then parse_uri_component mem p1 e ''#'' else (p1, up_query u));
                  (p3, fragment) = parse_uri_component mem p2 e []
              in Some (P_REST, p3, u\<lparr>up_path := path, up_query := query, up_fragment := fragment\<rparr>))))"

partial_function (option) uri_loop :: "string \<Rightarrow> nat \<Rightarrow> uri_state \<times> nat \<times> uri_parts \<Rightarrow> (int \<times> uri_parts) option" where
  "uri_loop mem e st =
     (if fst (snd st) < e
      then (case uri_step mem e st of None \<Rightarrow> Some (- 1, uri_parts_init) | Some st1 \<Rightarrow> uri_loop mem e st1)
      else Some (0, snd (snd st)))"

definition mg_parse_uri :: "string \<Rightarrow> nat \<Rightarrow> (int \<times> uri_parts) option" where
  "mg_parse_uri mem e = uri_loop mem e (P_START, 0, uri_parts_init)"

section \<open>The loop ends\<close>

definition state_rank :: "uri_state \<Rightarrow> nat" where
  "state_rank s = (case s of P_START \<Rightarrow> 5 | P_SCHEME_OR_PORT \<Rightarrow> 4 | P_USER_INFO \<Rightarrow> 3 | P_HOST \<Rightarrow> 2 | P_PORT \<Rightarrow> 1 | P_REST \<Rightarrow> 0)"

lemma scan_to_bounds: "p \<le> scan_to mem p e stop" "p \<le> e \<Longrightarrow> scan_to mem p e stop \<le> e"
proof -
  have "length (takeWhile (\<lambda>c. c \<notin> set stop) (substr mem p (e - p))) \<le> e - p"
    by (rule le_trans [OF length_takeWhile_le]) simp
  then show "p \<le> scan_to mem p e stop" "p \<le> e \<Longrightarrow> scan_to mem p e stop \<le> e" by (auto simp: scan_to_def)
qed

lemma scan_to_at:
  assumes "scan_to mem p e stop < e" and "e \<le> length mem"
  shows "byte_at mem (scan_to mem p e stop) \<in> set stop"
proof -
  let ?s = "substr mem p (e - p)" let ?n = "length (takeWhile (\<lambda>c. c \<notin> set stop) ?s)"
  have q: "scan_to mem p e stop = p + ?n" by (simp add: scan_to_def)
  then have n: "?n < length ?s" using assms by simp
  then have "?s ! ?n \<in> set stop" using nth_length_takeWhile [OF n] by simp
  moreover have "?s ! i = mem ! (p + i)" if "i < length ?s" for i
    using that assms(2) by (simp add: substr_def nth_drop)
  ultimately show ?thesis using assms q n by (simp add: byte_at_def)
qed

lemma component_bounds:
  assumes "parse_uri_component mem p e seps = (q, m)" and "p \<le> e"
  shows "p \<le> q" and "q \<le> e" and "p < e \<Longrightarrow> p < q" and "ms_inside e m"
proof -
  have "p \<le> scan_to mem p e seps" "scan_to mem p e seps \<le> e"
    using scan_to_bounds [where p = p and e = e and mem = mem and stop = seps] assms(2) by auto
  then show "p \<le> q" "q \<le> e" "p < e \<Longrightarrow> p < q" "ms_inside e m"
    using assms(1) by (auto simp: parse_uri_component_def Let_def scan_to_def ms_inside_def split: if_splits)
qed

definition parts_inside :: "nat \<Rightarrow> uri_parts \<Rightarrow> bool" where
  "parts_inside e u \<longleftrightarrow> ms_inside e (up_scheme u) \<and> ms_inside e (up_user_info u) \<and> ms_inside e (up_host u)
     \<and> ms_inside e (up_path u) \<and> ms_inside e (up_query u) \<and> ms_inside e (up_fragment u)"

lemma ms_inside_Some [simp]: "ms_inside e \<lparr>ms_p = Some p, ms_len = n\<rparr> \<longleftrightarrow> p + n \<le> e"
  by (simp add: ms_inside_def)

text \<open>What a turn promises: it moves on, or changes to a state of a lower rank.\<close>

definition moves :: "nat \<Rightarrow> uri_state \<Rightarrow> nat \<Rightarrow> uri_state \<times> nat \<times> uri_parts \<Rightarrow> bool" where
  "moves e s p st \<longleftrightarrow> (case st of (s1, p1, u1) \<Rightarrow>
     p \<le> p1 \<and> p1 \<le> e \<and> (p < p1 \<or> state_rank s1 < state_rank s) \<and> parts_inside e u1)"

lemma uri_step_rest:
  assumes "p < e" and "parts_inside e u" and "uri_step mem e (P_REST, p, u) = Some st"
  shows "moves e P_REST p st"
proof -
  obtain p1 path where c1: "parse_uri_component mem p e ''?#'' = (p1, path)" by force
  obtain p2 query where c2: "(if p1 < e \<and> byte_at mem (p1 - 1) = CHR ''?''
      then parse_uri_component mem p1 e ''#'' else (p1, up_query u)) = (p2, query)" by force
  obtain p3 fragment where c3: "parse_uri_component mem p2 e [] = (p3, fragment)" by force
  note b1 = component_bounds [OF c1 less_imp_le [OF assms(1)]]
  have b2: "p1 \<le> p2 \<and> p2 \<le> e \<and> ms_inside e query"
  proof (cases "p1 < e \<and> byte_at mem (p1 - 1) = CHR ''?''")
    case True
    then have c: "parse_uri_component mem p1 e ''#'' = (p2, query)" using c2 by simp
    show ?thesis using component_bounds [OF c b1(2)] by simp
  next
    case False
    then have "p2 = p1 \<and> query = up_query u" using c2 by auto
    then show ?thesis using b1(2) assms(2) by (simp add: parts_inside_def)
  qed
  have "p2 \<le> e" using b2 by simp
  note b3 = component_bounds [OF c3 this]
  have "st = (P_REST, p3, u\<lparr>up_path := path, up_query := query, up_fragment := fragment\<rparr>)"
    using assms(3) unfolding uri_step_def Let_def c1 c2 c3 prod.case uri_state.case by simp
  moreover have "p < p3" using b1(3) [OF assms(1)] b2 b3(1) by simp
  ultimately show ?thesis using b1 b2 b3 assms(2) by (simp add: moves_def parts_inside_def)
qed

lemma uri_step_moves:
  assumes "p < e" and "e \<le> length mem" and "parts_inside e u" and "uri_step mem e (s, p, u) = Some st"
  shows "moves e s p st"
proof (cases s)
  case P_START
  then show ?thesis using assms scan_to_bounds [where p = p and e = e and mem = mem and stop = "'':/''"]
    by (auto simp: uri_step_def Let_def moves_def parts_inside_def state_rank_def split: if_splits)
next
  case P_SCHEME_OR_PORT
  then show ?thesis using assms
    by (auto simp: uri_step_def Let_def moves_def parts_inside_def state_rank_def split: if_splits)
next
  case P_USER_INFO
  then show ?thesis using assms scan_to_bounds [where p = p and e = e and mem = mem and stop = "''@[/''"]
    by (auto simp: uri_step_def Let_def moves_def parts_inside_def state_rank_def split: if_splits)
next
  case P_HOST
  define p1 where "p1 = (if byte_at mem p = CHR ''@'' then Suc p else p)"
  have p1: "p \<le> p1" "p1 \<le> e" using assms(1) by (auto simp: p1_def)
  have "p1 \<le> scan_to mem p1 e '':/''" "scan_to mem p1 e '':/'' \<le> e" "p1 \<le> scan_to mem p1 e '']''"
    using scan_to_bounds p1(2) by auto
  moreover from this(2) have "scan_to mem p1 e '':/'' = e \<or> byte_at mem (scan_to mem p1 e '':/'') \<in> set '':/''"
    using scan_to_at [where mem = mem and p = p1 and e = e and stop = "'':/''"] assms(2) by fastforce
  ultimately show ?thesis using P_HOST assms p1
    by (auto simp: uri_step_def p1_def [symmetric] Let_def moves_def parts_inside_def
        state_rank_def split: if_splits)
next
  case P_PORT
  then show ?thesis using assms scan_to_bounds [where p = "Suc p" and e = e and mem = mem and stop = "''/''"]
    by (auto simp: uri_step_def Let_def moves_def parts_inside_def state_rank_def split: if_splits)
next
  case P_REST
  then show ?thesis using uri_step_rest [OF assms(1) assms(3)] assms(4) by simp
qed

lemma uri_loop_ends:
  assumes "p \<le> e" and "e \<le> length mem" and "parts_inside e u"
  shows "\<exists>rc v. uri_loop mem e (s, p, u) = Some (rc, v) \<and> (rc = 0 \<or> rc = - 1) \<and> parts_inside e v"
  using assms
proof (induction "6 * (e - p) + state_rank s" arbitrary: s p u rule: less_induct)
  case less
  show ?case
  proof (cases "p < e")
    case True
    show ?thesis
    proof (cases "uri_step mem e (s, p, u)")
      case None
      then show ?thesis using True
        by (simp add: uri_loop.simps [of mem e "(s, p, u)"] uri_parts_init_def parts_inside_def ms_inside_def mg_null_str_def)
    next
      case (Some st)
      obtain s1 p1 u1 where st: "st = (s1, p1, u1)" by (cases st) auto
      have m: "p \<le> p1" "p1 \<le> e" "p < p1 \<or> state_rank s1 < state_rank s" "parts_inside e u1"
        using uri_step_moves [OF True less.prems(2,3) Some] by (auto simp: moves_def st)
      have "state_rank s1 \<le> 5" by (simp add: state_rank_def split: uri_state.split)
      then have "6 * (e - p1) + state_rank s1 < 6 * (e - p) + state_rank s" using m by auto
      from less.hyps [OF this m(2) less.prems(2) m(4)] show ?thesis
        using True Some st by (simp add: uri_loop.simps [of mem e "(s, p, u)"])
    qed
  next
    case False
    then show ?thesis using less.prems(3) by (simp add: uri_loop.simps [of mem e "(s, p, u)"])
  qed
qed

section \<open>Dot segments\<close>

text \<open>Back to the slash before the last segment of what is written.\<close>

definition backtrack :: "string \<Rightarrow> string" where
  "backtrack out =
     (let out1 = (if length out > 1 \<and> last out = CHR ''/'' then butlast out else out)
      in rev (dropWhile (\<lambda>c. c \<noteq> CHR ''/'') (rev out1)))"

definition normalize_step :: "string \<Rightarrow> nat \<Rightarrow> mg_str \<Rightarrow> string \<Rightarrow> string" where
  "normalize_step s n component out =
     (if mg_vcmp (ms_text s component) ''.'' = 0 then out
      else if mg_vcmp (ms_text s component) ''..'' = 0 then backtrack out
      else out @ substr s 0 n)"

text \<open>The loop over the segments: what is left of the path, and what is written.\<close>

function normalize_loop :: "string \<Rightarrow> string \<Rightarrow> string" where
  "normalize_loop s out =
     (if s = [] then out
      else (let (n, component) = parse_uri_component s 0 (length s) ''/''
            in normalize_loop (drop n s) (normalize_step s n component out)))"
  by pat_completeness auto
termination
proof (relation "measure (\<lambda>(s, out). length s)")
  fix s out :: string and x n component
  assume "s \<noteq> []" and "x = parse_uri_component s 0 (length s) ''/''" and "(n, component) = x"
  then have "parse_uri_component s 0 (length s) ''/'' = (n, component)" by simp
  from component_bounds(3) [OF this] have "0 < n" using \<open>s \<noteq> []\<close> by simp
  then show "((drop n s, normalize_step s n component out), s, out) \<in> measure (\<lambda>(s, out). length s)"
    using \<open>s \<noteq> []\<close> by simp
qed simp

declare normalize_loop.simps [simp del]

definition mg_normalize_uri_path :: "string \<Rightarrow> int \<times> string" where
  "mg_normalize_uri_path path =
     (if path = [] \<or> hd path \<noteq> CHR ''/'' then (0, [])
      else (let out = normalize_loop path [] in (1, if out = [] then ''/'' else out)))"

section \<open>Dot segments, as a stack\<close>

text \<open>A path of segments, each with its slash, and a last one; and what the segments resolve to.\<close>

definition path_text :: "string list \<Rightarrow> string \<Rightarrow> string" where
  "path_text segs final = CHR ''/'' # concat (map (\<lambda>s. s @ ''/'') segs) @ final"

fun resolve :: "string list \<Rightarrow> string list \<Rightarrow> string list" where
  "resolve acc [] = acc"
| "resolve acc (s # segs) =
     resolve (if s = ''.'' then acc else if s = ''..'' then butlast acc else acc @ [s]) segs"

lemma path_text_snoc: "path_text (segs @ [s]) [] = path_text segs s @ ''/''"
  by (simp add: path_text_def)

lemma backtrack_path: "CHR ''/'' \<notin> set s \<Longrightarrow> backtrack (path_text segs s @ ''/'') = path_text segs []"
proof -
  assume s: "CHR ''/'' \<notin> set s"
  have slash: "\<exists>w. rev (path_text segs []) = CHR ''/'' # w"
    by (cases segs rule: rev_cases) (simp_all add: path_text_def)
  have "path_text segs s = path_text segs [] @ s" by (simp add: path_text_def)
  moreover have "dropWhile (\<lambda>c. c \<noteq> CHR ''/'') (rev s @ rev (path_text segs [])) = rev (path_text segs [])"
    using s slash by (subst dropWhile_append2) auto
  ultimately show ?thesis by (simp add: backtrack_def path_text_def butlast_append)
qed

lemma backtrack_root: "backtrack ''/'' = ''/''"
  by (simp add: backtrack_def)

lemma backtrack_segs:
  assumes "\<forall>s \<in> set segs. CHR ''/'' \<notin> set s"
  shows "backtrack (path_text segs []) = path_text (butlast segs) []"
proof (cases segs rule: rev_cases)
  case Nil
  then show ?thesis by (simp add: path_text_def backtrack_root)
next
  case (snoc ss s)
  then show ?thesis using backtrack_path [of s ss] assms by (simp add: path_text_snoc)
qed

text \<open>One turn of the loop, on a segment with its slash and on the last one.\<close>

lemma component_slash:
  assumes "CHR ''/'' \<notin> set s"
  shows "parse_uri_component (s @ CHR ''/'' # t) 0 (length (s @ CHR ''/'' # t)) ''/''
    = (Suc (length s), \<lparr>ms_p = Some 0, ms_len = length s\<rparr>)"
proof -
  have "takeWhile (\<lambda>c. c \<notin> set ''/'') (s @ CHR ''/'' # t) = s"
    using assms by (subst takeWhile_append2) auto
  then show ?thesis by (simp add: parse_uri_component_def Let_def substr_def del: set_simps)
qed

lemma component_end:
  assumes "CHR ''/'' \<notin> set s"
  shows "parse_uri_component s 0 (length s) ''/'' = (length s, \<lparr>ms_p = Some 0, ms_len = length s\<rparr>)"
proof -
  have "takeWhile (\<lambda>c. c \<notin> set ''/'') (substr s 0 (length s - 0)) = s"
    using assms by (auto simp: takeWhile_eq_all_conv)
  then have "length (takeWhile (\<lambda>c. c \<notin> set ''/'') (substr s 0 (length s - 0))) = length s" by (rule arg_cong)
  then show ?thesis unfolding parse_uri_component_def by (simp only: Let_def) simp
qed

lemma dots: "length s < 2 ^ 31 \<Longrightarrow> mg_vcmp s ''.'' = 0 \<longleftrightarrow> s = ''.''"
  "length s < 2 ^ 31 \<Longrightarrow> mg_vcmp s ''..'' = 0 \<longleftrightarrow> s = ''..''"
  using mg_vcmp_eq_0 [of s "''.''"] mg_vcmp_eq_0 [of s "''..''"] by (simp_all add: cstr_def)

lemma normalize_loop_slash:
  assumes "CHR ''/'' \<notin> set s" and "length s < 2 ^ 31"
  shows "normalize_loop (s @ CHR ''/'' # t) out
    = normalize_loop t (if s = ''.'' then out else if s = ''..'' then backtrack out else out @ s @ ''/'')"
  using dots [OF assms(2)]
  by (subst normalize_loop.simps)
    (simp add: component_slash [OF assms(1)] normalize_step_def ms_text_def substr_def del: length_append)

lemma normalize_loop_end:
  assumes "CHR ''/'' \<notin> set s" and "length s < 2 ^ 31"
  shows "normalize_loop s out
    = (if s = [] \<or> s = ''.'' then out else if s = ''..'' then backtrack out else out @ s)"
proof (cases "s = []")
  case False
  then have "normalize_loop s out = normalize_loop [] (normalize_step s (length s) \<lparr>ms_p = Some 0, ms_len = length s\<rparr> out)"
    by (subst normalize_loop.simps) (simp add: component_end [OF assms(1)])
  then show ?thesis using dots [OF assms(2)] False
    by (simp add: normalize_loop.simps [of "[]"] normalize_step_def ms_text_def)
qed (simp add: normalize_loop.simps)

lemma normalize_loop_path:
  assumes "\<forall>s \<in> set segs. CHR ''/'' \<notin> set s \<and> length s < 2 ^ 31" and "\<forall>s \<in> set acc. CHR ''/'' \<notin> set s"
    and "CHR ''/'' \<notin> set final"
  shows "normalize_loop (concat (map (\<lambda>s. s @ ''/'') segs) @ final) (path_text acc [])
    = normalize_loop final (path_text (resolve acc segs) [])"
  using assms
proof (induction segs arbitrary: acc)
  case (Cons s segs)
  let ?acc = "if s = ''.'' then acc else if s = ''..'' then butlast acc else acc @ [s]"
  have "\<forall>s \<in> set ?acc. CHR ''/'' \<notin> set s" using Cons.prems by (auto dest: in_set_butlastD)
  moreover have "(if s = ''.'' then path_text acc [] else if s = ''..'' then backtrack (path_text acc [])
      else path_text acc [] @ s @ ''/'') = path_text ?acc []"
    using backtrack_segs [OF Cons.prems(2)] by (simp add: path_text_def)
  ultimately show ?case using Cons normalize_loop_slash [of s] by simp
qed simp

lemma resolve_no_dots:
  "\<forall>s \<in> set acc. s \<noteq> ''.'' \<and> s \<noteq> ''..'' \<Longrightarrow> s \<in> set (resolve acc segs) \<Longrightarrow> s \<noteq> ''.'' \<and> s \<noteq> ''..''"
proof (induction segs arbitrary: acc)
  case (Cons t segs)
  show ?case by (rule Cons.IH [OF _ Cons.prems(2) [unfolded resolve.simps]])
      (use Cons.prems(1) in \<open>auto dest: in_set_butlastD\<close>)
qed simp

lemma resolve_segs: "s \<in> set (resolve acc segs) \<Longrightarrow> s \<in> set acc \<union> set segs"
proof (induction segs arbitrary: acc)
  case (Cons t segs)
  then show ?case by (auto split: if_splits dest: Cons.IH in_set_butlastD)
qed simp

lemma normalize_path:
  assumes "\<forall>s \<in> set segs. CHR ''/'' \<notin> set s \<and> length s < 2 ^ 31" and "CHR ''/'' \<notin> set final"
    and "length final < 2 ^ 31"
  shows "mg_normalize_uri_path (path_text segs final)
    = (1, path_text (if final = ''..'' then butlast (resolve [] segs) else resolve [] segs)
            (if final = ''.'' \<or> final = ''..'' then [] else final))"
proof -
  have root: "normalize_loop (path_text segs final) [] = normalize_loop final (path_text (resolve [] segs) [])"
    using normalize_loop_slash [of "[]"] normalize_loop_path [of segs "[]"] assms(1,2)
    by (simp add: path_text_def)
  have r: "\<forall>s \<in> set (resolve [] segs). CHR ''/'' \<notin> set s" using resolve_segs assms(1) by fastforce
  have "normalize_loop (path_text segs final) [] = path_text (if final = ''..'' then butlast (resolve [] segs) else resolve [] segs)
            (if final = ''.'' \<or> final = ''..'' then [] else final)"
    unfolding root normalize_loop_end [OF assms(2,3)]
    using backtrack_segs [OF r] by (simp add: path_text_def)
  then show ?thesis by (simp add: mg_normalize_uri_path_def path_text_def)
qed

section \<open>Putting a URI together\<close>

definition append_part :: "allocator \<Rightarrow> nat \<Rightarrow> string \<Rightarrow> string \<Rightarrow> string \<Rightarrow> mbuf \<Rightarrow> mbuf" where
  "append_part alloc addr before part after mb =
     (if part = [] then mb
      else (let mb1 = (if before = [] then mb else mbuf_put alloc addr before mb);
                mb2 = mbuf_put alloc addr part mb1
            in if after = [] then mb2 else mbuf_put alloc addr after mb2))"

text \<open>
  The path, after the scheme, the user and the host: \<open>None\<close> for the jump to \<open>out\<close>. A part
  that is NULL is an empty one.
\<close>

definition append_path :: "allocator \<Rightarrow> nat \<Rightarrow> bool \<Rightarrow> string \<Rightarrow> mbuf \<Rightarrow> mbuf option" where
  "append_path alloc addr normalize_path path mb =
     (if path \<noteq> [] then
        if normalize_path then
          (case mg_strdup alloc path of
             None \<Rightarrow> None
           | Some npath \<Rightarrow>
               (let (ok, text) = mg_normalize_uri_path path
                in if ok = 0 then None else Some (mbuf_put alloc addr text mb)))
        else Some (mbuf_put alloc addr path mb)
      else Some (if normalize_path then mbuf_put alloc addr ''/'' mb else mb))"

definition mg_assemble_uri ::
  "allocator \<Rightarrow> nat \<Rightarrow> string \<Rightarrow> string \<Rightarrow> string \<Rightarrow> 32 word \<Rightarrow> string \<Rightarrow> string \<Rightarrow> string \<Rightarrow> bool \<Rightarrow> int \<times> string" where
  "mg_assemble_uri alloc addr scheme user_info host port path query fragment normalize_path =
     (let mb = append_part alloc addr [] host []
                 (append_part alloc addr [] user_info ''@''
                   (append_part alloc addr [] scheme ''://'' (mbuf_init alloc 0)));
          mb1 = (if port \<noteq> 0 then mbuf_put alloc addr ('':'' @ dec_digits (unat port)) mb else mb)
      in case append_path alloc addr normalize_path path mb1 of
           None \<Rightarrow> (- 1, [])
         | Some mb2 \<Rightarrow>
             (0, mb_text (append_part alloc addr ''#'' fragment [] (append_part alloc addr ''?'' query [] mb2))))"

section \<open>URL encoding\<close>

definition isalnum :: "char \<Rightarrow> bool" where
  "isalnum c \<longleftrightarrow> isdigit c \<or> (let n = of_char c :: nat in 65 \<le> n \<and> n \<le> 90 \<or> 97 \<le> n \<and> n \<le> 122)"

definition url_hex :: "32 word \<Rightarrow> nat \<Rightarrow> char" where
  "url_hex flags n = (if bit flags 1 then ''0123456789ABCDEF'' else ''0123456789abcdef'') ! n"

definition url_encode_char :: "allocator \<Rightarrow> nat \<Rightarrow> string \<Rightarrow> 32 word \<Rightarrow> char \<Rightarrow> mbuf \<Rightarrow> mbuf" where
  "url_encode_char alloc addr safe flags c mb =
     (if isalnum c \<or> mg_strchr safe c \<noteq> None then mbuf_put alloc addr [c] mb
      else if c = CHR 0x20 \<and> bit flags 0 then mbuf_put alloc addr ''+'' mb
      else mbuf_put alloc addr [url_hex flags (of_char c mod 16)]
             (mbuf_put alloc addr [url_hex flags (of_char c div 16)] (mbuf_put alloc addr ''%'' mb)))"

definition mg_url_encode_opt :: "allocator \<Rightarrow> nat \<Rightarrow> string \<Rightarrow> string \<Rightarrow> 32 word \<Rightarrow> string" where
  "mg_url_encode_opt alloc addr src safe flags =
     (let mb = mbuf_trim alloc
            (mbuf_put alloc addr [nul] (fold (url_encode_char alloc addr safe flags) src (mbuf_init alloc (length src))))
      in mg_mk_str_n (mb_buf mb) ((mb_len mb + 2 ^ 64 - 1) mod 2 ^ 64))"

definition mg_url_encode :: "allocator \<Rightarrow> nat \<Rightarrow> string \<Rightarrow> string" where
  "mg_url_encode alloc addr src = mg_url_encode_opt alloc addr src ''._-$,;~()/'' 0"

text \<open>What a byte becomes.\<close>

definition url_code :: "string \<Rightarrow> 32 word \<Rightarrow> char \<Rightarrow> string" where
  "url_code safe flags c =
     (if isalnum c \<or> c \<in> set safe then [c]
      else if c = CHR 0x20 \<and> bit flags 0 then ''+''
      else CHR ''%'' # url_hex flags (of_char c div 16) # [url_hex flags (of_char c mod 16)])"

lemma url_hex_digit: "n < 16 \<Longrightarrow> isxdigit (url_hex flags n) \<and> fourbit (url_hex flags n) = n"
proof -
  assume "n < 16"
  then have "n \<in> set [0 ..< 16]" by simp
  moreover have "\<forall>n \<in> set [0 ..< 16]. \<forall>h \<in> set [''0123456789ABCDEF'', ''0123456789abcdef''].
      isxdigit (h ! n) \<and> fourbit (h ! n) = n" by code_simp
  ultimately show ?thesis by (auto simp: url_hex_def)
qed

lemma isalnum_plain: "isalnum c \<Longrightarrow> c \<noteq> CHR ''%'' \<and> c \<noteq> CHR ''+''"
  by (auto simp: isalnum_def isdigit_def)

lemma url_decode_code:
  assumes "CHR ''%'' \<notin> set safe" and "form \<longrightarrow> CHR ''+'' \<notin> set safe" and "bit flags 0 \<longrightarrow> form"
  shows "length s \<le> room \<Longrightarrow> url_decode form (concat (map (url_code safe flags) s)) room = Some s"
proof (induction s arbitrary: room)
  case (Cons c s)
  then obtain r where r: "room = Suc r" "length s \<le> r" by (cases room) auto
  have ch: "of_char c div 16 < (16 :: nat)" "of_char c mod 16 < (16 :: nat)"
    using less_mult_imp_div_less [of "of_char c" 16 16] nat_of_char_less_256 [of c] by simp_all
  have hex: "isxdigit (url_hex flags (of_char c div 16))" "isxdigit (url_hex flags (of_char c mod 16))"
    "fourbit (url_hex flags (of_char c div 16)) * 16 + fourbit (url_hex flags (of_char c mod 16)) = of_char c"
    using url_hex_digit [OF ch(1)] url_hex_digit [OF ch(2)] by simp_all
  show ?case
  proof (cases "isalnum c \<or> c \<in> set safe")
    case True
    then have "c \<noteq> CHR ''%'' \<and> (form \<longrightarrow> c \<noteq> CHR ''+'')" using isalnum_plain assms by blast
    then show ?thesis using True Cons.IH [OF r(2)] r(1) by (simp add: url_code_def)
  next
    case False
    then show ?thesis using Cons.IH [OF r(2)] r(1) hex assms(3) by (cases form) (auto simp: url_code_def)
  qed
qed simp

context heap
begin

lemma init_ok: "mb_ok (mbuf_init alloc n) \<and> mb_text (mbuf_init alloc n) = []"
  using mbuf_resize_ok [OF gives, of "\<lparr>mb_buf = [], mb_len = 0\<rparr>" n]
  by (simp add: mbuf_init_def mb_ok_def mb_text_def)

lemma encode_char_ok:
  assumes "mb_ok mb"
  shows "mb_ok (url_encode_char alloc addr safe flags c mb)
    \<and> mb_text (url_encode_char alloc addr safe flags c mb) = mb_text mb @ url_code safe flags c"
proof -
  have one: "length [x] < (2 :: nat) ^ 32" for x :: char by simp
  note a = append_text [OF assms one]
  note b = append_text [OF a [THEN conjunct1] one]
  note d = append_text [OF b [THEN conjunct1] one]
  show ?thesis using a b d by (simp add: url_encode_char_def url_code_def mg_strchr_None)
qed

lemma encode_ok:
  "mb_ok mb \<Longrightarrow> mb_ok (fold (url_encode_char alloc addr safe flags) src mb)
    \<and> mb_text (fold (url_encode_char alloc addr safe flags) src mb) = mb_text mb @ concat (map (url_code safe flags) src)"
  by (induction src arbitrary: mb) (simp_all add: encode_char_ok)

lemma url_encode_text:
  assumes "length (concat (map (url_code safe flags) src)) < 2 ^ 64 - 1"
  shows "mg_url_encode_opt alloc addr src safe flags = concat (map (url_code safe flags) src)"
proof -
  let ?text = "concat (map (url_code safe flags) src)"
  let ?mb = "fold (url_encode_char alloc addr safe flags) src (mbuf_init alloc (length src))"
  let ?fin = "mbuf_trim alloc (mbuf_put alloc addr [nul] ?mb)"
  have mb: "mb_ok ?mb" "mb_text ?mb = ?text" using encode_ok init_ok by auto
  have put: "mb_ok (mbuf_put alloc addr [nul] ?mb)" "mb_text (mbuf_put alloc addr [nul] ?mb) = ?text @ [nul]"
    using append_text [OF mb(1), of "[nul]"] mb(2) by simp_all
  have trim: "mb_ok ?fin" "mb_text ?fin = ?text @ [nul]"
    using mbuf_resize_ok [OF gives put(1)] put(2) by (simp_all add: mbuf_trim_def)
  have len: "mb_len ?fin = Suc (length ?text)" using length_mb_text [OF trim(1)] trim(2) by simp
  have "(Suc (length ?text) + 2 ^ 64 - 1) mod 2 ^ 64 = length ?text"
    using assms by (simp add: add.commute mod_add_self1)
  then have "mg_url_encode_opt alloc addr src safe flags = take (length ?text) (mb_buf ?fin)"
    by (simp add: mg_url_encode_opt_def mg_mk_str_n_def Let_def len)
  also have "\<dots> = take (length ?text) (mb_text ?fin)" by (simp add: mb_text_def len min_def)
  finally show ?thesis by (simp add: trim(2))
qed

lemma append_part_ok:
  assumes "mb_ok mb" and "length before < 2 ^ 32" "length part < 2 ^ 32" "length after < 2 ^ 32"
  shows "mb_ok (append_part alloc addr before part after mb)
    \<and> mb_text (append_part alloc addr before part after mb)
      = mb_text mb @ (if part = [] then [] else before @ part @ after)"
proof -
  note a = append_text [OF assms(1,2)]
  note b = append_text [OF a [THEN conjunct1] assms(3)] append_text [OF assms(1,3)]
  note d = append_text [OF b(1) [THEN conjunct1] assms(4)] append_text [OF b(2) [THEN conjunct1] assms(4)]
  show ?thesis using a b d assms(1) by (simp add: append_part_def Let_def)
qed

lemma append_part_simps:
  "mb_ok mb \<Longrightarrow> length before < 2 ^ 32 \<Longrightarrow> length part < 2 ^ 32 \<Longrightarrow> length after < 2 ^ 32 \<Longrightarrow>
     mb_ok (append_part alloc addr before part after mb)"
  "mb_ok mb \<Longrightarrow> length before < 2 ^ 32 \<Longrightarrow> length part < 2 ^ 32 \<Longrightarrow> length after < 2 ^ 32 \<Longrightarrow>
     mb_text (append_part alloc addr before part after mb)
      = mb_text mb @ (if part = [] then [] else before @ part @ after)"
  "mb_ok mb \<Longrightarrow> length s < 2 ^ 32 \<Longrightarrow> mb_ok (mbuf_put alloc addr s mb)"
  "mb_ok mb \<Longrightarrow> length s < 2 ^ 32 \<Longrightarrow> mb_text (mbuf_put alloc addr s mb) = mb_text mb @ s"
  by (simp_all add: append_part_ok append_text)

end

lemma length_dec_digits: "n < 10 ^ Suc k \<Longrightarrow> length (dec_digits n) \<le> Suc k"
proof (induction k arbitrary: n)
  case (Suc k)
  then have "length (dec_digits (n div 10)) \<le> Suc k" by (simp add: less_mult_imp_div_less)
  then show ?case by (subst dec_digits.simps) simp
qed (subst dec_digits.simps, simp)

lemma resolve_length:
  "length (concat (map (\<lambda>s. s @ ''/'') (resolve acc segs)))
    \<le> length (concat (map (\<lambda>s. s @ ''/'') acc)) + length (concat (map (\<lambda>s. s @ ''/'') segs))"
proof (induction segs arbitrary: acc)
  case (Cons s segs)
  have "length (concat (map (\<lambda>s. s @ ''/'') (butlast acc))) \<le> length (concat (map (\<lambda>s. s @ ''/'') acc))"
    by (cases acc rule: rev_cases) simp_all
  then show ?case
    using Cons.IH [of acc] Cons.IH [of "butlast acc"] Cons.IH [of "acc @ [s]"] by auto
qed simp

lemma path_text_length:
  "length (path_text (resolve [] segs) s) \<le> length (path_text segs final) + length s"
  "length (path_text (butlast (resolve [] segs)) s) \<le> length (path_text segs final) + length s"
proof -
  have "length (concat (map (\<lambda>s. s @ ''/'') (butlast xs))) \<le> length (concat (map (\<lambda>s. s @ ''/'') xs))" for xs
    by (cases xs rule: rev_cases) simp_all
  from this [of "resolve [] segs"] resolve_length [of "[]" segs]
  show "length (path_text (resolve [] segs) s) \<le> length (path_text segs final) + length s"
    "length (path_text (butlast (resolve [] segs)) s) \<le> length (path_text segs final) + length s"
    by (simp_all add: path_text_def)
qed

context heap
begin

lemma assemble_text:
  fixes segs final
  defines "npath \<equiv> path_text (if final = ''..'' then butlast (resolve [] segs) else resolve [] segs)
            (if final = ''.'' \<or> final = ''..'' then [] else final)"
  assumes "\<forall>s \<in> set segs. CHR ''/'' \<notin> set s" and "CHR ''/'' \<notin> set final"
    and "length (path_text segs final) < 2 ^ 31" and "length scheme < 2 ^ 32" "length user < 2 ^ 32"
      "length host < 2 ^ 32" "length query < 2 ^ 32" "length fragment < 2 ^ 32"
  shows "mg_assemble_uri alloc addr scheme user host port (path_text segs final) query fragment True
    = (0, (if scheme = [] then [] else scheme @ ''://'') @ (if user = [] then [] else user @ ''@'') @ host
        @ (if port = 0 then [] else CHR '':'' # dec_digits (unat port)) @ npath
        @ (if query = [] then [] else CHR ''?'' # query) @ (if fragment = [] then [] else CHR ''#'' # fragment))"
proof -
  have "unat port < 10 ^ Suc 9" using unsigned_less [where 'a = nat, of port] by simp
  from length_dec_digits [OF this] have port: "length ('':'' @ dec_digits (unat port)) < 2 ^ 32" by simp
  have dup: "mg_strdup alloc (path_text segs final) = Some (path_text segs final)"
    using enough by (auto simp: mg_strdup_def mg_strdup_common_def path_text_def split: option.split)
  have short: "length s < 2 ^ 31" if "s \<in> set segs \<or> s = final" for s
    using that assms(4) by (auto simp: path_text_def in_set_conv_decomp)
  have norm: "mg_normalize_uri_path (path_text segs final) = (1, npath)"
    unfolding npath_def by (rule normalize_path) (use assms(2,3) short in auto)
  have "length npath < 2 ^ 32"
    using path_text_length [of segs "[]" final] path_text_length(1) [of segs final final] assms(4) short [of final]
    by (simp add: npath_def)
  moreover have "path_text segs final \<noteq> []" by (simp add: path_text_def)
  ultimately show ?thesis using assms(5-) port init_ok [of 0]
    by (simp add: mg_assemble_uri_def append_path_def dup norm append_part_simps Let_def)
qed

end

section \<open>Properties\<close>

text \<open>
  C24. Taking a URI apart always ends, whatever its bytes: it returns 0 or -1, and every part it
  reports is NULL or lies inside the text.
\<close>

theorem mg_parse_uri_returns:
  assumes "e \<le> length mem"
  shows "\<exists>rc u. mg_parse_uri mem e = Some (rc, u) \<and> (rc = 0 \<or> rc = - 1) \<and> parts_inside e u"
  unfolding mg_parse_uri_def
  by (rule uri_loop_ends [OF le0 assms]) (simp add: uri_parts_init_def parts_inside_def ms_inside_def mg_null_str_def)

theorem mg_parse_uri_returns_witness:
  "\<exists>rc u. mg_parse_uri ''http://u@h:8080/p?q#f'' 21 = Some (rc, u) \<and> (rc = 0 \<or> rc = - 1) \<and> parts_inside 21 u"
  by (rule mg_parse_uri_returns) simp

text \<open>
  C25. Normalising a path is resolving its segments with a stack, where \<open>.\<close> is nothing and
  \<open>..\<close> takes the segment before it away, if there is one; so no segment of the result is
  \<open>.\<close> or \<open>..\<close>, and the path does not leave its root.
\<close>

theorem mg_normalize_uri_path_resolves:
  assumes "\<forall>s \<in> set segs. CHR ''/'' \<notin> set s \<and> length s < 2 ^ 31" and "CHR ''/'' \<notin> set final"
    and "length final < 2 ^ 31"
  shows "\<exists>segs1 final1. mg_normalize_uri_path (path_text segs final) = (1, path_text segs1 final1)
    \<and> segs1 = (if final = ''..'' then butlast (resolve [] segs) else resolve [] segs)
    \<and> final1 = (if final = ''.'' \<or> final = ''..'' then [] else final)
    \<and> (\<forall>s \<in> set (final1 # segs1). s \<noteq> ''.'' \<and> s \<noteq> ''..'')"
proof -
  have "s \<noteq> ''.'' \<and> s \<noteq> ''..''"
    if "s \<in> set (if final = ''..'' then butlast (resolve [] segs) else resolve [] segs)" for s
    by (rule resolve_no_dots [of "[]" s segs]) (use that in \<open>auto split: if_splits dest: in_set_butlastD\<close>)
  then have "\<forall>s \<in> set ((if final = ''.'' \<or> final = ''..'' then [] else final)
      # (if final = ''..'' then butlast (resolve [] segs) else resolve [] segs)). s \<noteq> ''.'' \<and> s \<noteq> ''..''"
    by (cases "final = ''.''"; cases "final = ''..''") auto
  with normalize_path [OF assms] show ?thesis by blast
qed

theorem mg_normalize_uri_path_resolves_witness:
  "mg_normalize_uri_path ''/a/./b/../../../etc/x'' = (1, ''/etc/x'')"
proof -
  let ?segs = "[''a'', ''.'', ''b'', ''..'', ''..'', ''..'', ''etc'']"
  have ok: "\<forall>s \<in> set ?segs. CHR ''/'' \<notin> set s \<and> length s < 2 ^ 31" "CHR ''/'' \<notin> set ''x''"
    "length ''x'' < (2 :: nat) ^ 31" by simp_all
  have t: "path_text ?segs ''x'' = ''/a/./b/../../../etc/x''" by code_simp
  have r: "resolve [] ?segs = [''etc'']" by code_simp
  have u: "path_text [''etc''] ''x'' = ''/etc/x''" by code_simp
  have x: "(''x'' = ''..'') = False" "(''x'' = ''.'') = False" by simp_all
  have or_false: "(False \<or> False) = False" by simp
  obtain segs1 final1 where n: "mg_normalize_uri_path (path_text ?segs ''x'') = (1, path_text segs1 final1)"
    and s: "segs1 = (if ''x'' = ''..'' then butlast (resolve [] ?segs) else resolve [] ?segs)"
    and f: "final1 = (if ''x'' = ''.'' \<or> ''x'' = ''..'' then [] else ''x'')"
    using mg_normalize_uri_path_resolves [OF ok] by blast
  show ?thesis using n unfolding t s f r x or_false if_False u .
qed

text \<open>
  Decoding gives back what was encoded, for any bytes and any choice of the letters that stay:
  if the percent sign is not one of them, nor, when a plus sign is read as a space, the plus sign,
  and a space was only written as one when it will be read so. A buffer one byte longer than the
  text is enough.
\<close>

theorem mg_url_encode_roundtrip:
  assumes "allocates alloc" and "\<And>n. 0 < n \<Longrightarrow> alloc n \<noteq> None" and "addr < 2 ^ 63"
    and "CHR ''%'' \<notin> set safe" and "form \<longrightarrow> CHR ''+'' \<notin> set safe" and "bit flags 0 \<longrightarrow> form"
    and "length src < 2 ^ 62"
  shows "mg_url_decode (mg_url_encode_opt alloc addr src safe flags) (length src + 1) form = Some src"
proof -
  have heap: "heap alloc addr" by (rule heap.intro [OF assms(1-3)])
  have "length (concat (map (url_code safe flags) s)) \<le> 3 * length s" for s
    by (induction s) (auto simp: url_code_def)
  from this [of src] have "length (concat (map (url_code safe flags) src)) < 2 ^ 64 - 1" using assms(7) by simp
  then show ?thesis
    using heap.url_encode_text [OF heap] url_decode_code [OF assms(4-6), of src "length src"]
    by (simp add: mg_url_decode_def)
qed

theorem mg_url_encode_roundtrip_witness:
  "mg_url_decode (mg_url_encode_opt heap_calloc 4096 ''a b&c/d'' ''._-$,;~()/'' 1) (length ''a b&c/d'' + 1) True
    = Some ''a b&c/d''"
proof -
  have heap: "allocates heap_calloc" "\<And>n. 0 < n \<Longrightarrow> heap_calloc n \<noteq> None" "(4096 :: nat) < 2 ^ 63"
    by (simp_all add: allocates_def heap_calloc_def)
  show ?thesis by (rule mg_url_encode_roundtrip [OF heap]) simp_all
qed

end
