(* ===== verification/Mg_Websocket.thy ===== *)
theory Mg_Websocket
  imports Mg_Bytes
begin

text \<open>
  WebSocket frames of the embedded web server, \<open>src/src/mongoose.c\<close>: what is written for a frame,
  and how the receive buffer is taken apart, unmasked and reassembled. The agent serves with
  \<open>mg_set_protocol_http_websocket\<close>, so any client can send frames.
\<close>

unbundle bit_operations_syntax

section \<open>Connections\<close>

abbreviation (input) WEBSOCKET_OP_CONTINUE :: nat where "WEBSOCKET_OP_CONTINUE \<equiv> 0"
abbreviation (input) WEBSOCKET_OP_CLOSE :: nat where "WEBSOCKET_OP_CLOSE \<equiv> 8"
abbreviation (input) WEBSOCKET_OP_PING :: nat where "WEBSOCKET_OP_PING \<equiv> 9"
abbreviation (input) WEBSOCKET_OP_PONG :: nat where "WEBSOCKET_OP_PONG \<equiv> 10"
abbreviation (input) WEBSOCKET_DONT_FIN :: nat where "WEBSOCKET_DONT_FIN \<equiv> 0x100"
abbreviation (input) FLAGS_MASK_FIN :: nat where "FLAGS_MASK_FIN \<equiv> 0x80"
abbreviation (input) FLAGS_MASK_OP :: nat where "FLAGS_MASK_OP \<equiv> 0x0f"

text \<open>
  \<open>struct websocket_message\<close>: the flags, the size, and the bytes the receive buffer has from
  \<open>data\<close> on; the message is inside the buffer when there are as many.
\<close>

record websocket_message =
  wm_flags :: nat
  wm_data :: string
  wm_size :: nat

text \<open>
  Of a connection: the bytes received and sent, how many of the former are reassembled, its side and
  flags, how many random masks it has drawn, and the messages its handler was called with, the
  control frames marked.
\<close>

record ws_conn =
  wc_recv :: string
  wc_reass_len :: nat
  wc_no_defrag :: bool
  wc_client :: bool
  wc_sent :: string
  wc_send_and_close :: bool
  wc_drawn :: nat
  wc_events :: "(bool \<times> websocket_message) list"

section \<open>Sending\<close>

text \<open>Every byte with the byte of the mask, of four, at its position.\<close>

definition mask_text :: "string \<Rightarrow> string \<Rightarrow> string" where
  "mask_text key s = map (\<lambda>i. xor_char (s ! i) (byte_at key (i mod 4))) [0 ..< length s]"

definition ws_header :: "nat \<Rightarrow> nat \<Rightarrow> bool \<Rightarrow> string" where
  "ws_header op len client =
     (let h0 = char_of ((if op AND WEBSOCKET_DONT_FIN \<noteq> 0 then 0 else FLAGS_MASK_FIN) OR (op AND FLAGS_MASK_OP));
          flag = (if client then 128 else 0)
      in if len < 126 then [h0, char_of (len OR flag)]
         else if len < 65535 then [h0, char_of (126 OR flag)] @ be_bytes 2 len
         else [h0, char_of (127 OR flag)] @ be_bytes 8 len)"

text \<open>\<open>mg_send_ws_header\<close>, with the masks \<open>rnd\<close> that \<open>mg_ws_random_mask\<close> draws.\<close>

definition mg_send_ws_header :: "(nat \<Rightarrow> string) \<Rightarrow> nat \<Rightarrow> nat \<Rightarrow> ws_conn \<Rightarrow> string option \<times> ws_conn" where
  "mg_send_ws_header rnd op len nc =
     (let nc1 = nc\<lparr>wc_sent := wc_sent nc @ ws_header op len (wc_client nc)\<rparr>
      in if wc_client nc
         then (let key = rnd (wc_drawn nc)
               in (Some key, nc1\<lparr>wc_sent := wc_sent nc1 @ key, wc_drawn := Suc (wc_drawn nc)\<rparr>))
         else (None, nc1))"

text \<open>The total of \<open>mg_send_websocket_framev\<close> is an \<open>int\<close>, and then a \<open>size_t\<close>.\<close>

definition int_to_size :: "nat \<Rightarrow> nat" where
  "int_to_size n = (let m = n mod 2 ^ 32 in if m < 2 ^ 31 then m else m + (2 ^ 64 - 2 ^ 32))"

definition mg_send_websocket_framev :: "(nat \<Rightarrow> string) \<Rightarrow> nat \<Rightarrow> string list \<Rightarrow> ws_conn \<Rightarrow> ws_conn" where
  "mg_send_websocket_framev rnd op strv nc =
     (let (ctx, nc1) = mg_send_ws_header rnd op (int_to_size (length (concat strv))) nc;
          data = (case ctx of None \<Rightarrow> concat strv | Some key \<Rightarrow> mask_text key (concat strv));
          nc2 = nc1\<lparr>wc_sent := wc_sent nc1 @ data\<rparr>
      in if op = WEBSOCKET_OP_CLOSE then nc2\<lparr>wc_send_and_close := True\<rparr> else nc2)"

definition mg_send_websocket_frame :: "(nat \<Rightarrow> string) \<Rightarrow> nat \<Rightarrow> string \<Rightarrow> ws_conn \<Rightarrow> ws_conn" where
  "mg_send_websocket_frame rnd op data nc =
     (let (ctx, nc1) = mg_send_ws_header rnd op (length data) nc;
          nc2 = nc1\<lparr>wc_sent := wc_sent nc1 @ (case ctx of None \<Rightarrow> data | Some key \<Rightarrow> mask_text key data)\<rparr>
      in if op = WEBSOCKET_OP_CLOSE then nc2\<lparr>wc_send_and_close := True\<rparr> else nc2)"

text \<open>
  \<open>mg_ws_close\<close>: the length is taken of the text up to its NUL when, as an \<open>int\<close>, it is -1.
\<close>

definition mg_ws_close :: "(nat \<Rightarrow> string) \<Rightarrow> string \<Rightarrow> nat \<Rightarrow> ws_conn \<Rightarrow> ws_conn" where
  "mg_ws_close rnd data len nc =
     (let n = (if len mod 2 ^ 32 = 2 ^ 32 - 1 then length (cstr data) else len)
      in (mg_send_websocket_frame rnd WEBSOCKET_OP_CLOSE (take n data) nc)\<lparr>wc_send_and_close := True\<rparr>)"

section \<open>Receiving\<close>

definition mg_is_ws_fragment :: "nat \<Rightarrow> bool" where
  "mg_is_ws_fragment flags \<longleftrightarrow> flags AND FLAGS_MASK_FIN = 0 \<or> flags AND FLAGS_MASK_OP = WEBSOCKET_OP_CONTINUE"

definition mg_is_ws_first_fragment :: "nat \<Rightarrow> bool" where
  "mg_is_ws_first_fragment flags \<longleftrightarrow> flags AND FLAGS_MASK_FIN = 0 \<and> flags AND FLAGS_MASK_OP \<noteq> WEBSOCKET_OP_CONTINUE"

definition mg_is_ws_control_frame :: "nat \<Rightarrow> bool" where
  "mg_is_ws_control_frame flags \<longleftrightarrow>
     (let op = flags AND FLAGS_MASK_OP
      in op = WEBSOCKET_OP_CLOSE \<or> op = WEBSOCKET_OP_PING \<or> op = WEBSOCKET_OP_PONG)"

definition mg_handle_incoming_websocket_frame :: "websocket_message \<Rightarrow> ws_conn \<Rightarrow> ws_conn" where
  "mg_handle_incoming_websocket_frame wsm nc =
     nc\<lparr>wc_events := wc_events nc @ [(wm_flags wsm AND 8 \<noteq> 0, wsm)]\<rparr>"

text \<open>The lengths of the mask, the header and the data, zero while they are not known.\<close>

definition ws_lengths :: "string \<Rightarrow> nat \<times> nat \<times> nat" where
  "ws_lengths new_data =
     (let n = length new_data; b1 = of_char (byte_at new_data 1) :: nat
      in if n < 2 then (0, 0, 0)
         else
           (let len = b1 AND 0x7f; mask_len = (if b1 AND FLAGS_MASK_FIN \<noteq> 0 then 4 else 0)
            in if len < 126 \<and> n \<ge> mask_len then (mask_len, 2 + mask_len, len)
               else if len = 126 \<and> n \<ge> 4 + mask_len then (mask_len, 4 + mask_len, be_value (substr new_data 2 2))
               else if n \<ge> 10 + mask_len then (mask_len, 10 + mask_len, be_value (substr new_data 2 8))
               else (mask_len, 0, 0)))"

text \<open>A fragment: it is moved up to the text that is reassembled, and the last one is delivered.\<close>

definition ws_fragment :: "nat \<Rightarrow> nat \<Rightarrow> nat \<Rightarrow> ws_conn \<Rightarrow> ws_conn" where
  "ws_fragment flags data_at data_len nc =
     (let first = mg_is_ws_first_fragment flags;
          new_data = (if first then wc_reass_len nc + 1 else wc_reass_len nc);
          reass_len = (if first then 1 else wc_reass_len nc) + data_len;
          buf = take new_data (wc_recv nc) @ drop data_at (wc_recv nc);
          nc1 = nc\<lparr>wc_recv := buf, wc_reass_len := reass_len\<rparr>
      in if flags AND FLAGS_MASK_FIN = 0 then nc1
         else
           (let wsm = \<lparr>wm_flags = FLAGS_MASK_FIN OR of_char (byte_at buf 0), wm_data = drop 1 buf,
                       wm_size = (reass_len + 2 ^ 64 - 1) mod 2 ^ 64\<rparr>;
                nc2 = mg_handle_incoming_websocket_frame wsm (nc1\<lparr>wc_reass_len := 0\<rparr>)
            in if 0 < reass_len \<and> reass_len \<le> length buf then nc2\<lparr>wc_recv := drop reass_len buf\<rparr> else nc2))"

text \<open>A complete message: a ping and a close are answered, and it is delivered and removed.\<close>

definition ws_message :: "(nat \<Rightarrow> string) \<Rightarrow> nat \<Rightarrow> nat \<Rightarrow> nat \<Rightarrow> nat \<Rightarrow> ws_conn \<Rightarrow> ws_conn" where
  "ws_message rnd flags data_at data_len frame_len nc =
     (let wsm = \<lparr>wm_flags = flags, wm_data = drop data_at (wc_recv nc), wm_size = data_len\<rparr>;
          op = flags AND FLAGS_MASK_OP;
          nc1 = (if op = WEBSOCKET_OP_PING
                 then mg_send_websocket_frame rnd WEBSOCKET_OP_PONG (take data_len (wm_data wsm)) nc
                 else if op = WEBSOCKET_OP_CLOSE then mg_ws_close rnd (wm_data wsm) data_len nc else nc)
      in (mg_handle_incoming_websocket_frame wsm nc1)
           \<lparr>wc_recv := take (wc_reass_len nc) (wc_recv nc) @ drop (wc_reass_len nc + frame_len) (wc_recv nc)\<rparr>)"

definition mg_deliver_websocket_data :: "(nat \<Rightarrow> string) \<Rightarrow> ws_conn \<Rightarrow> bool \<times> ws_conn" where
  "mg_deliver_websocket_data rnd nc =
     (let r = wc_reass_len nc; new_data = drop r (wc_recv nc); new_data_len = length new_data;
          flags = of_char (byte_at new_data 0) :: nat;
          reass = new_data_len > 0 \<and> mg_is_ws_fragment flags \<and> \<not> wc_no_defrag nc
      in if reass \<and> mg_is_ws_control_frame flags
         then (False, mg_ws_close rnd ''fragmented control frames are illegal'' (2 ^ 64 - 1) nc)
         else if new_data_len > 0 \<and> \<not> reass \<and> \<not> mg_is_ws_control_frame flags \<and> r > 0
         then (False, mg_ws_close rnd ''non-continuation in the middle of a fragmented message'' (2 ^ 64 - 1) nc)
         else
           (let (mask_len, header_len, data_len) = ws_lengths new_data;
                frame_len = (header_len + data_len) mod 2 ^ 64
            in if frame_len < header_len \<or> frame_len < data_len
               then (False, mg_ws_close rnd ''overflowed message'' (2 ^ 64 - 1) nc)
               else if 0 < frame_len \<and> frame_len \<le> new_data_len
               then
                 (let data = substr new_data header_len data_len;
                      plain = (if mask_len > 0 then mask_text (substr new_data (header_len - mask_len) mask_len) data
                               else data);
                      nc1 = nc\<lparr>wc_recv := take (r + header_len) (wc_recv nc) @ plain @ drop frame_len new_data\<rparr>
                  in (True, if reass then ws_fragment flags (r + header_len) data_len nc1
                            else ws_message rnd flags (r + header_len) data_len frame_len nc1))
               else (False, nc)))"

section \<open>Numbers in the header\<close>

lemma len_byte:
  assumes "n < 128"
  shows "of_char (char_of (n OR 0) :: char) AND 0x7f = (n :: nat)"
    "of_char (char_of (n OR 0) :: char) AND (0x80 :: nat) = 0"
    "of_char (char_of (n OR 128) :: char) AND 0x7f = (n :: nat)"
    "of_char (char_of (n OR 128) :: char) AND 0x80 = (0x80 :: nat)"
proof -
  have "\<forall>n \<in> set [0 ..< 128]. of_char (char_of (n OR 0) :: char) AND 0x7f = (n :: nat)
      \<and> of_char (char_of (n OR 0) :: char) AND (0x80 :: nat) = 0
      \<and> of_char (char_of (n OR 128) :: char) AND 0x7f = (n :: nat)
      \<and> of_char (char_of (n OR 128) :: char) AND 0x80 = (0x80 :: nat)" by code_simp
  then show "of_char (char_of (n OR 0) :: char) AND 0x7f = (n :: nat)"
    "of_char (char_of (n OR 0) :: char) AND (0x80 :: nat) = 0"
    "of_char (char_of (n OR 128) :: char) AND 0x7f = (n :: nat)"
    "of_char (char_of (n OR 128) :: char) AND 0x80 = (0x80 :: nat)" using assms by simp_all
qed

section \<open>Frames\<close>

text \<open>The text of a frame, with its mask if there is one.\<close>

definition ws_frame :: "nat \<Rightarrow> string option \<Rightarrow> string \<Rightarrow> string" where
  "ws_frame op key data = ws_header op (length data) (key \<noteq> None)
     @ (case key of None \<Rightarrow> data | Some k \<Rightarrow> k @ mask_text k data)"

definition key_ok :: "string option \<Rightarrow> bool" where
  "key_ok key \<longleftrightarrow> (case key of None \<Rightarrow> True | Some k \<Rightarrow> length k = 4)"

lemma send_frame_text:
  "wc_sent (mg_send_websocket_frame rnd op data nc)
    = wc_sent nc @ ws_frame op (if wc_client nc then Some (rnd (wc_drawn nc)) else None) data"
  by (simp add: mg_send_websocket_frame_def mg_send_ws_header_def ws_frame_def Let_def)

lemma send_framev: "length (concat strv) < 2 ^ 31 \<Longrightarrow>
    mg_send_websocket_framev rnd op strv nc = mg_send_websocket_frame rnd op (concat strv) nc"
  by (simp add: mg_send_websocket_framev_def mg_send_websocket_frame_def int_to_size_def del: length_concat)

lemma length_mask_text [simp]: "length (mask_text k s) = length s"
  by (simp add: mask_text_def)

lemma xor_char_twice [simp]: "xor_char (xor_char c d) d = c"
proof -
  have byte: "take_bit 8 (of_char x :: nat) = of_char x" for x :: char
    using nat_of_char_less_256 [of x] by (simp add: take_bit_nat_eq_self)
  have "of_char (char_of ((of_char c :: nat) XOR of_char d) :: char) = take_bit 8 ((of_char c :: nat) XOR of_char d)"
    by (simp add: take_bit_eq_mod)
  then have "of_char (char_of ((of_char c :: nat) XOR of_char d) :: char) = (of_char c :: nat) XOR of_char d"
    by (simp add: byte)
  then show ?thesis by (simp add: xor_char_def xor.assoc)
qed

lemma mask_text_twice [simp]: "mask_text k (mask_text k s) = s"
  by (intro nth_equalityI) (simp_all add: mask_text_def)

text \<open>What the receiver reads of the front of a frame.\<close>

definition mask_size :: "string option \<Rightarrow> nat" where
  "mask_size key = (if key = None then 0 else 4)"

definition head_size :: "nat \<Rightarrow> string option \<Rightarrow> nat" where
  "head_size n key = (if n < 126 then 2 else if n < 65535 then 4 else 10) + mask_size key"

lemma ws_frame_text:
  assumes "key_ok key"
  shows "\<exists>h. ws_frame op key data = h @ (case key of None \<Rightarrow> data | Some k \<Rightarrow> mask_text k data)
    \<and> length h = head_size (length data) key
    \<and> (\<forall>k. key = Some k \<longrightarrow> drop (length h - 4) h = k)"
  using assms by (cases key) (auto simp: ws_frame_def ws_header_def head_size_def mask_size_def key_ok_def Let_def)

lemma ws_frame_hd:
  "op < 16 \<Longrightarrow> byte_at (ws_frame op key data @ rest) 0 = char_of (128 OR op)"
  "op < 16 \<Longrightarrow> byte_at (ws_frame (op OR WEBSOCKET_DONT_FIN) key data @ rest) 0 = char_of op"
proof -
  have "\<forall>op \<in> set [0 ..< 16]. op AND WEBSOCKET_DONT_FIN = 0 \<and> op AND FLAGS_MASK_OP = op
      \<and> (op OR WEBSOCKET_DONT_FIN) AND WEBSOCKET_DONT_FIN \<noteq> 0 \<and> (op OR WEBSOCKET_DONT_FIN) AND FLAGS_MASK_OP = op"
    by code_simp
  then have "op < 16 \<Longrightarrow> op AND WEBSOCKET_DONT_FIN = 0 \<and> op AND FLAGS_MASK_OP = op
      \<and> (op OR WEBSOCKET_DONT_FIN) AND WEBSOCKET_DONT_FIN \<noteq> 0 \<and> (op OR WEBSOCKET_DONT_FIN) AND FLAGS_MASK_OP = op" by simp
  then show "op < 16 \<Longrightarrow> byte_at (ws_frame op key data @ rest) 0 = char_of (128 OR op)"
    "op < 16 \<Longrightarrow> byte_at (ws_frame (op OR WEBSOCKET_DONT_FIN) key data @ rest) 0 = char_of op"
    by (simp_all add: ws_frame_def ws_header_def byte_at_def Let_def)
qed

lemma ws_frame_lengths:
  assumes "key_ok key" and "length data < 2 ^ 63"
  shows "ws_lengths (ws_frame op key data @ rest) = (mask_size key, head_size (length data) key, length data)"
proof -
  let ?t = "ws_frame op key data @ rest" and ?n = "length data" and ?flag = "if key \<noteq> None then 128 else (0 :: nat)"
  let ?m = "if ?n < 126 then ?n else if ?n < 65535 then 126 else 127"
  obtain h where h: "ws_frame op key data = h @ (case key of None \<Rightarrow> data | Some k \<Rightarrow> mask_text k data)"
    "length h = head_size ?n key" using ws_frame_text [OF assms(1)] by blast
  have b1: "byte_at ?t 1 = char_of (?m OR ?flag)"
    by (auto simp: ws_frame_def ws_header_def byte_at_def Let_def)
  have m: "?m < 128" by simp
  have len: "of_char (byte_at ?t 1) AND (0x7f :: nat) = ?m"
    "of_char (byte_at ?t 1) AND (0x80 :: nat) = ?flag"
    unfolding b1 using len_byte [OF m] by auto
  have size: "head_size ?n key \<le> length ?t" using h by simp
  have be2: "substr ?t 2 2 = be_bytes 2 ?n" if "126 \<le> ?n" "?n < 65535"
    using that by (simp add: ws_frame_def ws_header_def substr_def Let_def)
  have be8: "substr ?t 2 8 = be_bytes 8 ?n" if "65535 \<le> ?n"
    using that by (simp add: ws_frame_def ws_header_def substr_def Let_def)
  have v2: "be_value (be_bytes 2 ?n) = ?n" if "?n < 65535" using that be_value_bytes [of ?n 2] by simp
  have v8: "be_value (be_bytes 8 ?n) = ?n" using assms(2) be_value_bytes [of ?n 8] by simp
  have key: "(if ?flag \<noteq> 0 then 4 else 0) = mask_size key" by (simp add: mask_size_def)
  consider "?n < 126" | "126 \<le> ?n" "?n < 65535" | "65535 \<le> ?n" by linarith
  then show ?thesis
  proof cases
    case 1
    then show ?thesis unfolding ws_lengths_def Let_def len key using size by (simp add: head_size_def)
  next
    case 2
    then show ?thesis unfolding ws_lengths_def Let_def len key be2 [OF 2] v2 [OF 2(2)]
      using size by (simp add: head_size_def)
  next
    case 3
    then show ?thesis unfolding ws_lengths_def Let_def len key be8 [OF 3] v8
      using size by (simp add: head_size_def)
  qed
qed

section \<open>Receiving a frame\<close>

text \<open>
  When the text behind what is reassembled starts with a frame that is allowed there, the frame is
  unmasked in place and handed on.
\<close>

definition ws_allowed :: "nat \<Rightarrow> ws_conn \<Rightarrow> bool" where
  "ws_allowed flags nc \<longleftrightarrow>
     (if mg_is_ws_fragment flags \<and> \<not> wc_no_defrag nc then \<not> mg_is_ws_control_frame flags
      else mg_is_ws_control_frame flags \<or> wc_reass_len nc = 0)"

lemma deliver_frame:
  assumes "wc_recv nc = pre @ ws_frame op key data @ rest" and "wc_reass_len nc = length pre"
    and "key_ok key" and "length data < 2 ^ 63" and "op < 16 \<or> (\<exists>op1 < 16. op = op1 OR WEBSOCKET_DONT_FIN)"
    and flags: "flags = of_char (byte_at (ws_frame op key data) 0)" and "ws_allowed flags nc"
  shows "\<exists>h. length h = head_size (length data) key \<and> of_char (byte_at h 0) = flags
    \<and> mg_deliver_websocket_data rnd nc =
      (let nc1 = nc\<lparr>wc_recv := pre @ h @ data @ rest\<rparr>; i = length pre + length h
       in (True, if mg_is_ws_fragment flags \<and> \<not> wc_no_defrag nc then ws_fragment flags i (length data) nc1
                 else ws_message rnd flags i (length data) (length h + length data) nc1))"
proof -
  let ?f = "ws_frame op key data" and ?n = "length data"
  obtain h where h: "?f = h @ (case key of None \<Rightarrow> data | Some k \<Rightarrow> mask_text k data)"
    "length h = head_size ?n key" and k: "\<And>k. key = Some k \<Longrightarrow> drop (length h - 4) h = k"
    using ws_frame_text [OF assms(3)] by blast
  have new: "drop (wc_reass_len nc) (wc_recv nc) = ?f @ rest" using assms(1,2) by simp
  have hs: "2 \<le> length h" "length h \<le> 14" using h(2) by (auto simp: head_size_def mask_size_def)
  then have b0: "byte_at (?f @ rest) 0 = byte_at h 0" "byte_at ?f 0 = byte_at h 0"
    using h(1) by (auto simp: byte_at_def nth_append)
  have flen: "length ?f = length h + ?n" using h(1) by (cases key) simp_all
  have mod: "(length h + ?n) mod 2 ^ 64 = length h + ?n"
    using hs assms(4) by (simp add: mod_less)
  have hs': "head_size ?n key = length h" using h(2) by simp
  have sub: "substr (?f @ rest) (length h) ?n = (case key of None \<Rightarrow> data | Some k \<Rightarrow> mask_text k data)"
    using h(1) by (cases key) (simp_all add: substr_def)
  have plain: "(if mask_size key > 0 then mask_text (substr (?f @ rest) (length h - mask_size key) (mask_size key))
      (substr (?f @ rest) (length h) ?n) else substr (?f @ rest) (length h) ?n) = data"
  proof (cases key)
    case None
    then show ?thesis using sub by (simp add: mask_size_def)
  next
    case (Some y)
    have "drop (length h - 4) (?f @ rest) = y @ mask_text y data @ rest"
      using h(1) hs Some k [OF Some] h(2) by (simp add: head_size_def mask_size_def)
    moreover have "length y = 4" using assms(3) Some by (simp add: key_ok_def)
    ultimately have "substr (?f @ rest) (length h - 4) 4 = y" by (simp add: substr_def)
    then show ?thesis using sub Some by (simp add: mask_size_def)
  qed
  have recv: "take (length pre + length h) (wc_recv nc) = pre @ h" "drop (length h + ?n) (?f @ rest) = rest"
    using assms(1) h(1) flen by (cases key; simp)+
  have ok: "0 < length h + ?n" "length h + ?n \<le> length (?f @ rest)" "0 < length (?f @ rest)"
    "\<not> (length h + ?n < length h \<or> length h + ?n < ?n)"
    using hs flen by (cases h; simp)+
  have allow1: "\<not> ((0 < length (?f @ rest) \<and> mg_is_ws_fragment flags \<and> \<not> wc_no_defrag nc) \<and> mg_is_ws_control_frame flags)"
    and allow2: "\<not> (0 < length (?f @ rest) \<and> \<not> (0 < length (?f @ rest) \<and> mg_is_ws_fragment flags \<and> \<not> wc_no_defrag nc)
        \<and> \<not> mg_is_ws_control_frame flags \<and> wc_reass_len nc > 0)"
    using assms(7) by (auto simp: ws_allowed_def split: if_splits)
  have fl: "of_char (byte_at (?f @ rest) 0) = flags" using b0 flags by simp
  have "mg_deliver_websocket_data rnd nc =
      (let nc1 = nc\<lparr>wc_recv := pre @ h @ data @ rest\<rparr>; i = length pre + length h
       in (True, if mg_is_ws_fragment flags \<and> \<not> wc_no_defrag nc then ws_fragment flags i ?n nc1
                 else ws_message rnd flags i ?n (length h + ?n) nc1))"
    unfolding mg_deliver_websocket_data_def new Let_def fl if_not_P [OF allow1] if_not_P [OF allow2]
      ws_frame_lengths [OF assms(3,4)] prod.case hs' mod if_not_P [OF ok(4)] plain
    using ok recv assms(2) by simp
  then show ?thesis using h(2) b0 flags by (intro exI [of _ h]) simp
qed

text \<open>The three kinds of fragments, behind the text \<open>pre\<close> that is reassembled.\<close>

lemma flags_of:
  "op < 16 \<Longrightarrow> of_char (byte_at (ws_frame op key data) 0) = 128 OR op"
  "op < 16 \<Longrightarrow> of_char (byte_at (ws_frame (op OR WEBSOCKET_DONT_FIN) key data) 0) = op"
proof -
  have "\<forall>op \<in> set [0 ..< 16]. of_char (char_of (128 OR op) :: char) = (128 :: nat) OR op
      \<and> of_char (char_of op :: char) = op" by code_simp
  then show "op < 16 \<Longrightarrow> of_char (byte_at (ws_frame op key data) 0) = 128 OR op"
    "op < 16 \<Longrightarrow> of_char (byte_at (ws_frame (op OR WEBSOCKET_DONT_FIN) key data) 0) = op"
    using ws_frame_hd(1) [of op key data "[]"] ws_frame_hd(2) [of op key data "[]"] by simp_all
qed

lemma flag_classes:
  assumes "op < 8"
  shows "mg_is_ws_fragment op" "mg_is_ws_first_fragment op = (op \<noteq> 0)" "\<not> mg_is_ws_control_frame op"
    "mg_is_ws_fragment (128 OR op) = (op = 0)" "\<not> mg_is_ws_first_fragment (128 OR op)"
    "\<not> mg_is_ws_control_frame (128 OR op)" "op AND FLAGS_MASK_FIN = 0" "(128 OR op) AND FLAGS_MASK_FIN \<noteq> 0"
    "(128 OR op) AND FLAGS_MASK_OP = op" "(128 OR op) AND 8 = 0"
proof -
  have "\<forall>op \<in> set [0 ..< 8]. mg_is_ws_fragment op \<and> mg_is_ws_first_fragment op = (op \<noteq> 0) \<and> \<not> mg_is_ws_control_frame op
    \<and> mg_is_ws_fragment (128 OR op) = (op = 0) \<and> \<not> mg_is_ws_first_fragment (128 OR op)
    \<and> \<not> mg_is_ws_control_frame (128 OR op) \<and> op AND FLAGS_MASK_FIN = 0 \<and> (128 OR op) AND FLAGS_MASK_FIN \<noteq> 0
    \<and> (128 OR op) AND FLAGS_MASK_OP = op \<and> (128 OR op) AND 8 = 0" by code_simp
  then show "mg_is_ws_fragment op" "mg_is_ws_first_fragment op = (op \<noteq> 0)" "\<not> mg_is_ws_control_frame op"
    "mg_is_ws_fragment (128 OR op) = (op = 0)" "\<not> mg_is_ws_first_fragment (128 OR op)"
    "\<not> mg_is_ws_control_frame (128 OR op)" "op AND FLAGS_MASK_FIN = 0" "(128 OR op) AND FLAGS_MASK_FIN \<noteq> 0"
    "(128 OR op) AND FLAGS_MASK_OP = op" "(128 OR op) AND 8 = 0" using assms by simp_all
qed

lemma deliver_whole:
  assumes "wc_recv nc = ws_frame op key data @ rest" and "wc_reass_len nc = 0" and "0 < op" "op < 8"
    and "key_ok key" and "length data < 2 ^ 63"
  shows "mg_deliver_websocket_data rnd nc = (True, nc\<lparr>wc_recv := rest,
     wc_events := wc_events nc @ [(False, \<lparr>wm_flags = 128 OR op, wm_data = data @ rest, wm_size = length data\<rparr>)]\<rparr>)"
proof -
  note c = flag_classes [OF assms(4)]
  have allowed: "ws_allowed (128 OR op) nc" using c assms(2,3) by (simp add: ws_allowed_def)
  have recv: "wc_recv nc = [] @ ws_frame op key data @ rest" "wc_reass_len nc = length ([] :: string)" using assms(1,2) by simp_all
  have op: "op < 16" using assms(4) by simp
  obtain h where h: "length h = head_size (length data) key" and d: "mg_deliver_websocket_data rnd nc =
      (let nc1 = nc\<lparr>wc_recv := [] @ h @ data @ rest\<rparr>; i = length ([] :: string) + length h
       in (True, if mg_is_ws_fragment (128 OR op) \<and> \<not> wc_no_defrag nc then ws_fragment (128 OR op) i (length data) nc1
                 else ws_message rnd (128 OR op) i (length data) (length h + length data) nc1))"
    using deliver_frame [OF recv assms(5,6) disjI1 [OF op] flags_of(1) [OF op, symmetric] allowed, of rnd]
    by (elim exE conjE) (rule that)
  have no_frag: "(mg_is_ws_fragment (128 OR op) \<and> \<not> wc_no_defrag nc) = False" using c(4) assms(3) by simp
  have no_answer: "(op = WEBSOCKET_OP_PING) = False" "(op = WEBSOCKET_OP_CLOSE) = False" using assms(4) by simp_all
  show ?thesis
    unfolding d Let_def no_frag if_False ws_message_def c(9) no_answer mg_handle_incoming_websocket_frame_def
    using c(10) assms(2) by simp
qed

lemma deliver_fragment:
  assumes "wc_recv nc = pre @ ws_frame op key data @ rest" and "wc_reass_len nc = length pre"
    and "op < 16 \<or> (\<exists>op1 < 16. op = op1 OR WEBSOCKET_DONT_FIN)" and "key_ok key" and "length data < 2 ^ 63"
    and flags: "of_char (byte_at (ws_frame op key data) 0) = flags" and "mg_is_ws_fragment flags"
      "\<not> mg_is_ws_control_frame flags" "\<not> wc_no_defrag nc"
  shows "\<exists>h. length h = head_size (length data) key \<and> of_char (byte_at h 0) = flags
    \<and> mg_deliver_websocket_data rnd nc =
      (True, ws_fragment flags (length pre + length h) (length data) (nc\<lparr>wc_recv := pre @ h @ data @ rest\<rparr>))"
proof -
  have "ws_allowed flags nc" using assms(7-9) by (simp add: ws_allowed_def)
  from deliver_frame [OF assms(1,2,4,5,3) flags [symmetric] this, of rnd] show ?thesis
    using assms(7,9) by (simp add: Let_def)
qed

lemma deliver_first:
  assumes "wc_recv nc = ws_frame (op OR WEBSOCKET_DONT_FIN) key data @ rest" and "wc_reass_len nc = 0"
    and "0 < op" "op < 8" and "key_ok key" and "length data < 2 ^ 63" and "\<not> wc_no_defrag nc"
  shows "mg_deliver_websocket_data rnd nc
    = (True, nc\<lparr>wc_recv := char_of op # data @ rest, wc_reass_len := Suc (length data)\<rparr>)"
proof -
  note c = flag_classes [OF assms(4)]
  have op: "op < 16" and dont: "op OR WEBSOCKET_DONT_FIN < 16 \<or> (\<exists>op1 < 16. op OR WEBSOCKET_DONT_FIN = op1 OR WEBSOCKET_DONT_FIN)"
    using assms(4) by (simp, intro disjI2 exI [of _ op], simp)
  have recv: "wc_recv nc = [] @ ws_frame (op OR WEBSOCKET_DONT_FIN) key data @ rest" "wc_reass_len nc = length ([] :: string)"
    using assms(1,2) by simp_all
  obtain h where h: "length h = head_size (length data) key" "of_char (byte_at h 0) = op"
    and d: "mg_deliver_websocket_data rnd nc =
      (True, ws_fragment op (length ([] :: string) + length h) (length data) (nc\<lparr>wc_recv := [] @ h @ data @ rest\<rparr>))"
    using deliver_fragment [OF recv dont assms(5,6) flags_of(2) [OF op] c(1,3) assms(7), of rnd]
    by (elim exE conjE) (rule that)
  have "2 \<le> length h" using h(1) by (simp add: head_size_def)
  then obtain x t where x: "h = x # t" by (cases h) auto
  have "char_of op = x" using h(2) unfolding x by (simp add: byte_at_def) (metis char_of_char)
  then show ?thesis unfolding d using c assms(2,3) x by (simp add: ws_fragment_def Let_def)
qed

lemma deliver_next:
  assumes "wc_recv nc = pre @ ws_frame WEBSOCKET_DONT_FIN key data @ rest" and "wc_reass_len nc = length pre"
    and "key_ok key" and "length data < 2 ^ 63" and "\<not> wc_no_defrag nc"
  shows "mg_deliver_websocket_data rnd nc
    = (True, nc\<lparr>wc_recv := pre @ data @ rest, wc_reass_len := length pre + length data\<rparr>)"
proof -
  have zero: "(0 :: nat) < 8" "(0 :: nat) < 16" by simp_all
  note c = flag_classes [OF zero(1)]
  have dont: "WEBSOCKET_DONT_FIN < 16 \<or> (\<exists>op1 < 16. WEBSOCKET_DONT_FIN = op1 OR WEBSOCKET_DONT_FIN)"
    by (intro disjI2 exI [of _ 0]) simp
  have fl: "of_char (byte_at (ws_frame WEBSOCKET_DONT_FIN key data) 0) = (0 :: nat)"
    using flags_of(2) [OF zero(2), of key data] by simp
  obtain h where d: "mg_deliver_websocket_data rnd nc =
      (True, ws_fragment 0 (length pre + length h) (length data) (nc\<lparr>wc_recv := pre @ h @ data @ rest\<rparr>))"
    using deliver_fragment [OF assms(1,2) dont assms(3,4) fl c(1,3) assms(5), of rnd]
    by (elim exE conjE) (rule that)
  show ?thesis unfolding d using c assms(2) by (simp add: ws_fragment_def Let_def)
qed

lemma deliver_last:
  assumes "wc_recv nc = pre @ ws_frame WEBSOCKET_OP_CONTINUE key data @ rest" and "wc_reass_len nc = length pre"
    and "key_ok key" and "length data < 2 ^ 63" and "\<not> wc_no_defrag nc"
  shows "mg_deliver_websocket_data rnd nc = (True, nc\<lparr>wc_recv := rest, wc_reass_len := 0,
     wc_events := wc_events nc @ [((128 OR of_char (byte_at (pre @ data @ rest) 0)) AND 8 \<noteq> (0 :: nat),
       \<lparr>wm_flags = 128 OR of_char (byte_at (pre @ data @ rest) 0), wm_data = drop 1 (pre @ data @ rest),
        wm_size = (length pre + length data + 2 ^ 64 - 1) mod 2 ^ 64\<rparr>)]\<rparr>)"
proof -
  have zero: "(0 :: nat) < 8" "(0 :: nat) < 16" by simp_all
  note c = flag_classes [OF zero(1)]
  have fl: "of_char (byte_at (ws_frame WEBSOCKET_OP_CONTINUE key data) 0) = (128 OR 0 :: nat)"
    using flags_of(1) [OF zero(2), of key data] by simp
  have frag: "mg_is_ws_fragment (128 OR 0)" using c(4) by simp
  obtain h where d: "mg_deliver_websocket_data rnd nc =
      (True, ws_fragment (128 OR 0) (length pre + length h) (length data) (nc\<lparr>wc_recv := pre @ h @ data @ rest\<rparr>))"
    using deliver_fragment [OF assms(1,2) disjI1 [OF zero(2)] assms(3,4) fl frag c(6) assms(5), of rnd]
    by (elim exE conjE) (rule that)
  show ?thesis unfolding d using c assms(2)
    by (simp add: ws_fragment_def mg_handle_incoming_websocket_frame_def Let_def)
qed

section \<open>The handler\<close>

lemma send_recv [simp]:
  "wc_recv (mg_send_websocket_frame rnd op data nc) = wc_recv nc"
  "wc_recv (mg_ws_close rnd data len nc) = wc_recv nc"
  "wc_reass_len (mg_send_websocket_frame rnd op data nc) = wc_reass_len nc"
  "wc_reass_len (mg_ws_close rnd data len nc) = wc_reass_len nc"
  "wc_events (mg_send_websocket_frame rnd op data nc) = wc_events nc"
  "wc_events (mg_ws_close rnd data len nc) = wc_events nc"
  by (simp_all add: mg_send_websocket_frame_def mg_send_ws_header_def mg_ws_close_def Let_def)

lemma ws_lengths_head:
  assumes "ws_lengths s = (mask_len, header_len, data_len)"
  shows "data_len < 2 ^ 64" and "header_len < 15" and "0 < header_len + data_len \<Longrightarrow> 2 \<le> header_len \<and> mask_len \<le> header_len"
proof -
  have "be_value (substr s 2 2) < 256 ^ length (substr s 2 2)" "be_value (substr s 2 8) < 256 ^ length (substr s 2 8)"
    by (rule be_value_less)+
  moreover have "(256 :: nat) ^ length (substr s 2 2) \<le> 256 ^ 8" "(256 :: nat) ^ length (substr s 2 8) \<le> 256 ^ 8"
    by (intro power_increasing; simp)+
  ultimately have "be_value (substr s 2 2) < 2 ^ 64" "be_value (substr s 2 8) < 2 ^ 64" by (simp_all del: length_substr)
  then show "data_len < 2 ^ 64" "header_len < 15" "0 < header_len + data_len \<Longrightarrow> 2 \<le> header_len \<and> mask_len \<le> header_len"
    using assms by (auto simp: ws_lengths_def Let_def split: if_splits)
qed

lemma fragment_shrinks:
  assumes "data_at \<le> length (wc_recv nc)" and "wc_reass_len nc + 2 \<le> data_at"
  shows "length (wc_recv (ws_fragment flags data_at data_len nc)) < length (wc_recv nc)"
  using assms by (auto simp: ws_fragment_def mg_handle_incoming_websocket_frame_def Let_def)

lemma message_shrinks:
  assumes "wc_reass_len nc + frame_len \<le> length (wc_recv nc)" and "0 < frame_len"
  shows "length (wc_recv (ws_message rnd flags data_at data_len frame_len nc)) < length (wc_recv nc)"
  using assms by (simp add: ws_message_def Let_def)

text \<open>What a delivered frame goes to, and where its data is.\<close>

lemma deliver_cases:
  assumes "mg_deliver_websocket_data rnd nc = (True, nc1)"
  obtains flags header_len data_len nc0 where
    "nc1 = ws_fragment flags (wc_reass_len nc + header_len) data_len nc0
      \<or> nc1 = ws_message rnd flags (wc_reass_len nc + header_len) data_len (header_len + data_len) nc0"
    "2 \<le> header_len" "wc_reass_len nc + header_len + data_len \<le> length (wc_recv nc)"
    "length (wc_recv nc0) = length (wc_recv nc)" "wc_reass_len nc0 = wc_reass_len nc" "wc_events nc0 = wc_events nc"
proof -
  let ?r = "wc_reass_len nc" and ?new = "drop (wc_reass_len nc) (wc_recv nc)"
  obtain mask_len header_len data_len where l: "ws_lengths ?new = (mask_len, header_len, data_len)" by (cases "ws_lengths ?new") auto
  let ?frame = "(header_len + data_len) mod 2 ^ 64"
  let ?plain = "if mask_len > 0 then mask_text (substr ?new (header_len - mask_len) mask_len) (substr ?new header_len data_len)
      else substr ?new header_len data_len"
  let ?nc = "nc\<lparr>wc_recv := take (?r + header_len) (wc_recv nc) @ ?plain @ drop ?frame ?new\<rparr>"
  have f: "0 < ?frame" "?frame \<le> length ?new" "\<not> (?frame < header_len \<or> ?frame < data_len)"
    and nc1: "\<exists>flags. nc1 = ws_fragment flags (?r + header_len) data_len ?nc \<or> nc1 = ws_message rnd flags (?r + header_len) data_len ?frame ?nc"
    using assms unfolding mg_deliver_websocket_data_def Let_def l prod.case
    by (auto split: if_splits)
  have "0 < header_len + data_len" using f(1) by (metis mod_0 not_gr0)
  then have h: "2 \<le> header_len" "data_len < 2 ^ 64" "header_len < 15" using ws_lengths_head [OF l] by auto
  have frame: "?frame = header_len + data_len"
  proof (cases "header_len + data_len < 2 ^ 64")
    case False
    then have "?frame = header_len + data_len - 2 ^ 64" using h by (simp add: le_mod_geq)
    then show ?thesis using f(3) h False by linarith
  qed simp
  have len: "?r + ?frame \<le> length (wc_recv nc)" using f(1,2) by simp
  have "length ?plain = data_len" using f(2) frame by simp
  then have same: "length (wc_recv ?nc) = length (wc_recv nc)" using len frame by simp
  from nc1 obtain flags where "nc1 = ws_fragment flags (?r + header_len) data_len ?nc
      \<or> nc1 = ws_message rnd flags (?r + header_len) data_len (header_len + data_len) ?nc" unfolding frame by blast
  then show ?thesis using h(1) len frame same by (intro that [of flags header_len data_len ?nc]) simp_all
qed

lemma deliver_shrinks:
  assumes "mg_deliver_websocket_data rnd nc = (True, nc1)"
  shows "length (wc_recv nc1) < length (wc_recv nc)"
proof (rule deliver_cases [OF assms])
  fix flags header_len data_len nc0
  let ?at = "wc_reass_len nc + header_len"
  assume c: "nc1 = ws_fragment flags ?at data_len nc0 \<or> nc1 = ws_message rnd flags ?at data_len (header_len + data_len) nc0"
    and b: "2 \<le> header_len" "?at + data_len \<le> length (wc_recv nc)" "length (wc_recv nc0) = length (wc_recv nc)"
      "wc_reass_len nc0 = wc_reass_len nc"
  from c show ?thesis
  proof (elim disjE, goal_cases)
    case 1
    then show ?case using b fragment_shrinks [of ?at nc0 flags data_len] by simp
  next
    case 2
    then show ?case using b message_shrinks [of nc0 "header_len + data_len" rnd flags ?at data_len] by simp
  qed
qed

text \<open>
  What is reassembled is in the buffer, which the code asserts, and what the handler is called with
  is too, but for the empty message of \<open>2 ^ 64 - 1\<close> bytes.
\<close>

definition ws_ok :: "ws_conn \<Rightarrow> bool" where
  "ws_ok nc \<longleftrightarrow> wc_reass_len nc \<le> length (wc_recv nc)"

definition ws_inside :: "bool \<times> websocket_message \<Rightarrow> bool" where
  "ws_inside e \<longleftrightarrow> wm_size (snd e) \<le> length (wm_data (snd e)) \<or> wm_size (snd e) = 2 ^ 64 - 1"

lemma fragment_ok:
  assumes "wc_reass_len nc + 2 \<le> data_at" "data_at + data_len \<le> length (wc_recv nc)" "length (wc_recv nc) < 2 ^ 64"
    and "list_all ws_inside (wc_events nc)"
  shows "ws_ok (ws_fragment flags data_at data_len nc)
    \<and> list_all ws_inside (wc_events (ws_fragment flags data_at data_len nc))"
proof -
  have "(n + 2 ^ 64 - 1) mod 2 ^ 64 = (if n = 0 then 2 ^ 64 - 1 else n - 1)" if "n \<le> length (wc_recv nc)" for n :: nat
    using that assms(3) by (cases n) simp_all
  then show ?thesis using assms
    by (auto simp: ws_fragment_def mg_handle_incoming_websocket_frame_def Let_def ws_ok_def ws_inside_def)
qed

lemma message_ok:
  assumes "wc_reass_len nc + header_len + data_len \<le> length (wc_recv nc)" "list_all ws_inside (wc_events nc)"
  shows "ws_ok (ws_message rnd flags (wc_reass_len nc + header_len) data_len (header_len + data_len) nc)
    \<and> list_all ws_inside (wc_events (ws_message rnd flags (wc_reass_len nc + header_len) data_len (header_len + data_len) nc))"
proof -
  have "wc_reass_len nc \<le> length (wc_recv nc) - (header_len + data_len)"
    "data_len \<le> length (wc_recv nc) - (wc_reass_len nc + header_len)" using assms(1) by simp_all
  then show ?thesis
    using assms by (simp add: ws_message_def mg_handle_incoming_websocket_frame_def Let_def ws_ok_def ws_inside_def)
qed

lemma deliver_stops:
  assumes "\<not> fst (mg_deliver_websocket_data rnd nc)"
  shows "wc_recv (snd (mg_deliver_websocket_data rnd nc)) = wc_recv nc
    \<and> wc_reass_len (snd (mg_deliver_websocket_data rnd nc)) = wc_reass_len nc
    \<and> wc_events (snd (mg_deliver_websocket_data rnd nc)) = wc_events nc"
proof -
  obtain m h d where l: "ws_lengths (drop (wc_reass_len nc) (wc_recv nc)) = (m, h, d)"
    by (cases "ws_lengths (drop (wc_reass_len nc) (wc_recv nc))") auto
  show ?thesis using assms unfolding mg_deliver_websocket_data_def Let_def l prod.case by (auto split: if_splits)
qed

lemma deliver_ok:
  assumes "ws_ok nc" "list_all ws_inside (wc_events nc)" "length (wc_recv nc) < 2 ^ 64"
  shows "ws_ok (snd (mg_deliver_websocket_data rnd nc)) \<and> list_all ws_inside (wc_events (snd (mg_deliver_websocket_data rnd nc)))"
proof (cases "fst (mg_deliver_websocket_data rnd nc)")
  case False
  then show ?thesis using assms deliver_stops [of rnd nc] by (simp add: ws_ok_def)
next
  case True
  then obtain nc1 where d: "mg_deliver_websocket_data rnd nc = (True, nc1)" by (cases "mg_deliver_websocket_data rnd nc") simp
  show ?thesis
  proof (rule deliver_cases [OF d])
    fix flags header_len data_len nc0
    let ?at = "wc_reass_len nc + header_len"
    assume c: "nc1 = ws_fragment flags ?at data_len nc0 \<or> nc1 = ws_message rnd flags ?at data_len (header_len + data_len) nc0"
      and b: "2 \<le> header_len" "?at + data_len \<le> length (wc_recv nc)" "length (wc_recv nc0) = length (wc_recv nc)"
        "wc_reass_len nc0 = wc_reass_len nc" "wc_events nc0 = wc_events nc"
    from c show ?thesis
    proof (elim disjE, goal_cases)
      case 1
      then show ?case using b assms(2,3) fragment_ok [of nc0 ?at data_len flags] by (simp add: d)
    next
      case 2
      then show ?case using b assms(2,3) message_ok [of nc0 header_len data_len rnd flags] by (simp add: d)
    qed
  qed
qed

function ws_deliver_all :: "(nat \<Rightarrow> string) \<Rightarrow> ws_conn \<Rightarrow> ws_conn" where
  "ws_deliver_all rnd nc =
     (let r = mg_deliver_websocket_data rnd nc in if fst r then ws_deliver_all rnd (snd r) else snd r)"
  by pat_completeness auto
termination
  by (relation "measure (\<lambda>(rnd, nc). length (wc_recv nc))") (auto intro!: deliver_shrinks simp: prod_eq_iff)

declare ws_deliver_all.simps [simp del]

text \<open>The events of a connection that matter here: data, a tick of the clock, and the others.\<close>

datatype ws_event = Ws_Recv | Ws_Poll int | Ws_Other

definition mg_ws_handler :: "(nat \<Rightarrow> string) \<Rightarrow> bool \<Rightarrow> int \<Rightarrow> ws_event \<Rightarrow> ws_conn \<Rightarrow> ws_conn" where
  "mg_ws_handler rnd is_websocket last_io_time ev nc =
     (case ev of
        Ws_Recv \<Rightarrow> ws_deliver_all rnd nc
      | Ws_Poll now \<Rightarrow> if is_websocket \<and> now > last_io_time + 5
                       then mg_send_websocket_frame rnd WEBSOCKET_OP_PING [] nc else nc
      | Ws_Other \<Rightarrow> nc)"

lemma deliver_all_step:
  "mg_deliver_websocket_data rnd nc = (True, nc1) \<Longrightarrow> ws_deliver_all rnd nc = ws_deliver_all rnd nc1"
  by (subst ws_deliver_all.simps) simp

lemma deliver_all_end:
  "wc_recv nc = [] \<Longrightarrow> ws_deliver_all rnd nc = nc"
  by (subst ws_deliver_all.simps) (simp add: mg_deliver_websocket_data_def ws_lengths_def Let_def)

lemma deliver_all_next:
  assumes "\<forall>(key, data) \<in> set mids. key_ok key \<and> length data < 2 ^ 63"
    and "wc_recv nc = pre @ concat (map (\<lambda>(key, data). ws_frame WEBSOCKET_DONT_FIN key data) mids) @ rest"
    and "wc_reass_len nc = length pre" and "\<not> wc_no_defrag nc"
  shows "ws_deliver_all rnd nc = ws_deliver_all rnd (nc\<lparr>wc_recv := pre @ concat (map snd mids) @ rest,
     wc_reass_len := length pre + length (concat (map snd mids))\<rparr>)"
  using assms
proof (induction mids arbitrary: nc pre)
  case Nil
  then have "nc\<lparr>wc_recv := pre @ rest, wc_reass_len := length pre\<rparr> = nc" by simp
  then show ?case by simp
next
  case (Cons m mids)
  obtain key data where m: "m = (key, data)" by force
  let ?rest = "concat (map (\<lambda>(key, data). ws_frame WEBSOCKET_DONT_FIN key data) mids) @ rest"
  let ?nc = "nc\<lparr>wc_recv := (pre @ data) @ ?rest, wc_reass_len := length (pre @ data)\<rparr>"
  have ok: "key_ok key" "length data < 2 ^ 63" using Cons.prems(1) m by auto
  have recv: "wc_recv nc = pre @ ws_frame WEBSOCKET_DONT_FIN key data @ ?rest" using Cons.prems(2) m by simp
  have "mg_deliver_websocket_data rnd nc = (True, ?nc)"
    using deliver_next [OF recv Cons.prems(3) ok Cons.prems(4), of rnd] by simp
  then have "ws_deliver_all rnd nc = ws_deliver_all rnd ?nc" by (rule deliver_all_step)
  also have "\<dots> = ws_deliver_all rnd (?nc\<lparr>wc_recv := (pre @ data) @ concat (map snd mids) @ rest,
     wc_reass_len := length (pre @ data) + length (concat (map snd mids))\<rparr>)"
    using Cons.prems by (intro Cons.IH) simp_all
  finally show ?case by (simp add: m add.assoc)
qed

text \<open>What a receiver makes of a message in fragments.\<close>

lemma deliver_all_fragments:
  assumes recv: "wc_recv nc = ws_frame (op OR WEBSOCKET_DONT_FIN) k0 d0
      @ concat (map (\<lambda>(key, data). ws_frame WEBSOCKET_DONT_FIN key data) mids) @ ws_frame WEBSOCKET_OP_CONTINUE k1 d1"
    and nc: "wc_reass_len nc = 0" "\<not> wc_no_defrag nc" and op: "0 < op" "op < 8"
    and keys: "key_ok k0" "\<forall>(key, data) \<in> set mids. key_ok key" "key_ok k1"
    and len: "length (d0 @ concat (map snd mids) @ d1) < 2 ^ 63"
  shows "ws_deliver_all rnd nc = nc\<lparr>wc_recv := [], wc_events := wc_events nc @
    [(False, \<lparr>wm_flags = 128 OR op, wm_data = d0 @ concat (map snd mids) @ d1,
       wm_size = length (d0 @ concat (map snd mids) @ d1)\<rparr>)]\<rparr>"
proof -
  let ?mid = "concat (map snd mids)"
  have lens: "length d0 < 2 ^ 63" "length d1 < 2 ^ 63" using len by simp_all
  have "length data < 2 ^ 63" if "(key, data) \<in> set mids" for key data
  proof -
    have "length data \<le> length ?mid" using that by (fastforce simp: in_set_conv_decomp)
    then show ?thesis using len by simp
  qed
  then have mids: "\<forall>(key, data) \<in> set mids. key_ok key \<and> length data < 2 ^ 63" using keys(2) by auto
  let ?rest = "concat (map (\<lambda>(key, data). ws_frame WEBSOCKET_DONT_FIN key data) mids) @ ws_frame WEBSOCKET_OP_CONTINUE k1 d1"
  let ?nc1 = "nc\<lparr>wc_recv := char_of op # d0 @ ?rest, wc_reass_len := Suc (length d0)\<rparr>"
  have step1: "ws_deliver_all rnd nc = ws_deliver_all rnd ?nc1"
    using deliver_first [OF recv nc(1) op keys(1) lens(1) nc(2), of rnd] by (intro deliver_all_step) simp
  let ?pre = "char_of op # d0 @ ?mid"
  let ?nc2 = "nc\<lparr>wc_recv := ?pre @ ws_frame WEBSOCKET_OP_CONTINUE k1 d1, wc_reass_len := length ?pre\<rparr>"
  have step2: "ws_deliver_all rnd ?nc1 = ws_deliver_all rnd ?nc2"
    using deliver_all_next [OF mids, of ?nc1 "char_of op # d0" "ws_frame WEBSOCKET_OP_CONTINUE k1 d1" rnd] nc(2) by simp
  have recv2: "wc_recv ?nc2 = ?pre @ ws_frame WEBSOCKET_OP_CONTINUE k1 d1 @ []" "wc_reass_len ?nc2 = length ?pre"
    "\<not> wc_no_defrag ?nc2" using nc(2) by simp_all
  have flag: "of_char (byte_at (?pre @ d1 @ []) 0) = op" using op by (simp add: byte_at_def)
  have size: "(length ?pre + length d1 + 2 ^ 64 - 1) mod 2 ^ 64 = length (d0 @ ?mid @ d1)"
    using len by (simp add: mod_less)
  have "mg_deliver_websocket_data rnd ?nc2 = (True, nc\<lparr>wc_recv := [], wc_events := wc_events nc @
    [(False, \<lparr>wm_flags = 128 OR op, wm_data = d0 @ ?mid @ d1, wm_size = length (d0 @ ?mid @ d1)\<rparr>)]\<rparr>)"
    unfolding deliver_last [OF recv2(1,2) keys(3) lens(2) recv2(3), of rnd] flag size
    using flag_classes(10) [OF op(2)] nc(1) by simp
  then have "ws_deliver_all rnd ?nc2 = nc\<lparr>wc_recv := [], wc_events := wc_events nc @
    [(False, \<lparr>wm_flags = 128 OR op, wm_data = d0 @ ?mid @ d1, wm_size = length (d0 @ ?mid @ d1)\<rparr>)]\<rparr>"
    by (simp add: deliver_all_step deliver_all_end)
  then show ?thesis using step1 step2 by simp
qed

lemma deliver_all_ok:
  "ws_ok nc \<Longrightarrow> list_all ws_inside (wc_events nc) \<Longrightarrow> length (wc_recv nc) < 2 ^ 64 \<Longrightarrow>
    ws_ok (ws_deliver_all rnd nc) \<and> list_all ws_inside (wc_events (ws_deliver_all rnd nc))"
proof (induction rnd nc rule: ws_deliver_all.induct)
  case (1 rnd nc)
  have ok: "ws_ok (snd (mg_deliver_websocket_data rnd nc)) \<and> list_all ws_inside (wc_events (snd (mg_deliver_websocket_data rnd nc)))"
    using 1 deliver_ok by blast
  show ?case
  proof (cases "fst (mg_deliver_websocket_data rnd nc)")
    case True
    then have "length (wc_recv (snd (mg_deliver_websocket_data rnd nc))) < length (wc_recv nc)"
      by (intro deliver_shrinks [of rnd]) (simp add: prod_eq_iff)
    then show ?thesis using 1 True ok by (subst (1 2) ws_deliver_all.simps) (simp add: Let_def)
  qed (use ok in \<open>subst (1 2) ws_deliver_all.simps, simp add: Let_def\<close>)
qed

text \<open>What a sender writes for a series of messages.\<close>

definition masks_ok :: "(nat \<Rightarrow> string) \<Rightarrow> bool" where
  "masks_ok rnd \<longleftrightarrow> (\<forall>i. length (rnd i) = 4)"

lemma send_frame_key:
  assumes "masks_ok rnd"
  shows "\<exists>key. key_ok key \<and> wc_sent (mg_send_websocket_frame rnd op data nc) = wc_sent nc @ ws_frame op key data"
  using assms by (intro exI [of _ "if wc_client nc then Some (rnd (wc_drawn nc)) else None"])
    (simp add: send_frame_text masks_ok_def key_ok_def)

lemma send_frames_keys:
  assumes "masks_ok rnd"
  shows "\<exists>mids. map snd mids = ds \<and> (\<forall>(key, data) \<in> set mids. key_ok key)
    \<and> wc_sent (fold (mg_send_websocket_frame rnd op) ds nc)
      = wc_sent nc @ concat (map (\<lambda>(key, data). ws_frame op key data) mids)"
proof (induction ds arbitrary: nc)
  case (Cons d ds)
  obtain key where key: "key_ok key" "wc_sent (mg_send_websocket_frame rnd op d nc) = wc_sent nc @ ws_frame op key d"
    using send_frame_key [OF assms] by blast
  from Cons [of "mg_send_websocket_frame rnd op d nc"] obtain mids where
    "map snd mids = ds" "\<forall>(key, data) \<in> set mids. key_ok key"
    "wc_sent (fold (mg_send_websocket_frame rnd op) ds (mg_send_websocket_frame rnd op d nc))
      = wc_sent (mg_send_websocket_frame rnd op d nc) @ concat (map (\<lambda>(key, data). ws_frame op key data) mids)" by blast
  then show ?case using key by (intro exI [of _ "(key, d) # mids"]) simp
qed (intro exI [of _ "[]"], simp)

section \<open>Properties\<close>


text \<open>
  C28. Whatever arrives, and on every event: what the connection has reassembled stays within its
  buffer, which the code asserts at the next frame, and every message its handler is called with has
  all its bytes in the buffer, but for a message that claims \<open>2 ^ 64 - 1\<close> bytes.
\<close>

theorem mg_websocket_messages_inside:
  assumes "wc_reass_len nc \<le> length (wc_recv nc)" "length (wc_recv nc) < 2 ^ 64" "wc_events nc = []"
  shows "wc_reass_len (mg_ws_handler rnd ws t ev nc) \<le> length (wc_recv (mg_ws_handler rnd ws t ev nc))
    \<and> (\<forall>(control, m) \<in> set (wc_events (mg_ws_handler rnd ws t ev nc)).
         wm_size m \<le> length (wm_data m) \<or> wm_size m = 2 ^ 64 - 1)"
  using deliver_all_ok [of nc rnd] assms
  by (cases ev) (auto simp: mg_ws_handler_def ws_ok_def ws_inside_def list_all_iff)

text \<open>
  C29. A last fragment without a first one and without data makes the handler be called with a
  message of \<open>2 ^ 64 - 1\<close> bytes: the length of the reassembled text, 0, less the byte of the
  operation that is not there. Two bytes from any client are enough.
\<close>

theorem mg_websocket_empty_continuation_underflows:
  assumes "wc_recv nc = ws_frame WEBSOCKET_OP_CONTINUE key [] @ rest" and "key_ok key"
    and "wc_reass_len nc = 0" "\<not> wc_no_defrag nc"
  shows "\<exists>control flags. mg_deliver_websocket_data rnd nc = (True, nc\<lparr>wc_recv := rest, wc_reass_len := 0,
     wc_events := wc_events nc @ [(control, \<lparr>wm_flags = flags, wm_data = drop 1 rest, wm_size = 2 ^ 64 - 1\<rparr>)]\<rparr>)"
proof -
  have recv: "wc_recv nc = [] @ ws_frame WEBSOCKET_OP_CONTINUE key [] @ rest" "wc_reass_len nc = length ([] :: string)"
    "length ([] :: string) < 2 ^ 63" using assms(1,3) by simp_all
  have "\<exists>control flags. mg_deliver_websocket_data rnd nc = (True, nc\<lparr>wc_recv := rest, wc_reass_len := 0,
     wc_events := wc_events nc @ [(control, \<lparr>wm_flags = flags, wm_data = drop 1 rest, wm_size = 18446744073709551615\<rparr>)]\<rparr>)"
    using deliver_last [OF recv(1,2) assms(2) recv(3) assms(4), of rnd] assms(3) by (intro exI) simp
  then show ?thesis by simp
qed

section \<open>Witnesses\<close>

definition ws_sample :: "bool \<Rightarrow> string \<Rightarrow> ws_conn" where
  "ws_sample client recv = \<lparr>wc_recv = recv, wc_reass_len = 0, wc_no_defrag = False, wc_client = client,
     wc_sent = [], wc_send_and_close = False, wc_drawn = 0, wc_events = []\<rparr>"

definition ws_sample_rnd :: "nat \<Rightarrow> string" where
  "ws_sample_rnd i = ''ab@7''"


lemma mg_websocket_empty_continuation_underflows_witness:
  "\<exists>control flags. mg_deliver_websocket_data ws_sample_rnd (ws_sample False (ws_frame 0 None [] @ ''xy''))
     = (True, (ws_sample False [])\<lparr>wc_recv := ''xy'', wc_reass_len := 0,
          wc_events := [(control, \<lparr>wm_flags = flags, wm_data = ''y'', wm_size = 2 ^ 64 - 1\<rparr>)]\<rparr>)"
  using mg_websocket_empty_continuation_underflows
    [of "ws_sample False (ws_frame 0 None [] @ ''xy'')" None "''xy''" ws_sample_rnd]
  by (simp add: key_ok_def ws_sample_def)

lemma mg_websocket_messages_inside_witness:
  "wc_reass_len (mg_ws_handler ws_sample_rnd True 0 Ws_Recv (ws_sample False (ws_frame 0x102 None ''xy'')))
     \<le> length (wc_recv (mg_ws_handler ws_sample_rnd True 0 Ws_Recv (ws_sample False (ws_frame 0x102 None ''xy''))))"
  using mg_websocket_messages_inside
    [of "ws_sample False (ws_frame 0x102 None ''xy'')" ws_sample_rnd True 0 Ws_Recv]
  by (simp add: ws_sample_def ws_frame_def ws_header_def)

end
