(* ===== verification/Mg_Hash.thy ===== *)
theory Mg_Hash
  imports Mg_Bytes
begin

text \<open>
  What the two hash functions of \<open>src/src/mongoose.c\<close> share: a message is taken in blocks of 64
  bytes, what is left of it waits in a buffer, and the bits are counted in two words. The interface of
  a hash that is fed pieces is a locale, which both of them interpret.
\<close>

section \<open>Blocks\<close>

text \<open>The blocks of a message, one after the other, and the bytes that do not fill one.\<close>

function md_blocks :: "('s \<Rightarrow> string \<Rightarrow> 's) \<Rightarrow> 's \<Rightarrow> string \<Rightarrow> 's" where
  "md_blocks step st m = (if length m < 64 then st else md_blocks step (step st (take 64 m)) (drop 64 m))"
  by pat_completeness auto
termination by (relation "measure (\<lambda>(step, st, m). length m)") auto

declare md_blocks.simps [simp del]

definition md_rest :: "string \<Rightarrow> string" where
  "md_rest m = drop (length m div 64 * 64) m"

lemma md_blocks_short [simp]: "length m < 64 \<Longrightarrow> md_blocks step st m = st"
  by (subst md_blocks.simps) simp

lemma md_blocks_block: "length b = 64 \<Longrightarrow> md_blocks step st (b @ m) = md_blocks step (step st b) m"
  by (subst md_blocks.simps) simp

lemma length_md_rest [simp]: "length (md_rest m) = length m mod 64"
  by (simp add: md_rest_def minus_div_mult_eq_mod)

lemma md_rest_short [simp]: "length m < 64 \<Longrightarrow> md_rest m = m"
  by (simp add: md_rest_def)

lemma md_rest_block: "length b = 64 \<Longrightarrow> md_rest (b @ m) = md_rest m"
proof -
  assume b: "length b = 64"
  have "length (b @ m) div 64 * 64 = 64 + length m div 64 * 64"
    using b div_add_self1 [of 64 "length m"] by simp
  then show ?thesis using b by (simp add: md_rest_def)
qed

lemma md_append: "md_blocks step st (m @ s) = md_blocks step (md_blocks step st m) (md_rest m @ s)
    \<and> md_rest (m @ s) = md_rest (md_rest m @ s)"
proof (induction step st m rule: md_blocks.induct)
  case (1 step st m)
  show ?case
  proof (cases "length m < 64")
    case False
    define b m' where "b = take 64 m" and "m' = drop 64 m"
    then have m: "m = b @ m'" "length b = 64" using False by simp_all
    have "md_blocks step st (b @ m' @ s) = md_blocks step (step st b) (m' @ s)"
      "md_blocks step st (b @ m') = md_blocks step (step st b) m'"
      "md_rest (b @ m') = md_rest m'" "md_rest (b @ m' @ s) = md_rest (m' @ s)"
      using m(2) by (simp_all add: md_blocks_block md_rest_block)
    then show ?thesis using 1 [OF False] unfolding b_def [symmetric] m'_def [symmetric] by (simp add: m(1))
  qed simp
qed

text \<open>Whole blocks and a rest are what a message consists of, and are found again.\<close>

lemma md_blocks_append:
  assumes "length m mod 64 = 0"
  shows "md_blocks step st (m @ s) = md_blocks step (md_blocks step st m) s"
proof -
  have "md_rest m = []" using assms by (simp flip: length_0_conv)
  then show ?thesis using md_append [of step st m s] by simp
qed

section \<open>Padding\<close>

text \<open>A bit, the zeros that leave room for eight bytes, and the number of bits in them.\<close>

definition md_pad :: "(nat \<Rightarrow> string) \<Rightarrow> string \<Rightarrow> string" where
  "md_pad bits m = m @ [CHR 0x80] @ replicate ((119 - length m mod 64) mod 64) nul @ bits (8 * length m)"

lemma length_md_pad: "length (bits (8 * length m)) = 8 \<Longrightarrow> length (md_pad bits m) mod 64 = 0"
proof -
  have "(n + 1 + (119 - n mod 64) mod 64 + 8) mod 64 = 0" for n :: nat
  proof -
    have "\<forall>r \<in> set [0 ..< 64]. (r + 1 + (119 - r) mod 64 + 8) mod 64 = (0 :: nat)" by code_simp
    then have "(n mod 64 + 1 + (119 - n mod 64) mod 64 + 8) mod 64 = 0" by simp
    moreover have "n + 1 + (119 - n mod 64) mod 64 + 8
        = (n mod 64 + 1 + (119 - n mod 64) mod 64 + 8) + 64 * (n div 64)"
      using mult_div_mod_eq [of 64 n] by linarith
    ultimately show ?thesis by (simp only: mod_mult_self2)
  qed
  then show "length (bits (8 * length m)) = 8 \<Longrightarrow> ?thesis" by (simp add: md_pad_def algebra_simps)
qed

section \<open>Counting bits\<close>

text \<open>
  The two words that count the bits, after \<open>len\<close> bytes more: the first carries into the
  second, which also gets the bits that shifting the length by 3 loses.
\<close>

definition md_count :: "nat \<Rightarrow> 32 word \<times> 32 word \<Rightarrow> 32 word \<times> 32 word" where
  "md_count len c =
     (let c0 = fst c + push_bit 3 (word_of_nat len); c1 = (if c0 < fst c then snd c + 1 else snd c)
      in (c0, c1 + drop_bit 29 (word_of_nat len)))"

definition counts :: "nat \<Rightarrow> 32 word \<times> 32 word \<Rightarrow> bool" where
  "counts n c \<longleftrightarrow> unat (fst c) = 8 * n mod 2 ^ 32 \<and> unat (snd c) = 8 * n div 2 ^ 32 mod 2 ^ 32"

lemma counts_0: "counts 0 (0, 0)"
  by (simp add: counts_def)

lemma counts_add:
  assumes "counts m c" and "n < 2 ^ 32"
  shows "counts (m + n) (md_count n c)"
proof -
  define a b where "a = unat (fst c)" and "b = 8 * n mod 2 ^ 32"
  have n: "unat (word_of_nat n :: 32 word) = n" using assms(2) by (simp add: unat_of_nat)
  have b: "unat (push_bit 3 (word_of_nat n) :: 32 word) = b"
    using assms(2) by (simp add: b_def push_bit_eq_mult unat_word_ariths n mult.commute)
  have "8 * n div (8 * 2 ^ 29) = n div 2 ^ 29" by (rule div_mult_mult1) simp
  then have q: "8 * n = 2 ^ 32 * (n div 2 ^ 29) + b" using mult_div_mod_eq [of "2 ^ 32" "8 * n"] by (simp add: b_def)
  have a: "8 * m = 2 ^ 32 * (8 * m div 2 ^ 32) + a" 
    using assms(1) mult_div_mod_eq [of "2 ^ 32" "8 * m"] unfolding counts_def a_def by linarith
  have lt: "a < 2 ^ 32" "b < 2 ^ 32" 
    using unsigned_less [of "fst c"] by (simp_all add: a_def b_def)
  have c0: "unat (fst (md_count n c)) = (a + b) mod 2 ^ 32"
    by (simp add: md_count_def Let_def unat_word_ariths b flip: a_def)
  have "(a + b) mod 2 ^ 32 = (if 2 ^ 32 \<le> a + b then a + b - 2 ^ 32 else a + b)"
    using lt by (simp add: le_mod_geq)
  then have carry: "fst (md_count n c) < fst c \<longleftrightarrow> 2 ^ 32 \<le> a + b"
    using lt unfolding word_less_nat_alt c0 a_def [symmetric] by (simp split: if_splits)
  have "8 * (m + n) = 2 ^ 32 * (8 * m div 2 ^ 32 + n div 2 ^ 29) + (a + b)"
    unfolding distrib_left using q a by (metis add.assoc add.left_commute)
  moreover have nz: "(2 :: nat) ^ 32 \<noteq> 0" by simp
  ultimately have d: "8 * (m + n) div 2 ^ 32 = 8 * m div 2 ^ 32 + n div 2 ^ 29 + (a + b) div 2 ^ 32"
    "8 * (m + n) mod 2 ^ 32 = (a + b) mod 2 ^ 32" by (simp_all only: div_mult_self4 [OF nz] mod_mult_self4)
  have "unat (drop_bit 29 (word_of_nat n) :: 32 word) = n div 2 ^ 29" 
    unfolding unat_drop_bit_eq n by (rule drop_bit_eq_div)
  then have "unat (snd (md_count n c)) = (8 * m div 2 ^ 32 + (if 2 ^ 32 \<le> a + b then 1 else 0) + n div 2 ^ 29) mod 2 ^ 32"
    using assms(1) carry by (simp add: md_count_def Let_def unat_word_ariths counts_def mod_simps)
  moreover have "(a + b) div 2 ^ 32 = (if 2 ^ 32 \<le> a + b then 1 else 0)" using lt by (simp add: div_nat_eqI)
  ultimately show ?thesis unfolding counts_def c0 d by (simp add: algebra_simps)
qed

lemma counts_position:
  assumes "counts n (c0, c1)"
  shows "unat (drop_bit 3 c0 AND 63) = n mod 64" and "c0 AND 504 = 448 \<longleftrightarrow> n mod 64 = 56"
proof -
  have "(8 * n mod 2 ^ 32) div 8 mod 64 = n mod (64 :: nat)"
  proof -
    have "8 * n mod (8 * 2 ^ 29) = 8 * (n mod 2 ^ 29)" by (rule mult_mod_right [symmetric])
    then have "8 * n mod 2 ^ 32 div 8 = n mod 2 ^ 29" by simp
    moreover have "n mod 2 ^ 29 mod 64 = n mod (64 :: nat)" by (rule mod_mod_cancel) (simp add: dvd_def)
    ultimately show ?thesis by simp
  qed
  moreover have "drop_bit 3 c0 AND 63 = take_bit 6 (drop_bit 3 c0)"
    using take_bit_eq_mask [of 6 "drop_bit 3 c0"] by (simp add: mask_eq_exp_minus_1)
  moreover have "unat (take_bit 6 (drop_bit 3 c0)) = unat c0 div 8 mod 64"
    unfolding unsigned_take_bit_eq unat_drop_bit_eq by (simp only: drop_bit_eq_div take_bit_eq_mod) simp
  ultimately show p: "unat (drop_bit 3 c0 AND 63) = n mod 64" using assms by (simp only: counts_def fst_conv)
  let ?q = "drop_bit 3 c0 AND 63"
  have m: "(504 :: 32 word) = push_bit 3 (mask 6)" "(63 :: 32 word) = mask 6" by (simp_all add: mask_eq_exp_minus_1)
  have "c0 AND 504 = push_bit 3 ?q" unfolding m by (intro bit_word_eqI) (auto simp: bit_simps)
  then have "unat (c0 AND 504) = 8 * (n mod 64)"
    by (simp add: push_bit_eq_mult unat_word_ariths p mod_less mult.commute)
  then show "c0 AND 504 = 448 \<longleftrightarrow> n mod 64 = 56" by (auto simp: word_unat_eq_iff)
qed

section \<open>A hash that is fed pieces\<close>

text \<open>
  The interface: a state may hold a message; an initial state holds the empty one, a piece that is
  short enough is appended to it, and the digest is a function of the message.
\<close>

locale stream_hash =
  fixes starts :: "'c \<Rightarrow> bool"
    and update :: "string \<Rightarrow> 'c \<Rightarrow> 'c option"
    and final :: "'c \<Rightarrow> string option"
    and holds :: "'c \<Rightarrow> string \<Rightarrow> bool"
    and digest :: "string \<Rightarrow> string"
  assumes start_holds: "starts c \<Longrightarrow> holds c []"
    and update_holds: "holds c m \<Longrightarrow> length s < 2 ^ 32 - 64 \<Longrightarrow> \<exists>c'. update s c = Some c' \<and> holds c' (m @ s)"
    and final_digest: "holds c m \<Longrightarrow> final c = Some (digest m)"
begin

fun feed :: "string list \<Rightarrow> 'c \<Rightarrow> 'c option" where
  "feed [] c = Some c"
| "feed (s # ss) c = (case update s c of None \<Rightarrow> None | Some c' \<Rightarrow> feed ss c')"

lemma feed_holds:
  "holds c m \<Longrightarrow> list_all (\<lambda>s. length s < 2 ^ 32 - 64) ss \<Longrightarrow> \<exists>c'. feed ss c = Some c' \<and> holds c' (m @ concat ss)"
proof (induction ss arbitrary: c m)
  case (Cons s ss)
  then obtain c1 where c1: "update s c = Some c1" "holds c1 (m @ s)" using update_holds [of c m s] by auto
  from Cons.IH [OF this(2)] Cons.prems(2) show ?case using c1(1) by simp
qed simp

text \<open>However a message is cut into pieces, its digest is the same.\<close>

lemma pieces_digest:
  "starts c \<Longrightarrow> list_all (\<lambda>s. length s < 2 ^ 32 - 64) ss \<Longrightarrow>
    Option.bind (feed ss c) final = Some (digest (concat ss))"
  using feed_holds [OF start_holds, of c ss] final_digest by fastforce

end

end
