(* ===== verification/Mg_Sha1.thy ===== *)
theory Mg_Sha1
  imports Mg_Hash
begin

text \<open>
  SHA-1 of the embedded web server, \<open>src/src/mongoose.c\<close>: the transformation of a block with its
  ring of sixteen words, the hash that is fed pieces, and the keyed hash, against the functions of
  FIPS 180-4 and RFC 2104.
\<close>

unbundle bit_operations_syntax

section \<open>The code\<close>

record cs_sha1_ctx =
  sx_state :: "32 word list"
  sx_count0 :: "32 word"
  sx_count1 :: "32 word"
  sx_buffer :: string

definition blk0 :: "nat \<Rightarrow> 32 word list \<Rightarrow> 32 word list" where
  "blk0 i l = l[i := (rol 24 (l ! i) AND 0xFF00FF00) OR (rol 8 (l ! i) AND 0x00FF00FF)]"

definition blk :: "nat \<Rightarrow> 32 word list \<Rightarrow> 32 word list" where
  "blk i l = l[i mod 16 := rol 1 (l ! ((i + 13) mod 16) XOR l ! ((i + 8) mod 16) XOR l ! ((i + 2) mod 16) XOR l ! (i mod 16))]"

text \<open>What the macros \<open>R0\<close> to \<open>R4\<close> make of three registers, and the constants they add.\<close>

definition sha1_mix :: "nat \<Rightarrow> 32 word \<Rightarrow> 32 word \<Rightarrow> 32 word \<Rightarrow> 32 word" where
  "sha1_mix i w x y =
     (if i < 20 then (w AND (x XOR y)) XOR y
      else if i < 40 then w XOR x XOR y
      else if i < 60 then ((w OR x) AND y) OR (w AND x)
      else w XOR x XOR y)"

definition sha1_const :: "nat \<Rightarrow> 32 word" where
  "sha1_const i = (if i < 20 then 0x5A827999 else if i < 40 then 0x6ED9EBA1 else if i < 60 then 0x8F1BBCDC else 0xCA62C1D6)"

text \<open>
  The registers a, b, c, d and e stay where they are; the macro calls name them in turn, so that the
  k-th argument of the i-th call is the register below.
\<close>

definition sha1_reg :: "nat \<Rightarrow> nat \<Rightarrow> nat" where
  "sha1_reg i k = (4 * i + k) mod 5"

definition sha1_round :: "nat \<Rightarrow> 32 word list \<times> 32 word list \<Rightarrow> 32 word list \<times> 32 word list" where
  "sha1_round i rl =
     (let (r, l) = rl;
          v = r ! sha1_reg i 0; w = r ! sha1_reg i 1; x = r ! sha1_reg i 2; y = r ! sha1_reg i 3; z = r ! sha1_reg i 4;
          l1 = (if i < 16 then blk0 i l else blk i l)
      in (r[sha1_reg i 4 := z + sha1_mix i w x y + l1 ! (i mod 16) + sha1_const i + rol 5 v,
            sha1_reg i 1 := rol 30 w], l1))"

definition cs_sha1_transform :: "32 word list \<Rightarrow> string \<Rightarrow> 32 word list" where
  "cs_sha1_transform state buffer =
     (let block = map (\<lambda>i. le_word (substr buffer (4 * i) 4)) [0 ..< 16];
          (r, block1) = fold sha1_round [0 ..< 80] (state, block)
      in map2 (+) state r)"

definition cs_sha1_init :: "string \<Rightarrow> cs_sha1_ctx" where
  "cs_sha1_init junk = \<lparr>sx_state = [0x67452301, 0xEFCDAB89, 0x98BADCFE, 0x10325476, 0xC3D2E1F0],
     sx_count0 = 0, sx_count1 = 0, sx_buffer = junk\<rparr>"

text \<open>
  The blocks of the data from \<open>i\<close> on. The index is a 32-bit number, which the test may
  wrap; None is a read after the data or a copy past the buffer.
\<close>

function sha1_blocks :: "string \<Rightarrow> nat \<Rightarrow> 32 word list \<Rightarrow> (nat \<times> 32 word list) option" where
  "sha1_blocks data i st =
     (if (i + 63) mod 2 ^ 32 < length data
      then (if i + 64 \<le> length data then sha1_blocks data (i + 64) (cs_sha1_transform st (substr data i 64)) else None)
      else Some (i, st))"
  by pat_completeness auto
termination by (relation "measure (\<lambda>(data, i, st). length data - i)") auto

declare sha1_blocks.simps [simp del]

text \<open>The length is a \<open>uint32_t\<close>.\<close>

definition cs_sha1_update :: "string \<Rightarrow> cs_sha1_ctx \<Rightarrow> cs_sha1_ctx option" where
  "cs_sha1_update bytes c =
     (let len = length bytes mod 2 ^ 32; data = take len bytes;
          j = unat (drop_bit 3 (sx_count0 c) AND 63);
          (c0, c1) = md_count len (sx_count0 c, sx_count1 c);
          c = c\<lparr>sx_count0 := c0, sx_count1 := c1\<rparr>
      in if (j + len) mod 2 ^ 32 > 63
         then (let buffer = mem_put (sx_buffer c) j (take (64 - j) data)
               in case sha1_blocks data (64 - j) (cs_sha1_transform (sx_state c) buffer) of
                    None \<Rightarrow> None
                  | Some (i, st) \<Rightarrow>
                      if len - i \<le> 64
                      then Some (c\<lparr>sx_state := st, sx_buffer := mem_put buffer 0 (drop i data)\<rparr>)
                      else None)
         else if j + len \<le> 64 then Some (c\<lparr>sx_buffer := mem_put (sx_buffer c) j data\<rparr>)
         else None)"

partial_function (option) sha1_pad_zeros :: "cs_sha1_ctx \<Rightarrow> cs_sha1_ctx option" where
  "sha1_pad_zeros c =
     (if sx_count0 c AND 504 \<noteq> 448 then Option.bind (cs_sha1_update [nul] c) sha1_pad_zeros else Some c)"

declare sha1_pad_zeros.simps [code]

definition cs_sha1_final :: "cs_sha1_ctx \<Rightarrow> string option" where
  "cs_sha1_final c =
     (let finalcount = map (\<lambda>i. char_of (unat (drop_bit ((3 - i mod 4) * 8) (if i \<ge> 4 then sx_count0 c else sx_count1 c)
                                             AND 255))) [0 ..< 8]
      in Option.bind (cs_sha1_update [CHR 0x80] c) (\<lambda>c1.
         Option.bind (sha1_pad_zeros c1) (\<lambda>c2.
         Option.bind (cs_sha1_update finalcount c2) (\<lambda>c3.
         Some (map (\<lambda>i. char_of (unat (drop_bit ((3 - i mod 4) * 8) (sx_state c3 ! (i div 4)) AND 255))) [0 ..< 20])))))"

text \<open>\<open>mg_hash_sha1_v\<close>, with what the memory of its context holds before.\<close>

fun sha1_updates :: "string list \<Rightarrow> cs_sha1_ctx \<Rightarrow> cs_sha1_ctx option" where
  "sha1_updates [] c = Some c"
| "sha1_updates (s # ss) c = (case cs_sha1_update s c of None \<Rightarrow> None | Some c' \<Rightarrow> sha1_updates ss c')"

definition mg_hash_sha1_v :: "string \<Rightarrow> string list \<Rightarrow> string option" where
  "mg_hash_sha1_v junk msgs = Option.bind (sha1_updates msgs (cs_sha1_init junk)) cs_sha1_final"

definition cs_hmac_sha1 :: "string \<Rightarrow> string \<Rightarrow> string \<Rightarrow> string option" where
  "cs_hmac_sha1 junk key data =
     Option.bind (if length key > 64
                  then Option.bind (cs_sha1_update key (cs_sha1_init junk)) cs_sha1_final
                  else Some key) (\<lambda>key.
     let buf1 = map (\<lambda>c. xor_char c (CHR 0x36)) (mem_put (replicate 64 nul) 0 key);
         buf2 = map (\<lambda>c. xor_char c (CHR 0x5C)) (mem_put (replicate 64 nul) 0 key)
     in Option.bind (sha1_updates [buf1, data] (cs_sha1_init junk)) (\<lambda>c.
        Option.bind (cs_sha1_final c) (\<lambda>out.
        Option.bind (sha1_updates [buf2, out] (cs_sha1_init junk)) cs_sha1_final)))"

section \<open>FIPS 180-4\<close>

text \<open>The schedule of 80 words, the functions, and a step, of the standard.\<close>

fun sha1_w :: "string \<Rightarrow> nat \<Rightarrow> 32 word" where
  "sha1_w b t = (if t < 16 then be_word (substr b (4 * t) 4)
     else rol 1 (sha1_w b (t - 3) XOR sha1_w b (t - 8) XOR sha1_w b (t - 14) XOR sha1_w b (t - 16)))"

declare sha1_w.simps [simp del]

definition fips_f :: "nat \<Rightarrow> 32 word \<Rightarrow> 32 word \<Rightarrow> 32 word \<Rightarrow> 32 word" where
  "fips_f t x y z =
     (if t < 20 then (x AND y) XOR (NOT x AND z)
      else if t < 40 then x XOR y XOR z
      else if t < 60 then (x AND y) XOR (x AND z) XOR (y AND z)
      else x XOR y XOR z)"

definition fips_step :: "string \<Rightarrow> nat \<Rightarrow> 32 word list \<Rightarrow> 32 word list" where
  "fips_step b t s =
     [rol 5 (s ! 0) + fips_f t (s ! 1) (s ! 2) (s ! 3) + s ! 4 + sha1_const t + sha1_w b t,
      s ! 0, rol 30 (s ! 1), s ! 2, s ! 3]"

definition fips_block :: "32 word list \<Rightarrow> string \<Rightarrow> 32 word list" where
  "fips_block st b = map2 (+) st (fold (fips_step b) [0 ..< 80] st)"

definition sha1_start :: "32 word list" where
  "sha1_start = [0x67452301, 0xEFCDAB89, 0x98BADCFE, 0x10325476, 0xC3D2E1F0]"

text \<open>The digest of a message: its padded blocks from the initial value on.\<close>

definition sha1_digest :: "string \<Rightarrow> string" where
  "sha1_digest m = concat (map (\<lambda>w. be_bytes 4 (unat w)) (md_blocks fips_block sha1_start (md_pad (be_bytes 8) m)))"

text \<open>The code computes choice and majority with fewer operations.\<close>

lemma mix_fips: "sha1_mix i x y z = fips_f i x y z"
  unfolding sha1_mix_def fips_f_def by (auto intro!: bit_word_eqI simp: bit_simps)

lemma substr_4: "k + 4 \<le> length b \<Longrightarrow> \<exists>p q r s. substr b k 4 = [p, q, r, s]"
proof -
  assume "k + 4 \<le> length b"
  then have "length (substr b k 4) = Suc (Suc (Suc (Suc 0)))" by simp
  then show ?thesis by (auto simp only: length_Suc_conv length_0_conv)
qed

lemma blk0_word:
  assumes "i < length l" "l ! i = le_word (substr b k 4)" "k + 4 \<le> length b"
  shows "blk0 i l = l[i := be_word (substr b k 4)]"
  using substr_4 [OF assms(3)] assms(2) by (auto simp: blk0_def swap_word)

text \<open>
  Before the i-th round the ring holds the schedule's last sixteen words that are computed, and
  otherwise the block as it was loaded.
\<close>

definition ring :: "string \<Rightarrow> nat \<Rightarrow> 32 word list \<Rightarrow> bool" where
  "ring b i l \<longleftrightarrow> length l = 16 \<and> (\<forall>t. t < i \<longrightarrow> i \<le> t + 16 \<longrightarrow> l ! (t mod 16) = sha1_w b t)
     \<and> (\<forall>t < 16. i \<le> t \<longrightarrow> l ! t = le_word (substr b (4 * t) 4))"

lemma mod_16_neq: "t < i \<Longrightarrow> i < t + 16 \<Longrightarrow> t mod 16 \<noteq> i mod (16 :: nat)"
proof
  assume "t < i" "i < t + 16" "t mod 16 = i mod 16"
  then have "16 dvd i - t" by (metis mod_eq_dvd_iff_nat less_imp_le)
  then show False using \<open>t < i\<close> \<open>i < t + 16\<close> by (auto dest: dvd_imp_le)
qed

lemma mod_16_back: "16 \<le> i \<Longrightarrow> k \<le> 16 \<Longrightarrow> (i + (16 - k)) mod 16 = (i - k) mod (16 :: nat)"
proof -
  assume "16 \<le> i" "k \<le> 16"
  then have "i + (16 - k) = (i - k) + 16" by simp
  then show ?thesis by (metis mod_add_self2)
qed

lemma ring_set:
  assumes "ring b i l"
  shows "ring b (Suc i) (l[i mod 16 := sha1_w b i])"
  unfolding ring_def
proof (intro conjI allI impI)
  fix t assume t: "t < Suc i" "Suc i \<le> t + 16"
  show "l[i mod 16 := sha1_w b i] ! (t mod 16) = sha1_w b t"
  proof (cases "t = i")
    case False
    then have "t mod 16 \<noteq> i mod 16" using t mod_16_neq [of t i] by simp
    then show ?thesis using assms t False by (simp add: ring_def)
  qed (use assms in \<open>simp add: ring_def\<close>)
qed (use assms in \<open>simp_all add: ring_def\<close>)

lemma ring_next:
  assumes "ring b i l" and "length b = 64"
  shows "(if i < 16 then blk0 i l else blk i l) = l[i mod 16 := sha1_w b i]"
proof (cases "i < 16")
  case True
  then show ?thesis using assms blk0_word [of i l b "4 * i"] by (simp add: ring_def sha1_w.simps)
next
  case False
  have l: "l ! ((i + 13) mod 16) = sha1_w b (i - 3)" "l ! ((i + 8) mod 16) = sha1_w b (i - 8)"
    "l ! ((i + 2) mod 16) = sha1_w b (i - 14)" "l ! (i mod 16) = sha1_w b (i - 16)"
  proof -
    have "(i + 13) mod 16 = (i - 3) mod 16" "(i + 8) mod 16 = (i - 8) mod 16"
      "(i + 2) mod 16 = (i - 14) mod 16" "i mod 16 = (i - 16) mod 16"
      using False mod_16_back [of i 3] mod_16_back [of i 8] mod_16_back [of i 14] mod_16_back [of i 16] by simp_all
    moreover have "l ! ((i - k) mod 16) = sha1_w b (i - k)" if "0 < k" "k \<le> 16" for k
      using assms(1) False that by (simp add: ring_def)
    ultimately show "l ! ((i + 13) mod 16) = sha1_w b (i - 3)" "l ! ((i + 8) mod 16) = sha1_w b (i - 8)"
      "l ! ((i + 2) mod 16) = sha1_w b (i - 14)" "l ! (i mod 16) = sha1_w b (i - 16)" by simp_all
  qed
  show ?thesis using False unfolding blk_def l sha1_w.simps [of b i] by simp
qed

text \<open>The registers that the macros name in turn are the standard's that move.\<close>

definition regs :: "nat \<Rightarrow> 32 word list \<Rightarrow> 32 word list \<Rightarrow> bool" where
  "regs i r s \<longleftrightarrow> length r = 5 \<and> length s = 5 \<and> (\<forall>k < 5. r ! sha1_reg i k = s ! k)"

lemma all_5: "(\<forall>k < (5 :: nat). P k) \<longleftrightarrow> P 0 \<and> P 1 \<and> P 2 \<and> P 3 \<and> P 4"
  by (auto simp: numeral_eq_Suc less_Suc_eq)

lemma reg_less [simp]: "sha1_reg i k < 5"
  by (simp add: sha1_reg_def)

lemma reg_Suc: "sha1_reg (Suc i) 0 = sha1_reg i 4" "sha1_reg (Suc i) (Suc k) = sha1_reg i k"
proof -
  show "sha1_reg (Suc i) 0 = sha1_reg i 4" by (simp add: sha1_reg_def add.commute)
  have "4 * Suc i + Suc k = (4 * i + k) + 5" by simp
  then show "sha1_reg (Suc i) (Suc k) = sha1_reg i k" unfolding sha1_reg_def by (metis mod_add_self2)
qed

lemma reg_eq: "j < 5 \<Longrightarrow> k < 5 \<Longrightarrow> sha1_reg i j = sha1_reg i k \<longleftrightarrow> j = k"
proof -
  have "\<forall>m \<in> set [0 ..< 5]. \<forall>j \<in> set [0 ..< 5]. \<forall>k \<in> set [0 ..< 5]. (m + j) mod 5 = (m + k) mod 5 \<longrightarrow> j = (k :: nat)"
    by code_simp
  moreover assume "j < 5" "k < 5"
  ultimately have "(4 * i mod 5 + j) mod 5 = (4 * i mod 5 + k) mod 5 \<longrightarrow> j = k"
    by (elim ballE [of _ _ "4 * i mod 5"] ballE [of _ _ j] ballE [of _ _ k]) simp_all
  then show ?thesis by (auto simp: sha1_reg_def mod_add_left_eq)
qed

lemma round_regs:
  assumes "regs i r s" "ring b i l" "length b = 64"
  shows "case sha1_round i (r, l) of (r', l') \<Rightarrow> regs (Suc i) r' (fips_step b i s) \<and> ring b (Suc i) l'"
proof -
  have len: "length l = 16" using assms(2) by (simp add: ring_def)
  have r: "r ! sha1_reg i 0 = s ! 0" "r ! sha1_reg i 1 = s ! 1" "r ! sha1_reg i 2 = s ! 2" "r ! sha1_reg i 3 = s ! 3"
    "r ! sha1_reg i 4 = s ! 4" "length r = 5" "length s = 5" using assms(1) by (simp_all add: regs_def)
  have suc: "sha1_reg (Suc i) (Suc 0) = sha1_reg i 0" "sha1_reg (Suc i) 2 = sha1_reg i 1" "sha1_reg (Suc i) 3 = sha1_reg i 2"
    "sha1_reg (Suc i) 4 = sha1_reg i 3" using reg_Suc(2) [of i 0] reg_Suc(2) [of i 1] reg_Suc(2) [of i 2] reg_Suc(2) [of i 3]
    by (simp_all add: numeral_eq_Suc)
  have ne: "sha1_reg i 4 \<noteq> sha1_reg i 0" "sha1_reg i 4 \<noteq> sha1_reg i 1" "sha1_reg i 4 \<noteq> sha1_reg i 2"
    "sha1_reg i 4 \<noteq> sha1_reg i 3" "sha1_reg i 1 \<noteq> sha1_reg i 0" "sha1_reg i 1 \<noteq> sha1_reg i 2" "sha1_reg i 1 \<noteq> sha1_reg i 3"
    by (simp_all add: reg_eq)
  have "sha1_round i (r, l) =
      (r[sha1_reg i 4 := s ! 4 + fips_f i (s ! 1) (s ! 2) (s ! 3) + sha1_w b i + sha1_const i + rol 5 (s ! 0),
         sha1_reg i 1 := rol 30 (s ! 1)], l[i mod 16 := sha1_w b i])"
    unfolding sha1_round_def Let_def prod.case ring_next [OF assms(2,3)] r mix_fips using len by simp
  then show ?thesis using ring_set [OF assms(2)] r ne
    by (simp add: regs_def all_5 reg_Suc(1) suc fips_step_def algebra_simps)
qed

lemma rounds_regs:
  assumes "length st = 5" "length b = 64"
  shows "case fold sha1_round [0 ..< n] (st, map (\<lambda>i. le_word (substr b (4 * i) 4)) [0 ..< 16]) of
    (r, l) \<Rightarrow> regs n r (fold (fips_step b) [0 ..< n] st) \<and> ring b n l"
proof (induction n)
  case 0
  have "\<forall>k < 5. sha1_reg 0 k = k" by (simp add: sha1_reg_def)
  then show ?case using assms by (simp add: regs_def ring_def)
next
  case (Suc n)
  obtain r l where f: "fold sha1_round [0 ..< n] (st, map (\<lambda>i. le_word (substr b (4 * i) 4)) [0 ..< 16]) = (r, l)" by force
  then show ?case using Suc round_regs [OF _ _ assms(2), of n r _ l] by simp
qed

lemma transform_fips:
  assumes "length st = 5" "length b = 64"
  shows "cs_sha1_transform st b = fips_block st b" and "length (fips_block st b) = 5"
proof -
  obtain r l where f: "fold sha1_round [0 ..< 80] (st, map (\<lambda>i. le_word (substr b (4 * i) 4)) [0 ..< 16]) = (r, l)" by force
  then have r: "regs 80 r (fold (fips_step b) [0 ..< 80] st)" using rounds_regs [OF assms, of 80] by simp
  have "\<forall>k < 5. sha1_reg 80 k = k" by (simp add: sha1_reg_def all_5)
  then have "r = fold (fips_step b) [0 ..< 80] st" using r by (intro nth_equalityI) (simp_all add: regs_def)
  then show "cs_sha1_transform st b = fips_block st b" unfolding cs_sha1_transform_def Let_def f by (simp add: fips_block_def)
  show "length (fips_block st b) = 5" using r assms(1) by (simp add: fips_block_def regs_def)
qed

section \<open>Pieces\<close>

lemma length_md_blocks: "length st = 5 \<Longrightarrow> length (md_blocks fips_block st m) = 5"
proof (induction fips_block st m rule: md_blocks.induct)
  case (1 st m)
  then show ?case
    using transform_fips(2) [of st "take 64 m"] by (subst md_blocks.simps) simp
qed

lemma sha1_blocks_all:
  "i \<le> length data \<Longrightarrow> length data < 2 ^ 32 - 64 \<Longrightarrow> length st = 5 \<Longrightarrow>
   \<exists>i'. sha1_blocks data i st = Some (i', md_blocks fips_block st (drop i data))
     \<and> drop i' data = md_rest (drop i data) \<and> length data - i' \<le> 64"
proof (induction data i st rule: sha1_blocks.induct)
  case (1 data i st)
  have mod: "(i + 63) mod 2 ^ 32 = i + 63" using "1.prems" by simp
  show ?case
  proof (cases "i + 63 < length data")
    case True
    then have c: "(i + 63) mod 2 ^ 32 < length data" "i + 64 \<le> length data" unfolding mod by simp_all
    define b where "b = substr data i 64"
    have b: "length b = 64" using c(2) by (simp add: b_def)
    have data: "drop i data = b @ drop (i + 64) data"
      using append_take_drop_id [of 64 "drop i data"] by (simp add: b_def substr_def add.commute)
    have st: "cs_sha1_transform st b = fips_block st b" "length (fips_block st b) = 5"
      using transform_fips [OF "1.prems"(3) b] by blast+
    from "1.IH" [OF c c(2) "1.prems"(2)] st obtain i' where
      "sha1_blocks data (i + 64) (fips_block st b) = Some (i', md_blocks fips_block (fips_block st b) (drop (i + 64) data))"
      "drop i' data = md_rest (drop (i + 64) data)" "length data - i' \<le> 64" unfolding b_def by auto
    moreover have "sha1_blocks data i st = sha1_blocks data (i + 64) (fips_block st b)"
      using c st(1) unfolding b_def by (subst sha1_blocks.simps) simp
    ultimately show ?thesis unfolding data using b by (simp add: md_blocks_block md_rest_block)
  next
    case False
    then have "sha1_blocks data i st = Some (i, st)" using mod by (subst sha1_blocks.simps) simp
    then show ?thesis using False "1.prems"(1) by simp
  qed
qed

definition sha1_holds :: "cs_sha1_ctx \<Rightarrow> string \<Rightarrow> bool" where
  "sha1_holds c m \<longleftrightarrow> sx_state c = md_blocks fips_block sha1_start m \<and> counts (length m) (sx_count0 c, sx_count1 c)
     \<and> length (sx_buffer c) = 64 \<and> take (length m mod 64) (sx_buffer c) = md_rest m"

lemma sha1_init_holds: "length junk = 64 \<Longrightarrow> sha1_holds (cs_sha1_init junk) []"
  by (simp add: sha1_holds_def cs_sha1_init_def sha1_start_def counts_0)

lemma sha1_update_holds:
  assumes h: "sha1_holds c m" and len: "length s < 2 ^ 32 - 64"
  shows "\<exists>c'. cs_sha1_update s c = Some c' \<and> sha1_holds c' (m @ s)"
proof -
  define j where "j = length m mod 64"
  have j: "j < 64" "unat (drop_bit 3 (sx_count0 c) AND 63) = j"
    using h counts_position(1) [of "length m" "sx_count0 c" "sx_count1 c"] by (simp_all add: sha1_holds_def j_def)
  have l: "length s mod 2 ^ 32 = length s" "(j + length s) mod 2 ^ 32 = j + length s" using len j(1) by simp_all
  obtain c0 c1 where cnt: "md_count (length s) (sx_count0 c, sx_count1 c) = (c0, c1)" by force
  then have counts: "counts (length (m @ s)) (c0, c1)"
    using h counts_add [of "length m" "(sx_count0 c, sx_count1 c)" "length s"] len by (simp add: sha1_holds_def)
  have b: "length (sx_buffer c) = 64" "take j (sx_buffer c) = md_rest m" "length (md_rest m) = j"
    using h by (simp_all add: sha1_holds_def j_def)
  note app = md_append [of fips_block sha1_start m s]
  show ?thesis
  proof (cases "j + length s > 63")
    case True
    define block where "block = md_rest m @ take (64 - j) s"
    have block: "length block = 64" "mem_put (sx_buffer c) j (take (64 - j) s) = block" "md_rest m @ s = block @ drop (64 - j) s"
      using True j(1) b by (simp_all add: block_def mem_put_end)
    let ?st = "md_blocks fips_block sha1_start m"
    have st: "length ?st = 5" by (rule length_md_blocks) (simp add: sha1_start_def)
    have "64 - j \<le> length s" using True by simp
    from sha1_blocks_all [OF this len transform_fips(2) [OF st block(1)]] obtain i where i:
      "sha1_blocks s (64 - j) (fips_block ?st block) = Some (i, md_blocks fips_block (fips_block ?st block) (drop (64 - j) s))"
      "drop i s = md_rest (drop (64 - j) s)" "length s - i \<le> 64" by (elim exE conjE) (rule that)
    have all: "md_blocks fips_block sha1_start (m @ s) = md_blocks fips_block (fips_block ?st block) (drop (64 - j) s)"
      "md_rest (m @ s) = drop i s" using app block(1) i(2) by (simp_all add: block(3) md_blocks_block md_rest_block)
    have rest: "length (drop i s) = length (m @ s) mod 64" by (simp flip: all(2))
    have upd: "cs_sha1_update s c = Some (c\<lparr>sx_count0 := c0, sx_count1 := c1, sx_state := md_blocks fips_block sha1_start (m @ s),
        sx_buffer := mem_put block 0 (drop i s)\<rparr>)"
      using h True i(1,3) transform_fips(1) [OF st block(1)]
      unfolding cs_sha1_update_def Let_def l j(2) cnt prod.case by (simp add: l block(2) sha1_holds_def all(1))
    have "sha1_holds (c\<lparr>sx_count0 := c0, sx_count1 := c1, sx_state := md_blocks fips_block sha1_start (m @ s),
        sx_buffer := mem_put block 0 (drop i s)\<rparr>) (m @ s)"
      using counts rest all(2) i(3) block(1) take_mem_put [of 0 block "drop i s"] length_mem_put [of 0 "drop i s" block]
      unfolding sha1_holds_def by simp
    then show ?thesis using upd by blast
  next
    case False
    then have short: "length (md_rest m @ s) < 64" using b(3) by simp
    have "length (m @ s) mod 64 = j + length s" 
      using False mod_add_left_eq [of "length m" 64 "length s"] by (simp add: j_def)
    then have "sha1_holds (c\<lparr>sx_count0 := c0, sx_count1 := c1, sx_buffer := mem_put (sx_buffer c) j s\<rparr>) (m @ s)"
      using h counts app short b False j(1) take_mem_put [of j "sx_buffer c" s] length_mem_put [of j s "sx_buffer c"]
      unfolding sha1_holds_def by simp
    moreover have "cs_sha1_update s c = Some (c\<lparr>sx_count0 := c0, sx_count1 := c1, sx_buffer := mem_put (sx_buffer c) j s\<rparr>)"
      using False unfolding cs_sha1_update_def Let_def l j(2) cnt prod.case by (simp add: l)
    ultimately show ?thesis by blast
  qed
qed

text \<open>The bits are counted in the order the padding wants them.\<close>

lemma finalcount:
  assumes "counts n (c0, c1)"
  shows "map (\<lambda>i. char_of (unat (drop_bit ((3 - i mod 4) * 8) (if i \<ge> 4 then c0 else c1) AND 255))) [0 ..< 8]
    = be_bytes 8 (8 * n)"
proof -
  have "[0 ..< 8] = [0, 1, 2, 3, 4, 5, 6, 7 :: nat]" by code_simp
  then have "map (\<lambda>i. char_of (unat (drop_bit ((3 - i mod 4) * 8) (if i \<ge> 4 then c0 else c1) AND 255))) [0 ..< 8]
      = be_bytes 4 (unat c1) @ be_bytes 4 (unat c0)" by (simp flip: word_bytes)
  also have "\<dots> = be_bytes 4 (8 * n div 256 ^ 4 mod 256 ^ 4) @ be_bytes 4 (8 * n mod 256 ^ 4)"
    using assms by (simp add: counts_def)
  also have "\<dots> = be_bytes (4 + 4) (8 * n)" by (simp only: be_bytes_mod be_bytes_append)
  finally show ?thesis by simp
qed

lemma sha1_pad_zeros_holds:
  "sha1_holds c m \<Longrightarrow> (length m + k) mod 64 = 56 \<Longrightarrow> k < 64 \<Longrightarrow>
   \<exists>c'. sha1_pad_zeros c = Some c' \<and> sha1_holds c' (m @ replicate k nul)"
proof (induction k arbitrary: c m)
  case 0
  then have "sha1_pad_zeros c = Some c"
    using counts_position(2) [of "length m" "sx_count0 c" "sx_count1 c"]
    by (subst sha1_pad_zeros.simps) (simp add: sha1_holds_def)
  then show ?case using 0 by simp
next
  case (Suc k)
  have "length m mod 64 \<noteq> 56"
  proof
    assume "length m mod 64 = 56"
    then have "(56 + Suc k) mod 64 = 56" using Suc.prems(2) mod_add_left_eq [of "length m" 64 "Suc k"] by simp
    then show False using Suc.prems(3) by presburger
  qed
  then have go: "sx_count0 c AND 504 \<noteq> 448"
    using Suc.prems(1) counts_position(2) [of "length m" "sx_count0 c" "sx_count1 c"] by (simp add: sha1_holds_def)
  obtain c1 where c1: "cs_sha1_update [nul] c = Some c1" "sha1_holds c1 (m @ [nul])"
    using sha1_update_holds [OF Suc.prems(1), of "[nul]"] by auto
  from Suc.IH [OF c1(2)] Suc.prems(2,3) obtain c2 where
    "sha1_pad_zeros c1 = Some c2" "sha1_holds c2 ((m @ [nul]) @ replicate k nul)" by auto
  then show ?case using go c1(1) by (subst sha1_pad_zeros.simps) simp
qed

lemma sha1_digest_bytes:
  assumes "length (st :: 32 word list) = 5"
  shows "map (\<lambda>i. char_of (unat (drop_bit ((3 - i mod 4) * 8) (st ! (i div 4)) AND 255))) [0 ..< 20]
    = concat (map (\<lambda>w. be_bytes 4 (unat w)) st)"
proof -
  have "length st = Suc (Suc (Suc (Suc (Suc 0))))" using assms by simp
  then obtain a b c d e where "st = [a, b, c, d, e]" by (auto simp only: length_Suc_conv length_0_conv)
  moreover have "[0 ..< 20] = [0, 1, 2, 3, 4, 5, 6, 7, 8, 9, 10, 11, 12, 13, 14, 15, 16, 17, 18, 19 :: nat]" by code_simp
  ultimately show ?thesis by (simp flip: word_bytes)
qed

lemma mod_64_eq_56: "(n + 8) mod 64 = 0 \<Longrightarrow> n mod 64 = (56 :: nat)"
  by presburger

lemma sha1_final_digest:
  assumes "sha1_holds c m"
  shows "cs_sha1_final c = Some (sha1_digest m)"
proof -
  let ?k = "(119 - length m mod 64) mod 64" and ?bits = "be_bytes 8 (8 * length m)"
  have "length (md_pad (be_bytes 8) m) mod 64 = 0" by (rule length_md_pad) simp
  then have "(length (m @ [CHR 0x80]) + ?k + 8) mod 64 = 0" by (simp add: md_pad_def ac_simps)
  then have k: "(length (m @ [CHR 0x80]) + ?k) mod 64 = 56" by (rule mod_64_eq_56)
  obtain c1 where c1: "cs_sha1_update [CHR 0x80] c = Some c1" "sha1_holds c1 (m @ [CHR 0x80])"
    using sha1_update_holds [OF assms, of "[CHR 0x80]"] by auto
  obtain c2 where c2: "sha1_pad_zeros c1 = Some c2" "sha1_holds c2 ((m @ [CHR 0x80]) @ replicate ?k nul)"
    using sha1_pad_zeros_holds [OF c1(2) k] by auto
  obtain c3 where c3: "cs_sha1_update ?bits c2 = Some c3" "sha1_holds c3 (((m @ [CHR 0x80]) @ replicate ?k nul) @ ?bits)"
    using sha1_update_holds [OF c2(2), of ?bits] by auto
  have "sx_state c3 = md_blocks fips_block sha1_start (md_pad (be_bytes 8) m)"
    using c3(2) by (simp add: sha1_holds_def md_pad_def)
  moreover have "length (sx_state c3) = 5" unfolding calculation by (rule length_md_blocks) (simp add: sha1_start_def)
  moreover have "counts (length m) (sx_count0 c, sx_count1 c)" using assms by (simp add: sha1_holds_def)
  ultimately show ?thesis
    unfolding cs_sha1_final_def Let_def using finalcount c1(1) c2(1) c3(1)
    by (simp add: sha1_digest_bytes sha1_digest_def)
qed

text \<open>The code's functions are a hash that is fed pieces, whatever its memory held before.\<close>

interpretation sha1: stream_hash "\<lambda>c. \<exists>junk. length junk = 64 \<and> c = cs_sha1_init junk" cs_sha1_update cs_sha1_final
  sha1_holds sha1_digest
  by unfold_locales (auto intro: sha1_init_holds sha1_update_holds sha1_final_digest)

lemma sha1_updates_feed: "sha1_updates ss c = sha1.feed ss c"
  by (induction ss arbitrary: c) (simp_all split: option.split)

lemma updates_final:
  assumes "length junk = 64" "list_all (\<lambda>s. length s < 2 ^ 32 - 64) ss"
  shows "Option.bind (sha1_updates ss (cs_sha1_init junk)) cs_sha1_final = Some (sha1_digest (concat ss))"
  unfolding sha1_updates_feed using assms by (intro sha1.pieces_digest) auto

lemma length_sha1_digest: "length (sha1_digest m) = 20"
proof -
  have "length (md_blocks fips_block sha1_start (md_pad (be_bytes 8) m)) = 5"
    by (rule length_md_blocks) (simp add: sha1_start_def)
  then show ?thesis by (simp add: sha1_digest_def length_concat comp_def sum_list_triv)
qed

text \<open>RFC 2104, with a key of one block: the key itself or, when it is longer, its digest, and zeros.\<close>

definition hmac_pad :: "string \<Rightarrow> char \<Rightarrow> string" where
  "hmac_pad key c = map (\<lambda>k. xor_char k c) (take 64 (key @ replicate 64 nul))"

definition hmac_sha1 :: "string \<Rightarrow> string \<Rightarrow> string" where
  "hmac_sha1 key data =
     (let k = (if length key > 64 then sha1_digest key else key)
      in sha1_digest (hmac_pad k (CHR 0x5C) @ sha1_digest (hmac_pad k (CHR 0x36) @ data)))"

lemma pad_key: "length key \<le> 64 \<Longrightarrow> map (\<lambda>k. xor_char k c) (mem_put (replicate 64 nul) 0 key) = hmac_pad key c"
  by (simp add: hmac_pad_def mem_put_def)

section \<open>Properties\<close>

text \<open>
  C30. However a message is cut into pieces shorter than \<open>2 ^ 32 - 64\<close> bytes, the hash that is fed
  them, its buffer in whatever state, returns the SHA-1 of FIPS 180-4 of the whole message.
\<close>

theorem mg_hash_sha1_v_digest:
  assumes "length junk = 64" "list_all (\<lambda>s. length s < 2 ^ 32 - 64) msgs"
  shows "mg_hash_sha1_v junk msgs = Some (sha1_digest (concat msgs))"
  unfolding mg_hash_sha1_v_def using assms by (rule updates_final)

text \<open>
  The transformation, with its ring of sixteen words, its registers that stay in place and its
  shortened functions, is the standard's with 80 words and registers that move.
\<close>

theorem cs_sha1_transform_fips:
  assumes "length state = 5" "length buffer = 64"
  shows "cs_sha1_transform state buffer = map2 (+) state (fold (fips_step buffer) [0 ..< 80] state)"
  using transform_fips(1) [OF assms] by (simp add: fips_block_def)

text \<open>The keyed hash is the one of RFC 2104, for keys of every length.\<close>

theorem cs_hmac_sha1_rfc:
  assumes "length junk = 64" "length key < 2 ^ 32 - 64" "length data < 2 ^ 32 - 64"
  shows "cs_hmac_sha1 junk key data = Some (hmac_sha1 key data)"
proof -
  let ?k = "if length key > 64 then sha1_digest key else key"
  have k: "length ?k \<le> 64" by (simp add: length_sha1_digest)
  have key: "(if length key > 64 then Option.bind (cs_sha1_update key (cs_sha1_init junk)) cs_sha1_final else Some key) = Some ?k"
    using updates_final [of junk "[key]"] assms by (auto split: option.splits)
  have inner: "Option.bind (sha1_updates [hmac_pad ?k (CHR 0x36), data] (cs_sha1_init junk)) cs_sha1_final
      = Some (sha1_digest (hmac_pad ?k (CHR 0x36) @ data))"
    using assms by (subst updates_final) (simp_all add: hmac_pad_def)
  have outer: "Option.bind (sha1_updates [hmac_pad ?k (CHR 0x5C), out] (cs_sha1_init junk)) cs_sha1_final
      = Some (sha1_digest (hmac_pad ?k (CHR 0x5C) @ out))" if "length out = 20" for out
    using assms that by (subst updates_final) (simp_all add: hmac_pad_def)
  from inner obtain c where c: "sha1_updates [hmac_pad ?k (CHR 0x36), data] (cs_sha1_init junk) = Some c"
    "cs_sha1_final c = Some (sha1_digest (hmac_pad ?k (CHR 0x36) @ data))" unfolding bind_eq_Some_conv by (elim exE conjE)
  show ?thesis
    unfolding cs_hmac_sha1_def key bind.bind_lunit Let_def pad_key [OF k] c outer [OF length_sha1_digest]
    by (simp only: hmac_sha1_def Let_def)
qed

section \<open>Witnesses\<close>

lemma mg_hash_sha1_v_digest_witness:
  "mg_hash_sha1_v (replicate 64 (CHR ''?'')) [''a'', [], ''bc''] = Some (sha1_digest ''abc'')"
  using mg_hash_sha1_v_digest [of "replicate 64 (CHR ''?'')" "[''a'', [], ''bc'']"] by simp

lemma cs_sha1_transform_fips_witness:
  "cs_sha1_transform [1, 2, 3, 4, 5] (replicate 64 (CHR ''a''))
    = map2 (+) [1, 2, 3, 4, 5] (fold (fips_step (replicate 64 (CHR ''a''))) [0 ..< 80] [1, 2, 3, 4, 5])"
  by (rule cs_sha1_transform_fips) simp_all

lemma cs_hmac_sha1_rfc_witness:
  "cs_hmac_sha1 (replicate 64 nul) ''key'' ''The quick brown fox'' = Some (hmac_sha1 ''key'' ''The quick brown fox'')"
  by (rule cs_hmac_sha1_rfc) simp_all

end
