(* ===== verification/Mg_Md5.thy ===== *)
theory Mg_Md5
  imports Mg_Hash
begin

text \<open>
  MD5 of the embedded web server, \<open>src/src/mongoose.c\<close>, against RFC 1321: the steps of a block,
  the hash that is fed pieces, and the hexadecimal digest that HTTP authentication compares.
\<close>

unbundle bit_operations_syntax

section \<open>The code\<close>

record cs_md5_ctx =
  dx_buf :: "32 word list"
  dx_bits0 :: "32 word"
  dx_bits1 :: "32 word"
  dx_in :: string

text \<open>The macros \<open>F1\<close> to \<open>F4\<close>, each for sixteen steps.\<close>

definition md5_f1 :: "32 word \<Rightarrow> 32 word \<Rightarrow> 32 word \<Rightarrow> 32 word" where
  "md5_f1 x y z = z XOR (x AND (y XOR z))"

definition md5_mix :: "nat \<Rightarrow> 32 word \<Rightarrow> 32 word \<Rightarrow> 32 word \<Rightarrow> 32 word" where
  "md5_mix i x y z =
     (if i < 16 then md5_f1 x y z
      else if i < 32 then md5_f1 z x y
      else if i < 48 then x XOR y XOR z
      else y XOR (x OR NOT z))"

text \<open>What the calls of \<open>MD5STEP\<close> pass: the word of the block, the constant and the rotation.\<close>

definition md5_steps :: "(nat \<times> 32 word \<times> nat) list" where
  "md5_steps = [
   (0, 0xd76aa478, 7), (1, 0xe8c7b756, 12), (2, 0x242070db, 17), (3, 0xc1bdceee, 22),
   (4, 0xf57c0faf, 7), (5, 0x4787c62a, 12), (6, 0xa8304613, 17), (7, 0xfd469501, 22),
   (8, 0x698098d8, 7), (9, 0x8b44f7af, 12), (10, 0xffff5bb1, 17), (11, 0x895cd7be, 22),
   (12, 0x6b901122, 7), (13, 0xfd987193, 12), (14, 0xa679438e, 17), (15, 0x49b40821, 22),
   (1, 0xf61e2562, 5), (6, 0xc040b340, 9), (11, 0x265e5a51, 14), (0, 0xe9b6c7aa, 20),
   (5, 0xd62f105d, 5), (10, 0x02441453, 9), (15, 0xd8a1e681, 14), (4, 0xe7d3fbc8, 20),
   (9, 0x21e1cde6, 5), (14, 0xc33707d6, 9), (3, 0xf4d50d87, 14), (8, 0x455a14ed, 20),
   (13, 0xa9e3e905, 5), (2, 0xfcefa3f8, 9), (7, 0x676f02d9, 14), (12, 0x8d2a4c8a, 20),
   (5, 0xfffa3942, 4), (8, 0x8771f681, 11), (11, 0x6d9d6122, 16), (14, 0xfde5380c, 23),
   (1, 0xa4beea44, 4), (4, 0x4bdecfa9, 11), (7, 0xf6bb4b60, 16), (10, 0xbebfbc70, 23),
   (13, 0x289b7ec6, 4), (0, 0xeaa127fa, 11), (3, 0xd4ef3085, 16), (6, 0x04881d05, 23),
   (9, 0xd9d4d039, 4), (12, 0xe6db99e5, 11), (15, 0x1fa27cf8, 16), (2, 0xc4ac5665, 23),
   (0, 0xf4292244, 6), (7, 0x432aff97, 10), (14, 0xab9423a7, 15), (5, 0xfc93a039, 21),
   (12, 0x655b59c3, 6), (3, 0x8f0ccc92, 10), (10, 0xffeff47d, 15), (1, 0x85845dd1, 21),
   (8, 0x6fa87e4f, 6), (15, 0xfe2ce6e0, 10), (6, 0xa3014314, 15), (13, 0x4e0811a1, 21),
   (4, 0xf7537e82, 6), (11, 0xbd3af235, 10), (2, 0x2ad7d2bb, 15), (9, 0xeb86d391, 21)]"

text \<open>The k-th register that the i-th call names.\<close>

definition md5_reg :: "nat \<Rightarrow> nat \<Rightarrow> nat" where
  "md5_reg i k = (3 * i + k) mod 4"

definition md5_round :: "32 word list \<Rightarrow> nat \<Rightarrow> 32 word list \<Rightarrow> 32 word list" where
  "md5_round block i r =
     (let (k, t, s) = md5_steps ! i;
          w = r ! md5_reg i 0; x = r ! md5_reg i 1; y = r ! md5_reg i 2; z = r ! md5_reg i 3
      in r[md5_reg i 0 := rol s (w + (md5_mix i x y z + (block ! k + t))) + x])"

definition cs_md5_transform :: "32 word list \<Rightarrow> string \<Rightarrow> 32 word list" where
  "cs_md5_transform buf in_bytes =
     (let block = map (\<lambda>i. le_word (substr in_bytes (4 * i) 4)) [0 ..< 16]
      in map2 (+) buf (fold (md5_round block) [0 ..< 64] buf))"

definition cs_md5_init :: "string \<Rightarrow> cs_md5_ctx" where
  "cs_md5_init junk = \<lparr>dx_buf = [0x67452301, 0xefcdab89, 0x98badcfe, 0x10325476],
     dx_bits0 = 0, dx_bits1 = 0, dx_in = junk\<rparr>"

text \<open>The loop over whole blocks: each is copied to the buffer first.\<close>

fun md5_blocks :: "string \<Rightarrow> 32 word list \<times> string \<Rightarrow> 32 word list \<times> string \<times> string" where
  "md5_blocks data (buf, inb) =
     (if length data \<ge> 64
      then md5_blocks (drop 64 data) (cs_md5_transform buf (mem_put inb 0 (take 64 data)), mem_put inb 0 (take 64 data))
      else (buf, inb, data))"

declare md5_blocks.simps [simp del]

text \<open>The count takes the length as a 32-bit number.\<close>

definition cs_md5_update :: "string \<Rightarrow> cs_md5_ctx \<Rightarrow> cs_md5_ctx" where
  "cs_md5_update data c =
     (let (b0, b1) = md_count (length data mod 2 ^ 32) (dx_bits0 c, dx_bits1 c);
          t = unat (drop_bit 3 (dx_bits0 c) AND 0x3f);
          c = c\<lparr>dx_bits0 := b0, dx_bits1 := b1\<rparr>
      in if t \<noteq> 0 \<and> length data < 64 - t then c\<lparr>dx_in := mem_put (dx_in c) t data\<rparr>
         else
           (let (buf, inb, rest) =
              (if t \<noteq> 0
               then (let inb = mem_put (dx_in c) t (take (64 - t) data)
                     in md5_blocks (drop (64 - t) data) (cs_md5_transform (dx_buf c) inb, inb))
               else md5_blocks data (dx_buf c, dx_in c))
            in c\<lparr>dx_buf := buf, dx_in := mem_put inb 0 rest\<rparr>))"

definition cs_md5_final :: "cs_md5_ctx \<Rightarrow> string" where
  "cs_md5_final c =
     (let t = unat (drop_bit 3 (dx_bits0 c) AND 0x3F);
          inb = mem_put (dx_in c) t [CHR 0x80];
          count = 64 - 1 - t;
          (buf, inb) =
            (if count < 8
             then (let inb = mem_put inb (t + 1) (replicate count nul)
                   in (cs_md5_transform (dx_buf c) inb, mem_put inb 0 (replicate 56 nul)))
             else (dx_buf c, mem_put inb (t + 1) (replicate (count - 8) nul)));
          inb = mem_put inb 56 (le_bytes 4 (unat (dx_bits0 c)) @ le_bytes 4 (unat (dx_bits1 c)))
      in concat (map (\<lambda>w. le_bytes 4 (unat w)) (cs_md5_transform buf inb)))"

definition mg_hash_md5_v :: "string \<Rightarrow> string list \<Rightarrow> string" where
  "mg_hash_md5_v junk msgs = cs_md5_final (fold cs_md5_update msgs (cs_md5_init junk))"

text \<open>\<open>cs_md5\<close> with its arguments up to the NULL, of which there are at most 20.\<close>

definition cs_md5 :: "string \<Rightarrow> string list \<Rightarrow> string" where
  "cs_md5 junk msgs = cs_to_hex (mg_hash_md5_v junk msgs)"

section \<open>RFC 1321\<close>

definition rfc_f :: "nat \<Rightarrow> 32 word \<Rightarrow> 32 word \<Rightarrow> 32 word \<Rightarrow> 32 word" where
  "rfc_f i x y z =
     (if i < 16 then (x AND y) OR (NOT x AND z)
      else if i < 32 then (x AND z) OR (y AND NOT z)
      else if i < 48 then x XOR y XOR z
      else y XOR (x OR NOT z))"

text \<open>Which word a step takes, and how far it rotates.\<close>

definition rfc_k :: "nat \<Rightarrow> nat" where
  "rfc_k i = (if i < 16 then i else if i < 32 then (5 * i + 1) mod 16 else if i < 48 then (3 * i + 5) mod 16
     else 7 * i mod 16)"

definition rfc_s :: "nat \<Rightarrow> nat" where
  "rfc_s i = [[7, 12, 17, 22], [5, 9, 14, 20], [4, 11, 16, 23], [6, 10, 15, 21]] ! (i div 16) ! (i mod 4)"

definition rfc_step :: "string \<Rightarrow> nat \<Rightarrow> 32 word list \<Rightarrow> 32 word list" where
  "rfc_step b i s =
     [s ! 3, s ! 1 + rol (rfc_s i) (s ! 0 + rfc_f i (s ! 1) (s ! 2) (s ! 3) + le_word (substr b (4 * rfc_k i) 4)
        + fst (snd (md5_steps ! i))), s ! 1, s ! 2]"

definition rfc_block :: "32 word list \<Rightarrow> string \<Rightarrow> 32 word list" where
  "rfc_block st b = map2 (+) st (fold (rfc_step b) [0 ..< 64] st)"

definition md5_start :: "32 word list" where
  "md5_start = [0x67452301, 0xefcdab89, 0x98badcfe, 0x10325476]"

definition md5_digest :: "string \<Rightarrow> string" where
  "md5_digest m = concat (map (\<lambda>w. le_bytes 4 (unat w)) (md_blocks rfc_block md5_start (md_pad (le_bytes 8) m)))"

lemma mix_rfc: "md5_mix i x y z = rfc_f i x y z"
  unfolding md5_mix_def md5_f1_def rfc_f_def by (auto intro!: bit_word_eqI simp: bit_simps)

lemma steps_rfc: "i < 64 \<Longrightarrow> \<exists>t. md5_steps ! i = (rfc_k i, t, rfc_s i) \<and> rfc_k i < 16"
proof -
  have "\<forall>i \<in> set [0 ..< 64]. fst (md5_steps ! i) = rfc_k i \<and> snd (snd (md5_steps ! i)) = rfc_s i \<and> rfc_k i < 16"
    by code_simp
  then show "i < 64 \<Longrightarrow> ?thesis" by (cases "md5_steps ! i") (metis atLeastLessThan_iff fst_conv snd_conv set_upt zero_le)
qed

definition md5_regs :: "nat \<Rightarrow> 32 word list \<Rightarrow> 32 word list \<Rightarrow> bool" where
  "md5_regs i r s \<longleftrightarrow> length r = 4 \<and> length s = 4 \<and> (\<forall>k < 4. r ! md5_reg i k = s ! k)"

lemma all_4: "(\<forall>k < (4 :: nat). P k) \<longleftrightarrow> P 0 \<and> P 1 \<and> P 2 \<and> P 3"
  by (auto simp: numeral_eq_Suc less_Suc_eq)

lemma md5_reg_less [simp]: "md5_reg i k < 4"
  by (simp add: md5_reg_def)

lemma md5_reg_Suc: "md5_reg (Suc i) 0 = md5_reg i 3" "md5_reg (Suc i) (Suc k) = md5_reg i k"
proof -
  show "md5_reg (Suc i) 0 = md5_reg i 3" by (simp add: md5_reg_def add.commute)
  have "3 * Suc i + Suc k = (3 * i + k) + 4" by simp
  then show "md5_reg (Suc i) (Suc k) = md5_reg i k" unfolding md5_reg_def by (metis mod_add_self2)
qed

lemma md5_reg_eq: "j < 4 \<Longrightarrow> k < 4 \<Longrightarrow> md5_reg i j = md5_reg i k \<longleftrightarrow> j = k"
proof -
  have "\<forall>m \<in> set [0 ..< 4]. \<forall>j \<in> set [0 ..< 4]. \<forall>k \<in> set [0 ..< 4]. (m + j) mod 4 = (m + k) mod 4 \<longrightarrow> j = (k :: nat)"
    by code_simp
  moreover assume "j < 4" "k < 4"
  ultimately have "(3 * i mod 4 + j) mod 4 = (3 * i mod 4 + k) mod 4 \<longrightarrow> j = k"
    by (elim ballE [of _ _ "3 * i mod 4"] ballE [of _ _ j] ballE [of _ _ k]) simp_all
  then show ?thesis by (auto simp: md5_reg_def mod_add_left_eq)
qed

lemma md5_round_regs:
  assumes "md5_regs i r s" "i < 64"
  shows "md5_regs (Suc i) (md5_round (map (\<lambda>i. le_word (substr b (4 * i) 4)) [0 ..< 16]) i r) (rfc_step b i s)"
proof -
  obtain t where t: "md5_steps ! i = (rfc_k i, t, rfc_s i)" "rfc_k i < 16" using steps_rfc [OF assms(2)] by blast
  have r: "r ! md5_reg i 0 = s ! 0" "r ! md5_reg i 1 = s ! 1" "r ! md5_reg i 2 = s ! 2" "r ! md5_reg i 3 = s ! 3"
    "length r = 4" "length s = 4" using assms(1) by (simp_all add: md5_regs_def)
  have suc: "md5_reg (Suc i) (Suc 0) = md5_reg i 0" "md5_reg (Suc i) 2 = md5_reg i 1" "md5_reg (Suc i) 3 = md5_reg i 2"
    using md5_reg_Suc(2) [of i 0] md5_reg_Suc(2) [of i 1] md5_reg_Suc(2) [of i 2] by (simp_all add: numeral_eq_Suc)
  have ne: "md5_reg i 0 \<noteq> md5_reg i 1" "md5_reg i 0 \<noteq> md5_reg i 2" "md5_reg i 0 \<noteq> md5_reg i 3"
    by (simp_all add: md5_reg_eq)
  have "md5_round (map (\<lambda>i. le_word (substr b (4 * i) 4)) [0 ..< 16]) i r =
      r[md5_reg i 0 := rol (rfc_s i) (s ! 0 + (rfc_f i (s ! 1) (s ! 2) (s ! 3) + (le_word (substr b (4 * rfc_k i) 4) + t))) + s ! 1]"
    unfolding md5_round_def Let_def t(1) prod.case r mix_rfc using t(2) by simp
  then show ?thesis using r ne
    by (simp add: md5_regs_def all_4 md5_reg_Suc(1) suc rfc_step_def t(1) algebra_simps)
qed

lemma md5_transform_rfc:
  assumes "length st = 4"
  shows "cs_md5_transform st b = rfc_block st b" and "length (rfc_block st b) = 4"
proof -
  let ?l = "map (\<lambda>i. le_word (substr b (4 * i) 4)) [0 ..< 16]"
  have "n \<le> 64 \<Longrightarrow> md5_regs n (fold (md5_round ?l) [0 ..< n] st) (fold (rfc_step b) [0 ..< n] st)" for n
  proof (induction n)
    case 0
    then show ?case using assms by (simp add: md5_regs_def md5_reg_def)
  next
    case (Suc n)
    then show ?case using md5_round_regs [of n _ _ b] by simp
  qed
  from this [of 64] have r: "md5_regs 64 (fold (md5_round ?l) [0 ..< 64] st) (fold (rfc_step b) [0 ..< 64] st)" by simp
  have "\<forall>k < 4. md5_reg 64 k = k" by (simp add: md5_reg_def all_4)
  then have "fold (md5_round ?l) [0 ..< 64] st = fold (rfc_step b) [0 ..< 64] st"
    using r by (intro nth_equalityI) (simp_all add: md5_regs_def)
  then show "cs_md5_transform st b = rfc_block st b" by (simp add: cs_md5_transform_def rfc_block_def Let_def)
  show "length (rfc_block st b) = 4" using r assms by (simp add: rfc_block_def md5_regs_def)
qed

lemma length_md5_blocks_state: "length st = 4 \<Longrightarrow> length (md_blocks rfc_block st m) = 4"
proof (induction rfc_block st m rule: md_blocks.induct)
  case (1 st m)
  then show ?case using md5_transform_rfc(2) [of st "take 64 m"] by (subst md_blocks.simps) simp
qed

section \<open>Pieces\<close>

lemma md5_blocks_all:
  "length st = 4 \<Longrightarrow> length inb = 64 \<Longrightarrow>
   \<exists>inb'. md5_blocks data (st, inb) = (md_blocks rfc_block st data, inb', md_rest data) \<and> length inb' = 64"
proof (induction data "(st, inb)" arbitrary: st inb rule: md5_blocks.induct)
  case (1 data st inb)
  show ?case
  proof (cases "64 \<le> length data")
    case True
    define b where "b = take 64 data"
    have b: "length b = 64" "data = b @ drop 64 data" using True by (simp_all add: b_def)
    have put: "mem_put inb 0 b = b" using b(1) "1.prems"(2) by (simp add: mem_put_def)
    have st: "cs_md5_transform st b = rfc_block st b" "length (rfc_block st b) = 4"
      using md5_transform_rfc [OF "1.prems"(1)] by blast+
    have "md5_blocks data (st, inb) = md5_blocks (drop 64 data) (rfc_block st b, b)"
      using True by (subst md5_blocks.simps) (simp add: put st(1) flip: b_def)
    moreover have "\<exists>inb'. md5_blocks (drop 64 data) (rfc_block st b, b)
        = (md_blocks rfc_block (rfc_block st b) (drop 64 data), inb', md_rest (drop 64 data)) \<and> length inb' = 64"
      using "1.hyps" [OF True] st b(1) put by (simp flip: b_def)
    moreover have "md_blocks rfc_block st data = md_blocks rfc_block (rfc_block st b) (drop 64 data)"
      "md_rest data = md_rest (drop 64 data)" using md_blocks_block [OF b(1)] md_rest_block [OF b(1)] b(2) by metis+
    ultimately show ?thesis by simp
  qed (use "1.prems" in \<open>subst md5_blocks.simps, simp\<close>)
qed

definition md5_holds :: "cs_md5_ctx \<Rightarrow> string \<Rightarrow> bool" where
  "md5_holds c m \<longleftrightarrow> dx_buf c = md_blocks rfc_block md5_start m \<and> counts (length m) (dx_bits0 c, dx_bits1 c)
     \<and> length (dx_in c) = 64 \<and> take (length m mod 64) (dx_in c) = md_rest m"

lemma md5_init_holds: "length junk = 64 \<Longrightarrow> md5_holds (cs_md5_init junk) []"
  by (simp add: md5_holds_def cs_md5_init_def md5_start_def counts_0)

lemma md5_update_holds:
  assumes h: "md5_holds c m" and len: "length s < 2 ^ 32"
  shows "md5_holds (cs_md5_update s c) (m @ s)"
proof -
  define j where "j = length m mod 64"
  have j: "j < 64" "unat (drop_bit 3 (dx_bits0 c) AND 63) = j"
    using h counts_position(1) [of "length m" "dx_bits0 c" "dx_bits1 c"] by (simp_all add: md5_holds_def j_def)
  have l: "length s mod 2 ^ 32 = length s" using len by simp
  obtain b0 b1 where cnt: "md_count (length s) (dx_bits0 c, dx_bits1 c) = (b0, b1)" by force
  then have counts: "counts (length (m @ s)) (b0, b1)"
    using h counts_add [of "length m" "(dx_bits0 c, dx_bits1 c)" "length s"] len by (simp add: md5_holds_def)
  have b: "length (dx_in c) = 64" "take j (dx_in c) = md_rest m" "length (md_rest m) = j"
    using h by (simp_all add: md5_holds_def j_def)
  let ?st = "md_blocks rfc_block md5_start m"
  have st: "length ?st = 4" by (rule length_md5_blocks_state) (simp add: md5_start_def)
  note app = md_append [of rfc_block md5_start m s]
  have rest_len: "length (md_rest (m @ s)) = length (m @ s) mod 64" by simp
  show ?thesis
  proof (cases "j \<noteq> 0 \<and> length s < 64 - j")
    case True
    then have short: "length (md_rest m @ s) < 64" "j + length s \<le> 64" using b(3) by (simp_all add: less_diff_conv)
    have "length (m @ s) mod 64 = j + length s"
      using short(1) b(3) mod_add_left_eq [of "length m" 64 "length s"] by (simp add: j_def)
    moreover have "cs_md5_update s c = c\<lparr>dx_bits0 := b0, dx_bits1 := b1, dx_in := mem_put (dx_in c) j s\<rparr>"
      using True unfolding cs_md5_update_def Let_def l j(2) cnt prod.case by simp
    ultimately show ?thesis
      using h counts app short b j(1) take_mem_put [of j "dx_in c" s] length_mem_put [of j s "dx_in c"]
      unfolding md5_holds_def by simp
  next
    case False
    define start where "start = (if j \<noteq> 0
      then md5_blocks (drop (64 - j) s) (cs_md5_transform (dx_buf c) (mem_put (dx_in c) j (take (64 - j) s)), mem_put (dx_in c) j (take (64 - j) s))
      else md5_blocks s (dx_buf c, dx_in c))"
    have "\<exists>inb. start = (md_blocks rfc_block md5_start (m @ s), inb, md_rest (m @ s)) \<and> length inb = 64"
    proof (cases "j = 0")
      case True
      then have m: "md_rest m = []" using b(3) by (metis length_0_conv)
      then show ?thesis using md5_blocks_all [OF st b(1), of s] h True app by (simp add: start_def md5_holds_def)
    next
      case ne: False
      define block where "block = md_rest m @ take (64 - j) s"
      have block: "length block = 64" "mem_put (dx_in c) j (take (64 - j) s) = block" "md_rest m @ s = block @ drop (64 - j) s"
        using ne False j(1) b by (simp_all add: block_def mem_put_end)
      have all: "md_blocks rfc_block md5_start (m @ s) = md_blocks rfc_block (rfc_block ?st block) (drop (64 - j) s)"
        "md_rest (m @ s) = md_rest (drop (64 - j) s)" using app block(1) by (simp_all add: block(3) md_blocks_block md_rest_block)
      have "start = md5_blocks (drop (64 - j) s) (rfc_block ?st block, block)"
        using ne h by (simp add: start_def block(2) md5_holds_def md5_transform_rfc(1) [OF st])
      then show ?thesis using md5_blocks_all [OF md5_transform_rfc(2) [OF st] block(1)] all by simp
    qed
    then obtain inb where start: "start = (md_blocks rfc_block md5_start (m @ s), inb, md_rest (m @ s))" "length inb = 64"
      by (elim exE conjE)
    have "cs_md5_update s c = c\<lparr>dx_bits0 := b0, dx_bits1 := b1, dx_buf := md_blocks rfc_block md5_start (m @ s),
        dx_in := mem_put inb 0 (md_rest (m @ s))\<rparr>"
    proof -
      have "cs_md5_update s c = (case start of (buf, inb, rest) \<Rightarrow>
          c\<lparr>dx_bits0 := b0, dx_bits1 := b1, dx_buf := buf, dx_in := mem_put inb 0 rest\<rparr>)"
        unfolding cs_md5_update_def Let_def l j(2) cnt prod.case start_def if_not_P [OF False] by simp
      then show ?thesis by (simp add: start(1))
    qed
    moreover have "length (md_rest (m @ s)) \<le> 64" unfolding rest_len by simp
    ultimately show ?thesis
      using counts start(2) take_mem_put [of 0 inb "md_rest (m @ s)"] length_mem_put [of 0 "md_rest (m @ s)" inb]
      unfolding md5_holds_def by (simp flip: rest_len)
  qed
qed

lemma length_le_bytes [simp]: "length (le_bytes k n) = k"
  by (simp add: le_bytes_def)

lemma md5_bits:
  assumes "counts n (b0, b1)"
  shows "le_bytes 4 (unat b0) @ le_bytes 4 (unat b1) = le_bytes 8 (8 * n)"
proof -
  have "be_bytes (4 + 4) (8 * n) = be_bytes 4 (8 * n div 256 ^ 4 mod 256 ^ 4) @ be_bytes 4 (8 * n mod 256 ^ 4)"
    by (simp only: be_bytes_mod be_bytes_append)
  also have "\<dots> = be_bytes 4 (unat b1) @ be_bytes 4 (unat b0)" using assms by (simp add: counts_def)
  finally show ?thesis by (simp add: le_bytes_def)
qed

lemma md5_final_digest:
  assumes h: "md5_holds c m"
  shows "cs_md5_final c = md5_digest m"
proof -
  define j where "j = length m mod 64"
  have j: "j < 64" "unat (drop_bit 3 (dx_bits0 c) AND 63) = j"
    using h counts_position(1) [of "length m" "dx_bits0 c" "dx_bits1 c"] by (simp_all add: md5_holds_def j_def)
  have b: "length (dx_in c) = 64" "take j (dx_in c) = md_rest m" "length (md_rest m) = j"
    using h by (simp_all add: md5_holds_def j_def)
  define bits where "bits = le_bytes 4 (unat (dx_bits0 c)) @ le_bytes 4 (unat (dx_bits1 c))"
  have bits: "bits = le_bytes 8 (8 * length m)" "length bits = 8"
    using h md5_bits [of "length m" "dx_bits0 c" "dx_bits1 c"] by (simp_all add: md5_holds_def bits_def)
  let ?st = "md_blocks rfc_block md5_start m"
  have st: "length ?st = 4" by (rule length_md5_blocks_state) (simp add: md5_start_def)
  have pad: "md_blocks rfc_block md5_start (md_pad (le_bytes 8) m)
      = md_blocks rfc_block ?st (md_rest m @ [CHR 0x80] @ replicate ((119 - j) mod 64) nul @ bits)"
    using md_append [of rfc_block md5_start m] by (simp add: md_pad_def j_def bits(1))
  let ?in1 = "mem_put (dx_in c) j [CHR 0x80]"
  have in1: "length ?in1 = 64" "take (Suc j) ?in1 = md_rest m @ [CHR 0x80]"
    using j(1) b length_mem_put [of j "[CHR 0x80]" "dx_in c"] take_mem_put [of j "dx_in c" "[CHR 0x80]"] by simp_all
  have "cs_md5_final c = concat (map (\<lambda>w. le_bytes 4 (unat w)) (md_blocks rfc_block md5_start (md_pad (le_bytes 8) m)))"
  proof (cases "64 - 1 - j < 8")
    case True
    let ?in2 = "mem_put ?in1 (j + 1) (replicate (64 - 1 - j) nul)"
    have in2: "?in2 = md_rest m @ [CHR 0x80] @ replicate (63 - j) nul"
      using j(1) in1 by (simp add: mem_put_end)
    have len2: "length ?in2 = 64" unfolding in2 using j(1) b(3) by simp
    define zeros where "zeros = replicate 56 nul"
    have zeros: "length zeros = 56" by (simp add: zeros_def)
    have "length (mem_put ?in2 0 zeros) = 64" unfolding in2 [symmetric] using len2 zeros by (subst length_mem_put) simp_all
    moreover have "take 56 (mem_put ?in2 0 zeros) = zeros" using take_mem_put [of 0 ?in2 zeros] zeros by simp
    ultimately have in4: "mem_put (mem_put ?in2 0 zeros) 56 bits = zeros @ bits"
      using bits(2) by (subst mem_put_end) simp_all
    have "(119 - j) mod 64 = (63 - j) + 56" using True j(1) by simp
    then have "md_rest m @ [CHR 0x80] @ replicate ((119 - j) mod 64) nul @ bits = ?in2 @ zeros @ bits"
      by (simp only: in2 replicate_add zeros_def append_assoc)
    moreover have "md_blocks rfc_block ?st (?in2 @ zeros @ bits) = rfc_block (rfc_block ?st ?in2) (zeros @ bits)"
      using md_blocks_block [OF len2, of rfc_block] md_blocks_block [of "zeros @ bits" rfc_block _ "[]"] bits(2) zeros by simp
    ultimately have "md_blocks rfc_block md5_start (md_pad (le_bytes 8) m) = rfc_block (rfc_block ?st ?in2) (zeros @ bits)"
      unfolding pad by (simp only:)
    then show ?thesis
      using True h in4 unfolding cs_md5_final_def Let_def j(2) bits_def [symmetric] zeros_def [symmetric]
      by (simp add: md5_holds_def md5_transform_rfc(1) [OF st] md5_transform_rfc(1) [OF md5_transform_rfc(2) [OF st]])
  next
    case False
    let ?in2 = "mem_put ?in1 (j + 1) (replicate (64 - 1 - j - 8) nul)"
    have len2: "length ?in2 = 64" using False j(1) in1(1) by (subst length_mem_put) simp_all
    have t2: "take 56 ?in2 = md_rest m @ [CHR 0x80] @ replicate (55 - j) nul"
      using take_mem_put [of "j + 1" ?in1 "replicate (64 - 1 - j - 8) nul"] False in1 j(1) by simp
    have in4: "mem_put ?in2 56 bits = md_rest m @ [CHR 0x80] @ replicate (55 - j) nul @ bits"
      using len2 bits(2) t2 by (simp add: mem_put_end)
    have "(119 - j) mod 64 = 55 - j" using False by (simp add: le_mod_geq)
    moreover have "length (md_rest m @ [CHR 0x80] @ replicate (55 - j) nul @ bits) = 64" using False b(3) bits(2) by simp
    ultimately have "md_blocks rfc_block md5_start (md_pad (le_bytes 8) m) = rfc_block ?st (mem_put ?in2 56 bits)"
      using pad md_blocks_block [of "md_rest m @ [CHR 0x80] @ replicate (55 - j) nul @ bits" rfc_block ?st "[]"]
      unfolding in4 by simp
    then show ?thesis
      using False h unfolding cs_md5_final_def Let_def j(2) bits_def [symmetric]
      by (simp add: md5_holds_def md5_transform_rfc(1) [OF st])
  qed
  then show ?thesis by (simp add: md5_digest_def)
qed

text \<open>The second hash that is fed pieces.\<close>

interpretation md5: stream_hash "\<lambda>c. \<exists>junk. length junk = 64 \<and> c = cs_md5_init junk" "\<lambda>s c. Some (cs_md5_update s c)"
  "\<lambda>c. Some (cs_md5_final c)" md5_holds md5_digest
  by unfold_locales (auto intro: md5_init_holds md5_update_holds md5_final_digest)

lemma md5_updates_feed: "md5.feed ss c = Some (fold cs_md5_update ss c)"
  by (induction ss arbitrary: c) simp_all

lemma hash_md5_v_digest:
  assumes "length junk = 64" "list_all (\<lambda>s. length s < 2 ^ 32 - 64) msgs"
  shows "mg_hash_md5_v junk msgs = md5_digest (concat msgs)"
proof -
  have "Option.bind (md5.feed msgs (cs_md5_init junk)) (\<lambda>c. Some (cs_md5_final c)) = Some (md5_digest (concat msgs))"
    using assms by (intro md5.pieces_digest) auto
  then show ?thesis by (simp add: md5_updates_feed mg_hash_md5_v_def)
qed

lemma length_md5_digest: "length (md5_digest m) = 16"
proof -
  have "length (md_blocks rfc_block md5_start (md_pad (le_bytes 8) m)) = 4"
    by (rule length_md5_blocks_state) (simp add: md5_start_def)
  then show ?thesis by (simp add: md5_digest_def length_concat comp_def sum_list_triv)
qed

lemma length_cs_to_hex [simp]: "length (cs_to_hex s) = 2 * length s"
  by (induction s rule: cs_to_hex.induct) simp_all

lemma set_cs_to_hex: "set (cs_to_hex s) \<subseteq> set ''0123456789abcdef''"
proof (induction s)
  case (Cons c s)
  have "(of_char c :: nat) div 16 < 16" "(of_char c :: nat) mod 16 < 16"
    using nat_of_char_less_256 [of c] by (simp_all add: less_mult_imp_div_less)
  then have "''0123456789abcdef'' ! (of_char c div 16) \<in> set ''0123456789abcdef''"
    "''0123456789abcdef'' ! (of_char c mod 16) \<in> set ''0123456789abcdef''" by (intro nth_mem; simp)+
  then show ?case using Cons by (simp only: cs_to_hex.simps set_simps insert_subset)
qed simp

section \<open>Properties\<close>

text \<open>
  However a message is cut into pieces, the text that \<open>cs_md5\<close> writes is the hexadecimal MD5
  of RFC 1321 of the whole message, and decodes to it.
\<close>

theorem cs_md5_digest:
  assumes "length junk = 64" "list_all (\<lambda>s. length s < 2 ^ 32 - 64) msgs"
  shows "cs_md5 junk msgs = cs_to_hex (md5_digest (concat msgs)) \<and> cs_from_hex (cs_md5 junk msgs) = Some (md5_digest (concat msgs))"
  using hash_md5_v_digest [OF assms] by (simp add: cs_md5_def cs_hex_roundtrip)

lemma cs_md5_digest_witness:
  "cs_md5 (replicate 64 (CHR ''?'')) [''ad'', [], ''min''] = cs_to_hex (md5_digest ''admin'')
    \<and> cs_from_hex (cs_md5 (replicate 64 (CHR ''?'')) [''ad'', [], ''min'']) = Some (md5_digest ''admin'')"
  using cs_md5_digest [of "replicate 64 (CHR ''?'')" "[''ad'', [], ''min'']"] by (simp add: cs_hex_roundtrip)

end
