(* ===== verification/Mg_Auth.thy ===== *)
theory Mg_Auth
  imports Mg_Md5 Mg_Base64 Mg_Chunk
begin

text \<open>
  HTTP authentication of the embedded web server, \<open>src/src/mongoose.c\<close>: the buffer that spills
  to the heap, the variables of a header, the digest response a client computes and the check a
  server makes against its password file.
\<close>

section \<open>A buffer that spills\<close>

text \<open>\<open>struct altbuf\<close>: the caller's buffer, whose size is its length, and the heap's.\<close>

record altbuf =
  ab_m :: mbuf
  ab_user_buf :: string
  ab_len :: nat

definition altbuf_init :: "allocator \<Rightarrow> string \<Rightarrow> altbuf" where
  "altbuf_init alloc buf = \<lparr>ab_m = mbuf_init alloc 0, ab_user_buf = buf, ab_len = 0\<rparr>"

definition altbuf_append :: "allocator \<Rightarrow> nat \<Rightarrow> char \<Rightarrow> altbuf \<Rightarrow> altbuf" where
  "altbuf_append alloc addr c ab =
     (if ab_len ab < length (ab_user_buf ab)
      then ab\<lparr>ab_user_buf := (ab_user_buf ab)[ab_len ab := c], ab_len := ab_len ab + 1\<rparr>
      else
        (let m = (if ab_len ab > 0 \<and> mb_len (ab_m ab) = 0
                  then mbuf_put alloc addr (take (ab_len ab) (ab_user_buf ab)) (ab_m ab) else ab_m ab);
             m = mbuf_put alloc addr [c] m
         in ab\<lparr>ab_m := m, ab_len := mb_len m\<rparr>))"

definition altbuf_reset :: "allocator \<Rightarrow> altbuf \<Rightarrow> altbuf" where
  "altbuf_reset alloc ab = ab\<lparr>ab_m := mbuf_free alloc (ab_m ab), ab_len := 0\<rparr>"

definition altbuf_reallocated :: "altbuf \<Rightarrow> bool" where
  "altbuf_reallocated ab \<longleftrightarrow> ab_len ab > length (ab_user_buf ab)"

text \<open>The buffer with the data, and what is left of the structure.\<close>

definition altbuf_get_buf :: "allocator \<Rightarrow> altbuf \<Rightarrow> bool \<Rightarrow> string" where
  "altbuf_get_buf alloc ab trim =
     (if altbuf_reallocated ab then mb_buf (if trim then mbuf_trim alloc (ab_m ab) else ab_m ab)
      else ab_user_buf ab)"

section \<open>Variables of a header\<close>

text \<open>
  The header is the bytes from \<open>p0\<close> to \<open>e\<close> of the memory. The search stops at a name
  behind a separator and in front of an equality sign, or where no name fits any more.
\<close>

definition header_sep :: "char \<Rightarrow> bool" where
  "header_sep c \<longleftrightarrow> c = CHR '' '' \<or> c = CHR '','' \<or> c = CHR '';''"

function header_find :: "string \<Rightarrow> string \<Rightarrow> nat \<Rightarrow> nat \<Rightarrow> nat \<Rightarrow> nat" where
  "header_find mem var p0 e s =
     (if s + length var < e
      then (if (s = p0 \<or> header_sep (byte_at mem (s - 1))) \<and> byte_at mem (s + length var) = CHR ''=''
              \<and> strncmp (drop s mem) var (length var) = 0
            then s else header_find mem var p0 e (s + 1))
      else s)"
  by pat_completeness auto
termination by (relation "measure (\<lambda>(mem, var, p0, e, s). e - s)") auto

declare header_find.simps [simp del]

text \<open>The value is copied up to one of the three characters; in quotes they are the quote.\<close>

function header_copy :: "allocator \<Rightarrow> nat \<Rightarrow> string \<Rightarrow> char \<times> char \<times> char \<Rightarrow> nat \<Rightarrow> nat \<Rightarrow> altbuf \<Rightarrow> nat \<times> altbuf" where
  "header_copy alloc addr mem chs e p ab =
     (let (ch, ch1, ch2) = chs; c = byte_at mem p
      in if p < e \<and> c \<noteq> ch \<and> c \<noteq> ch1 \<and> c \<noteq> ch2
         then (let p1 = (if ch \<noteq> CHR '' '' \<and> c = CHR 0x5C \<and> byte_at mem (p + 1) = ch then p + 1 else p)
               in header_copy alloc addr mem chs e (p1 + 1) (altbuf_append alloc addr (byte_at mem p1) ab))
         else (p, ab))"
  by pat_completeness auto
termination by (relation "measure (\<lambda>(alloc, addr, mem, chs, e, p, ab). e - p)") (auto simp: Let_def)

declare header_copy.simps [simp del]

definition mg_http_parse_header_internal :: "allocator \<Rightarrow> nat \<Rightarrow> string \<Rightarrow> nat \<Rightarrow> nat \<Rightarrow> string \<Rightarrow> altbuf \<Rightarrow> altbuf" where
  "mg_http_parse_header_internal alloc addr mem p0 len var ab =
     (let e = p0 + len; n = length var; s = header_find mem var p0 e p0;
          ab1 =
            (if s + n + 1 < e
             then (let s1 = s + n + 1; q = byte_at mem s1; quoted = (q = CHR 0x22 \<or> q = CHR 0x27);
                       chs = (if quoted then (q, q, q) else (CHR '' '', CHR '','', CHR '';''));
                       (p, ab1) = header_copy alloc addr mem chs e (if quoted then s1 + 1 else s1) ab
                   in if fst chs \<noteq> CHR '' '' \<and> byte_at mem p \<noteq> fst chs then altbuf_reset alloc ab1 else ab1)
             else ab)
      in if ab_len ab1 > 0 then altbuf_append alloc addr nul ab1 else ab1)"

text \<open>
  \<open>mg_http_parse_header2\<close>, with what the caller's buffer holds; the length without the NUL and
  the buffer.
\<close>

definition mg_http_parse_header2 :: "allocator \<Rightarrow> nat \<Rightarrow> string \<Rightarrow> mg_str option \<Rightarrow> string \<Rightarrow> string \<Rightarrow> nat \<times> string" where
  "mg_http_parse_header2 alloc addr mem hdr var buf =
     (case hdr of
        None \<Rightarrow> (0, buf)
      | Some h \<Rightarrow>
          (let ab = altbuf_init alloc (if buf \<noteq> [] then buf[0 := nul] else buf);
               ab = (case ms_p h of None \<Rightarrow> ab | Some p \<Rightarrow> mg_http_parse_header_internal alloc addr mem p (ms_len h) var ab)
           in (if ab_len ab > 0 then ab_len ab - 1 else 0, altbuf_get_buf alloc ab True)))"

text \<open>The caller of \<open>mg_http_parse_header\<close> gets nothing when its buffer was too small.\<close>

definition mg_http_parse_header :: "allocator \<Rightarrow> nat \<Rightarrow> string \<Rightarrow> mg_str option \<Rightarrow> string \<Rightarrow> string \<Rightarrow> nat" where
  "mg_http_parse_header alloc addr mem hdr var buf =
     (let (n, buf2) = mg_http_parse_header2 alloc addr mem hdr var buf
      in if hdr \<noteq> None \<and> length buf < n + 1 \<and> n > 0 then 0 else n)"

section \<open>Digest authentication\<close>

text \<open>
  The C strings here are the bytes in front of their NUL. \<open>stack\<close> is what a local buffer of a
  size holds before it is written; the hash's buffer has 64 bytes.
\<close>

definition mg_mkmd5resp ::
  "(nat \<Rightarrow> string) \<Rightarrow> string \<Rightarrow> string \<Rightarrow> string \<Rightarrow> string \<Rightarrow> string \<Rightarrow> string \<Rightarrow> string \<Rightarrow> string" where
  "mg_mkmd5resp stack meth uri ha1 nonce nc cnonce qop =
     (let ha2 = cs_md5 (stack 64) [meth, '':'', uri]
      in cs_md5 (stack 64) [ha1, '':'', nonce, '':'', nc, '':'', cnonce, '':'', qop, '':'', ha2])"

text \<open>The text that is printed, of which \<open>buf_len - 1\<close> bytes are kept; the time is in seconds.\<close>

definition digest_auth_header ::
  "(nat \<Rightarrow> string) \<Rightarrow> nat \<Rightarrow> string \<Rightarrow> string \<Rightarrow> string \<Rightarrow> string \<Rightarrow> string \<Rightarrow> string \<Rightarrow> string" where
  "digest_auth_header stack now meth uri auth_domain user passwd nonce =
     (let cnonce = hex_digits now;
          ha1 = cs_md5 (stack 64) [user, '':'', auth_domain, '':'', passwd];
          resp = mg_mkmd5resp stack meth uri ha1 nonce ''1'' cnonce ''auth''
      in ''Authorization: Digest username='' @ [CHR 0x22] @ user @ [CHR 0x22] @ '',realm='' @ [CHR 0x22] @ auth_domain
         @ [CHR 0x22] @ '',uri='' @ [CHR 0x22] @ uri @ [CHR 0x22] @ '',qop=auth,nc=1,cnonce='' @ cnonce
         @ '',nonce='' @ nonce @ '',response='' @ resp @ CRLF)"

definition mg_http_create_digest_auth_header ::
  "(nat \<Rightarrow> string) \<Rightarrow> nat \<Rightarrow> nat \<Rightarrow> string \<Rightarrow> string \<Rightarrow> string \<Rightarrow> string \<Rightarrow> string \<Rightarrow> string \<Rightarrow> nat \<times> string" where
  "mg_http_create_digest_auth_header stack now buf_len meth uri auth_domain user passwd nonce =
     (let t = digest_auth_header stack now meth uri auth_domain user passwd nonce
      in (length t, take (buf_len - 1) t))"

text \<open>\<open>strtoul\<close> to base 16: the value, clamped, and negated modulo the type behind a minus.\<close>

definition hex_val :: "string \<Rightarrow> nat" where
  "hex_val s = fold (\<lambda>c n. n * 16 + fourbit c) (takeWhile isxdigit s) 0"

definition strtoul16 :: "string \<Rightarrow> nat" where
  "strtoul16 s =
     (let u = dropWhile isspace s; minus = (byte_at u 0 = CHR ''-'');
          v = (if minus \<or> byte_at u 0 = CHR ''+'' then drop 1 u else u);
          w = (if byte_at v 0 = CHR ''0'' \<and> tolower (byte_at v 1) = CHR ''x'' \<and> isxdigit (byte_at v 2) then drop 2 v else v);
          n = hex_val w
      in if n \<ge> 2 ^ 64 then 2 ^ 64 - 1 else if minus then (2 ^ 64 - n) mod 2 ^ 64 else n)"

definition mg_check_nonce :: "nat \<Rightarrow> string \<Rightarrow> bool" where
  "mg_check_nonce now nonce \<longleftrightarrow> (let val = strtoul16 nonce in now \<ge> val \<and> now - val < 60 * 60)"

text \<open>\<open>fgets\<close> from what is left of a file, and the three strings of a line of the password file.\<close>

definition fgets_next :: "nat \<Rightarrow> string \<Rightarrow> (string \<times> string) option" where
  "fgets_next bufsize f = (if f = [] then None else Some (fgets bufsize f, drop (length (fgets bufsize f)) f))"

lemma fgets_next_first:
  assumes "newline \<notin> set l" "length l + 1 < n"
  shows "fgets_next n (l @ newline # f) = Some (l @ [newline], f)"
  using fgets_first [OF assms, of f] by (simp add: fgets_next_def)

definition scan_entry :: "string \<Rightarrow> (string \<times> string \<times> string) option" where
  "scan_entry buf =
     (let s = cstr buf; colon = (\<lambda>c. c \<noteq> CHR '':'');
          f_user = takeWhile colon s; s1 = dropWhile colon s;
          f_domain = takeWhile colon (drop 1 s1); s2 = dropWhile colon (drop 1 s1);
          f_ha1 = takeWhile (\<lambda>c. \<not> isspace c) (dropWhile isspace (drop 1 s2))
      in if f_user = [] \<or> s1 = [] \<or> f_domain = [] \<or> s2 = [] \<or> f_ha1 = [] then None
         else Some (f_user, f_domain, f_ha1))"

text \<open>The answers of the client.\<close>

record digest_vars =
  dv_username :: string
  dv_cnonce :: string
  dv_response :: string
  dv_uri :: string
  dv_qop :: string
  dv_nc :: string
  dv_nonce :: string

definition entry_matches :: "digest_vars \<Rightarrow> string \<Rightarrow> string \<Rightarrow> (string \<times> string \<times> string) option" where
  "entry_matches v auth_domain buf =
     (case scan_entry buf of
        None \<Rightarrow> None
      | Some (f_user, f_domain, f_ha1) \<Rightarrow>
          if mg_vcmp (dv_username v) f_user = 0 \<and> mg_vcmp auth_domain f_domain = 0 then Some (f_user, f_domain, f_ha1) else None)"

function mg_check_digest_auth ::
  "(nat \<Rightarrow> string) \<Rightarrow> string \<Rightarrow> string \<Rightarrow> digest_vars \<Rightarrow> string \<Rightarrow> string \<Rightarrow> bool" where
  "mg_check_digest_auth stack meth uri v auth_domain fp =
     (case fgets_next 128 fp of
        None \<Rightarrow> False
      | Some (buf, fp1) \<Rightarrow>
          (case entry_matches v auth_domain buf of
             None \<Rightarrow> mg_check_digest_auth stack meth uri v auth_domain fp1
           | Some (f_user, f_domain, f_ha1) \<Rightarrow>
               (let exp_resp = mg_mkmd5resp stack meth uri f_ha1 (dv_nonce v) (dv_nc v) (dv_cnonce v) (dv_qop v)
                in mg_ncasecmp (dv_response v) exp_resp (length exp_resp) = 0)))"
  by pat_completeness auto
termination
  by (relation "measure (\<lambda>(stack, meth, uri, v, auth_domain, fp). length fp)")
    (auto simp: fgets_next_def dest: fgets_shorter [where n = 128] split: if_splits)

declare mg_check_digest_auth.simps [simp del]

text \<open>The variables, each in its own buffer, fail fast; then the nonce and the password file.\<close>

definition header_var ::
  "allocator \<Rightarrow> nat \<Rightarrow> (nat \<Rightarrow> string) \<Rightarrow> string \<Rightarrow> mg_str option \<Rightarrow> string \<Rightarrow> nat \<Rightarrow> string option" where
  "header_var alloc addr stack mem hdr var bufsize =
     (case mg_http_parse_header2 alloc addr mem hdr var (stack bufsize) of (n, buf) \<Rightarrow> if n = 0 then None else Some (cstr buf))"

definition digest_variables ::
  "allocator \<Rightarrow> nat \<Rightarrow> (nat \<Rightarrow> string) \<Rightarrow> string \<Rightarrow> mg_str option \<Rightarrow> digest_vars option" where
  "digest_variables alloc addr stack mem hdr =
     (let var = header_var alloc addr stack mem hdr
      in Option.bind (var ''username'' 50) (\<lambda>username.
         Option.bind (var ''cnonce'' 64) (\<lambda>cnonce.
         Option.bind (var ''response'' 40) (\<lambda>response.
         Option.bind (var ''uri'' 200) (\<lambda>uri.
         Option.bind (var ''qop'' 20) (\<lambda>qop.
         Option.bind (var ''nc'' 20) (\<lambda>nc.
         Option.bind (var ''nonce'' 16) (\<lambda>nonce.
         Some \<lparr>dv_username = username, dv_cnonce = cnonce, dv_response = response, dv_uri = uri, dv_qop = qop,
               dv_nc = nc, dv_nonce = nonce\<rparr>))))))))"

definition mg_http_check_digest_auth ::
  "allocator \<Rightarrow> nat \<Rightarrow> (nat \<Rightarrow> string) \<Rightarrow> nat \<Rightarrow> string \<Rightarrow> http_message option \<Rightarrow> string \<Rightarrow> string option \<Rightarrow> bool" where
  "mg_http_check_digest_auth alloc addr stack now mem hm auth_domain fp =
     (case (hm, fp) of
        (Some hm, Some fp) \<Rightarrow>
          (case mg_get_http_header mem hm ''Authorization'' of
             None \<Rightarrow> False
           | Some hdr \<Rightarrow>
               (case digest_variables alloc addr stack mem (Some hdr) of
                  None \<Rightarrow> False
                | Some v \<Rightarrow>
                    mg_check_nonce now (dv_nonce v)
                    \<and> (let qs = ms_len (hm_query_string hm);
                           uri = (case ms_p (hm_uri hm) of None \<Rightarrow> []
                             | Some p \<Rightarrow> mg_mk_str_n (drop p mem) (ms_len (hm_uri hm) + (if qs > 0 then qs + 1 else 0)))
                       in mg_check_digest_auth stack (ms_text mem (hm_method hm)) uri v auth_domain fp)))
      | _ \<Rightarrow> False)"

section \<open>What the spilling buffer holds\<close>

definition alt_text :: "altbuf \<Rightarrow> string" where
  "alt_text ab = (if altbuf_reallocated ab then mb_text (ab_m ab) else take (ab_len ab) (ab_user_buf ab))"

definition alt_ok :: "altbuf \<Rightarrow> bool" where
  "alt_ok ab \<longleftrightarrow> mb_ok (ab_m ab) \<and> length (ab_user_buf ab) < 2 ^ 32 \<and> mb_len (ab_m ab) = (if altbuf_reallocated ab then ab_len ab else 0)"

definition altbuf_put :: "allocator \<Rightarrow> nat \<Rightarrow> string \<Rightarrow> altbuf \<Rightarrow> altbuf" where
  "altbuf_put alloc addr s ab = fold (altbuf_append alloc addr) s ab"

context heap
begin

lemma alt_append:
  assumes "alt_ok ab"
  shows "alt_ok (altbuf_append alloc addr c ab) \<and> alt_text (altbuf_append alloc addr c ab) = alt_text ab @ [c]"
proof (cases "ab_len ab < length (ab_user_buf ab)")
  case True
  then show ?thesis
    using assms by (simp add: alt_ok_def alt_text_def altbuf_append_def altbuf_reallocated_def take_Suc_conv_app_nth)
next
  case False
  define m where "m = (if ab_len ab > 0 \<and> mb_len (ab_m ab) = 0
      then mbuf_put alloc addr (take (ab_len ab) (ab_user_buf ab)) (ab_m ab) else ab_m ab)"
  have m: "mb_ok m \<and> mb_text m = alt_text ab"
  proof (cases "altbuf_reallocated ab")
    case True
    then show ?thesis using assms by (simp add: m_def alt_ok_def alt_text_def altbuf_reallocated_def)
  next
    case ne: False
    then have "mb_text (ab_m ab) = []" "ab_len ab = length (ab_user_buf ab)" using assms False
      by (simp_all add: alt_ok_def mb_text_def altbuf_reallocated_def)
    then show ?thesis using assms ne append_text [of "ab_m ab" "ab_user_buf ab"]
      by (auto simp: m_def alt_ok_def alt_text_def altbuf_reallocated_def)
  qed
  define m2 where "m2 = mbuf_put alloc addr [c] m"
  have m2: "mb_ok m2" "mb_text m2 = alt_text ab @ [c]" using append_text [of m "[c]"] m by (simp_all add: m2_def)
  have "length (alt_text ab) \<ge> length (ab_user_buf ab)"
    using False assms by (auto simp: alt_text_def alt_ok_def altbuf_reallocated_def)
  then have "mb_len m2 > length (ab_user_buf ab)"
    using length_mb_text [OF m2(1)] m2(2) by simp
  moreover have "altbuf_append alloc addr c ab = ab\<lparr>ab_m := m2, ab_len := mb_len m2\<rparr>"
    using False by (simp add: altbuf_append_def m2_def m_def Let_def)
  ultimately show ?thesis using assms m2 by (simp add: alt_ok_def alt_text_def altbuf_reallocated_def)
qed

lemma alt_put: "alt_ok ab \<Longrightarrow> alt_ok (altbuf_put alloc addr s ab) \<and> alt_text (altbuf_put alloc addr s ab) = alt_text ab @ s"
proof (induction s arbitrary: ab)
  case (Cons c s)
  then show ?case using alt_append [of ab c] by (simp add: altbuf_put_def)
qed (simp add: altbuf_put_def)

lemma alt_init: "length buf < 2 ^ 32 \<Longrightarrow> alt_ok (altbuf_init alloc buf) \<and> alt_text (altbuf_init alloc buf) = []"
  by (simp add: altbuf_init_def alt_ok_def alt_text_def altbuf_reallocated_def mbuf_init_def mbuf_resize_def mb_ok_def)

lemma alt_get_buf: "alt_ok ab \<Longrightarrow> \<exists>t. altbuf_get_buf alloc ab trim = alt_text ab @ t"
proof (cases "altbuf_reallocated ab")
  case True
  assume ok: "alt_ok ab"
  define m where "m = (if trim then mbuf_trim alloc (ab_m ab) else ab_m ab)"
  have "mb_text m = mb_text (ab_m ab)" using ok mbuf_resize_ok(2) [OF gives, of "ab_m ab"]
    by (simp add: m_def alt_ok_def mbuf_trim_def)
  then have "mb_buf m = mb_text (ab_m ab) @ drop (mb_len m) (mb_buf m)" by (metis append_take_drop_id mb_text_def)
  then show ?thesis using True by (auto simp: altbuf_get_buf_def alt_text_def m_def)
next
  case False
  then show ?thesis
    by (intro exI [of _ "drop (ab_len ab) (ab_user_buf ab)"]) (simp add: altbuf_get_buf_def alt_text_def)
qed

lemma alt_len: "alt_ok ab \<Longrightarrow> ab_len ab = length (alt_text ab)"
  by (auto simp: alt_ok_def alt_text_def altbuf_reallocated_def)

end

section \<open>What is found in a header\<close>

text \<open>The separators, the quotes and the backslash are what a value must not have to be found as it is.\<close>

definition plain :: "string \<Rightarrow> bool" where
  "plain s \<longleftrightarrow> (\<forall>c \<in> set s. \<not> header_sep c \<and> c \<noteq> CHR 0x22 \<and> c \<noteq> CHR 0x27 \<and> c \<noteq> CHR 0x5C \<and> c \<noteq> nul)"

definition no_sep :: "string \<Rightarrow> bool" where
  "no_sep s \<longleftrightarrow> (\<forall>c \<in> set s. \<not> header_sep c)"

lemma byte_at_mid: "byte_at (a @ c # b) (length a) = c"
  by (simp add: byte_at_def)

lemma header_find_next:
  assumes "s + length var < e"
    and "\<not> ((s = p0 \<or> header_sep (byte_at mem (s - 1))) \<and> byte_at mem (s + length var) = CHR ''=''
              \<and> strncmp (drop s mem) var (length var) = 0)"
  shows "header_find mem var p0 e s = header_find mem var p0 e (s + 1)"
  by (subst header_find.simps, subst if_P [OF assms(1)], subst if_not_P [OF assms(2)], rule refl)

lemma byte_before: "A \<noteq> [] \<Longrightarrow> byte_at (A @ x) (length A - 1) = last A"
proof -
  assume "A \<noteq> []"
  then have "length A - 1 < length A" "length A - 1 < length (A @ x)" by (simp_all add: trans_less_add1)
  then show ?thesis using \<open>A \<noteq> []\<close> unfolding byte_at_def by (simp only: nth_append if_True) (simp add: last_conv_nth)
qed

lemma header_find_inside:
  assumes "no_sep t" and "A \<noteq> []" and "\<not> header_sep (last A)" and "p0 < length A" and "length var < length S"
  shows "header_find (A @ t @ d # S @ B) var p0 (length (A @ t @ d # S)) (length A)
    = header_find (A @ t @ d # S @ B) var p0 (length (A @ t @ d # S)) (length A + length t + 1)"
  using assms
proof (induction t arbitrary: A)
  case Nil
  then have "header_find (A @ d # S @ B) var p0 (length (A @ d # S)) (length A)
      = header_find (A @ d # S @ B) var p0 (length (A @ d # S)) (length A + 1)"
    using byte_before [OF Nil.prems(2), of "d # S @ B"] by (intro header_find_next) auto
  then show ?case by simp
next
  case (Cons c t)
  have "header_find (A @ (c # t) @ d # S @ B) var p0 (length (A @ (c # t) @ d # S)) (length A)
      = header_find (A @ (c # t) @ d # S @ B) var p0 (length (A @ (c # t) @ d # S)) (length A + 1)"
    using Cons.prems byte_before [OF Cons.prems(2), of "(c # t) @ d # S @ B"] by (intro header_find_next) auto
  moreover have "\<not> header_sep c" "no_sep t" using Cons.prems(1) by (simp_all add: no_sep_def)
  ultimately show ?case using Cons.IH [of "A @ [c]"] Cons.prems by simp
qed

text \<open>A token that does not start with the name and an equality sign is passed over.\<close>

lemma header_find_token:
  assumes "no_sep t" and "t \<noteq> []" and "header_sep d" and "p0 \<le> length A" and "length var < length S"
    and "no_sep var" and "nul \<notin> set var" and "take (length var + 1) t \<noteq> var @ ''=''"
  shows "header_find (A @ t @ d # S @ B) var p0 (length (A @ t @ d # S)) (length A)
    = header_find (A @ t @ d # S @ B) var p0 (length (A @ t @ d # S)) (length A + length t + 1)"
proof -
  obtain c u where t: "t = c # u" using assms(2) by (cases t) simp_all
  have no: "\<not> (byte_at (A @ t @ d # S @ B) (length A + length var) = CHR ''=''
      \<and> strncmp (drop (length A) (A @ t @ d # S @ B)) var (length var) = 0)"
  proof
    assume "byte_at (A @ t @ d # S @ B) (length A + length var) = CHR ''=''
      \<and> strncmp (drop (length A) (A @ t @ d # S @ B)) var (length var) = 0"
    then have e: "(t @ d # S @ B) ! length var = CHR ''=''" "take (length var) (t @ d # S @ B) = var"
      using assms(5,7) strncmp_eq_0 [of "length var" "t @ d # S @ B" var] by (simp_all add: byte_at_def)
    have "take (Suc (length var)) (t @ d # S @ B) = take (length var) (t @ d # S @ B) @ [(t @ d # S @ B) ! length var]"
      using assms(5) by (intro take_Suc_conv_app_nth) simp
    then have "take (length var + 1) (t @ d # S @ B) = var @ ''=''" unfolding e by simp
    moreover have "length var < length t"
    proof (rule ccontr)
      assume "\<not> length var < length t"
      then have "length var + 1 - length t = Suc (length var - length t)" by simp
      then have "d \<in> set (take (length var + 1) (t @ d # S @ B))" by (simp only: take_append take_Suc_Cons) simp
      then have "d \<in> set var \<or> d = CHR ''=''" unfolding calculation by auto
      then show False using assms(3,6) by (auto simp: no_sep_def header_sep_def)
    qed
    ultimately show False using assms(8) by simp
  qed
  have "header_find (A @ t @ d # S @ B) var p0 (length (A @ t @ d # S)) (length A)
      = header_find (A @ t @ d # S @ B) var p0 (length (A @ t @ d # S)) (length A + 1)"
    using assms(5) no by (intro header_find_next) auto
  also have "\<dots> = header_find ((A @ [c]) @ u @ d # S @ B) var p0 (length ((A @ [c]) @ u @ d # S)) (length (A @ [c]))"
    by (simp add: t)
  also have "\<dots> = header_find ((A @ [c]) @ u @ d # S @ B) var p0 (length ((A @ [c]) @ u @ d # S)) (length (A @ [c]) + length u + 1)"
    using assms by (intro header_find_inside) (simp_all add: t no_sep_def)
  finally show ?thesis by (simp add: t)
qed

lemma header_find_here:
  assumes "A = [] \<and> p0 = 0 \<or> p0 = length A \<or> A \<noteq> [] \<and> header_sep (last A)" and "S \<noteq> []"
    and "nul \<notin> set var"
  shows "header_find (A @ var @ CHR ''='' # S @ B) var p0 (length (A @ var @ CHR ''='' # S)) (length A) = length A"
proof -
  have "strncmp (var @ CHR ''='' # S @ B) var (length var) = 0"
    using assms(3) strncmp_eq_0 [of "length var" "var @ CHR ''='' # S @ B" var] by simp
  moreover note byte_before [of A "var @ CHR ''='' # S @ B"]
  moreover have "byte_at (A @ var @ CHR ''='' # S @ B) (length A + length var) = CHR ''=''"
    using byte_at_mid [of "A @ var"] by simp
  ultimately show ?thesis using assms by (subst header_find.simps) auto
qed

lemma header_copy_run:
  assumes "\<forall>c \<in> set w. c \<noteq> ch \<and> c \<noteq> ch1 \<and> c \<noteq> ch2 \<and> (ch \<noteq> CHR '' '' \<longrightarrow> c \<noteq> CHR 0x5C)"
    and "length A + length w \<le> e" and "length A + length w = e \<or> byte_at B 0 \<in> {ch, ch1, ch2}"
  shows "header_copy alloc addr (A @ w @ B) (ch, ch1, ch2) e (length A) ab = (length A + length w, altbuf_put alloc addr w ab)"
  using assms
proof (induction w arbitrary: A ab)
  case Nil
  have "byte_at (A @ B) (length A) = byte_at B 0" by (simp add: byte_at_def nth_append)
  then show ?case using Nil by (subst header_copy.simps) (auto simp: altbuf_put_def)
next
  case (Cons c w)
  have c: "c \<noteq> ch" "c \<noteq> ch1" "c \<noteq> ch2" "ch \<noteq> CHR '' '' \<longrightarrow> c \<noteq> CHR 0x5C" "length A < e" using Cons.prems by simp_all
  have "header_copy alloc addr (A @ c # w @ B) (ch, ch1, ch2) e (length A) ab
      = header_copy alloc addr (A @ c # w @ B) (ch, ch1, ch2) e (length A + 1) (altbuf_append alloc addr c ab)"
    using c unfolding header_copy.simps [of _ _ _ _ _ "length A"] Let_def prod.case byte_at_mid by (auto simp: byte_at_mid)
  then show ?case using Cons.IH [of "A @ [c]" "altbuf_append alloc addr c ab"] Cons.prems by (simp add: altbuf_put_def)
qed

definition value_text :: "bool \<Rightarrow> string \<Rightarrow> string" where
  "value_text quoted w = (if quoted then CHR 0x22 # w @ [CHR 0x22] else w)"

lemma plainD: "plain w \<Longrightarrow> c \<in> set w \<Longrightarrow> c \<noteq> CHR '' '' \<and> c \<noteq> CHR '','' \<and> c \<noteq> CHR '';'' \<and> c \<noteq> CHR 0x22
    \<and> c \<noteq> CHR 0x27 \<and> c \<noteq> CHR 0x5C \<and> c \<noteq> nul"
  by (simp add: plain_def header_sep_def)

lemma internal_value:
  assumes w: "plain w" "w \<noteq> []" and Z: "Z = [] \<or> header_sep (hd Z)"
    and V: "V = X @ var @ CHR ''='' # value_text quoted w @ Z"
    and f: "header_find (pre @ V @ post) var (length pre) (length pre + length V) (length pre) = length pre + length X"
    and ab: "ab_len (altbuf_put alloc addr w ab) > 0"
  shows "mg_http_parse_header_internal alloc addr (pre @ V @ post) (length pre) (length V) var ab
    = altbuf_append alloc addr nul (altbuf_put alloc addr w ab)"
proof -
  let ?mem = "pre @ V @ post" and ?e = "length pre + length V"
  let ?s1 = "length pre + length X + length var + 1"
  have lt: "?s1 < ?e" using w(2) by (simp add: V value_text_def)
  let ?A = "pre @ X @ var @ ''=''"
  have A: "length ?A = ?s1" by simp
  show ?thesis
  proof (cases quoted)
    case True
    have mem: "?mem = (?A @ [CHR 0x22]) @ w @ CHR 0x22 # Z @ post" by (simp add: V value_text_def True)
    have q: "byte_at ?mem ?s1 = CHR 0x22" 
      using byte_at_mid [of ?A "CHR 0x22" "w @ CHR 0x22 # Z @ post"] by (simp add: V value_text_def True add.assoc)
    have q2: "byte_at ?mem (?s1 + 1 + length w) = CHR 0x22"
      unfolding mem using byte_at_mid [of "(?A @ [CHR 0x22]) @ w" "CHR 0x22" "Z @ post"] by (simp add: add.assoc)
    have "header_copy alloc addr ?mem (CHR 0x22, CHR 0x22, CHR 0x22) ?e (?s1 + 1) ab
        = (?s1 + 1 + length w, altbuf_put alloc addr w ab)"
      unfolding mem using header_copy_run [of w "CHR 0x22" "CHR 0x22" "CHR 0x22" "?A @ [CHR 0x22]" ?e "CHR 0x22 # Z @ post" alloc addr ab]
        plainD [OF w(1)] by (simp add: V value_text_def True byte_at_def add.assoc)
    then show ?thesis
      using ab lt q q2 unfolding mg_http_parse_header_internal_def Let_def f by simp
  next
    case False
    obtain c u where c: "w = c # u" using w(2) by (cases w) simp_all
    have mem: "?mem = ?A @ w @ Z @ post" by (simp add: V value_text_def False)
    have q: "byte_at ?mem ?s1 = c" 
      using byte_at_mid [of ?A c "u @ Z @ post"] by (simp add: V value_text_def False c add.assoc)
    have "Z = [] \<or> byte_at (Z @ post) 0 \<in> {CHR '' '', CHR '','', CHR '';''}"
      using Z by (cases Z) (auto simp: byte_at_def header_sep_def)
    then have "header_copy alloc addr ?mem (CHR '' '', CHR '','', CHR '';'') ?e ?s1 ab = (?s1 + length w, altbuf_put alloc addr w ab)"
      unfolding mem using header_copy_run [of w "CHR '' ''" "CHR '',''" "CHR '';''" ?A ?e "Z @ post" alloc addr ab]
        plainD [OF w(1)] by (auto simp: V value_text_def False add.assoc)
    then show ?thesis
      using ab lt q plainD [OF w(1), of c] unfolding mg_http_parse_header_internal_def Let_def f by (simp add: c)
  qed
qed

context heap
begin

lemma header_var_found:
  assumes w: "plain w" "w \<noteq> []" and Z: "Z = [] \<or> header_sep (hd Z)"
    and V: "V = X @ var @ CHR ''='' # value_text quoted w @ Z"
    and f: "header_find (pre @ V @ post) var (length pre) (length pre + length V) (length pre) = length pre + length X"
    and st: "length (stack n) < 2 ^ 32"
  shows "header_var alloc addr stack (pre @ V @ post) (Some \<lparr>ms_p = Some (length pre), ms_len = length V\<rparr>) var n = Some w"
proof -
  define ab where "ab = altbuf_init alloc (if stack n \<noteq> [] then (stack n)[0 := nul] else stack n)"
  have ab: "alt_ok ab \<and> alt_text ab = []" using st unfolding ab_def by (intro alt_init) simp
  then have put: "alt_ok (altbuf_put alloc addr w ab)" "alt_text (altbuf_put alloc addr w ab) = w"
    using alt_put [of ab w] by simp_all
  then have len: "ab_len (altbuf_put alloc addr w ab) > 0" using alt_len [OF put(1)] w(2) by simp
  let ?ab = "altbuf_append alloc addr nul (altbuf_put alloc addr w ab)"
  have last: "alt_ok ?ab" "alt_text ?ab = w @ [nul]" using alt_append [OF put(1), of nul] put(2) by simp_all
  obtain t where t: "altbuf_get_buf alloc ?ab True = (w @ [nul]) @ t" using alt_get_buf [OF last(1), of True] last(2) by auto
  have "\<forall>c \<in> set w. c \<noteq> nul" using w(1) by (simp add: plain_def)
  then have "cstr (altbuf_get_buf alloc ?ab True) = w" unfolding t cstr_def by (simp add: takeWhile_append2)
  moreover have "ab_len ?ab = length w + 1" using alt_len [OF last(1)] last(2) by simp
  moreover have "mg_http_parse_header_internal alloc addr (pre @ V @ post) (length pre) (length V) var ab = ?ab"
    by (rule internal_value [OF w Z V f len])
  ultimately show ?thesis
    using w(2) by (simp add: header_var_def mg_http_parse_header2_def Let_def flip: ab_def)
qed

end

text \<open>A name behind a list of tokens, each with the separator that ends it.\<close>

definition tokens_text :: "(string \<times> char) list \<Rightarrow> string" where
  "tokens_text ts = concat (map (\<lambda>(t, d). t @ [d]) ts)"

definition token_ok :: "string \<Rightarrow> string \<times> char \<Rightarrow> bool" where
  "token_ok var td \<longleftrightarrow> no_sep (fst td) \<and> fst td \<noteq> [] \<and> header_sep (snd td) \<and> take (length var + 1) (fst td) \<noteq> var @ ''=''"

lemma header_find_tokens:
  assumes "list_all (token_ok var) ts" and "no_sep var" "nul \<notin> set var" and "S \<noteq> []"
    and "A = [] \<and> p0 = 0 \<or> p0 = length A \<or> A \<noteq> [] \<and> header_sep (last A) \<and> p0 \<le> length A"
  shows "header_find (A @ tokens_text ts @ var @ CHR ''='' # S @ B) var p0 (length (A @ tokens_text ts @ var @ CHR ''='' # S)) (length A)
    = length A + length (tokens_text ts)"
  using assms
proof (induction ts arbitrary: A)
  case Nil
  then show ?case using header_find_here [of A p0 S var B] by (auto simp: tokens_text_def)
next
  case (Cons td ts)
  obtain t d where td: "td = (t, d)" by force
  have ok: "no_sep t" "t \<noteq> []" "header_sep d" "take (length var + 1) t \<noteq> var @ ''=''"
    using Cons.prems(1) by (simp_all add: td token_ok_def)
  let ?S = "tokens_text ts @ var @ CHR ''='' # S"
  have "header_find (A @ t @ d # ?S @ B) var p0 (length (A @ t @ d # ?S)) (length A)
      = header_find (A @ t @ d # ?S @ B) var p0 (length (A @ t @ d # ?S)) (length A + length t + 1)"
    using ok Cons.prems by (intro header_find_token) auto
  also have "\<dots> = header_find ((A @ t @ [d]) @ ?S @ B) var p0 (length ((A @ t @ [d]) @ ?S)) (length (A @ t @ [d]))" by simp
  also have "\<dots> = length (A @ t @ [d]) + length (tokens_text ts)"
    using Cons.IH [of "A @ t @ [d]"] Cons.prems ok(3) by auto
  finally show ?case by (simp add: td tokens_text_def)
qed

context heap
begin

lemma var_found:
  assumes "list_all (token_ok var) ts" and "no_sep var" "nul \<notin> set var"
    and w: "plain w" "w \<noteq> []" and Z: "Z = [] \<or> header_sep (hd Z)"
    and V: "V = tokens_text ts @ var @ CHR ''='' # value_text quoted w @ Z"
    and st: "length (stack n) < 2 ^ 32"
  shows "header_var alloc addr stack (pre @ V @ post) (Some \<lparr>ms_p = Some (length pre), ms_len = length V\<rparr>) var n = Some w"
proof (rule header_var_found [where X = "tokens_text ts" and w = w and Z = Z and quoted = quoted and var = var and V = V and stack = stack and n = n, OF w Z V _ st])
  have "value_text quoted w @ Z \<noteq> []" using w(2) by (simp add: value_text_def)
  from header_find_tokens [OF assms(1-3) this, of pre "length pre" post]
  show "header_find (pre @ V @ post) var (length pre) (length pre + length V) (length pre) = length pre + length (tokens_text ts)"
    by (simp add: V)
qed

end

text \<open>The value of the header that a client sends, as tokens.\<close>

definition quoted :: "string \<Rightarrow> string \<Rightarrow> string" where
  "quoted k w = k @ ''='' @ value_text True w"

definition digest_tokens :: "string \<Rightarrow> string \<Rightarrow> string \<Rightarrow> string \<Rightarrow> string \<Rightarrow> (string \<times> char) list" where
  "digest_tokens u d r c n = [(''Digest'', CHR '' ''), (quoted ''username'' u, CHR '',''), (quoted ''realm'' d, CHR '',''),
     (quoted ''uri'' r, CHR '',''), (''qop=auth'', CHR '',''), (''nc=1'', CHR '',''), (''cnonce='' @ c, CHR '',''),
     (''nonce='' @ n, CHR '','')]"

definition digest_value :: "string \<Rightarrow> string \<Rightarrow> string \<Rightarrow> string \<Rightarrow> string \<Rightarrow> string \<Rightarrow> string" where
  "digest_value u d r c n p = tokens_text (digest_tokens u d r c n) @ ''response='' @ p"

lemma digest_header_value:
  "digest_auth_header stack now meth uri realm user passwd nonce = ''Authorization: '' @
     digest_value user realm uri (hex_digits now) nonce
       (mg_mkmd5resp stack meth uri (cs_md5 (stack 64) [user, '':'', realm, '':'', passwd]) nonce ''1'' (hex_digits now) ''auth'') @ CRLF"
  by (simp add: digest_auth_header_def digest_value_def digest_tokens_def tokens_text_def quoted_def value_text_def Let_def)

lemma plain_no_sep: "plain s \<Longrightarrow> no_sep s"
  by (simp add: plain_def no_sep_def)

lemma no_sep_append: "no_sep (a @ b) \<longleftrightarrow> no_sep a \<and> no_sep b" "no_sep (c # a) \<longleftrightarrow> \<not> header_sep c \<and> no_sep a" "no_sep []"
  by (auto simp: no_sep_def)

lemma digest_tokens_ok:
  assumes "plain u" "plain d" "plain r" "plain c" "plain n"
  shows "list_all (token_ok ''username'') (take 1 (digest_tokens u d r c n))"
    and "list_all (token_ok ''uri'') (take 3 (digest_tokens u d r c n))"
    and "list_all (token_ok ''qop'') (take 4 (digest_tokens u d r c n))"
    and "list_all (token_ok ''nc'') (take 5 (digest_tokens u d r c n))"
    and "list_all (token_ok ''cnonce'') (take 6 (digest_tokens u d r c n))"
    and "list_all (token_ok ''nonce'') (take 7 (digest_tokens u d r c n))"
    and "list_all (token_ok ''response'') (take 8 (digest_tokens u d r c n))"
  using assms [THEN plain_no_sep]
  by (simp_all add: digest_tokens_def token_ok_def quoted_def value_text_def no_sep_append header_sep_def)

context heap
begin

lemma digest_variables_found:
  assumes p: "plain u" "plain d" "plain r" "plain c" "plain n" "plain p"
    and ne: "u \<noteq> []" "r \<noteq> []" "c \<noteq> []" "n \<noteq> []" "p \<noteq> []"
    and st: "\<And>k. length (stack k) = k"
  shows "digest_variables alloc addr stack (pre @ digest_value u d r c n p @ post)
      (Some \<lparr>ms_p = Some (length pre), ms_len = length (digest_value u d r c n p)\<rparr>)
    = Some \<lparr>dv_username = u, dv_cnonce = c, dv_response = p, dv_uri = r, dv_qop = ''auth'', dv_nc = ''1'', dv_nonce = n\<rparr>"
proof -
  let ?V = "digest_value u d r c n p" and ?ts = "digest_tokens u d r c n"
  note ok = digest_tokens_ok [OF p(1-5)]
  have var: "header_var alloc addr stack (pre @ ?V @ post) (Some \<lparr>ms_p = Some (length pre), ms_len = length ?V\<rparr>) var k = Some w"
    if "list_all (token_ok var) (take i ?ts)" "no_sep var" "nul \<notin> set var" "plain w" "w \<noteq> []"
      "Z = [] \<or> header_sep (hd Z)" "?V = tokens_text (take i ?ts) @ var @ CHR ''='' # value_text q w @ Z" "k < 2 ^ 32"
    for var i w Z q k
    using var_found [OF that(1-7), of stack k pre post] that(8) st by simp
  have auth: "plain ''auth''" "plain ''1''" by (simp_all add: plain_def header_sep_def)
  note defs = digest_value_def digest_tokens_def tokens_text_def quoted_def value_text_def
  let ?Z = "\<lambda>i. CHR '','' # tokens_text (drop i ?ts) @ ''response='' @ p"
  let ?found = "\<lambda>var k w. header_var alloc addr stack (pre @ ?V @ post) (Some \<lparr>ms_p = Some (length pre), ms_len = length ?V\<rparr>) var k = Some w"
  have v_username: "?found ''username'' 50 u"
    by (rule var [OF ok(1) _ _ p(1) ne(1), where q = True and Z = "?Z 2"]) (simp_all add: defs no_sep_append header_sep_def)
  have v_cnonce: "?found ''cnonce'' 64 c"
    by (rule var [OF ok(5) _ _ p(4) ne(3), where q = False and Z = "?Z 7"]) (simp_all add: defs no_sep_append header_sep_def)
  have v_response: "?found ''response'' 40 p"
    by (rule var [OF ok(7) _ _ p(6) ne(5), where q = False and Z = "[]"]) (simp_all add: defs no_sep_append header_sep_def)
  have v_uri: "?found ''uri'' 200 r"
    by (rule var [OF ok(2) _ _ p(3) ne(2), where q = True and Z = "?Z 4"]) (simp_all add: defs no_sep_append header_sep_def)
  have v_qop: "?found ''qop'' 20 ''auth''"
    by (rule var [OF ok(3) _ _ auth(1) _, where q = False and Z = "?Z 5"]) (simp_all add: defs no_sep_append header_sep_def)
  have v_nc: "?found ''nc'' 20 ''1''"
    by (rule var [OF ok(4) _ _ auth(2) _, where q = False and Z = "?Z 6"]) (simp_all add: defs no_sep_append header_sep_def)
  have v_nonce: "?found ''nonce'' 16 n"
    by (rule var [OF ok(6) _ _ p(5) ne(4), where q = False and Z = "?Z 8"]) (simp_all add: defs no_sep_append header_sep_def)
  show ?thesis
    unfolding digest_variables_def Let_def v_username v_cnonce v_response v_uri v_qop v_nc v_nonce by simp
qed

end

section \<open>The password file\<close>

lemma takeWhile_upto: "c \<notin> set a \<Longrightarrow> takeWhile (\<lambda>x. x \<noteq> c) (a @ c # b) = a \<and> dropWhile (\<lambda>x. x \<noteq> c) (a @ c # b) = c # b"
  by (induction a) auto

lemma scan_entry_line:
  assumes "CHR '':'' \<notin> set u" "CHR '':'' \<notin> set d" "nul \<notin> set (u @ d @ h)" "\<forall>c \<in> set h. \<not> isspace c"
    and "u \<noteq> []" "d \<noteq> []" "h \<noteq> []"
  shows "scan_entry (u @ '':'' @ d @ '':'' @ h @ [newline]) = Some (u, d, h)"
proof -
  have c: "cstr (u @ '':'' @ d @ '':'' @ h @ [newline]) = u @ CHR '':'' # d @ CHR '':'' # h @ [newline]"
    using assms(3) by (subst cstr_id) auto
  have h: "dropWhile isspace (h @ [newline]) = h @ [newline]" "takeWhile (\<lambda>c. \<not> isspace c) (h @ [newline]) = h"
    using assms(4,7) by (cases h; simp add: takeWhile_append2)+
  show ?thesis
    unfolding scan_entry_def Let_def c
    using takeWhile_upto [OF assms(1), of "d @ CHR '':'' # h @ [newline]"] takeWhile_upto [OF assms(2), of "h @ [newline]"]
      assms(5-7) h by simp
qed

lemma hex_plain: "set s \<subseteq> set ''0123456789abcdef'' \<Longrightarrow> plain s \<and> (\<forall>c \<in> set s. \<not> isspace c) \<and> nul \<notin> set s \<and> map tolower s = s"
proof (induction s)
  case (Cons c s)
  have "\<forall>c \<in> set ''0123456789abcdef''. plain [c] \<and> \<not> isspace c \<and> nul \<noteq> c \<and> tolower c = c"
    by (simp add: plain_def header_sep_def isspace_def tolower_def)
  then show ?case using Cons by (auto simp: plain_def)
qed (simp add: plain_def)

lemma set_cs_md5: "set (cs_md5 junk ms) \<subseteq> set ''0123456789abcdef''"
  unfolding cs_md5_def by (rule set_cs_to_hex)

lemma set_snoc: "x \<in> S \<Longrightarrow> set [x] \<subseteq> S" "set a \<subseteq> S \<Longrightarrow> x \<in> S \<Longrightarrow> set (a @ [x]) \<subseteq> S"
  by simp_all

lemma set_hex_digits: "set (hex_digits n) \<subseteq> set ''0123456789abcdef''"
proof (induction n rule: hex_digits.induct)
  case (1 n)
  show ?case
  proof (cases "n < 16")
    case True
    then have "hex_digits n = [''0123456789abcdef'' ! n]" by (subst hex_digits.simps) (rule if_P)
    moreover have "''0123456789abcdef'' ! n \<in> set ''0123456789abcdef''" by (rule nth_mem) (use True in simp)
    ultimately show ?thesis by (metis set_snoc(1))
  next
    case False
    then have "hex_digits n = hex_digits (n div 16) @ [''0123456789abcdef'' ! (n mod 16)]"
      by (subst hex_digits.simps) (rule if_not_P)
    moreover have "''0123456789abcdef'' ! (n mod 16) \<in> set ''0123456789abcdef''" by (rule nth_mem) simp
    ultimately show ?thesis using 1 [OF False] by (metis set_snoc(2))
  qed
qed

lemma cs_md5_stack:
  assumes "length junk = 64" "length junk2 = 64" "list_all (\<lambda>s. length s < 2 ^ 31) ms"
  shows "cs_md5 junk ms = cs_md5 junk2 ms" "length (cs_md5 junk ms) = 32"
proof -
  have "list_all (\<lambda>s. length s < 2 ^ 32 - 64) ms" using assms(3) by (auto simp: list_all_iff)
  then show "cs_md5 junk ms = cs_md5 junk2 ms" "length (cs_md5 junk ms) = 32"
    using hash_md5_v_digest [of junk ms] hash_md5_v_digest [of junk2 ms] assms(1,2)
    by (simp_all add: cs_md5_def length_md5_digest)
qed

lemma mkmd5resp_stack:
  assumes "\<And>k. length (st k) = k" "\<And>k. length (st2 k) = k"
    and "list_all (\<lambda>s. length s < 2 ^ 31) [meth, uri, ha1, nonce, nc, cnonce, qop]"
  shows "mg_mkmd5resp st meth uri ha1 nonce nc cnonce qop = mg_mkmd5resp st2 meth uri ha1 nonce nc cnonce qop"
    "length (mg_mkmd5resp st meth uri ha1 nonce nc cnonce qop) = 32"
proof -
  have ha2: "cs_md5 (st 64) [meth, '':'', uri] = cs_md5 (st2 64) [meth, '':'', uri]" "length (cs_md5 (st 64) [meth, '':'', uri]) = 32"
    using assms cs_md5_stack [of "st 64" "st2 64" "[meth, '':'', uri]"] by simp_all
  show "mg_mkmd5resp st meth uri ha1 nonce nc cnonce qop = mg_mkmd5resp st2 meth uri ha1 nonce nc cnonce qop"
    "length (mg_mkmd5resp st meth uri ha1 nonce nc cnonce qop) = 32"
    unfolding mg_mkmd5resp_def Let_def ha2(1) [symmetric]
    using ha2(2) assms by (intro cs_md5_stack; simp)+
qed

lemma check_first_entry:
  assumes f: "fp = u @ '':'' @ d @ '':'' @ h @ newline # f" "newline \<notin> set (u @ d @ h)" "length u + length d + length h < 125"
    and e: "CHR '':'' \<notin> set u" "CHR '':'' \<notin> set d" "nul \<notin> set (u @ d @ h)" "\<forall>c \<in> set h. \<not> isspace c" "u \<noteq> []" "d \<noteq> []" "h \<noteq> []"
    and v: "dv_username v = u"
  shows "mg_check_digest_auth stack meth uri v d fp \<longleftrightarrow>
    mg_ncasecmp (dv_response v) (mg_mkmd5resp stack meth uri h (dv_nonce v) (dv_nc v) (dv_cnonce v) (dv_qop v))
      (length (mg_mkmd5resp stack meth uri h (dv_nonce v) (dv_nc v) (dv_cnonce v) (dv_qop v))) = 0"
proof -
  have "fgets_next 128 ((u @ '':'' @ d @ '':'' @ h) @ newline # f) = Some ((u @ '':'' @ d @ '':'' @ h) @ [newline], f)"
    using f(2,3) by (intro fgets_next_first) auto
  then have fg: "fgets_next 128 fp = Some (u @ '':'' @ d @ '':'' @ h @ [newline], f)" by (simp add: f(1))
  have "mg_vcmp u u = 0" "mg_vcmp d d = 0"
    using mg_vcmp_eq_0 [of u u] mg_vcmp_eq_0 [of d d] e(3) f(3) by simp_all
  then have "entry_matches v d (u @ '':'' @ d @ '':'' @ h @ [newline]) = Some (u, d, h)"
    unfolding entry_matches_def scan_entry_line [OF e] v by simp
  then show ?thesis unfolding mg_check_digest_auth.simps [of stack meth uri v d fp] fg by (simp add: Let_def)
qed

lemma mkmd5resp_hex: "set (mg_mkmd5resp stack meth uri ha1 nonce nc cnonce qop) \<subseteq> set ''0123456789abcdef''"
  unfolding mg_mkmd5resp_def Let_def by (rule set_cs_md5)

lemma hex_ncasecmp:
  assumes "set a \<subseteq> set ''0123456789abcdef''" "set b \<subseteq> set ''0123456789abcdef''" "length a = length b"
  shows "mg_ncasecmp a b (length b) = 0 \<longleftrightarrow> a = b"
  using mg_ncasecmp_eq_0 [of "length b" a b] hex_plain [OF assms(1)] hex_plain [OF assms(2)] assms(3) by simp

section \<open>Properties\<close>

text \<open>
  C31. What a client sends with \<open>mg_http_create_digest_auth_header\<close> is read back by a server: with an
  entry for its user and domain in front of the password file, the request is accepted exactly when
  the response that the client makes from its password is the one made from the entry's hash; so it
  is when that hash is of the password. The buffers may hold anything before, and may spill.
\<close>

theorem mg_digest_auth_accepts:
  fixes realm :: string
  assumes heap: "allocates alloc" "\<And>n. 0 < n \<Longrightarrow> alloc n \<noteq> None" "addr < 2 ^ 63"
    and st: "\<And>k. length (st k) = k" "\<And>k. length (st2 k) = k"
    and p: "plain user" "plain realm" "plain uri" "plain nonce" "user \<noteq> []" "realm \<noteq> []" "uri \<noteq> []" "nonce \<noteq> []"
    and entry: "set [CHR '':'', newline] \<inter> set (user @ realm) = {}" "length user + length realm < 93"
    and len: "list_all (\<lambda>s. length s < 2 ^ 31) [meth, uri, nonce, passwd, hex_digits now]"
    and header: "''Authorization: '' @ v @ CRLF = digest_auth_header st now meth uri realm user passwd nonce"
    and hm: "mg_get_http_header (pre @ v @ post) hm ''Authorization'' = Some \<lparr>ms_p = Some (length pre), ms_len = length v\<rparr>"
      "ms_text (pre @ v @ post) (hm_method hm) = meth" "ms_p (hm_uri hm) = Some i"
      "take (ms_len (hm_uri hm) + (if ms_len (hm_query_string hm) > 0 then ms_len (hm_query_string hm) + 1 else 0))
         (drop i (pre @ v @ post)) = uri"
    and now2: "mg_check_nonce now2 nonce"
    and ha1: "set ha1 \<subseteq> set ''0123456789abcdef''" "length ha1 = 32"
  shows "(mg_http_check_digest_auth alloc addr st2 now2 (pre @ v @ post) (Some hm) realm
            (Some (user @ '':'' @ realm @ '':'' @ ha1 @ newline # rest))
          \<longleftrightarrow> mg_mkmd5resp st meth uri (cs_md5 (st 64) [user, '':'', realm, '':'', passwd]) nonce ''1'' (hex_digits now) ''auth''
            = mg_mkmd5resp st meth uri ha1 nonce ''1'' (hex_digits now) ''auth'')
    \<and> (ha1 = cs_md5 (st2 64) [user, '':'', realm, '':'', passwd] \<longrightarrow>
         mg_http_check_digest_auth alloc addr st2 now2 (pre @ v @ post) (Some hm) realm
            (Some (user @ '':'' @ realm @ '':'' @ ha1 @ newline # rest)))"
proof -
  let ?c = "hex_digits now"
  let ?h = "cs_md5 (st 64) [user, '':'', realm, '':'', passwd]"
  let ?p = "mg_mkmd5resp st meth uri ?h nonce ''1'' ?c ''auth''" and ?q = "mg_mkmd5resp st meth uri ha1 nonce ''1'' ?c ''auth''"
  have v: "v = digest_value user realm uri ?c nonce ?p" using header unfolding digest_header_value by simp
  have lens: "length user < 2 ^ 31" "length realm < 2 ^ 31" using entry(2) by simp_all
  have h: "cs_md5 (st2 64) [user, '':'', realm, '':'', passwd] = ?h" "length ?h = 32"
    using cs_md5_stack [of "st 64" "st2 64" "[user, '':'', realm, '':'', passwd]"] st len lens by simp_all
  have resp: "length ?p = 32" "length ?q = 32" "mg_mkmd5resp st2 meth uri ha1 nonce ''1'' ?c ''auth'' = ?q"
    using mkmd5resp_stack [of st st2 meth uri ?h nonce "''1''" ?c "''auth''"]
      mkmd5resp_stack [of st st2 meth uri ha1 nonce "''1''" ?c "''auth''"] st len h(2) ha1(2) by simp_all
  note hex = mkmd5resp_hex [of st meth uri ?h nonce "''1''" ?c "''auth''"] mkmd5resp_hex [of st meth uri ha1 nonce "''1''" ?c "''auth''"]
  have plain: "plain ?c" "plain ?p" using hex_plain [OF set_hex_digits] hex_plain [OF hex(1)] by blast+
  have "?p \<noteq> []" using resp(1) by (metis length_0_conv zero_neq_numeral)
  let ?v = "\<lparr>dv_username = user, dv_cnonce = ?c, dv_response = ?p, dv_uri = uri, dv_qop = ''auth'', dv_nc = ''1'', dv_nonce = nonce\<rparr>"
  have vars: "digest_variables alloc addr st2 (pre @ v @ post) (Some \<lparr>ms_p = Some (length pre), ms_len = length v\<rparr>) = Some ?v"
    unfolding v
    by (rule heap.digest_variables_found [OF heap.intro [OF heap]]) (use p plain \<open>?p \<noteq> []\<close> hex_digits_nonempty st(2) in simp_all)
  let ?fp = "user @ '':'' @ realm @ '':'' @ ha1 @ newline # rest"
  have "mg_http_check_digest_auth alloc addr st2 now2 (pre @ v @ post) (Some hm) realm (Some ?fp)
      \<longleftrightarrow> mg_check_digest_auth st2 meth uri ?v realm ?fp"
    unfolding mg_http_check_digest_auth_def Let_def prod.case option.case hm mg_mk_str_n_def vars by (simp add: now2)
  also have "\<dots> \<longleftrightarrow> mg_ncasecmp ?p ?q (length ?q) = 0"
  proof -
    have hx: "\<forall>c \<in> set ha1. \<not> isspace c" "nul \<notin> set ha1" using hex_plain [OF ha1(1)] by simp_all
    then have "newline \<notin> set ha1" using isspace_newline by blast
    moreover have "newline \<notin> set user" "newline \<notin> set realm" "CHR '':'' \<notin> set user" "CHR '':'' \<notin> set realm"
      using entry(1) by auto
    moreover have "nul \<notin> set user" "nul \<notin> set realm" using p(1,2) unfolding plain_def by blast+
    ultimately have ok: "newline \<notin> set (user @ realm @ ha1)" "CHR '':'' \<notin> set user"
      "CHR '':'' \<notin> set realm" "nul \<notin> set (user @ realm @ ha1)" using hx(2) by simp_all
    have len2: "length user + length realm + length ha1 < 125" "ha1 \<noteq> []" using entry(2) ha1(2) by auto
    show ?thesis
      using check_first_entry [OF refl ok(1) len2(1) ok(2-4) hx(1) p(5,6) len2(2), of ?v st2 meth uri rest] resp(3) by simp
  qed
  also have "\<dots> \<longleftrightarrow> ?p = ?q" using hex resp by (intro hex_ncasecmp) simp_all
  finally have iff: "mg_http_check_digest_auth alloc addr st2 now2 (pre @ v @ post) (Some hm) realm (Some ?fp) \<longleftrightarrow> ?p = ?q" .
  show ?thesis by (rule conjI [OF iff]) (intro impI, subst iff, simp add: h(1))
qed

section \<open>Witness\<close>

definition auth_pre :: string where "auth_pre = ''GET /a HTTP/1.1'' @ CRLF @ ''Authorization: ''"

definition auth_stack :: "nat \<Rightarrow> string" where "auth_stack k = replicate k (CHR ''?'')"

definition auth_sample :: string where
  "auth_sample = digest_value ''bob'' ''gw'' ''/a'' (hex_digits 1000) ''64''
     (mg_mkmd5resp auth_stack ''GET'' ''/a'' (cs_md5 (auth_stack 64) [''bob'', '':'', ''gw'', '':'', ''pw'']) ''64'' ''1'' (hex_digits 1000) ''auth'')"

definition auth_message :: http_message where
  "auth_message = (http_message_init 0)\<lparr>hm_method := \<lparr>ms_p = Some 0, ms_len = 3\<rparr>, hm_uri := \<lparr>ms_p = Some 4, ms_len = 2\<rparr>,
     hm_query_string := mg_null_str,
     hm_headers := [(\<lparr>ms_p = Some 17, ms_len = 13\<rparr>, \<lparr>ms_p = Some (length auth_pre), ms_len = length auth_sample\<rparr>)]\<rparr>"

lemma mg_digest_auth_accepts_witness:
  "mg_http_check_digest_auth heap_calloc 4096 auth_stack 100 (auth_pre @ auth_sample @ CRLF) (Some auth_message) ''gw''
     (Some (''bob'' @ '':'' @ ''gw'' @ '':'' @ cs_md5 (auth_stack 64) [''bob'', '':'', ''gw'', '':'', ''pw''] @ newline # ''eve:gw:0''))"
proof -
  let ?ha1 = "cs_md5 (auth_stack 64) [''bob'', '':'', ''gw'', '':'', ''pw'']"
  have st: "length (auth_stack k) = k" for k by (simp add: auth_stack_def)
  have alloc: "allocates heap_calloc" "0 < n \<Longrightarrow> heap_calloc n \<noteq> None" for n
    by (simp_all add: heap_calloc_def allocates_def)
  have hex: "length (hex_digits 1000) < 2 ^ 31" using hex_digits_length [of 1000 4] by simp
  have header: "''Authorization: '' @ auth_sample @ CRLF = digest_auth_header auth_stack 1000 ''GET'' ''/a'' ''gw'' ''bob'' ''pw'' ''64''"
    unfolding digest_header_value auth_sample_def by (rule refl)
  have plain: "plain ''bob''" "plain ''gw''" "plain ''/a''" "plain ''64''" by (simp_all add: plain_def header_sep_def)
  have nonce: "mg_check_nonce 100 ''64''"
    by (simp add: mg_check_nonce_def strtoul16_def hex_val_def isxdigit_def fourbit_def byte_at_def isspace_def tolower_def Let_def)
  have len: "list_all (\<lambda>s. length s < 2 ^ 31) [''GET'', ''/a'', ''64'', ''pw'', hex_digits 1000]" using hex by simp
  have hm: "mg_get_http_header (auth_pre @ auth_sample @ CRLF) auth_message ''Authorization''
      = Some \<lparr>ms_p = Some (length auth_pre), ms_len = length auth_sample\<rparr>"
    "ms_text (auth_pre @ auth_sample @ CRLF) (hm_method auth_message) = ''GET''" "ms_p (hm_uri auth_message) = Some 4"
    "take (ms_len (hm_uri auth_message) + (if ms_len (hm_query_string auth_message) > 0 then ms_len (hm_query_string auth_message) + 1 else 0))
       (drop 4 (auth_pre @ auth_sample @ CRLF)) = ''/a''"
    by (simp_all add: mg_get_http_header_def auth_message_def http_message_init_def auth_pre_def ms_text_def substr_def mg_null_str_def)
  have disj: "set [CHR '':'', newline] \<inter> set (''bob'' @ ''gw'') = {}" "length ''bob'' + length ''gw'' < 93" by simp_all
  have ha1: "set ?ha1 \<subseteq> set ''0123456789abcdef''" "length ?ha1 = 32"
    using cs_md5_stack(2) [OF st st, of "[''bob'', '':'', ''gw'', '':'', ''pw'']"] set_cs_md5 by simp_all
  show ?thesis
    using mg_digest_auth_accepts [OF alloc _ st st plain _ _ _ _ disj len header hm nonce ha1, of 4096 "''eve:gw:0''"]
    by simp
qed

end
