(* ===== verification/Mg_Dns.thy ===== *)
theory Mg_Dns
  imports Mg_Base64
begin

text \<open>
  DNS messages of the embedded web server, \<open>src/src/mongoose.c\<close>: the encoder of names, records
  and queries, the parser of messages, and the decoder of compressed names. A connection made with
  a host name goes through them.

  A \<open>struct mg_str\<close> that points into the packet is an index into it and a length. Reads and
  writes that would leave the packet or the destination are the value \<open>None\<close>.
\<close>

unbundle bit_operations_syntax

section \<open>Records and messages\<close>

abbreviation (input) MG_DNS_A_RECORD :: nat where "MG_DNS_A_RECORD \<equiv> 1"
abbreviation (input) MG_DNS_CNAME_RECORD :: nat where "MG_DNS_CNAME_RECORD \<equiv> 5"
abbreviation (input) MG_MAX_DNS_QUESTIONS :: nat where "MG_MAX_DNS_QUESTIONS \<equiv> 32"
abbreviation (input) MG_MAX_DNS_ANSWERS :: nat where "MG_MAX_DNS_ANSWERS \<equiv> 32"

datatype mg_dns_resource_record_kind = MG_DNS_INVALID_RECORD | MG_DNS_QUESTION | MG_DNS_ANSWER

text \<open>Names and data are places in the packet; the data of a question is NULL.\<close>

record mg_dns_resource_record =
  rr_name :: "nat \<times> nat"
  rr_rtype :: nat
  rr_rclass :: nat
  rr_ttl :: int
  rr_kind :: mg_dns_resource_record_kind
  rr_rdata :: "(nat \<times> nat) option"

text \<open>Of the two arrays of a message, the entries that are in use.\<close>

record mg_dns_message =
  dm_pkt :: string
  dm_flags :: nat
  dm_transaction_id :: nat
  dm_num_questions :: nat
  dm_num_answers :: nat
  dm_questions :: "mg_dns_resource_record list"
  dm_answers :: "mg_dns_resource_record list"

definition dns_message0 :: mg_dns_message where
  "dns_message0 = \<lparr>dm_pkt = [], dm_flags = 0, dm_transaction_id = 0, dm_num_questions = 0,
     dm_num_answers = 0, dm_questions = [], dm_answers = []\<rparr>"

text \<open>\<open>mg_dns_next_record\<close>: the index of the next answer of a type, after \<open>prev\<close>.\<close>

definition mg_dns_next_record :: "mg_dns_message \<Rightarrow> nat \<Rightarrow> nat option \<Rightarrow> nat option" where
  "mg_dns_next_record msg query prev =
     List.find (\<lambda>i. rr_rtype (dm_answers msg ! i) = query)
       [(case prev of None \<Rightarrow> 0 | Some i \<Rightarrow> Suc i) ..< dm_num_answers msg]"

section \<open>Names\<close>

text \<open>
  \<open>mg_dns_uncompress_name\<close>: the loop reads \<open>data\<close>, having followed \<open>num_ptrs\<close> pointers and
  written \<open>dst\<close>; the result is the number returned and what has been written. The final NUL takes
  the place of the last dot.
\<close>

function mg_dns_uncompress_loop :: "string \<Rightarrow> nat \<Rightarrow> nat \<Rightarrow> nat \<Rightarrow> string \<Rightarrow> (nat \<times> string) option" where
  "mg_dns_uncompress_loop pkt dst_len num_ptrs data dst =
     (if \<not> data < length pkt then None
      else
        (let chunk_len = of_char (pkt ! data) :: nat; leeway = dst_len - length dst; data1 = data + 1
         in if chunk_len = 0 then
              (if dst \<noteq> [] then Some (length dst - 1, butlast dst @ [nul]) else Some (0, dst))
            else if data1 \<ge> length pkt then Some (0, dst)
            else if chunk_len AND 0xc0 = 0xc0 then
              (let off = push_bit 8 (chunk_len AND 0x3f) OR of_char (pkt ! data1)
               in if off \<ge> length pkt then Some (0, dst)
                  else if num_ptrs + 1 > 15 then Some (0, dst)
                  else mg_dns_uncompress_loop pkt dst_len (num_ptrs + 1) off dst)
            else if chunk_len > 63 then Some (0, dst)
            else
              (let n = (if chunk_len > leeway then leeway else chunk_len)
               in if data1 + n \<ge> length pkt then Some (0, dst)
                  else if length dst + n > dst_len then None
                  else if leeway - n = 0
                  then Some (length (dst @ take n (drop data1 pkt)), dst @ take n (drop data1 pkt))
                  else if length dst + n \<ge> dst_len then None
                  else mg_dns_uncompress_loop pkt dst_len num_ptrs (data1 + n)
                         (dst @ take n (drop data1 pkt) @ ''.''))))"
  by pat_completeness auto
termination
  by (relation "measures [\<lambda>(pkt, dst_len, num_ptrs, data, dst). 16 - num_ptrs,
        \<lambda>(pkt, dst_len, num_ptrs, data, dst). length pkt - data]") auto

declare mg_dns_uncompress_loop.simps [simp del]

definition mg_dns_uncompress_name :: "string \<Rightarrow> nat \<Rightarrow> nat \<Rightarrow> (nat \<times> string) option" where
  "mg_dns_uncompress_name pkt name dst_len =
     (if name \<ge> length pkt then Some (0, []) else mg_dns_uncompress_loop pkt dst_len 0 name [])"

text \<open>
  \<open>mg_dns_parse_record_data\<close>, without IPv6: what it returns and what it has written to \<open>data\<close>.
\<close>

definition mg_dns_parse_record_data ::
    "mg_dns_message \<Rightarrow> mg_dns_resource_record \<Rightarrow> nat \<Rightarrow> (int \<times> string) option" where
  "mg_dns_parse_record_data msg rr data_len =
     (if rr_rtype rr = MG_DNS_A_RECORD then
        (if data_len < 4 then Some (- 1, [])
         else (case rr_rdata rr of
                 None \<Rightarrow> None
               | Some (p, _) \<Rightarrow>
                   if p + data_len > length (dm_pkt msg) then Some (- 1, [])
                   else Some (0, take data_len (drop p (dm_pkt msg)))))
      else if rr_rtype rr = MG_DNS_CNAME_RECORD then
        (case rr_rdata rr of
           None \<Rightarrow> None
         | Some (p, _) \<Rightarrow> map_option (\<lambda>r. (0, snd r)) (mg_dns_uncompress_name (dm_pkt msg) p data_len))
      else Some (- 1, []))"

section \<open>Writing\<close>

text \<open>The header of twelve bytes; the identification is stored as the machine has it.\<close>

definition dns_header_bytes :: "mg_dns_message \<Rightarrow> string" where
  "dns_header_bytes msg = le_bytes 2 (dm_transaction_id msg) @ be_bytes 2 (dm_flags msg)
     @ be_bytes 2 (dm_num_questions msg) @ be_bytes 2 (dm_num_answers msg) @ replicate 4 nul"

definition mg_dns_insert_header :: "allocator \<Rightarrow> nat \<Rightarrow> mbuf \<Rightarrow> nat \<Rightarrow> mg_dns_message \<Rightarrow> nat \<times> mbuf" where
  "mg_dns_insert_header alloc addr io pos msg = mbuf_insert alloc addr io pos (Some (dns_header_bytes msg)) 12"

definition mg_dns_copy_questions :: "allocator \<Rightarrow> nat \<Rightarrow> mbuf \<Rightarrow> mg_dns_message \<Rightarrow> nat \<times> mbuf" where
  "mg_dns_copy_questions alloc addr io msg =
     (if dm_num_questions msg = 0 then (0, io)
      else
        (let (p, len) = rr_name (dm_questions msg ! (dm_num_questions msg - 1));
             bytes = take (p + len + 4 - 12) (drop 12 (dm_pkt msg))
         in mbuf_append alloc addr io (Some bytes) (p + len + 4 - 12)))"

text \<open>\<open>mg_dns_encode_name_s\<close>: false when a label is too long; the labels before it are written.\<close>

function mg_dns_encode_labels :: "allocator \<Rightarrow> nat \<Rightarrow> mbuf \<Rightarrow> string \<Rightarrow> bool \<times> mbuf" where
  "mg_dns_encode_labels alloc addr io name =
     (let s = (case mg_strchr name (CHR ''.'') of None \<Rightarrow> length name | Some i \<Rightarrow> i)
      in if s > 127 then (False, io)
         else
           (let io1 = mbuf_put alloc addr (take s name) (mbuf_put alloc addr [char_of s] io);
                n = (if s < length name \<and> name ! s = CHR ''.'' then s + 1 else s);
                rest = drop n name
            in if rest \<noteq> [] then mg_dns_encode_labels alloc addr io1 rest
               else (True, mbuf_put alloc addr [nul] io1)))"
  by pat_completeness auto
termination
  by (relation "measure (\<lambda>(alloc, addr, io, name). length name)")
     (auto split: option.splits if_splits dest: mg_strchr_less)

declare mg_dns_encode_labels.simps [simp del]

definition mg_dns_encode_name_s :: "allocator \<Rightarrow> nat \<Rightarrow> mbuf \<Rightarrow> string \<Rightarrow> int \<times> mbuf" where
  "mg_dns_encode_name_s alloc addr io name =
     (let (ok, io1) = mg_dns_encode_labels alloc addr io name
      in if ok then (int (mb_len io1) - int (mb_len io), io1) else (- 1, io1))"

definition mg_dns_encode_name :: "allocator \<Rightarrow> nat \<Rightarrow> mbuf \<Rightarrow> string \<Rightarrow> nat \<Rightarrow> int \<times> mbuf" where
  "mg_dns_encode_name alloc addr io name len = mg_dns_encode_name_s alloc addr io (mg_mk_str_n name len)"

text \<open>
  \<open>mg_dns_encode_record\<close>. The size of an encoded name is stored afterwards, over two bytes that
  were appended to hold its place.
\<close>

definition mg_dns_encode_record ::
    "allocator \<Rightarrow> nat \<Rightarrow> mbuf \<Rightarrow> mg_dns_resource_record \<Rightarrow> string \<Rightarrow> nat \<Rightarrow> string \<Rightarrow> nat \<Rightarrow> int \<times> mbuf" where
  "mg_dns_encode_record alloc addr io rr name nlen rdata rlen =
     (if rr_kind rr = MG_DNS_INVALID_RECORD then (- 1, io)
      else
        (let (r, io1) = mg_dns_encode_name alloc addr io name nlen
         in if r = - 1 then (- 1, io1)
            else
              (let io2 = mbuf_put alloc addr (be_bytes 2 (rr_rclass rr))
                           (mbuf_put alloc addr (be_bytes 2 (rr_rtype rr)) io1)
               in if rr_kind rr \<noteq> MG_DNS_ANSWER then (int (mb_len io2) - int (mb_len io), io2)
                  else
                    (let io3 = mbuf_put alloc addr (be_bytes 4 (unat (word_of_int (rr_ttl rr) :: 32 word))) io2
                     in if rr_rtype rr = MG_DNS_CNAME_RECORD then
                          (let at = mb_len io3;
                               io4 = mbuf_put alloc addr (be_bytes 2 (rr_rclass rr)) io3;
                               (clen, io5) = mg_dns_encode_name alloc addr io4 rdata rlen
                           in if clen = - 1 then (- 1, io5)
                              else
                                (let io6 = io5\<lparr>mb_buf := mem_put (mb_buf io5) at (be_bytes 2 (nat clen))\<rparr>
                                 in (int (mb_len io6) - int (mb_len io), io6)))
                        else
                          (let io4 = mbuf_put alloc addr (take rlen rdata)
                                       (mbuf_put alloc addr (be_bytes 2 rlen) io3)
                           in (int (mb_len io4) - int (mb_len io), io4))))))"

text \<open>
  \<open>mg_send_dns_query\<close>: what is sent, if anything, and the counter of transactions after it. The
  message itself is an allocation of fixed size, which is taken to succeed.
\<close>

definition mg_send_dns_query :: "allocator \<Rightarrow> nat \<Rightarrow> bool \<Rightarrow> nat \<Rightarrow> string \<Rightarrow> nat \<Rightarrow> string option \<times> nat" where
  "mg_send_dns_query alloc addr udp mg_dns_tid name query_type =
     (let tid = mg_dns_tid + 1;
          pkt = mbuf_init alloc 64;
          msg = dns_message0\<lparr>dm_transaction_id := tid mod 2 ^ 16, dm_flags := 0x100, dm_num_questions := 1\<rparr>;
          pkt1 = snd (mg_dns_insert_header alloc addr pkt 0 msg);
          rr = \<lparr>rr_name = (0, 0), rr_rtype = query_type, rr_rclass = 1, rr_ttl = 0,
                rr_kind = MG_DNS_QUESTION, rr_rdata = None\<rparr>;
          (r, pkt2) = mg_dns_encode_record alloc addr pkt1 rr (cstr name) (length (cstr name)) [] 0
      in if r = - 1 then (None, tid)
         else if udp then (Some (mb_text pkt2), tid)
         else (Some (mb_text (snd (mbuf_insert alloc addr pkt2 0 (Some (be_bytes 2 (mb_len pkt2))) 2))), tid))"

section \<open>Parsing\<close>

text \<open>Past a name: the index of its last byte.\<close>

function mg_dns_skip_name :: "string \<Rightarrow> nat \<Rightarrow> nat" where
  "mg_dns_skip_name pkt data =
     (if data < length pkt \<and> of_char (pkt ! data) \<noteq> (0 :: nat) then
        (let chunk_len = of_char (pkt ! data) :: nat
         in if chunk_len AND 0xc0 \<noteq> 0 then data + 1 else mg_dns_skip_name pkt (data + chunk_len + 1))
      else data)"
  by pat_completeness auto
termination
  by (relation "measure (\<lambda>(pkt, data). length pkt - data)") auto

declare mg_dns_skip_name.simps [simp del]

definition mg_parse_dns_resource_record ::
    "string \<Rightarrow> nat \<Rightarrow> bool \<Rightarrow> (nat \<times> mg_dns_resource_record) option" where
  "mg_parse_dns_resource_record pkt name reply =
     (let data = mg_dns_skip_name pkt name
      in if data + 5 > length pkt then None
         else
           (let rr = \<lparr>rr_name = (name, data - name + 1),
                  rr_rtype = be_value (take 2 (drop (data + 1) pkt)),
                  rr_rclass = be_value (take 2 (drop (data + 3) pkt)), rr_ttl = 0,
                  rr_kind = (if reply then MG_DNS_ANSWER else MG_DNS_QUESTION), rr_rdata = None\<rparr>;
                data1 = data + 5
            in if \<not> reply then Some (data1, rr)
               else if data1 + 6 \<ge> length pkt then None
               else
                 (let data_len = be_value (take 2 (drop (data1 + 4) pkt))
                  in Some (data1 + 6 + data_len,
                       rr\<lparr>rr_ttl := sint (word_of_nat (be_value (take 4 (drop data1 pkt))) :: 32 word),
                          rr_rdata := Some (data1 + 6, data_len)\<rparr>))))"

fun mg_parse_dns_records :: "string \<Rightarrow> bool \<Rightarrow> nat \<Rightarrow> nat \<Rightarrow> (nat \<times> mg_dns_resource_record list) option" where
  "mg_parse_dns_records pkt reply 0 data = Some (data, [])"
| "mg_parse_dns_records pkt reply (Suc i) data =
     (case mg_parse_dns_resource_record pkt data reply of
        None \<Rightarrow> None
      | Some (data1, rr) \<Rightarrow>
          map_option (apsnd ((#) rr)) (mg_parse_dns_records pkt reply i data1))"

text \<open>\<open>mg_parse_dns\<close>: no message when it returns \<open>- 1\<close>.\<close>

definition mg_parse_dns :: "string \<Rightarrow> mg_dns_message option" where
  "mg_parse_dns buf =
     (if length buf < 12 then None
      else
        (let msg = dns_message0\<lparr>dm_pkt := buf, dm_transaction_id := be_value (rev (take 2 buf)),
               dm_flags := be_value (take 2 (drop 2 buf)),
               dm_num_questions := min (be_value (take 2 (drop 4 buf))) MG_MAX_DNS_QUESTIONS,
               dm_num_answers := min (be_value (take 2 (drop 6 buf))) MG_MAX_DNS_ANSWERS\<rparr>
         in case mg_parse_dns_records buf False (dm_num_questions msg) 12 of
              None \<Rightarrow> None
            | Some (data, questions) \<Rightarrow>
                (case mg_parse_dns_records buf True (dm_num_answers msg) data of
                   None \<Rightarrow> None
                 | Some (_, answers) \<Rightarrow> Some (msg\<lparr>dm_questions := questions, dm_answers := answers\<rparr>))))"

section \<open>A connection that speaks DNS\<close>

record dns_conn =
  dc_udp :: bool
  dc_recv :: mbuf
  dc_sent :: "string list"

datatype dns_event = Dns_Recv | Dns_Other | Dns_Message mg_dns_message

text \<open>\<open>dns_handler\<close>, with the handler of the user, which may change the connection.\<close>

definition dns_handler ::
    "allocator \<Rightarrow> nat \<Rightarrow> (dns_event \<Rightarrow> dns_conn \<Rightarrow> dns_conn) \<Rightarrow> dns_event \<Rightarrow> dns_conn \<Rightarrow> dns_conn" where
  "dns_handler alloc addr user ev nc =
     (let nc0 = user ev nc
      in if ev \<noteq> Dns_Recv then nc0
         else
           (let nc1 = (if \<not> dc_udp nc0 then nc0\<lparr>dc_recv := mbuf_remove (dc_recv nc0) 2\<rparr> else nc0);
                nc2 =
                  (case mg_parse_dns (mb_text (dc_recv nc1)) of
                     None \<Rightarrow>
                       (let io = snd (mg_dns_insert_header alloc addr (dc_recv nc1) 0 (dns_message0\<lparr>dm_flags := 0x8081\<rparr>));
                            io1 = (if \<not> dc_udp nc1
                                   then snd (mbuf_insert alloc addr io 0 (Some (be_bytes 2 (mb_len io))) 2) else io)
                        in nc1\<lparr>dc_recv := io1, dc_sent := dc_sent nc1 @ [mb_text io1]\<rparr>)
                   | Some msg \<Rightarrow> user (Dns_Message msg) nc1)
            in nc2\<lparr>dc_recv := mbuf_remove (dc_recv nc2) (mb_len (dc_recv nc2))\<rparr>))"

section \<open>Compressed names\<close>

text \<open>
  The names of RFC 1035, section 4.1.4: at \<open>off\<close> a packet has the labels \<open>ls\<close>, and reading
  them follows so many pointers.
\<close>

inductive dns_name :: "string \<Rightarrow> nat \<Rightarrow> nat \<Rightarrow> string list \<Rightarrow> bool" for pkt :: string where
  root: "off < length pkt \<Longrightarrow> pkt ! off = nul \<Longrightarrow> dns_name pkt 0 off []"
| label: "off < length pkt \<Longrightarrow> of_char (pkt ! off) = n \<Longrightarrow> 0 < n \<Longrightarrow> n \<le> 63
    \<Longrightarrow> dns_name pkt k (off + 1 + n) ls \<Longrightarrow> dns_name pkt k off (take n (drop (off + 1) pkt) # ls)"
| pointer: "off + 1 < length pkt \<Longrightarrow> of_char (pkt ! off) = c \<Longrightarrow> 192 \<le> c
    \<Longrightarrow> dns_name pkt k ((c - 192) * 256 + of_char (pkt ! (off + 1))) ls \<Longrightarrow> dns_name pkt (Suc k) off ls"

definition dotted :: "string list \<Rightarrow> string" where
  "dotted ls = concat (map (\<lambda>l. l @ ''.'') ls)"

text \<open>The text of a name, the labels with dots between them.\<close>

definition dns_text :: "string list \<Rightarrow> string" where
  "dns_text ls = butlast (dotted ls)"

definition dns_finish :: "string \<Rightarrow> nat \<times> string" where
  "dns_finish d = (if d \<noteq> [] then (length d - 1, butlast d @ [nul]) else (0, d))"

lemma dotted_simps [simp]: "dotted [] = []" "dotted (l # ls) = l @ ''.'' @ dotted ls"
  by (simp_all add: dotted_def)

lemma top_bits:
  assumes "c < 256"
  shows "c AND 0xc0 = 0xc0 \<longleftrightarrow> 192 \<le> (c :: nat)" and "c AND 0xc0 \<noteq> 0 \<longleftrightarrow> 63 < c"
    and "192 \<le> c \<Longrightarrow> push_bit 8 (c AND 0x3f) = (c - 192) * 256"
proof -
  have "\<forall>c \<in> set [0 ..< 256]. (c AND 0xc0 = 0xc0 \<longleftrightarrow> 192 \<le> c) \<and> (c AND 0xc0 \<noteq> 0 \<longleftrightarrow> 63 < c)
      \<and> (192 \<le> c \<longrightarrow> push_bit 8 (c AND 0x3f) = (c - 192) * (256 :: nat))" by code_simp
  moreover have "c \<in> set [0 ..< 256]" using assms by simp
  ultimately have "(c AND 0xc0 = 0xc0 \<longleftrightarrow> 192 \<le> c) \<and> (c AND 0xc0 \<noteq> 0 \<longleftrightarrow> 63 < c)
      \<and> (192 \<le> c \<longrightarrow> push_bit 8 (c AND 0x3f) = (c - 192) * (256 :: nat))" by (rule bspec)
  then show "c AND 0xc0 = 0xc0 \<longleftrightarrow> 192 \<le> (c :: nat)" "c AND 0xc0 \<noteq> 0 \<longleftrightarrow> 63 < c"
    "192 \<le> c \<Longrightarrow> push_bit 8 (c AND 0x3f) = (c - 192) * 256" by blast+
qed

lemma dns_offset: "192 \<le> c \<Longrightarrow> c < 256 \<Longrightarrow> d < 256
    \<Longrightarrow> push_bit 8 (c AND 0x3f) OR d = (c - 192) * 256 + (d :: nat)"
  using push_or [of d 8 "c AND 0x3f"] top_bits(3) [of c] by (simp only: push_bit_eq_mult) simp

lemma char_0_nul: "of_char c = (0 :: nat) \<longleftrightarrow> c = nul"
proof -
  have "of_char nul = (0 :: nat)" by simp
  then show ?thesis using of_char_eq_iff [of c nul, where 'a = nat] by (simp only:)
qed

text \<open>One turn of the loop, for each kind of byte.\<close>

lemma uncompress_root: "data < length pkt \<Longrightarrow> pkt ! data = nul
    \<Longrightarrow> mg_dns_uncompress_loop pkt m j data dst = Some (dns_finish dst)"
  by (subst mg_dns_uncompress_loop.simps) (simp add: dns_finish_def)

lemma uncompress_pointer:
  assumes "data + 1 < length pkt" and "of_char (pkt ! data) = c" and "192 \<le> c"
  shows "mg_dns_uncompress_loop pkt m j data dst =
    (let off = (c - 192) * 256 + of_char (pkt ! (data + 1))
     in if off \<ge> length pkt \<or> j \<ge> 15 then Some (0, dst) else mg_dns_uncompress_loop pkt m (j + 1) off dst)"
proof -
  have c: "c < 256" using nat_of_char_less_256 [of "pkt ! data"] assms(2) by simp
  have off: "push_bit 8 (c AND 0x3f) OR of_char (pkt ! (data + 1)) = (c - 192) * 256 + of_char (pkt ! (data + 1))"
    using assms(3) c by (intro dns_offset) (simp_all add: nat_of_char_less_256)
  have "c \<noteq> 0" using assms(3) by simp
  then show ?thesis
    using assms c by (subst mg_dns_uncompress_loop.simps) (simp add: top_bits(1) off [simplified] Let_def)
qed

lemma uncompress_label:
  assumes "data < length pkt" and "of_char (pkt ! data) = c" and "0 < c" and "c \<le> 63" and "length dst \<le> m"
  shows "mg_dns_uncompress_loop pkt m j data dst =
    (let n = min c (m - length dst); dst1 = dst @ take n (drop (data + 1) pkt)
     in if data + 1 + n \<ge> length pkt then Some (0, dst)
        else if length dst + n = m then Some (length dst1, dst1)
        else mg_dns_uncompress_loop pkt m j (data + 1 + n) (dst1 @ ''.''))"
proof -
  have c: "c < 256" "\<not> c AND 0xc0 = 0xc0" using assms(4) top_bits(1) [of c] by simp_all
  have n: "(if c > m - length dst then m - length dst else c) = min c (m - length dst)" by simp
  show ?thesis
  proof (cases "data + 1 \<ge> length pkt")
    case True
    then show ?thesis using assms by (subst mg_dns_uncompress_loop.simps) (simp add: Let_def)
  next
    case False
    then show ?thesis using assms c
      by (subst mg_dns_uncompress_loop.simps) (auto simp: Let_def n min_def)
  qed
qed

lemma uncompress_reserved:
  assumes "data < length pkt" and "of_char (pkt ! data) = (c :: nat)" and "63 < c" and "c < 192 \<or> data + 1 \<ge> length pkt"
  shows "mg_dns_uncompress_loop pkt m j data dst = Some (0, dst)"
proof -
  have "c < 256" using nat_of_char_less_256 [of "pkt ! data"] assms(2) by simp
  then show ?thesis
    using assms by (subst mg_dns_uncompress_loop.simps) (auto simp: top_bits(1) Let_def)
qed


text \<open>A name of at most fifteen pointers is written out when there is room for it.\<close>

lemma uncompress_name:
  assumes "dns_name pkt k off ls" and "j + k \<le> 15" and "length (dst @ dotted ls) \<le> m"
  shows "mg_dns_uncompress_loop pkt m j off dst = Some (dns_finish (dst @ dotted ls))"
  using assms
proof (induction arbitrary: j dst rule: dns_name.induct)
  case (root off)
  then show ?case by (simp add: uncompress_root)
next
  case (label off n k ls)
  have next_ok: "off + 1 + n < length pkt" using label.hyps(5) by (cases) simp_all
  have t: "length (take n (drop (off + 1) pkt)) = n" using next_ok by simp
  have room: "length dst + n < m" using label.prems(2) t by simp
  then have n: "min n (m - length dst) = n" by simp
  show ?case
    unfolding uncompress_label [OF label.hyps(1-4) less_imp_le [OF le_less_trans [OF le_add1 room]]] Let_def n
    using label.IH [of j "(dst @ take n (drop (off + 1) pkt)) @ ''.''"] label.prems next_ok room by simp
next
  case (pointer off c k ls)
  let ?off = "(c - 192) * 256 + of_char (pkt ! (off + 1))"
  have "?off < length pkt" using pointer.hyps(4) by (cases) simp_all
  then show ?case
    unfolding uncompress_pointer [OF pointer.hyps(1-3)] Let_def
    using pointer.IH [of "j + 1" dst] pointer.prems by simp
qed

text \<open>What gets smaller in the loop, on the next label and on a pointer.\<close>

definition hops_left :: "nat \<Rightarrow> nat \<Rightarrow> nat \<Rightarrow> nat" where
  "hops_left l j off = (16 - j) * (l + 1) + (l - off)"

lemma hops_left_label: "off < l \<Longrightarrow> off < off1 \<Longrightarrow> hops_left l j off1 < hops_left l j off"
  by (simp add: hops_left_def diff_less_mono2)

lemma hops_left_pointer: "j < 15 \<Longrightarrow> hops_left l (j + 1) off1 < hops_left l j off"
proof -
  assume "j < 15"
  then have "16 - j = Suc (16 - (j + 1))" by simp
  then show ?thesis unfolding hops_left_def by simp
qed

text \<open>Conversely, what is returned, short of a full destination, was such a name.\<close>

lemma uncompress_result:
  assumes "length dst \<le> m" and "mg_dns_uncompress_loop pkt m j off dst = Some (n, d)" and "0 < n" and "n < m"
    and "j \<le> 15" and "off < length pkt"
  shows "\<exists>k ls. dns_name pkt k off ls \<and> j + k \<le> 15 \<and> (n, d) = dns_finish (dst @ dotted ls)"
  using assms
proof (induction "hops_left (length pkt) j off" arbitrary: j off dst rule: less_induct)
  case less
  let ?c = "of_char (pkt ! off) :: nat"
  consider "?c = 0" | "0 < ?c" "?c \<le> 63" | "63 < ?c" "?c < 192 \<or> off + 1 \<ge> length pkt" | "192 \<le> ?c" "off + 1 < length pkt"
    by linarith
  then show ?case
  proof cases
    case 1
    then have z: "pkt ! off = nul" by (simp only: char_0_nul)
    then have "(n, d) = dns_finish (dst @ dotted [])"
      using uncompress_root [OF less.prems(6) z] less.prems(2) by simp
    then show ?thesis using dns_name.root [OF less.prems(6) z] less.prems(5) by (intro exI [of _ 0] exI [of _ "[]"]) simp
  next
    case 2
    let ?k = "min ?c (m - length dst)" and ?l = "take ?c (drop (off + 1) pkt)"
    note label = uncompress_label [OF less.prems(6) refl 2 less.prems(1), of j, unfolded Let_def]
    have in_pkt: "off + 1 + ?k < length pkt" using less.prems(2,3) label by (simp split: if_splits)
    have more: "length dst + ?k \<noteq> m"
      using less.prems(2,4) label in_pkt by (auto split: if_splits)
    then have k: "?k = ?c" using less.prems(1) by linarith
    have fit: "length dst + ?c < m" using k more less.prems(1) min.cobounded2 [of ?c "m - length dst"] by linarith
    have len: "length ?l = ?c" using in_pkt unfolding k by simp
    have "mg_dns_uncompress_loop pkt m j (off + 1 + ?c) (dst @ ?l @ ''.'') = Some (n, d)"
      using label in_pkt more less.prems(2) unfolding k by simp
    then obtain h ls where ls: "dns_name pkt h (off + 1 + ?c) ls" "j + h \<le> 15" "(n, d) = dns_finish ((dst @ ?l @ ''.'') @ dotted ls)"
      using less.hyps [OF hops_left_label [OF less.prems(6), of "off + 1 + ?c"], of "dst @ ?l @ ''.''"]
        less.prems in_pkt fit len unfolding k by auto
    show ?thesis
      using dns_name.label [OF less.prems(6) refl 2 ls(1)] ls(2,3) by (intro exI [of _ h] exI [of _ "?l # ls"]) simp
  next
    case 3
    then have "mg_dns_uncompress_loop pkt m j off dst = Some (0, dst)" by (intro uncompress_reserved [OF less.prems(6) refl])
    then show ?thesis using less.prems(2,3) by simp
  next
    case 4
    let ?off = "(?c - 192) * 256 + of_char (pkt ! (off + 1))"
    note pointer = uncompress_pointer [OF 4(2) refl 4(1), of m j dst, unfolded Let_def]
    have ok: "?off < length pkt" "j + 1 \<le> 15" "mg_dns_uncompress_loop pkt m (j + 1) ?off dst = Some (n, d)"
      using pointer less.prems(2,3) by (auto split: if_splits)
    obtain h ls where ls: "dns_name pkt h ?off ls" "j + 1 + h \<le> 15" "(n, d) = dns_finish (dst @ dotted ls)"
      using less.hyps [OF hops_left_pointer less.prems(1) ok(3) less.prems(3,4) ok(2,1)] ok(2) by auto
    show ?thesis
      using dns_name.pointer [OF 4(2) refl 4(1) ls(1)] ls(2,3) by (intro exI [of _ "Suc h"] exI [of _ ls]) simp
  qed
qed

text \<open>No read and no write goes outside, from anywhere in the packet.\<close>

lemma uncompress_inside:
  assumes "length dst \<le> m" and "j \<le> 15" and "off < length pkt"
  shows "\<exists>n d. mg_dns_uncompress_loop pkt m j off dst = Some (n, d) \<and> length d \<le> m \<and> n \<le> length d"
  using assms
proof (induction "hops_left (length pkt) j off" arbitrary: j off dst rule: less_induct)
  case less
  let ?c = "of_char (pkt ! off) :: nat"
  consider "?c = 0" | "0 < ?c" "?c \<le> 63" | "63 < ?c" "?c < 192 \<or> off + 1 \<ge> length pkt" | "192 \<le> ?c" "off + 1 < length pkt"
    by linarith
  then show ?case
  proof cases
    case 1
    then have z: "pkt ! off = nul" by (simp only: char_0_nul)
    show ?thesis unfolding uncompress_root [OF less.prems(3) z] using less.prems(1) by (auto simp: dns_finish_def)
  next
    case 2
    let ?k = "min ?c (m - length dst)"
    note label = uncompress_label [OF less.prems(3) refl 2 less.prems(1), of j, unfolded Let_def]
    have "\<exists>n d. mg_dns_uncompress_loop pkt m j (off + 1 + ?k) ((dst @ take ?k (drop (off + 1) pkt)) @ ''.'') = Some (n, d)
        \<and> length d \<le> m \<and> n \<le> length d"
      if "off + 1 + ?k < length pkt" "length dst + ?k \<noteq> m"
      using that less.prems by (intro less.hyps [OF hops_left_label]) auto
    then show ?thesis unfolding label using less.prems(1) by auto
  next
    case 3
    then have "mg_dns_uncompress_loop pkt m j off dst = Some (0, dst)" by (intro uncompress_reserved [OF less.prems(3) refl])
    then show ?thesis using less.prems(1) by simp
  next
    case 4
    let ?off = "(?c - 192) * 256 + of_char (pkt ! (off + 1))"
    note pointer = uncompress_pointer [OF 4(2) refl 4(1), of m j dst, unfolded Let_def]
    show ?thesis
    proof (cases "?off \<ge> length pkt \<or> j \<ge> 15")
      case True
      then show ?thesis unfolding pointer using less.prems(1) by simp
    next
      case False
      then have j: "j < 15" "j + 1 \<le> 15" "?off < length pkt" by simp_all
      show ?thesis
        unfolding pointer if_not_P [OF False] by (rule less.hyps [OF hops_left_pointer [OF j(1)] less.prems(1) j(2,3)])
    qed
  qed
qed


lemma dotted_empty: "dotted ls = [] \<longleftrightarrow> ls = []"
  by (cases ls) simp_all

lemma dns_name_text: "dns_name pkt k off ls \<Longrightarrow> ls \<noteq> [] \<Longrightarrow> dns_text ls \<noteq> []"
proof (induction rule: dns_name.induct)
  case (label off n k ls)
  have "off + 1 + n < length pkt" using label.hyps(5) by cases simp_all
  then have "take n (drop (off + 1) pkt) \<noteq> []" using label.hyps(3) by simp
  then show ?case by (simp add: dns_text_def butlast_append)
qed simp_all

lemma uncompress_name_inside:
  "\<exists>n d. mg_dns_uncompress_name pkt name dst_len = Some (n, d) \<and> length d \<le> dst_len \<and> n \<le> length d"
  using uncompress_inside [of "[]" dst_len 0 name pkt] by (simp add: mg_dns_uncompress_name_def)

section \<open>What is written\<close>

text \<open>The encoding of a name, without pointers.\<close>

definition dns_wire :: "string list \<Rightarrow> string" where
  "dns_wire ls = concat (map (\<lambda>l. char_of (length l) # l) ls) @ [nul]"

definition label_ok :: "string \<Rightarrow> bool" where
  "label_ok l \<longleftrightarrow> l \<noteq> [] \<and> length l \<le> 63 \<and> CHR ''.'' \<notin> set l"

lemma dns_wire_simps [simp]: "dns_wire [] = [nul]" "dns_wire (l # ls) = char_of (length l) # l @ dns_wire ls"
  by (simp_all add: dns_wire_def)

lemma dns_text_Cons: "dns_text (l # ls) = (if ls = [] then l else l @ ''.'' @ dns_text ls)"
  by (cases ls) (simp_all add: dns_text_def butlast_append)

lemma mg_strchr_text: "c \<notin> set s \<Longrightarrow> mg_strchr (s @ c # t) c = Some (length s)"
  by (induction s) auto

lemma dns_name_wire: "list_all label_ok ls \<Longrightarrow> dns_name (pre @ dns_wire ls @ post) 0 (length pre) ls"
proof (induction ls arbitrary: pre)
  case Nil
  then show ?case by (intro dns_name.root) (simp_all add: nth_append)
next
  case (Cons l ls)
  let ?pkt = "pre @ dns_wire (l # ls) @ post"
  have l: "0 < length l" "length l \<le> 63" using Cons.prems by (simp_all add: label_ok_def)
  have "?pkt = (pre @ char_of (length l) # l) @ dns_wire ls @ post" by simp
  then have "dns_name ?pkt 0 (length pre + 1 + length l) ls"
    using Cons.IH [of "pre @ char_of (length l) # l"] Cons.prems by simp
  then have "dns_name ?pkt 0 (length pre) (take (length l) (drop (length pre + 1) ?pkt) # ls)"
    using l by (intro dns_name.label) (simp_all add: nth_append)
  then show ?case by simp
qed

context heap
begin

lemma init_text: "mb_ok (mbuf_init alloc n) \<and> mb_text (mbuf_init alloc n) = []"
  using mbuf_resize_ok [OF gives, of "\<lparr>mb_buf = [], mb_len = 0\<rparr>" n] by (simp add: mbuf_init_def mb_ok_def mb_text_def)

lemma encode_labels_text:
  assumes "list_all label_ok ls" and "ls \<noteq> []" and "mb_ok io"
  shows "\<exists>io1. mg_dns_encode_labels alloc addr io (dns_text ls) = (True, io1) \<and> mb_ok io1
    \<and> mb_text io1 = mb_text io @ dns_wire ls"
  using assms
proof (induction ls arbitrary: io)
  case (Cons l ls)
  let ?io = "mbuf_put alloc addr l (mbuf_put alloc addr [char_of (length l)] io)"
  have l: "l \<noteq> []" "length l \<le> 63" "CHR ''.'' \<notin> set l" using Cons.prems by (simp_all add: label_ok_def)
  have io: "mb_ok ?io" "mb_text ?io = mb_text io @ char_of (length l) # l"
    using l Cons.prems(3) by (simp_all add: append_text)
  show ?case
  proof (cases "ls = []")
    case True
    have "mg_strchr l (CHR ''.'') = None" using l(3) by (simp add: mg_strchr_None)
    then have "mg_dns_encode_labels alloc addr io (dns_text (l # ls)) = (True, mbuf_put alloc addr [nul] ?io)"
      using l True by (subst mg_dns_encode_labels.simps) (simp add: dns_text_Cons Let_def)
    then show ?thesis using io True by (simp add: append_text)
  next
    case False
    have "dns_text ls \<noteq> []" using False Cons.prems(1)
      by (cases ls) (auto simp: dns_text_Cons label_ok_def)
    then have "mg_dns_encode_labels alloc addr io (dns_text (l # ls)) = mg_dns_encode_labels alloc addr ?io (dns_text ls)"
      using l False mg_strchr_text [OF l(3), of "dns_text ls"]
      by (subst mg_dns_encode_labels.simps) (simp add: dns_text_Cons Let_def)
    then show ?thesis using Cons.IH [of ?io] Cons.prems io False by simp
  qed
qed simp

lemma encode_name_text:
  assumes "list_all label_ok ls" and "ls \<noteq> []" and "mb_ok io"
  shows "\<exists>io1. mg_dns_encode_name alloc addr io (dns_text ls) (length (dns_text ls)) = (int (length (dns_wire ls)), io1)
    \<and> mb_ok io1 \<and> mb_text io1 = mb_text io @ dns_wire ls"
proof -
  obtain io1 where io1: "mg_dns_encode_labels alloc addr io (dns_text ls) = (True, io1)" "mb_ok io1"
    "mb_text io1 = mb_text io @ dns_wire ls" using encode_labels_text [OF assms] by (elim exE conjE) (rule that)
  have "mb_len io1 = mb_len io + length (dns_wire ls)"
    using arg_cong [OF io1(3), of length] io1(2) assms(3) by simp
  then show ?thesis using io1 by (simp add: mg_dns_encode_name_def mg_dns_encode_name_s_def mg_mk_str_n_def)
qed

end

text \<open>A query, as it is sent.\<close>

definition dns_query_bytes :: "nat \<Rightarrow> nat \<Rightarrow> string list \<Rightarrow> string" where
  "dns_query_bytes tid query_type ls =
     dns_header_bytes (dns_message0\<lparr>dm_transaction_id := tid mod 2 ^ 16, dm_flags := 0x100, dm_num_questions := 1\<rparr>)
     @ dns_wire ls @ be_bytes 2 query_type @ be_bytes 2 1"

lemma length_header [simp]: "length (dns_header_bytes msg) = 12"
  by (simp add: dns_header_bytes_def le_bytes_def)

lemma query_text:
  assumes h: "heap alloc addr" and "list_all label_ok ls" and "ls \<noteq> []" and "nul \<notin> set (dns_text ls)"
  shows "mg_send_dns_query alloc addr udp tid (dns_text ls) query_type =
    (Some (if udp then dns_query_bytes (tid + 1) query_type ls
           else be_bytes 2 (length (dns_query_bytes (tid + 1) query_type ls)) @ dns_query_bytes (tid + 1) query_type ls),
     tid + 1)"
proof -
  let ?msg = "dns_message0\<lparr>dm_transaction_id := (tid + 1) mod 2 ^ 16, dm_flags := 0x100, dm_num_questions := 1\<rparr>"
  let ?rr = "\<lparr>rr_name = (0, 0), rr_rtype = query_type, rr_rclass = 1, rr_ttl = 0, rr_kind = MG_DNS_QUESTION, rr_rdata = None\<rparr>"
  let ?q = "dns_query_bytes (tid + 1) query_type ls"
  let ?pkt = "snd (mg_dns_insert_header alloc addr (mbuf_init alloc 64) 0 ?msg)"
  note init = heap.init_text [OF h, of 64]
  have pkt: "mb_ok ?pkt" "mb_text ?pkt = dns_header_bytes ?msg"
    using heap.insert_text [OF h init [THEN conjunct1], of "dns_header_bytes ?msg" 0] init
    by (simp_all add: mg_dns_insert_header_def)
  obtain io where io: "mg_dns_encode_name alloc addr ?pkt (dns_text ls) (length (dns_text ls)) = (int (length (dns_wire ls)), io)"
    "mb_ok io" "mb_text io = dns_header_bytes ?msg @ dns_wire ls"
    using heap.encode_name_text [OF h assms(2,3) pkt(1)] unfolding pkt(2) by (elim exE conjE) (rule that)
  let ?io = "mbuf_put alloc addr (be_bytes 2 1) (mbuf_put alloc addr (be_bytes 2 query_type) io)"
  have io2: "mb_ok ?io" "mb_text ?io = ?q"
    using heap.append_text [OF h io(2), of "be_bytes 2 query_type"]
      heap.append_text [OF h, of "mbuf_put alloc addr (be_bytes 2 query_type) io" "be_bytes 2 1"] io(3)
    by (simp_all add: dns_query_bytes_def)
  have "mb_len ?pkt \<le> mb_len ?io"
    using arg_cong [OF io2(2), of length] arg_cong [OF pkt(2), of length] io2(1) pkt(1) by (simp add: dns_query_bytes_def)
  then have enc: "\<exists>r. r \<noteq> - 1 \<and> mg_dns_encode_record alloc addr ?pkt ?rr (dns_text ls) (length (dns_text ls)) [] 0 = (r, ?io)"
    using io(1) by (simp add: mg_dns_encode_record_def Let_def)
  have tcp: "mb_text (snd (mbuf_insert alloc addr ?io 0 (Some (be_bytes 2 (mb_len ?io))) 2)) = be_bytes 2 (length ?q) @ ?q"
    using heap.insert_text [OF h io2(1), of "be_bytes 2 (mb_len ?io)" 0] io2 by (simp flip: length_mb_text)
  show ?thesis
    using enc io2 tcp assms(4) unfolding mg_send_dns_query_def Let_def by (auto simp: cstr_id)
qed


section \<open>What is parsed\<close>

lemma skip_wire:
  assumes "list_all label_ok ls"
  shows "mg_dns_skip_name (pre @ dns_wire ls @ post) (length pre) = length pre + length (dns_wire ls) - 1"
  using assms
proof (induction ls arbitrary: pre)
  case Nil
  then show ?case by (subst mg_dns_skip_name.simps) (simp add: nth_append)
next
  case (Cons l ls)
  let ?pkt = "pre @ dns_wire (l # ls) @ post"
  have l: "0 < length l" "length l \<le> 63" using Cons.prems by (simp_all add: label_ok_def)
  have b: "?pkt ! length pre = char_of (length l)" "of_char (char_of (length l)) = length l"
    using l by (simp_all add: nth_append)
  have "length l AND 0xc0 = 0" using top_bits(2) [of "length l"] l by simp
  then have "mg_dns_skip_name ?pkt (length pre) = mg_dns_skip_name ?pkt (length pre + length l + 1)"
    using l b by (subst mg_dns_skip_name.simps) (simp add: Let_def)
  moreover have "?pkt = (pre @ char_of (length l) # l) @ dns_wire ls @ post" by simp
  ultimately show ?case using Cons.IH [of "pre @ char_of (length l) # l"] Cons.prems
    by (simp add: dns_wire_def)
qed

lemma parse_question:
  assumes "list_all label_ok ls" and "t < 2 ^ 16" and "c < 2 ^ 16" and "length pre = n"
  shows "mg_parse_dns_resource_record (pre @ dns_wire ls @ be_bytes 2 t @ be_bytes 2 c @ post) n False =
    Some (n + length (dns_wire ls) + 4, \<lparr>rr_name = (n, length (dns_wire ls)), rr_rtype = t, rr_rclass = c, rr_ttl = 0,
      rr_kind = MG_DNS_QUESTION, rr_rdata = None\<rparr>)"
proof -
  have w: "0 < length (dns_wire ls)" by (simp add: dns_wire_def)
  have "mg_dns_skip_name (pre @ dns_wire ls @ be_bytes 2 t @ be_bytes 2 c @ post) n = n + length (dns_wire ls) - 1"
    using skip_wire [OF assms(1), of pre] assms(4) by simp
  then show ?thesis
    using w assms(2-4) by (simp add: mg_parse_dns_resource_record_def Let_def be_value_bytes)
qed

lemma parse_query:
  assumes "list_all label_ok ls" and "query_type < 2 ^ 16"
  shows "mg_parse_dns (dns_query_bytes tid query_type ls) =
    Some \<lparr>dm_pkt = dns_query_bytes tid query_type ls, dm_flags = 0x100, dm_transaction_id = tid mod 2 ^ 16,
      dm_num_questions = 1, dm_num_answers = 0,
      dm_questions = [\<lparr>rr_name = (12, length (dns_wire ls)), rr_rtype = query_type, rr_rclass = 1, rr_ttl = 0,
        rr_kind = MG_DNS_QUESTION, rr_rdata = None\<rparr>], dm_answers = []\<rparr>"
proof -
  let ?msg = "dns_message0\<lparr>dm_transaction_id := tid mod 2 ^ 16, dm_flags := 0x100, dm_num_questions := 1\<rparr>"
  let ?h = "dns_header_bytes ?msg" and ?tail = "be_bytes 2 query_type @ be_bytes 2 1"
  let ?q = "dns_query_bytes tid query_type ls"
  have q: "?q = ?h @ dns_wire ls @ ?tail" by (simp add: dns_query_bytes_def)
  have rr: "mg_parse_dns_resource_record ?q 12 False = Some (length ?q,
      \<lparr>rr_name = (12, length (dns_wire ls)), rr_rtype = query_type, rr_rclass = 1, rr_ttl = 0,
        rr_kind = MG_DNS_QUESTION, rr_rdata = None\<rparr>)"
    using parse_question [OF assms, of 1 ?h 12 "[]"] by (simp add: q)
  have be: "be_value (be_bytes 2 256) = 256" "be_value (be_bytes 2 1) = 1" "be_value (be_bytes 2 (Suc 0)) = 1" "be_value (be_bytes 2 0) = 0"
    "be_value (be_bytes 2 (tid mod 65536)) = tid mod 65536"
    by (simp_all add: be_value_bytes)
  have hd: "take 2 ?q = le_bytes 2 (tid mod 2 ^ 16)" "take 2 (drop 2 ?q) = be_bytes 2 0x100"
    "take 2 (drop 4 ?q) = be_bytes 2 1" "take 2 (drop 6 ?q) = be_bytes 2 0" "\<not> length ?q < 12"
    by (simp_all add: q dns_header_bytes_def dns_message0_def le_bytes_def)
  show ?thesis
    using rr unfolding mg_parse_dns_def if_not_P [OF hd(5)] hd Let_def
    by (simp add: be le_bytes_def dns_message0_def)
qed


text \<open>
  A parsed record: its name and the start of its data are inside the packet. The data of an answer
  may end outside, but then no record follows.
\<close>

definition rr_inside :: "string \<Rightarrow> mg_dns_resource_record \<Rightarrow> bool" where
  "rr_inside pkt rr \<longleftrightarrow> 12 \<le> fst (rr_name rr) \<and> fst (rr_name rr) + snd (rr_name rr) + 4 \<le> length pkt
     \<and> rr_rtype rr < 2 ^ 16 \<and> rr_rclass rr < 2 ^ 16 \<and> rr_kind rr \<noteq> MG_DNS_INVALID_RECORD
     \<and> (rr_rdata rr = None \<longleftrightarrow> rr_kind rr = MG_DNS_QUESTION)
     \<and> (case rr_rdata rr of None \<Rightarrow> True | Some (p, n) \<Rightarrow> p < length pkt \<and> n < 2 ^ 16)"

definition rdata_inside :: "string \<Rightarrow> mg_dns_resource_record \<Rightarrow> bool" where
  "rdata_inside pkt rr \<longleftrightarrow> (case rr_rdata rr of None \<Rightarrow> True | Some (p, n) \<Rightarrow> p + n \<le> length pkt)"

lemma be_value_2: "be_value (take 2 s) < 2 ^ 16"
proof -
  have "be_value (take 2 s) < 256 ^ length (take 2 s)" by (rule be_value_less)
  also have "\<dots> \<le> 256 ^ 2" by (intro power_increasing) simp_all
  finally show ?thesis by simp
qed

lemma skip_name_less: "data \<le> mg_dns_skip_name pkt data"
proof (induction pkt data rule: mg_dns_skip_name.induct)
  case (1 pkt data)
  show ?case using 1 by (subst mg_dns_skip_name.simps) (auto simp: Let_def)
qed

lemma parse_record_ok:
  assumes "mg_parse_dns_resource_record pkt name reply = Some (data, rr)" and "12 \<le> name"
  shows "rr_inside pkt rr \<and> rr_kind rr = (if reply then MG_DNS_ANSWER else MG_DNS_QUESTION)
    \<and> name < data \<and> (rdata_inside pkt rr \<longleftrightarrow> data \<le> length pkt) \<and> fst (rr_name rr) = name \<and> name < length pkt"
  using assms skip_name_less [of name pkt] be_value_2
  by (auto simp: mg_parse_dns_resource_record_def Let_def rr_inside_def rdata_inside_def split: if_splits)

lemma parse_records_ok:
  "mg_parse_dns_records pkt reply n data = Some (data1, rrs) \<Longrightarrow> 12 \<le> data \<Longrightarrow>
    length rrs = n \<and> list_all (rr_inside pkt) rrs \<and> list_all (rdata_inside pkt) (butlast rrs) \<and> data \<le> data1
    \<and> list_all (\<lambda>rr. rr_kind rr = (if reply then MG_DNS_ANSWER else MG_DNS_QUESTION)) rrs
    \<and> (rrs \<noteq> [] \<longrightarrow> data < length pkt)"
proof (induction n arbitrary: data rrs)
  case (Suc n)
  obtain data2 rr rrs2 where r: "mg_parse_dns_resource_record pkt data reply = Some (data2, rr)"
    "mg_parse_dns_records pkt reply n data2 = Some (data1, rrs2)" "rrs = rr # rrs2"
    using Suc.prems(1) by (auto split: option.splits)
  note one = parse_record_ok [OF r(1) Suc.prems(2)]
  then have "12 \<le> data2" using Suc.prems(2) by simp
  note rest = Suc.IH [OF r(2) this]
  show ?case using one rest r(3) by auto
qed simp

lemma record_data_ok:
  assumes "rr_inside pkt rr" and "rr_kind rr = MG_DNS_ANSWER" and "dm_pkt msg = pkt"
  shows "\<exists>r bytes. mg_dns_parse_record_data msg rr n = Some (r, bytes) \<and> length bytes \<le> n"
proof -
  obtain p k where p: "rr_rdata rr = Some (p, k)" "p < length pkt"
    using assms(1,2) by (cases "rr_rdata rr") (auto simp: rr_inside_def)
  show ?thesis using p assms(3) uncompress_name_inside [of pkt p n] by (auto simp: mg_dns_parse_record_data_def)
qed

section \<open>Properties\<close>


text \<open>
  A query sent by \<open>mg_send_dns_query\<close>, behind two bytes with its size unless the connection
  is UDP, is parsed by \<open>mg_parse_dns\<close> as a message with the next transaction number and one
  question of the type asked for, whose name decodes to the name that was given, when its labels
  have 1 to 63 bytes.
\<close>

theorem mg_dns_query_roundtrip:
  assumes "heap alloc addr" and "list_all label_ok ls" and "ls \<noteq> []" and "nul \<notin> set (dns_text ls)"
    and "query_type < 2 ^ 16" and "length (dns_text ls) < dst_len"
  shows "\<exists>q msg rr. mg_send_dns_query alloc addr udp tid (dns_text ls) query_type
        = (Some (if udp then q else be_bytes 2 (length q) @ q), tid + 1)
      \<and> mg_parse_dns q = Some msg \<and> dm_transaction_id msg = (tid + 1) mod 2 ^ 16
      \<and> dm_questions msg = [rr] \<and> dm_num_questions msg = 1 \<and> dm_num_answers msg = 0
      \<and> rr_rtype rr = query_type \<and> rr_rclass rr = 1
      \<and> mg_dns_uncompress_name q (fst (rr_name rr)) dst_len = Some (length (dns_text ls), dns_text ls @ [nul])"
proof -
  let ?q = "dns_query_bytes (tid + 1) query_type ls"
  let ?rr = "\<lparr>rr_name = (12, length (dns_wire ls)), rr_rtype = query_type, rr_rclass = 1, rr_ttl = 0,
    rr_kind = MG_DNS_QUESTION, rr_rdata = None\<rparr>"
  have "dns_name ?q 0 12 ls"
    using dns_name_wire [OF assms(2), of "dns_header_bytes _"] by (simp add: dns_query_bytes_def)
  then have "mg_dns_uncompress_name ?q 12 dst_len = Some (dns_finish (dotted ls))"
    using uncompress_name [of ?q 0 12 ls 0 "[]" dst_len] assms(3,6)
    by (simp add: mg_dns_uncompress_name_def dns_query_bytes_def dns_text_def dotted_empty)
  then have "mg_dns_uncompress_name ?q 12 dst_len = Some (length (dns_text ls), dns_text ls @ [nul])"
    using assms(3) by (simp add: dns_finish_def dns_text_def dotted_empty)
  moreover have "mg_parse_dns ?q = Some \<lparr>dm_pkt = ?q, dm_flags = 0x100, dm_transaction_id = (tid + 1) mod 2 ^ 16,
      dm_num_questions = 1, dm_num_answers = 0, dm_questions = [?rr], dm_answers = []\<rparr>"
    by (rule parse_query [OF assms(2,5)])
  ultimately show ?thesis
    using query_text [OF assms(1-4), of udp tid query_type]
    by (intro exI [of _ ?q] exI [of _ "\<lparr>dm_pkt = ?q, dm_flags = 0x100, dm_transaction_id = (tid + 1) mod 2 ^ 16,
      dm_num_questions = 1, dm_num_answers = 0, dm_questions = [?rr], dm_answers = []\<rparr>"] exI [of _ ?rr]) simp
qed

theorem mg_dns_query_roundtrip_witness:
  "\<exists>q msg rr. mg_send_dns_query heap_calloc 4096 True 0xa0 ''gw.example'' 1 = (Some q, 0xa1)
      \<and> mg_parse_dns q = Some msg \<and> dm_transaction_id msg = 0xa1 \<and> dm_questions msg = [rr]
      \<and> mg_dns_uncompress_name q (fst (rr_name rr)) 64 = Some (10, ''gw.example'' @ [nul])"
proof -
  have heap: "heap heap_calloc 4096" by (rule calloc.heap_axioms)
  have ls: "list_all label_ok [''gw'', ''example'']" "[''gw'', ''example''] \<noteq> []"
    "dns_text [''gw'', ''example''] = ''gw.example''"
    by (simp_all add: label_ok_def dns_text_def)
  have prem: "nul \<notin> set (dns_text [''gw'', ''example''])" "(1 :: nat) < 2 ^ 16"
    "length (dns_text [''gw'', ''example'']) < 64" by (simp_all add: ls(3))
  show ?thesis
    using mg_dns_query_roundtrip [OF heap ls(1,2) prem, where udp = True and tid = "0xa0"] unfolding ls(3) by fastforce
qed

text \<open>
  C36. What \<open>mg_parse_dns\<close> accepts is well formed: as many questions and answers as the message
  says, and at most 32 of each, their names inside the packet, and the data of every answer but
  the last too. \<open>mg_dns_parse_record_data\<close> then reads nothing outside the packet, and writes no
  more than it is allowed, for any answer, the last one included.
\<close>

theorem mg_parse_dns_bounds:
  assumes "mg_parse_dns buf = Some msg"
  shows "dm_pkt msg = buf \<and> length (dm_questions msg) = dm_num_questions msg \<and> dm_num_questions msg \<le> 32
    \<and> length (dm_answers msg) = dm_num_answers msg \<and> dm_num_answers msg \<le> 32
    \<and> list_all (rr_inside buf) (dm_questions msg @ dm_answers msg)
    \<and> list_all (rdata_inside buf) (butlast (dm_answers msg))
    \<and> list_all (\<lambda>rr. \<exists>r bytes. mg_dns_parse_record_data msg rr n = Some (r, bytes) \<and> length bytes \<le> n) (dm_answers msg)"
proof -
  have buf: "\<not> length buf < 12" using assms by (auto simp: mg_parse_dns_def split: if_splits)
  then obtain nq na data data1 questions answers where
    r: "mg_parse_dns_records buf False nq 12 = Some (data, questions)"
      "mg_parse_dns_records buf True na data = Some (data1, answers)" "nq \<le> 32" "na \<le> 32"
    and msg: "dm_pkt msg = buf" "dm_num_questions msg = nq" "dm_num_answers msg = na"
      "dm_questions msg = questions" "dm_answers msg = answers"
    using assms unfolding mg_parse_dns_def if_not_P [OF buf] Let_def
    by (auto simp: dns_message0_def split: option.splits)
  note q = parse_records_ok [OF r(1) order_refl]
  then have "12 \<le> data" by simp
  note a = parse_records_ok [OF r(2) this]
  have "list_all (\<lambda>rr. \<exists>r bytes. mg_dns_parse_record_data msg rr n = Some (r, bytes) \<and> length bytes \<le> n) answers"
    using a record_data_ok [OF _ _ msg(1)] by (simp add: list_all_iff)
  then show ?thesis using q a r(3,4) msg by (simp add: list_all_append)
qed

text \<open>A reply with one address, whose name points to the name of the question.\<close>

definition dns_sample :: string where
  "dns_sample = [nul, CHR 0x05, CHR 0x81, CHR 0x80, nul, CHR 0x01, nul, CHR 0x01, nul, nul, nul, nul]
     @ CHR 0x02 # ''gw'' @ [nul, nul, CHR 0x01, nul, CHR 0x01]
     @ [CHR 0xc0, CHR 0x0c, nul, CHR 0x01, nul, CHR 0x01, nul, nul, nul, CHR 0x3c, nul, CHR 0x04]
     @ [CHR 0xc0, CHR 0xa8, CHR 0x01, CHR 0x02]"

theorem mg_parse_dns_bounds_witness:
  "\<exists>msg. mg_parse_dns dns_sample = Some msg \<and> dm_num_answers msg = 1
    \<and> list_all (rr_inside dns_sample) (dm_questions msg @ dm_answers msg)"
proof -
  have "case mg_parse_dns dns_sample of None \<Rightarrow> False | Some msg \<Rightarrow> dm_num_answers msg = 1" by code_simp
  then obtain msg where msg: "mg_parse_dns dns_sample = Some msg" "dm_num_answers msg = 1"
    by (auto split: option.splits)
  then show ?thesis using mg_parse_dns_bounds [OF msg(1), of 4] by blast
qed

end
