(* ===== verification/Mg_Address.thy ===== *)
theory Mg_Address
  imports Mg_Str
begin

text \<open>
  Addresses of the embedded web server, \<open>src/src/mongoose.c\<close>: the text given to \<open>mg_bind\<close>, which
  the agent calls with the port of its settings, and to \<open>mg_connect\<close>; host names in
  \<open>/etc/hosts\<close>; and the name server in \<open>/etc/resolv.conf\<close>.
\<close>

unbundle bit_operations_syntax

section \<open>Conversions of \<open>sscanf\<close>\<close>

text \<open>
  \<open>%u\<close>: white space, a sign, digits, converted as by \<open>strtoul\<close> on a 64-bit \<open>long\<close> and stored in
  32 bits; and the text behind.
\<close>

definition scan_uint :: "string \<Rightarrow> (nat \<times> string) option" where
  "scan_uint s =
     (let u = dropWhile isspace s;
          neg = byte_at u 0 = CHR ''-'';
          v = (if neg \<or> byte_at u 0 = CHR ''+'' then drop 1 u else u);
          m = digits_val 0 v
      in if \<not> isdigit (byte_at v 0) then None
         else Some (nat ((if m \<ge> 2 ^ 64 then 2 ^ 64 - 1 else if neg then - m else m) mod 2 ^ 32),
                    dropWhile isdigit v))"

text \<open>
  \<open>%u.%u.%u\<close> with so many numbers: those that are converted, and the text behind when all are.
\<close>

fun scan_dotted :: "nat \<Rightarrow> string \<Rightarrow> nat list \<times> string option" where
  "scan_dotted 0 s = ([], Some s)"
| "scan_dotted (Suc k) s =
     (case scan_uint s of
        None \<Rightarrow> ([], None)
      | Some (v, r) \<Rightarrow>
          if k = 0 then ([v], Some r)
          else (case r of
                  [] \<Rightarrow> ([v], None)
                | c # t \<Rightarrow> if c = CHR ''.'' then apfst ((#) v) (scan_dotted k t) else ([v], None)))"

text \<open>\<open>%s\<close>: a word, and how many bytes were read.\<close>

definition scan_word :: "string \<Rightarrow> (string \<times> nat) option" where
  "scan_word s =
     (let u = dropWhile isspace s; w = takeWhile (\<lambda>c. \<not> isspace c) u
      in if u = [] then None else Some (w, length s - length u + length w))"

text \<open>An IPv4 address made of four numbers, as the code shifts them.\<close>

definition ip_word :: "nat list \<Rightarrow> 32 word" where
  "ip_word q = push_bit 24 (word_of_nat (q ! 0)) OR push_bit 16 (word_of_nat (q ! 1))
     OR push_bit 8 (word_of_nat (q ! 2)) OR word_of_nat (q ! 3)"

section \<open>The hosts file\<close>

text \<open>
  What the file gives: an address, nothing, or an access outside a buffer. \<open>line\<close> is an array of
  1024 bytes that keeps what earlier lines left in it, and \<open>alias\<close> one of 256.
\<close>

datatype hosts_answer = Hosts_Found "32 word" | Hosts_None | Hosts_Fault

definition fgets_into :: "string \<Rightarrow> string \<Rightarrow> string" where
  "fgets_into mem l = l @ nul # drop (Suc (length l)) mem"

text \<open>
  The loop on the words behind the address: \<open>Inl\<close> ends the function, \<open>Inr\<close> gives the length that is
  left in \<open>len\<close>.
\<close>

function hosts_aliases :: "string \<Rightarrow> string \<Rightarrow> nat list \<Rightarrow> nat \<Rightarrow> nat \<Rightarrow> hosts_answer + nat" where
  "hosts_aliases mem name q p len =
     (if nul \<notin> set (drop p mem) then Inl Hosts_Fault
      else
        (case scan_word (cstr (drop p mem)) of
           None \<Rightarrow> Inr len
         | Some (w, n) \<Rightarrow>
             if length w \<ge> 256 then Inl Hosts_Fault
             else if w = name then Inl (Hosts_Found (ip_word q))
             else hosts_aliases mem name q (p + n) n))"
  by pat_completeness auto

lemma scan_word_less: "scan_word s = Some (w, n) \<Longrightarrow> 0 < n \<and> n \<le> length s"
proof -
  assume a: "scan_word s = Some (w, n)"
  let ?u = "dropWhile isspace s"
  have u: "?u \<noteq> []" "w = takeWhile (\<lambda>c. \<not> isspace c) ?u" "n = length s - length ?u + length w"
    using a by (auto simp: scan_word_def Let_def split: if_splits)
  have "\<not> isspace (hd ?u)" using u(1) by (rule hd_dropWhile)
  then have "w \<noteq> []" using u(1,2) by (cases ?u) auto
  moreover have "length w \<le> length ?u" unfolding u(2) by (rule length_takeWhile_le)
  moreover have "length ?u \<le> length s" by (rule length_dropWhile_le)
  ultimately show "0 < n \<and> n \<le> length s" using u(3) by (cases w) auto
qed

termination hosts_aliases
proof (relation "measure (\<lambda>(mem, name, q, p, len). length mem - p)", simp, goal_cases)
  case (1 mem name q p len r w n)
  then have "scan_word (cstr (drop p mem)) = Some (w, n)" by simp
  note n = scan_word_less [OF this]
  have "length (cstr (drop p mem)) \<le> length (drop p mem)" unfolding cstr_def by (rule length_takeWhile_le)
  then show ?case using n by auto
qed

declare hosts_aliases.simps [simp del]

text \<open>
  The lines in order. \<open>sscanf\<close> leaves alone the numbers it does not convert, and \<open>len\<close> when it does
  not come to it; a line is skipped when it converts none, but not at the end of the text.
\<close>

fun hosts_lines :: "string list \<Rightarrow> string \<Rightarrow> string \<Rightarrow> nat list \<Rightarrow> nat \<Rightarrow> hosts_answer" where
  "hosts_lines [] name mem q len = Hosts_None"
| "hosts_lines (l # ls) name mem q len =
     (let mem1 = fgets_into mem l; s = cstr mem1; (vs, behind) = scan_dotted 4 s
      in if byte_at mem1 0 = CHR ''#'' then hosts_lines ls name mem1 q len
         else if vs = [] \<and> dropWhile isspace s \<noteq> [] then hosts_lines ls name mem1 q len
         else
           (let q1 = vs @ drop (length vs) q;
                len1 = (case behind of None \<Rightarrow> len | Some r \<Rightarrow> length s - length r)
            in case hosts_aliases mem1 name q1 len1 len1 of
                 Inl a \<Rightarrow> a
               | Inr len2 \<Rightarrow> hosts_lines ls name mem1 q1 len2))"

text \<open>
  \<open>mg_resolve_from_hosts_file\<close>, with the file, if it can be opened, and what the uninitialised
  variables hold.
\<close>

definition mg_resolve_from_hosts_file :: "string option \<Rightarrow> string \<Rightarrow> nat list \<Rightarrow> string \<Rightarrow> hosts_answer" where
  "mg_resolve_from_hosts_file hosts mem q name =
     (case hosts of None \<Rightarrow> Hosts_None | Some text \<Rightarrow> hosts_lines (fgets_all 1024 text) (cstr name) mem q 0)"

section \<open>The name server\<close>

text \<open>
  \<open>mg_get_ip_address_of_nameserver\<close> on Unix, with \<open>/etc/resolv.conf\<close>: the text written for the
  first line that has an address.
\<close>

definition quad_text :: "nat list \<Rightarrow> string" where
  "quad_text q = dec_digits (q ! 0) @ ''.'' @ dec_digits (q ! 1) @ ''.'' @ dec_digits (q ! 2) @ ''.'' @ dec_digits (q ! 3)"

fun nameserver_lines :: "string list \<Rightarrow> nat \<Rightarrow> string option" where
  "nameserver_lines [] name_len = None"
| "nameserver_lines (l # ls) name_len =
     (let s = cstr l; (q, behind) = scan_dotted 4 (drop 10 s)
      in if take 10 s = ''nameserver'' \<and> length q = 4 then Some (take (name_len - 1) (quad_text q))
         else nameserver_lines ls name_len)"

definition mg_get_ip_address_of_nameserver :: "string option \<Rightarrow> nat \<Rightarrow> string option" where
  "mg_get_ip_address_of_nameserver resolv_conf name_len =
     (case resolv_conf of None \<Rightarrow> None | Some text \<Rightarrow> nameserver_lines (fgets_all 512 text) name_len)"

section \<open>The address of a connection\<close>

text \<open>What \<open>mg_parse_address\<close> fills in; the host is written only when it gives one to look up.\<close>

record mg_address =
  ma_udp :: bool
  ma_ip :: "32 word"
  ma_port :: nat
  ma_host :: "string option"

definition scan_port :: "string \<Rightarrow> (nat \<times> string) option" where
  "scan_port s = (case s of [] \<Rightarrow> None | c # t \<Rightarrow> if c = CHR '':'' then scan_uint t else None)"

text \<open>The last line: the port and the character behind the address are checked.\<close>

definition address_end :: "string \<Rightarrow> string \<Rightarrow> nat \<Rightarrow> int" where
  "address_end str behind port =
     (let ch = byte_at behind 0
      in if port < 0xffff \<and> (ch = nul \<or> ch = CHR '','' \<or> isspace ch) then int (length str - length behind) else - 1)"

definition address_proto :: "string \<Rightarrow> bool \<times> string" where
  "address_proto addr =
     (let udp = strncmp addr ''udp://'' 6 = 0
      in (udp, if udp \<or> strncmp addr ''tcp://'' 6 = 0 then drop 6 (cstr addr) else cstr addr))"

text \<open>The three forms, one after the other; \<open>hosts\<close> is what the hosts file gives for a name.\<close>

definition address_forms ::
    "(string \<Rightarrow> hosts_answer) \<Rightarrow> string \<Rightarrow> nat \<Rightarrow> mg_address \<Rightarrow> (int \<times> mg_address) option" where
  "address_forms hosts str host_len sa =
     (let (q, behind) = scan_dotted 4 str
      in case Option.bind behind scan_port of
           Some (port, r) \<Rightarrow>
             Some (address_end str r port, sa\<lparr>ma_ip := ip_word q, ma_port := port mod 2 ^ 16\<rparr>)
         | None \<Rightarrow>
             (let host = takeWhile (\<lambda>c. c \<noteq> CHR '' '' \<and> c \<noteq> CHR '':'') str
              in case (if length str < host_len \<and> host \<noteq> [] then scan_port (drop (length host) str) else None) of
                   Some (port, r) \<Rightarrow>
                     (let sa1 = sa\<lparr>ma_port := port mod 2 ^ 16\<rparr>
                      in case hosts host of
                           Hosts_Fault \<Rightarrow> None
                         | Hosts_Found ip \<Rightarrow> Some (address_end str r port, sa1\<lparr>ma_ip := ip\<rparr>)
                         | Hosts_None \<Rightarrow>
                             if mg_ncasecmp host ''localhost'' 9 \<noteq> 0 then Some (0, sa1\<lparr>ma_host := Some host\<rparr>)
                             else Some (- 1, sa1))
                 | None \<Rightarrow>
                     (case (case scan_port str of None \<Rightarrow> scan_uint str | p \<Rightarrow> p) of
                        Some (port, r) \<Rightarrow> Some (address_end str r port, sa\<lparr>ma_port := port mod 2 ^ 16\<rparr>)
                      | None \<Rightarrow> Some (- 1, sa))))"

definition mg_parse_address ::
    "(string \<Rightarrow> hosts_answer) \<Rightarrow> string \<Rightarrow> nat \<Rightarrow> (int \<times> mg_address) option" where
  "mg_parse_address hosts addr host_len =
     (let (udp, str) = address_proto addr
      in address_forms hosts str host_len \<lparr>ma_udp = udp, ma_ip = 0, ma_port = 0, ma_host = None\<rparr>)"

section \<open>Scanning what is written\<close>

lemma scan_uint_dec:
  assumes "n < 2 ^ 32" and "list_all isspace sp" and "s = [] \<or> \<not> isdigit (hd s)"
  shows "scan_uint (sp @ dec_digits n @ s) = Some (n, s)"
proof -
  obtain c t where ct: "dec_digits n = c # t" "isdigit c"
    using dec_digits_nonempty [of n] dec_digits_digits [of _ n] by (cases "dec_digits n") auto
  have u: "dropWhile isspace (sp @ dec_digits n @ s) = dec_digits n @ s"
    using assms(2) isdigit_other [OF ct(2)] by (simp add: ct(1) dropWhile_append2 list_all_iff)
  have b: "byte_at (dec_digits n @ s) 0 = c" by (simp add: ct(1) byte_at_def)
  have v: "digits_val 0 (dec_digits n @ s) = int n"
    using digits_val_dec [of 0 n s] assms(3) by (cases s) auto
  have r: "dropWhile isdigit (dec_digits n @ s) = s"
    using dec_digits_digits [of _ n] assms(3) by (cases s) (simp_all add: dropWhile_append2 dropWhile_eq_Nil_conv)
  have "int n < 2 ^ 32" using assms(1) by simp
  then show ?thesis
    using isdigit_other [OF ct(2)] ct(2) by (simp add: scan_uint_def u b v r Let_def)
qed

lemma scan_uint_none: "s = [] \<or> \<not> isdigit (hd s) \<and> \<not> isspace (hd s) \<and> hd s \<noteq> CHR ''-'' \<and> hd s \<noteq> CHR ''+''
    \<Longrightarrow> scan_uint s = None"
  by (cases s) (auto simp: scan_uint_def Let_def byte_at_def isdigit_def)

definition octets :: "nat list \<Rightarrow> bool" where
  "octets q \<longleftrightarrow> length q = 4 \<and> list_all (\<lambda>n. n < 256) q"

lemma octets_cases: "octets q \<Longrightarrow> (\<And>a b c d. q = [a, b, c, d] \<Longrightarrow> a < 256 \<Longrightarrow> b < 256 \<Longrightarrow> c < 256 \<Longrightarrow> d < 256 \<Longrightarrow> thesis) \<Longrightarrow> thesis"
  by (auto simp: octets_def list_all_iff numeral_eq_Suc length_Suc_conv)

lemma scan_dotted_step: "n < 256 \<Longrightarrow> scan_dotted (Suc (Suc k)) (dec_digits n @ CHR ''.'' # s) = apfst ((#) n) (scan_dotted (Suc k) s)"
  using scan_uint_dec [of n "[]" "CHR ''.'' # s"] by (simp add: isdigit_def)

lemma scan_quad:
  assumes "octets q" and "s = [] \<or> \<not> isdigit (hd s)"
  shows "scan_dotted 4 (quad_text q @ s) = (q, Some s)"
  using assms(1)
proof (rule octets_cases)
  fix a b c d assume q: "q = [a, b, c, d]" "a < 256" "b < 256" "c < 256" "d < 256"
  have "scan_dotted (Suc (Suc (Suc (Suc 0)))) (quad_text q @ s) = (q, Some s)"
    using q scan_uint_dec [of d "[]" s] assms(2) by (simp add: quad_text_def scan_dotted_step del: scan_dotted.simps(2)) simp
  then show ?thesis by (simp add: numeral_eq_Suc)
qed

lemma scan_word_text:
  assumes "list_all isspace sep" and "w \<noteq> []" and "list_all (\<lambda>c. \<not> isspace c) w" and "t = [] \<or> isspace (hd t)"
  shows "scan_word (sep @ w @ t) = Some (w, length sep + length w)"
proof -
  have u: "dropWhile isspace (sep @ w @ t) = w @ t"
    using assms(1-3) by (cases w) (simp_all add: dropWhile_append2 list_all_iff)
  have "takeWhile (\<lambda>c. \<not> isspace c) (w @ t) = w"
    using assms(3,4) by (cases t) (simp_all add: takeWhile_append2 list_all_iff takeWhile_eq_all_conv)
  then show ?thesis using assms(2) by (simp add: scan_word_def u Let_def)
qed

lemma scan_word_end: "list_all isspace s \<Longrightarrow> scan_word s = None"
  by (simp add: scan_word_def list_all_iff dropWhile_eq_Nil_conv)

section \<open>A well-formed hosts file\<close>

text \<open>
  A line is a comment, or an address and names with white space before each. The file means the
  first entry that has the name.
\<close>

datatype hosts_entry = Hosts_Comment string | Hosts_Entry "nat list" "(string \<times> string) list"

definition alias_text :: "(string \<times> string) list \<Rightarrow> string" where
  "alias_text as = concat (map (\<lambda>(sep, w). sep @ w) as)"

fun entry_text :: "hosts_entry \<Rightarrow> string" where
  "entry_text (Hosts_Comment t) = CHR ''#'' # t"
| "entry_text (Hosts_Entry q as) = quad_text q @ alias_text as"

definition hosts_text :: "hosts_entry list \<Rightarrow> string" where
  "hosts_text es = concat (map (\<lambda>e. entry_text e @ [newline]) es)"

definition alias_ok :: "string \<times> string \<Rightarrow> bool" where
  "alias_ok a \<longleftrightarrow> fst a \<noteq> [] \<and> list_all isspace (fst a) \<and> newline \<notin> set (fst a)
     \<and> snd a \<noteq> [] \<and> list_all (\<lambda>c. \<not> isspace c) (snd a) \<and> nul \<notin> set (snd a) \<and> length (snd a) < 256"

fun entry_ok :: "hosts_entry \<Rightarrow> bool" where
  "entry_ok (Hosts_Comment t) = (newline \<notin> set t \<and> length t < 1022)"
| "entry_ok (Hosts_Entry q as) = (octets q \<and> list_all alias_ok as \<and> length (entry_text (Hosts_Entry q as)) < 1023)"

fun hosts_lookup :: "hosts_entry list \<Rightarrow> string \<Rightarrow> hosts_answer" where
  "hosts_lookup [] name = Hosts_None"
| "hosts_lookup (Hosts_Comment t # es) name = hosts_lookup es name"
| "hosts_lookup (Hosts_Entry q as # es) name =
     (if name \<in> set (map snd as) then Hosts_Found (ip_word q) else hosts_lookup es name)"

lemma alias_text_simps [simp]: "alias_text [] = []" "alias_text ((sep, w) # as) = sep @ w @ alias_text as"
  by (simp_all add: alias_text_def)

lemma isspace_nul: "isspace c \<Longrightarrow> c \<noteq> nul"
  by (auto simp: isspace_def)

lemma alias_text_chars: "list_all alias_ok as \<Longrightarrow> nul \<notin> set (alias_text as) \<and> newline \<notin> set (alias_text as)"
proof (induction as)
  case (Cons a as)
  obtain sep w where a: "a = (sep, w)" by force
  have "nul \<notin> set sep" "newline \<notin> set w"
    using Cons.prems isspace_nul by (auto simp: alias_ok_def a list_all_iff)
  then show ?case using Cons by (simp add: a alias_ok_def)
qed simp

lemma alias_text_hd: "list_all alias_ok as \<Longrightarrow> isspace (hd (alias_text as @ newline # rest))"
  by (cases as) (auto simp: alias_ok_def list_all_iff hd_append)

lemma alias_end:
  assumes "drop p mem = s @ nul # rest" and "list_all isspace s"
  shows "hosts_aliases mem name q p len = Inr len"
proof -
  have "\<forall>c \<in> set s. c \<noteq> nul" using assms(2) isspace_nul by (auto simp: list_all_iff)
  then have "cstr (drop p mem) = s" unfolding assms(1) cstr_def by (subst takeWhile_append2) auto
  then show ?thesis using scan_word_end [OF assms(2)] assms(1) by (subst hosts_aliases.simps) simp
qed

lemma alias_step:
  assumes "drop p mem = (sep @ w @ t) @ nul # rest" and "list_all isspace sep"
    and "w \<noteq> []" and "list_all (\<lambda>c. \<not> isspace c) w" and "length w < 256" and "nul \<notin> set w" and "nul \<notin> set t"
    and "t = [] \<or> isspace (hd t)"
  shows "hosts_aliases mem name q p len = (if w = name then Inl (Hosts_Found (ip_word q))
      else hosts_aliases mem name q (p + (length sep + length w)) (length sep + length w))"
proof -
  have "nul \<notin> set sep" using assms(2) isspace_nul by (auto simp: list_all_iff)
  then have "\<forall>c \<in> set (sep @ w @ t). c \<noteq> nul" using assms(6,7) by auto
  then have "cstr (drop p mem) = sep @ w @ t" unfolding assms(1) cstr_def by (subst takeWhile_append2) auto
  then have "scan_word (cstr (drop p mem)) = Some (w, length sep + length w)"
    using scan_word_text [OF assms(2-4,8)] by simp
  moreover have "nul \<in> set (drop p mem)" unfolding assms(1) by simp
  ultimately show ?thesis using assms(5) by (subst hosts_aliases.simps) simp
qed

lemma aliases_scanned:
  assumes "list_all alias_ok as" and "drop p mem = alias_text as @ newline # nul # rest"
  shows "case hosts_aliases mem name q p len of
      Inl r \<Rightarrow> name \<in> set (map snd as) \<and> r = Hosts_Found (ip_word q)
    | Inr _ \<Rightarrow> name \<notin> set (map snd as)"
  using assms
proof (induction as arbitrary: p len)
  case Nil
  then show ?case using alias_end [of p mem "[newline]"] by simp
next
  case (Cons a as)
  obtain sep w where a: "a = (sep, w)" by force
  have ok: "list_all isspace sep" "w \<noteq> []" "list_all (\<lambda>c. \<not> isspace c) w" "length w < 256" "nul \<notin> set w"
    using Cons.prems(1) by (auto simp: alias_ok_def a)
  have t: "nul \<notin> set (alias_text as @ [newline])" "isspace (hd (alias_text as @ [newline]))"
    using alias_text_chars [of as] alias_text_hd [of as "[]"] Cons.prems(1) by simp_all
  have mem: "drop p mem = (sep @ w @ alias_text as @ [newline]) @ nul # rest" using Cons.prems(2) by (simp add: a)
  note step = alias_step [OF mem ok t(1) disjI2 [OF t(2)], of name q len]
  have "drop (p + (length sep + length w)) mem = drop (length sep + length w) (drop p mem)" by (simp add: add.commute)
  then have "drop (p + (length sep + length w)) mem = alias_text as @ newline # nul # rest" unfolding mem by simp
  note IH = Cons.IH [OF _ this]
  show ?case
  proof (cases "w = name")
    case True
    then show ?thesis unfolding step by (simp add: a)
  next
    case False
    then show ?thesis using IH [of "length sep + length w"] Cons.prems(1) unfolding step by (auto simp: a split: sum.splits)
  qed
qed

lemma quad_text_chars: "nul \<notin> set (quad_text q)" "newline \<notin> set (quad_text q)"
  by (simp_all add: quad_text_def)

lemma quad_text_hd: "quad_text q = c # t \<Longrightarrow> isdigit c"
  using dec_digits_nonempty [of "q ! 0"] dec_digits_digits [of c "q ! 0"] by (cases "dec_digits (q ! 0)") (auto simp: quad_text_def)

lemma quad_text_nonempty: "quad_text q \<noteq> []"
  by (simp add: quad_text_def)

lemma hosts_lines_step:
  assumes "cstr (fgets_into mem l) = s" and "byte_at (fgets_into mem l) 0 \<noteq> CHR ''#''"
    and "scan_dotted 4 s = (vs, behind)" and "vs \<noteq> []" and "vs @ drop (length vs) q = q1"
    and "(case behind of None \<Rightarrow> len | Some r \<Rightarrow> length s - length r) = len1"
  shows "hosts_lines (l # ls) name mem q len = (case hosts_aliases (fgets_into mem l) name q1 len1 len1 of
      Inl a \<Rightarrow> a | Inr len2 \<Rightarrow> hosts_lines ls name (fgets_into mem l) q1 len2)"
  unfolding hosts_lines.simps assms(1) Let_def assms(3) prod.case if_not_P [OF assms(2)] assms(5,6)
  using assms(4) by simp

lemma hosts_lines_lookup:
  "list_all entry_ok es \<Longrightarrow> hosts_lines (map (\<lambda>e. entry_text e @ [newline]) es) name mem q len = hosts_lookup es name"
proof (induction es arbitrary: mem q len)
  case (Cons e es)
  note IH = Cons.IH
  show ?case
  proof (cases e)
    case (Hosts_Comment t)
    then show ?thesis using Cons by (simp add: fgets_into_def byte_at_def case_prod_beta)
  next
    case (Hosts_Entry q1 as)
    have ok: "octets q1" "list_all alias_ok as" using Cons.prems Hosts_Entry by simp_all
    let ?l = "quad_text q1 @ alias_text as @ [newline]"
    let ?mem = "fgets_into mem ?l"
    have mem: "?mem = ?l @ nul # drop (Suc (length ?l)) mem" by (simp add: fgets_into_def)
    have "\<forall>c \<in> set ?l. c \<noteq> nul" using quad_text_chars alias_text_chars [OF ok(2)] by auto
    then have s: "cstr ?mem = ?l" unfolding mem cstr_def by (subst takeWhile_append2) auto
    have "\<not> isdigit (hd (alias_text as @ [newline]))"
      using alias_text_hd [OF ok(2), of "[]"] isdigit_other by blast
    then have scan: "scan_dotted 4 ?l = (q1, Some (alias_text as @ [newline]))"
      using scan_quad [OF ok(1), of "alias_text as @ [newline]"] by simp
    obtain c t where ct: "quad_text q1 = c # t" "isdigit c"
      using quad_text_nonempty quad_text_hd by (cases "quad_text q1") auto
    have b: "byte_at ?mem 0 \<noteq> CHR ''#''" unfolding mem using ct by (auto simp: byte_at_def isdigit_def)
    have q1: "length q1 = 4" "q1 \<noteq> []" using ok(1) by (auto simp: octets_def)
    have d: "drop (length (quad_text q1)) ?mem = alias_text as @ newline # nul # drop (Suc (length ?l)) mem"
      by (simp add: mem)
    have q4: "ip_word (q1 @ drop 4 q) = ip_word q1" using q1(1) by (simp add: ip_word_def nth_append)
    note al = aliases_scanned [OF ok(2) d, of name "q1 @ drop 4 q" "length (quad_text q1)"]
    have "hosts_lines (?l # ls) name mem q len =
        (case hosts_aliases ?mem name (q1 @ drop 4 q) (length (quad_text q1)) (length (quad_text q1)) of
           Inl r \<Rightarrow> r | Inr len2 \<Rightarrow> hosts_lines ls name ?mem (q1 @ drop 4 q) len2)" for ls
      using q1 by (intro hosts_lines_step [OF s b scan]) simp_all
    then show ?thesis using al IH Cons.prems Hosts_Entry q4 by (auto split: sum.splits)
  qed
qed simp

lemma fgets_all_lines:
  "list_all (\<lambda>l. newline \<notin> set l \<and> length l + 1 < n) ls \<Longrightarrow>
    fgets_all n (concat (map (\<lambda>l. l @ [newline]) ls)) = map (\<lambda>l. l @ [newline]) ls"
proof (induction ls)
  case Nil
  then show ?case by (subst fgets_all.simps) simp
next
  case (Cons l ls)
  then show ?case using fgets_all_first [of l n "concat (map (\<lambda>l. l @ [newline]) ls)"] by simp
qed

lemma entry_lines:
  assumes "entry_ok e"
  shows "newline \<notin> set (entry_text e) \<and> length (entry_text e) + 1 < 1024"
proof (cases e)
  case (Hosts_Comment t)
  then show ?thesis using assms by simp
next
  case (Hosts_Entry q as)
  then show ?thesis using assms quad_text_chars(2) [of q] alias_text_chars [of as] by simp
qed

section \<open>Addresses\<close>

definition proto_text :: "bool option \<Rightarrow> string" where
  "proto_text proto = (case proto of None \<Rightarrow> [] | Some True \<Rightarrow> ''udp://'' | Some False \<Rightarrow> ''tcp://'')"

definition host_ok :: "string \<Rightarrow> bool" where
  "host_ok host \<longleftrightarrow> host \<noteq> [] \<and> \<not> isdigit (hd host) \<and> \<not> isspace (hd host) \<and> hd host \<noteq> CHR ''-'' \<and> hd host \<noteq> CHR ''+''
     \<and> list_all (\<lambda>c. c \<noteq> CHR '' '' \<and> c \<noteq> CHR '':'' \<and> c \<noteq> nul) host"

definition tail_ok :: "string \<Rightarrow> bool" where
  "tail_ok t \<longleftrightarrow> nul \<notin> set t \<and> CHR '':'' \<notin> set t \<and> (t = [] \<or> hd t = CHR '','' \<or> isspace (hd t))"

lemma strncmp_prefix: "nul \<notin> set t \<Longrightarrow> strncmp s t (length t) = 0 \<longleftrightarrow> take (length t) s = t"
proof (induction t arbitrary: s)
  case (Cons d t)
  then show ?case by (cases s) (auto simp: byte_at_def Let_def)
qed simp

lemma tail_chars: "tail_ok t \<Longrightarrow> t = [] \<or> \<not> isdigit (hd t) \<and> hd t \<noteq> CHR ''.'' \<and> hd t \<noteq> CHR '':''"
  by (cases t) (auto simp: tail_ok_def isdigit_def isspace_def)

lemma tail_end: "tail_ok t \<Longrightarrow> port < 65535 \<Longrightarrow> address_end (s @ t) t port = int (length s)"
  by (cases t) (auto simp: tail_ok_def address_end_def byte_at_def)

lemma scan_port_text: "tail_ok t \<Longrightarrow> port < 65535 \<Longrightarrow> scan_port (CHR '':'' # dec_digits port @ t) = Some (port, t)"
  using scan_uint_dec [of port "[]" t] tail_chars [of t] by (auto simp: scan_port_def)

text \<open>The protocol is taken off.\<close>

lemma proto_stripped:
  assumes "nul \<notin> set body" and "take 6 body \<noteq> ''udp://''" and "take 6 body \<noteq> ''tcp://''"
  shows "address_proto (proto_text p @ body) = (p = Some True, body)"
proof -
  have pre: "strncmp s ''udp://'' 6 = 0 \<longleftrightarrow> take 6 s = ''udp://''" "strncmp s ''tcp://'' 6 = 0 \<longleftrightarrow> take 6 s = ''tcp://''" for s
    using strncmp_prefix [of "''udp://''" s] strncmp_prefix [of "''tcp://''" s] by (simp_all add: numeral_eq_Suc)
  have c: "cstr (proto_text p @ body) = proto_text p @ body"
    using assms(1) by (intro cstr_id) (auto simp: proto_text_def split: option.splits bool.splits)
  show ?thesis
    unfolding address_proto_def pre c Let_def
    using assms(2,3) by (cases p) (auto simp: proto_text_def split: bool.splits)
qed

lemma proto_plain:
  assumes "s \<noteq> []" and "isdigit (hd s) \<or> hd s = CHR '':''" and "nul \<notin> set s"
  shows "address_proto (proto_text p @ s) = (p = Some True, s)"
proof (rule proto_stripped [OF assms(3)])
  have "hd s \<noteq> CHR ''u''" "hd s \<noteq> CHR ''t''" using assms(2) by (auto simp: isdigit_def)
  then show "take 6 s \<noteq> ''udp://''" "take 6 s \<noteq> ''tcp://''" using assms(1) by (cases s; simp)+
qed

lemma scan_port_none: "CHR '':'' \<notin> set s \<Longrightarrow> scan_port s = None"
  by (cases s) (auto simp: scan_port_def)

text \<open>The branches.\<close>

lemma scan_dotted_4: "scan_dotted 4 s = (case scan_uint s of
    None \<Rightarrow> ([], None)
  | Some (v, r) \<Rightarrow> (case r of [] \<Rightarrow> ([v], None)
      | c # t \<Rightarrow> if c = CHR ''.'' then apfst ((#) v) (scan_dotted 3 t) else ([v], None)))"
proof -
  have "4 = Suc 3" by simp
  then show ?thesis by (simp only: scan_dotted.simps) (simp split: option.splits list.splits)
qed

lemma forms_quad:
  "scan_dotted 4 str = (q, Some b) \<Longrightarrow> scan_port b = Some (port, r) \<Longrightarrow> port < 65535 \<Longrightarrow>
    address_forms hosts str n sa = Some (address_end str r port, sa\<lparr>ma_ip := ip_word q, ma_port := port\<rparr>)"
  by (simp add: address_forms_def)

lemma forms_host:
  assumes "snd (scan_dotted 4 str) = None" and "takeWhile (\<lambda>c. c \<noteq> CHR '' '' \<and> c \<noteq> CHR '':'') str = host" and "host \<noteq> []"
    and "length str < n" and "scan_port (drop (length host) str) = Some (port, r)" and "port < 65535"
  shows "address_forms hosts str n sa = (case hosts host of
      Hosts_Fault \<Rightarrow> None
    | Hosts_Found ip \<Rightarrow> Some (address_end str r port, sa\<lparr>ma_port := port, ma_ip := ip\<rparr>)
    | Hosts_None \<Rightarrow> if mg_ncasecmp host ''localhost'' 9 \<noteq> 0 then Some (0, sa\<lparr>ma_port := port, ma_host := Some host\<rparr>)
        else Some (- 1, sa\<lparr>ma_port := port\<rparr>))"
proof -
  have m: "port mod 65536 = port" using assms(6) by simp
  obtain q where q: "scan_dotted 4 str = (q, None)" using assms(1) by (cases "scan_dotted 4 str") simp
  show ?thesis unfolding address_forms_def q prod.case assms(2) Let_def using assms(3-5)
    by (simp add: m split: hosts_answer.splits)
qed

lemma forms_port:
  assumes "snd (scan_dotted 4 str) = None" and "takeWhile (\<lambda>c. c \<noteq> CHR '' '' \<and> c \<noteq> CHR '':'') str = host"
    and "host = [] \<or> scan_port (drop (length host) str) = None"
    and "scan_port str = Some (port, r) \<or> scan_port str = None \<and> scan_uint str = Some (port, r)" and "port < 65535"
  shows "address_forms hosts str n sa = Some (address_end str r port, sa\<lparr>ma_port := port\<rparr>)"
proof -
  have m: "port mod 65536 = port" using assms(5) by simp
  obtain q where q: "scan_dotted 4 str = (q, None)" using assms(1) by (cases "scan_dotted 4 str") simp
  have h: "(if length str < n \<and> host \<noteq> [] then scan_port (drop (length host) str) else None) = None"
    using assms(3) by auto
  have p: "(case scan_port str of None \<Rightarrow> scan_uint str | p \<Rightarrow> p) = Some (port, r)" using assms(4) by auto
  show ?thesis unfolding address_forms_def q prod.case assms(2) Let_def h p by (simp add: m)
qed

lemma parse_quad:
  assumes "octets q" and "port < 65535" and "tail_ok t"
  shows "mg_parse_address hosts (proto_text p @ quad_text q @ '':'' @ dec_digits port @ t) n
    = Some (int (length (quad_text q @ '':'' @ dec_digits port)),
        \<lparr>ma_udp = (p = Some True), ma_ip = ip_word q, ma_port = port, ma_host = None\<rparr>)"
proof -
  let ?body = "quad_text q @ '':'' @ dec_digits port @ t"
  have "isdigit (hd (quad_text q))" using quad_text_hd [of q] quad_text_nonempty [of q] by (cases "quad_text q") auto
  then have proto: "address_proto (proto_text p @ ?body) = (p = Some True, ?body)"
    using quad_text_nonempty [of q] assms(3) quad_text_chars(1) by (intro proto_plain) (simp_all add: tail_ok_def)
  have "scan_dotted 4 ?body = (q, Some ('':'' @ dec_digits port @ t))"
    using assms(1) by (intro scan_quad) (simp_all add: isdigit_def)
  moreover have "address_end ?body t port = int (length (quad_text q @ '':'' @ dec_digits port))"
    using tail_end [OF assms(3,2), of "quad_text q @ '':'' @ dec_digits port"] by simp
  ultimately show ?thesis
    using forms_quad [of ?body q "'':'' @ dec_digits port @ t" port t hosts n] scan_port_text [OF assms(3,2)] assms(2)
    unfolding mg_parse_address_def proto Let_def prod.case by simp
qed

lemma parse_port:
  assumes "port < 65535" and "tail_ok t" and "colon = [] \<or> colon = '':''"
  shows "mg_parse_address hosts (proto_text p @ colon @ dec_digits port @ t) n
    = Some (int (length (colon @ dec_digits port)),
        \<lparr>ma_udp = (p = Some True), ma_ip = 0, ma_port = port, ma_host = None\<rparr>)"
proof -
  let ?body = "colon @ dec_digits port @ t"
  obtain c r where c: "dec_digits port = c # r" "isdigit c"
    using dec_digits_nonempty [of port] dec_digits_digits [of _ port] by (cases "dec_digits port") auto
  then have "?body \<noteq> []" "isdigit (hd ?body) \<or> hd ?body = CHR '':''" using assms(3) by auto
  moreover have "nul \<notin> set ?body" using assms(2,3) by (auto simp: tail_ok_def)
  ultimately have proto: "address_proto (proto_text p @ ?body) = (p = Some True, ?body)" by (rule proto_plain)
  have t: "scan_uint (dec_digits port @ t) = Some (port, t)"
    using scan_uint_dec [of port "[]" t] assms(1) tail_chars [OF assms(2)] by fastforce
  have "c \<noteq> CHR '':''" using c(2) by (auto simp: isdigit_def)
  then have cs: "scan_port (dec_digits port @ s) = None" for s by (simp add: scan_port_def c(1))
  have "scan_uint (CHR '':'' # s) = None" for s by (intro scan_uint_none) (simp add: isdigit_def isspace_def)
  then have d: "snd (scan_dotted 4 ?body) = None"
    using assms(3) t tail_chars [OF assms(2)] by (auto simp: scan_dotted_4 split: list.splits)
  let ?host = "takeWhile (\<lambda>c. c \<noteq> CHR '' '' \<and> c \<noteq> CHR '':'') ?body"
  have h: "?host = [] \<or> scan_port (drop (length ?host) ?body) = None"
  proof (cases "colon = []")
    case True
    then have "CHR '':'' \<notin> set ?body" using assms(2) by (simp add: tail_ok_def)
    then have "CHR '':'' \<notin> set (drop (length ?host) ?body)" using set_drop_subset by fast
    then show ?thesis by (simp add: scan_port_none)
  qed (use assms(3) in simp)
  have "address_end ?body t port = int (length (colon @ dec_digits port))"
    using tail_end [OF assms(2,1), of "colon @ dec_digits port"] by simp
  moreover have "scan_port ?body = Some (port, t) \<or> scan_port ?body = None \<and> scan_uint ?body = Some (port, t)"
    using assms(3) t cs scan_port_text [OF assms(2,1)] by auto
  ultimately show ?thesis
    using forms_port [OF d refl h _ assms(1), of t hosts n]
    unfolding mg_parse_address_def proto Let_def prod.case by simp
qed

lemma parse_host:
  assumes "host_ok host" and "port < 65535" and "tail_ok t" and "length (host @ '':'' @ dec_digits port @ t) < n"
  shows "mg_parse_address hosts (proto_text p @ host @ '':'' @ dec_digits port @ t) n = (case hosts host of
      Hosts_Fault \<Rightarrow> None
    | Hosts_Found ip \<Rightarrow> Some (int (length (host @ '':'' @ dec_digits port)),
        \<lparr>ma_udp = (p = Some True), ma_ip = ip, ma_port = port, ma_host = None\<rparr>)
    | Hosts_None \<Rightarrow> Some (if mg_ncasecmp host ''localhost'' 9 \<noteq> 0
        then (0, \<lparr>ma_udp = (p = Some True), ma_ip = 0, ma_port = port, ma_host = Some host\<rparr>)
        else (- 1, \<lparr>ma_udp = (p = Some True), ma_ip = 0, ma_port = port, ma_host = None\<rparr>)))"
proof -
  let ?body = "host @ '':'' @ dec_digits port @ t"
  have h: "host \<noteq> []" "\<forall>c \<in> set host. c \<noteq> CHR '' '' \<and> c \<noteq> CHR '':'' \<and> c \<noteq> nul"
    using assms(1) by (simp_all add: host_ok_def list_all_iff)
  have host: "takeWhile (\<lambda>c. c \<noteq> CHR '' '' \<and> c \<noteq> CHR '':'') ?body = host"
    using h(2) by (subst takeWhile_append2) auto
  have none: "scan_uint ?body = None"
    using assms(1) by (intro scan_uint_none) (simp add: host_ok_def)
  have six: "take 6 ?body \<noteq> x # y # z # CHR '':'' # CHR ''/'' # s" for x y z s
  proof
    assume a: "take 6 ?body = x # y # z # CHR '':'' # CHR ''/'' # s"
    let ?w = "dec_digits port @ t"
    have "?body ! 3 = take 6 ?body ! 3" "?body ! 4 = take 6 ?body ! 4" by (rule nth_take [symmetric], simp)+
    then have "?body ! 3 = CHR '':''" "?body ! 4 = CHR ''/''" unfolding a by simp_all
    then have b: "(host @ CHR '':'' # ?w) ! 3 = CHR '':''" "(host @ CHR '':'' # ?w) ! 4 = CHR ''/''" by simp_all
    have "5 \<le> length (take 6 ?body)" unfolding a by simp
    also have "\<dots> \<le> length ?body" by simp
    finally have l: "4 \<le> length host + length ?w" by simp
    have "CHR '':'' \<notin> set ?w" using assms(3) by (simp add: tail_ok_def)
    then have w: "?w ! i \<noteq> CHR '':''" if "i < length ?w" for i using that nth_mem [of i ?w] by auto
    have hd: "isdigit (?w ! 0)"
      using dec_digits_nonempty [of port] dec_digits_digits [of _ port] by (cases "dec_digits port") auto
    consider "length host < 3" | "length host = 3" | "3 < length host" by linarith
    then show False
    proof cases
      case 1
      then have "(host @ CHR '':'' # ?w) ! 3 = ?w ! (2 - length host)" by (simp add: nth_append nth_Cons')
      moreover have "2 - length host < length ?w" using l 1 by linarith
      ultimately show ?thesis using b(1) w by metis
    next
      case 2
      then show ?thesis using b(2) hd by (simp add: nth_append isdigit_def)
    next
      case 3
      then show ?thesis using b(1) h(2) nth_mem [of 3 host] by (auto simp: nth_append)
    qed
  qed
  have "nul \<notin> set ?body" using h(2) assms(3) by (auto simp: tail_ok_def)
  then have proto: "address_proto (proto_text p @ ?body) = (p = Some True, ?body)"
    using six by (intro proto_stripped) simp_all
  have d: "snd (scan_dotted 4 ?body) = None" by (simp add: scan_dotted_4 none [simplified])
  have port: "scan_port (drop (length host) ?body) = Some (port, t)"
    using scan_port_text [OF assms(3,2)] by simp
  have len: "address_end ?body t port = int (length (host @ '':'' @ dec_digits port))"
    using tail_end [OF assms(3,2), of "host @ '':'' @ dec_digits port"] by simp
  show ?thesis
    using forms_host [OF d host h(1) assms(4) port assms(2), of hosts] len
    unfolding mg_parse_address_def proto Let_def prod.case by (simp split: hosts_answer.splits)
qed

section \<open>Properties\<close>

text \<open>
  C37. In a hosts file of comments and entries, an IPv4 address in dotted form with names behind it,
  \<open>mg_resolve_from_hosts_file\<close> finds the address of the first entry that has the name, whatever
  its local variables held before, and none when no entry has it.
\<close>

theorem mg_resolve_from_hosts_file_first:
  assumes "list_all entry_ok es" and "nul \<notin> set name"
  shows "mg_resolve_from_hosts_file (Some (hosts_text es)) mem q name = hosts_lookup es name"
proof -
  have "hosts_text es = concat (map (\<lambda>l. l @ [newline]) (map entry_text es))"
    by (simp add: hosts_text_def comp_def)
  moreover have "list_all (\<lambda>l. newline \<notin> set l \<and> length l + 1 < 1024) (map entry_text es)"
    using assms(1) entry_lines by (auto simp: list_all_iff)
  ultimately have "fgets_all 1024 (hosts_text es) = map (\<lambda>e. entry_text e @ [newline]) es"
    using fgets_all_lines [of 1024 "map entry_text es"] by (simp add: comp_def)
  then show ?thesis
    using hosts_lines_lookup [OF assms(1)] assms(2) by (simp add: mg_resolve_from_hosts_file_def)
qed

definition sample_hosts :: "hosts_entry list" where
  "sample_hosts = [Hosts_Entry [127, 0, 0, 1] [('' '', ''localhost''), ('' '', ''lo'')], Hosts_Comment '' none'',
     Hosts_Entry [10, 1, 2, 3] [('' '', ''gw'')]]"

theorem mg_resolve_from_hosts_file_first_witness:
  "mg_resolve_from_hosts_file (Some (hosts_text sample_hosts)) [] [] ''gw'' = Hosts_Found 0x0A010203"
proof -
  have ok: "list_all entry_ok sample_hosts" by code_simp
  have "hosts_lookup sample_hosts ''gw'' = Hosts_Found 0x0A010203" by code_simp
  moreover have "nul \<notin> set ''gw''" by simp
  ultimately show ?thesis using mg_resolve_from_hosts_file_first [OF ok] by simp
qed

text \<open>
  A line of the hosts file with an IPv6 address that begins with a digit is not skipped, for
  one number of it is converted: its words from where the last conversion of an earlier line ended
  are taken for names, and the address found is that number and three parts of the address before.
\<close>

theorem mg_resolve_from_hosts_file_ipv6:
  "mg_resolve_from_hosts_file
      (Some (''127.0.0.1 localhost'' @ [newline] @ ''2001:db8::5 db'' @ [newline])) mem q ''db''
    = Hosts_Found (ip_word [209, 0, 0, 1])"
proof -
  let ?l = "''127.0.0.1 localhost'' @ [newline]" and ?k = "''2001:db8::5 db'' @ [newline]"
  let ?m1 = "fgets_into mem ?l" and ?q1 = "[127, 0, 0, 1] @ drop (length [127, 0, 0, 1 :: nat]) q"
  let ?m2 = "fgets_into ?m1 ?k" and ?q2 = "[2001] @ drop (length [2001 :: nat]) ?q1"
  have lines: "fgets_all 1024 (?l @ ?k) = [?l, ?k]" by code_simp
  have c: "cstr ?m1 = ?l" "cstr ?m2 = ?k" by (simp_all add: fgets_into_def cstr_def)
  have b: "byte_at ?m1 0 \<noteq> CHR ''#''" "byte_at ?m2 0 \<noteq> CHR ''#''" by (simp_all add: fgets_into_def byte_at_def)
  have s: "scan_dotted 4 ?l = ([127, 0, 0, 1], Some ('' localhost'' @ [newline]))" "scan_dotted 4 ?k = ([2001], None)"
    by code_simp+
  have sp: "list_all isspace '' ''" "list_all isspace [newline]" "isspace newline" "isspace (CHR '' '')"
    by (simp_all add: isspace_def)
  have n: "length '' '' + length ''localhost'' = 10" "length [] + length ''5'' = 1" "9 + 10 = (19 :: nat)" "10 + 1 = (11 :: nat)"
    by simp_all
  have d: "drop 9 ?m1 = ('' '' @ ''localhost'' @ [newline]) @ nul # drop (Suc (length ?l)) mem"
    "drop 19 ?m1 = [newline] @ nul # drop (Suc (length ?l)) mem"
    "drop 10 ?m2 = ([] @ ''5'' @ '' db'' @ [newline]) @ nul # drop (Suc (length ?k)) ?m1"
    "drop 11 ?m2 = ('' '' @ ''db'' @ [newline]) @ nul # drop (Suc (length ?k)) ?m1"
    by (simp_all add: fgets_into_def)
  have a1: "hosts_aliases ?m1 ''db'' ?q1 9 9 = Inr 10"
    using alias_step [OF d(1), of "''db''" ?q1 9] alias_end [OF d(2) sp(2), of "''db''" ?q1 10] sp
    unfolding n by (simp add: isspace_def)
  have a2: "hosts_aliases ?m2 ''db'' ?q2 10 10 = Inl (Hosts_Found (ip_word ?q2))"
    using alias_step [OF d(3), of "''db''" ?q2 10] alias_step [OF d(4), of "''db''" ?q2 1] sp
    unfolding n by (simp add: isspace_def)
  have "ip_word ?q2 = ip_word [2001, 0, 0, 1]" by (simp add: ip_word_def)
  moreover have "ip_word [2001, 0, 0, 1] = ip_word [209, 0, 0, 1]" by code_simp
  ultimately have ip: "ip_word ?q2 = ip_word [209, 0, 0, 1]" by simp
  have len: "(case Some ('' localhost'' @ [newline]) of None \<Rightarrow> 0 | Some r \<Rightarrow> length ?l - length r) = 9"
    "(case None of None \<Rightarrow> 10 | Some r \<Rightarrow> length ?k - length r) = 10" by simp_all
  have "hosts_lines [?l, ?k] ''db'' mem q 0 = hosts_lines [?k] ''db'' ?m1 ?q1 10"
    unfolding hosts_lines_step [OF c(1) b(1) s(1) list.distinct(2) refl len(1)] a1 by (rule sum.case)
  also have "\<dots> = Hosts_Found (ip_word ?q2)"
    unfolding hosts_lines_step [OF c(2) b(2) s(2) list.distinct(2) refl len(2)] a2 by (rule sum.case)
  finally show ?thesis using lines ip by (simp only: mg_resolve_from_hosts_file_def option.case append_assoc) (simp add: cstr_def)
qed



end
