(* ===== verification/Mg_Resolve.thy ===== *)
theory Mg_Resolve
  imports Mg_Dns Mg_Address
begin

text \<open>
  The resolver of the embedded web server, \<open>src/src/mongoose.c\<close>: a request to a name server on a
  connection of its own, its retries, and the callback at the end; and \<open>resolve_cb\<close>, the callback
  that goes on to connect.
\<close>

section \<open>Requests\<close>

datatype mg_resolve_err = MG_RESOLVE_OK | MG_RESOLVE_NO_ANSWERS | MG_RESOLVE_EXCEEDED_RETRY_COUNT | MG_RESOLVE_TIMEOUT

text \<open>\<open>struct mg_resolve_async_request\<close>, but for the callback and its argument.\<close>

record resolve_request =
  rq_name :: string
  rq_query :: nat
  rq_timeout :: int
  rq_max_retries :: int
  rq_err :: mg_resolve_err
  rq_last_time :: int
  rq_retries :: int

text \<open>
  The connection to the name server: the request in its \<open>user_data\<close>, its flags, its two buffers; and
  the counter of transactions, the queries handed to \<open>mg_send\<close> and the calls of the callback.
\<close>

record resolver =
  rs_req :: "resolve_request option"
  rs_udp :: bool
  rs_connecting :: bool
  rs_close :: bool
  rs_recv :: string
  rs_send :: string
  rs_tid :: nat
  rs_queries :: "string list"
  rs_calls :: "(mg_dns_message option \<times> mg_resolve_err) list"

text \<open>
  The events of the connection. With \<open>Rs_Connected\<close> the core has cleared the connecting flag, and
  closes the connection when that failed; with \<open>Rs_Recv\<close> it has put bytes in the receive buffer.
\<close>

datatype resolve_event = Rs_Poll | Rs_Connected bool | Rs_Recv string | Rs_Sent | Rs_Timer | Rs_Closed

definition resolve_arrived :: "resolve_event \<Rightarrow> resolver \<Rightarrow> resolver" where
  "resolve_arrived ev nc =
     (case ev of
        Rs_Connected ok \<Rightarrow> nc\<lparr>rs_connecting := False, rs_close := rs_close nc \<or> \<not> ok\<rparr>
      | Rs_Recv bytes \<Rightarrow> nc\<lparr>rs_recv := rs_recv nc @ bytes\<rparr>
      | _ \<Rightarrow> nc)"

text \<open>Under \<open>MG_EV_CONNECT\<close>, and \<open>MG_EV_POLL\<close> that falls into it.\<close>

definition resolve_query :: "allocator \<Rightarrow> nat \<Rightarrow> int \<Rightarrow> resolve_request \<Rightarrow> resolver \<Rightarrow> resolver" where
  "resolve_query alloc addr now req nc =
     (if rq_retries req = 0 \<or> now - rq_last_time req \<ge> rq_timeout req then
        (let (pkt, tid) = mg_send_dns_query alloc addr (rs_udp nc) (rs_tid nc) (rq_name req) (rq_query req);
             sent = (case pkt of None \<Rightarrow> nc | Some p \<Rightarrow> nc\<lparr>rs_send := rs_send nc @ p, rs_queries := rs_queries nc @ [p]\<rparr>)
         in sent\<lparr>rs_tid := tid, rs_req := Some (req\<lparr>rq_last_time := now, rq_retries := rq_retries req + 1\<rparr>)\<rparr>)
      else nc)"

text \<open>\<open>mg_resolve_async_eh\<close>; the message it parses is an allocation of fixed size.\<close>

definition mg_resolve_async_eh :: "allocator \<Rightarrow> nat \<Rightarrow> int \<Rightarrow> resolve_event \<Rightarrow> resolver \<Rightarrow> resolver" where
  "mg_resolve_async_eh alloc addr now ev nc =
     (case rs_req nc of
        None \<Rightarrow> nc
      | Some req \<Rightarrow>
          (case ev of
             Rs_Poll \<Rightarrow>
               if rq_retries req > rq_max_retries req
               then nc\<lparr>rs_req := Some (req\<lparr>rq_err := MG_RESOLVE_EXCEEDED_RETRY_COUNT\<rparr>), rs_close := True\<rparr>
               else if rs_connecting nc then nc
               else resolve_query alloc addr now req nc
           | Rs_Connected _ \<Rightarrow> resolve_query alloc addr now req nc
           | Rs_Recv bytes \<Rightarrow>
               (case mg_parse_dns (take (length bytes) (rs_recv nc)) of
                  Some msg \<Rightarrow>
                    if dm_num_answers msg > 0
                    then nc\<lparr>rs_calls := rs_calls nc @ [(Some msg, MG_RESOLVE_OK)], rs_req := None, rs_close := True\<rparr>
                    else nc\<lparr>rs_req := Some (req\<lparr>rq_err := MG_RESOLVE_NO_ANSWERS\<rparr>), rs_close := True\<rparr>
                | None \<Rightarrow> nc\<lparr>rs_req := Some (req\<lparr>rq_err := MG_RESOLVE_NO_ANSWERS\<rparr>), rs_close := True\<rparr>)
           | Rs_Sent \<Rightarrow> nc\<lparr>rs_close := False, rs_send := []\<rparr>
           | Rs_Timer \<Rightarrow> nc\<lparr>rs_req := Some (req\<lparr>rq_err := MG_RESOLVE_TIMEOUT\<rparr>), rs_close := True\<rparr>
           | Rs_Closed \<Rightarrow> nc\<lparr>rs_calls := rs_calls nc @ [(None, rq_err req)], rs_req := None\<rparr>))"

text \<open>\<open>struct mg_resolve_async_opts\<close>, as far as it is read.\<close>

record mg_resolve_async_opts =
  ro_nameserver :: "string option"
  ro_max_retries :: int
  ro_timeout :: int

text \<open>
  \<open>mg_resolve_async_opt\<close>: the address of the name server, which comes from the options, the manager,
  \<open>/etc/resolv.conf\<close> or is the default, and the request; then \<open>mg_connect\<close> succeeds or not.
\<close>

definition mg_resolve_async_opt ::
    "string option \<Rightarrow> string option \<Rightarrow> (string \<Rightarrow> resolver option) \<Rightarrow> string \<Rightarrow> nat \<Rightarrow> mg_resolve_async_opts
     \<Rightarrow> int \<times> resolver option" where
  "mg_resolve_async_opt mgr_nameserver resolv_conf mg_connect name query opts =
     (let req = \<lparr>rq_name = take 1023 (cstr name), rq_query = query,
            rq_timeout = (if ro_timeout opts \<noteq> 0 then ro_timeout opts else 5),
            rq_max_retries = (if ro_max_retries opts \<noteq> 0 then ro_max_retries opts else 2),
            rq_err = MG_RESOLVE_OK, rq_last_time = 0, rq_retries = 0\<rparr>;
          nameserver =
            (case ro_nameserver opts of
               Some s \<Rightarrow> s
             | None \<Rightarrow>
                 (case mgr_nameserver of
                    Some s \<Rightarrow> s
                  | None \<Rightarrow>
                      (case mg_get_ip_address_of_nameserver resolv_conf 17 of Some s \<Rightarrow> s | None \<Rightarrow> ''8.8.8.8'')));
          nameserver_url = take 25 (''udp://'' @ cstr nameserver @ '':53'')
      in case mg_connect nameserver_url of
           None \<Rightarrow> (- 1, None)
         | Some dns_nc \<Rightarrow> (0, Some (dns_nc\<lparr>rs_req := Some req\<rparr>)))"

definition mg_resolve_async ::
    "string option \<Rightarrow> string option \<Rightarrow> (string \<Rightarrow> resolver option) \<Rightarrow> string \<Rightarrow> nat \<Rightarrow> int \<times> resolver option" where
  "mg_resolve_async mgr_nameserver resolv_conf mg_connect name query =
     mg_resolve_async_opt mgr_nameserver resolv_conf mg_connect name query
       \<lparr>ro_nameserver = None, ro_max_retries = 0, ro_timeout = 0\<rparr>"

definition mg_set_nameserver :: "string option \<Rightarrow> string option" where
  "mg_set_nameserver nameserver = map_option cstr nameserver"

section \<open>The callback of a connection\<close>

text \<open>What \<open>resolve_cb\<close> does with the connection that waits: it connects it, or reports.\<close>

datatype resolve_outcome =
  Resolve_Connect string
| Resolve_Failed bool

text \<open>
  \<open>resolve_cb\<close>: with the first answer that is an address, which replaces the four bytes of \<open>sa\<close> if
  it could be read; else it fails, after a timer event when the time was up. \<open>None\<close> is a fault.
\<close>

definition resolve_cb ::
    "string \<Rightarrow> mg_dns_message option \<Rightarrow> mg_resolve_err \<Rightarrow> resolve_outcome option" where
  "resolve_cb sin_addr msg e =
     (case Option.bind msg (\<lambda>msg. map_option (\<lambda>i. (msg, i)) (mg_dns_next_record msg MG_DNS_A_RECORD None)) of
        Some (msg, i) \<Rightarrow>
          map_option (\<lambda>(r, bytes). Resolve_Connect (if r = 0 then bytes else sin_addr))
            (mg_dns_parse_record_data msg (dm_answers msg ! i) 4)
      | None \<Rightarrow> Some (Resolve_Failed (e = MG_RESOLVE_TIMEOUT)))"

section \<open>Runs\<close>

text \<open>Events, each with the time at which it is handled.\<close>

definition resolver_step :: "allocator \<Rightarrow> nat \<Rightarrow> int \<times> resolve_event \<Rightarrow> resolver \<Rightarrow> resolver" where
  "resolver_step alloc addr e nc = mg_resolve_async_eh alloc addr (fst e) (snd e) (resolve_arrived (snd e) nc)"

definition resolver_run :: "allocator \<Rightarrow> nat \<Rightarrow> (int \<times> resolve_event) list \<Rightarrow> resolver \<Rightarrow> resolver" where
  "resolver_run alloc addr es nc = fold (resolver_step alloc addr) es nc"

definition is_connected :: "resolve_event \<Rightarrow> bool" where
  "is_connected ev \<longleftrightarrow> (case ev of Rs_Connected _ \<Rightarrow> True | _ \<Rightarrow> False)"

text \<open>
  What holds of a resolver: the callback has been called once or the request is there; no query is
  sent before the connection is there, nor more than one plus the retries.
\<close>

definition resolver_ok :: "int \<Rightarrow> resolver \<Rightarrow> bool" where
  "resolver_ok m nc \<longleftrightarrow>
     (case rs_req nc of
        None \<Rightarrow> length (rs_calls nc) = 1
      | Some req \<Rightarrow> rs_calls nc = [] \<and> rq_max_retries req = m \<and> 0 \<le> rq_retries req \<and> rq_retries req \<le> m + 1
          \<and> int (length (rs_queries nc)) \<le> rq_retries req \<and> (rs_connecting nc \<longrightarrow> rq_retries req = 0))
     \<and> int (length (rs_queries nc)) \<le> m + 1"

lemma query_ok:
  assumes "rs_calls nc = []" and "rq_max_retries req = m" and "0 \<le> rq_retries req" and "rq_retries req \<le> m"
    and "int (length (rs_queries nc)) \<le> rq_retries req" and "\<not> rs_connecting nc" and "rs_req nc = Some req"
  shows "resolver_ok m (resolve_query alloc addr now req nc)"
  using assms by (auto simp: resolve_query_def resolver_ok_def split: prod.split option.split)

lemma arrived_simps [simp]: "rs_req (resolve_arrived ev nc) = rs_req nc" "rs_calls (resolve_arrived ev nc) = rs_calls nc"
  "rs_queries (resolve_arrived ev nc) = rs_queries nc" "rs_udp (resolve_arrived ev nc) = rs_udp nc"
  by (cases ev; simp add: resolve_arrived_def)+

lemma query_connecting [simp]: "rs_connecting (resolve_query alloc addr now req nc) = rs_connecting nc"
  by (simp add: resolve_query_def split: prod.split option.split)

lemma step_connecting:
  "rs_connecting (resolver_step alloc addr e nc) \<longleftrightarrow> rs_connecting nc \<and> \<not> is_connected (snd e)"
proof (cases "snd e")
  case (Rs_Recv bytes)
  then show ?thesis
    by (cases "rs_req nc"; cases "mg_parse_dns (take (length bytes) (rs_recv nc @ bytes))")
      (simp_all add: resolver_step_def mg_resolve_async_eh_def resolve_arrived_def is_connected_def)
qed (cases "rs_req nc"; simp add: resolver_step_def mg_resolve_async_eh_def resolve_arrived_def is_connected_def)+

lemma step_without: "rs_req nc = None \<Longrightarrow> resolver_step alloc addr e nc = resolve_arrived (snd e) nc"
  by (simp add: resolver_step_def mg_resolve_async_eh_def)

lemma step_closed: "snd e = Rs_Closed \<Longrightarrow> rs_req (resolver_step alloc addr e nc) = None"
  by (cases "rs_req nc") (simp_all add: resolver_step_def mg_resolve_async_eh_def resolve_arrived_def)

lemma step_ok:
  assumes "resolver_ok m nc" and "0 \<le> m" and "is_connected (snd e) \<longrightarrow> rs_connecting nc"
  shows "resolver_ok m (resolver_step alloc addr e nc)"
proof (cases "rs_req nc")
  case None
  then show ?thesis using assms(1) by (simp add: step_without resolver_ok_def)
next
  case (Some req)
  let ?nc = "resolve_arrived (snd e) nc"
  have r: "rs_calls nc = []" "rq_max_retries req = m" "0 \<le> rq_retries req" "rq_retries req \<le> m + 1"
    "int (length (rs_queries nc)) \<le> rq_retries req" "rs_connecting nc \<longrightarrow> rq_retries req = 0"
    using assms(1) Some by (simp_all add: resolver_ok_def)
  note step = resolver_step_def mg_resolve_async_eh_def
  show ?thesis
  proof (cases "snd e")
    case Rs_Poll
    then show ?thesis
      using r assms(2) Some query_ok [of nc req m alloc addr "fst e"]
      by (cases "rq_retries req > m"; cases "rs_connecting nc") (simp_all add: step resolve_arrived_def resolver_ok_def)
  next
    case (Rs_Connected ok)
    then have "rq_retries req = 0" using assms(3) r(6) by (simp add: is_connected_def)
    then have "resolver_ok m (resolve_query alloc addr (fst e) req ?nc)"
      using r assms(2) Some Rs_Connected by (intro query_ok) (simp_all, simp add: resolve_arrived_def)
    then show ?thesis using Rs_Connected Some by (simp add: step)
  next
    case (Rs_Recv bytes)
    then show ?thesis using r assms(2) Some
      by (cases "mg_parse_dns (take (length bytes) (rs_recv nc @ bytes))")
        (simp_all add: step resolve_arrived_def resolver_ok_def)
  next
    case Rs_Sent
    then show ?thesis using r assms(2) Some by (simp add: step resolve_arrived_def resolver_ok_def)
  next
    case Rs_Timer
    then show ?thesis using r assms(2) Some by (simp add: step resolve_arrived_def resolver_ok_def)
  next
    case Rs_Closed
    then show ?thesis using r assms(2) Some by (simp add: step resolve_arrived_def resolver_ok_def)
  qed
qed

lemma run_simps: "resolver_run alloc addr [] nc = nc"
  "resolver_run alloc addr (e # es) nc = resolver_run alloc addr es (resolver_step alloc addr e nc)"
  by (simp_all add: resolver_run_def)

lemma run_without: "rs_req nc = None \<Longrightarrow> rs_req (resolver_run alloc addr es nc) = None"
  by (induction es arbitrary: nc) (simp_all add: run_simps step_without)

lemma run_closed: "Rs_Closed \<in> set (map snd es) \<Longrightarrow> rs_req (resolver_run alloc addr es nc) = None"
proof (induction es arbitrary: nc)
  case (Cons e es)
  show ?case
  proof (cases "snd e = Rs_Closed")
    case True
    then show ?thesis unfolding run_simps by (intro run_without step_closed)
  next
    case False
    then show ?thesis using Cons by (simp add: run_simps)
  qed
qed simp

lemma run_ok:
  assumes "resolver_ok m nc" and "0 \<le> m"
    and "length (filter (\<lambda>e. is_connected (snd e)) es) \<le> (if rs_connecting nc then 1 else 0)"
  shows "resolver_ok m (resolver_run alloc addr es nc)"
  using assms
proof (induction es arbitrary: nc)
  case (Cons e es)
  have "is_connected (snd e) \<longrightarrow> rs_connecting nc" using Cons.prems(3) by (auto split: if_splits)
  then have "resolver_ok m (resolver_step alloc addr e nc)" by (rule step_ok [OF Cons.prems(1,2)])
  moreover have "length (filter (\<lambda>e. is_connected (snd e)) es)
      \<le> (if rs_connecting (resolver_step alloc addr e nc) then 1 else 0)"
    using Cons.prems(3) by (auto simp: step_connecting split: if_splits)
  ultimately show ?case using Cons.IH Cons.prems(2) by (simp add: run_simps)
qed (simp add: run_simps)

section \<open>A reply\<close>

text \<open>The reply of a name server to a query, with one address for the name that was asked for.\<close>

definition dns_reply :: "string \<Rightarrow> nat \<Rightarrow> string \<Rightarrow> string" where
  "dns_reply q ttl ip =
     take 2 q @ be_bytes 2 0x8180 @ be_bytes 2 1 @ be_bytes 2 1 @ replicate 4 nul @ drop 12 q
     @ be_bytes 2 0xc00c @ be_bytes 2 1 @ be_bytes 2 1 @ be_bytes 4 ttl @ be_bytes 2 4 @ ip"

lemma parse_answer:
  assumes "length ip = 4" and "length pre = n"
  shows "mg_parse_dns_resource_record
      (pre @ be_bytes 2 0xc00c @ be_bytes 2 1 @ be_bytes 2 1 @ be_bytes 4 ttl @ be_bytes 2 4 @ ip) n True =
    Some (n + 16, \<lparr>rr_name = (n, 2), rr_rtype = 1, rr_rclass = 1,
      rr_ttl = sint (word_of_nat (be_value (be_bytes 4 ttl)) :: 32 word), rr_kind = MG_DNS_ANSWER,
      rr_rdata = Some (n + 12, 4)\<rparr>)"
proof -
  let ?r = "pre @ be_bytes 2 0xc00c @ be_bytes 2 1 @ be_bytes 2 1 @ be_bytes 4 ttl @ be_bytes 2 4 @ ip"
  have c0: "be_bytes 2 0xc00c = [CHR 0xc0, CHR 0x0c]" by code_simp
  have b: "?r ! n = CHR 0xc0" "n < length ?r" using assms by (simp_all add: c0 nth_append)
  have "(192 :: nat) AND 192 \<noteq> 0" by simp
  then have skip: "mg_dns_skip_name ?r n = n + 1" using b by (subst mg_dns_skip_name.simps) (simp add: Let_def)
  have be: "be_value (be_bytes 2 (Suc 0)) = 1" "be_value (be_bytes 2 4) = 4" by (simp_all add: be_value_bytes)
  show ?thesis
    unfolding mg_parse_dns_resource_record_def skip Let_def using assms by (simp add: be)
qed

lemma parse_reply:
  assumes "list_all label_ok ls" and "length ip = 4"
  shows "\<exists>msg. mg_parse_dns (dns_reply (dns_query_bytes tid 1 ls) ttl ip) = Some msg \<and> dm_num_answers msg = 1
    \<and> resolve_cb sa (Some msg) e = Some (Resolve_Connect ip)"
proof -
  let ?h = "le_bytes 2 (tid mod 2 ^ 16) @ be_bytes 2 0x8180 @ be_bytes 2 1 @ be_bytes 2 1 @ replicate 4 nul"
  let ?a = "be_bytes 2 0xc00c @ be_bytes 2 1 @ be_bytes 2 1 @ be_bytes 4 ttl @ be_bytes 2 4 @ ip"
  let ?q = "?h @ dns_wire ls @ be_bytes 2 1 @ be_bytes 2 1"
  let ?n = "12 + length (dns_wire ls) + 4"
  define r where "r = ?q @ ?a"
  have r: "dns_reply (dns_query_bytes tid 1 ls) ttl ip = r"
    by (simp add: r_def dns_reply_def dns_query_bytes_def dns_header_bytes_def dns_message0_def le_bytes_def)
  have len: "length ?h = 12" "length ?q = ?n" by (simp_all add: le_bytes_def)
  have q: "\<exists>rr. mg_parse_dns_resource_record r 12 False = Some (?n, rr)"
    using parse_question [OF assms(1), of 1 1 ?h 12 ?a] len(1) by (simp add: r_def)
  have a: "\<exists>ans. mg_parse_dns_resource_record r ?n True = Some (?n + 16, ans)
      \<and> rr_rtype ans = 1 \<and> rr_rdata ans = Some (?n + 12, 4)"
    using parse_answer [OF assms(2) len(2), of ttl] by (simp add: r_def)
  obtain rr ans where rr: "mg_parse_dns_resource_record r 12 False = Some (?n, rr)"
      "mg_parse_dns_resource_record r ?n True = Some (?n + 16, ans)" "rr_rtype ans = 1" "rr_rdata ans = Some (?n + 12, 4)"
    using q a by blast
  have hd: "take 2 (drop 4 r) = be_bytes 2 1" "take 2 (drop 6 r) = be_bytes 2 1" "\<not> length r < 12"
    by (simp_all add: r_def le_bytes_def)
  have one: "min (be_value (be_bytes 2 1)) 32 = Suc 0" by (simp add: be_value_bytes)
  have ip: "take 4 (drop (?n + 12) r) = ip" "length r = ?n + 16"
    using assms(2) by (simp_all add: r_def le_bytes_def)
  have "mg_parse_dns_records r False (Suc 0) 12 = Some (?n, [rr])"
    "mg_parse_dns_records r True (Suc 0) ?n = Some (?n + 16, [ans])"
    using rr(1,2) by simp_all
  then have "\<exists>msg. mg_parse_dns r = Some msg \<and> dm_num_answers msg = 1 \<and> dm_answers msg = [ans] \<and> dm_pkt msg = r"
    unfolding mg_parse_dns_def if_not_P [OF hd(3)] hd Let_def one by (simp add: dns_message0_def one [simplified])
  then obtain msg where msg: "mg_parse_dns r = Some msg" "dm_num_answers msg = 1" "dm_answers msg = [ans]" "dm_pkt msg = r"
    by blast
  have "mg_dns_next_record msg 1 None = Some 0" using msg(2,3) rr(3) by (simp add: mg_dns_next_record_def)
  then have "resolve_cb sa (Some msg) e = Some (Resolve_Connect ip)"
    using msg(3,4) rr(3,4) ip assms(2) by (simp add: resolve_cb_def mg_dns_parse_record_data_def)
  then show ?thesis using msg(1,2) r by auto
qed

section \<open>Properties\<close>

definition resolver_opened :: "bool \<Rightarrow> nat \<Rightarrow> resolver" where
  "resolver_opened udp tid = \<lparr>rs_req = None, rs_udp = udp, rs_connecting = True, rs_close = False, rs_recv = [],
     rs_send = [], rs_tid = tid, rs_queries = [], rs_calls = []\<rparr>"

text \<open>
  C39. For a request made with \<open>mg_resolve_async_opt\<close>, whatever happens to its connection, which
  is connected at most once: the callback is called at most once, and has been called when the
  connection is closed; and at most one query more than the retries allowed is sent, three by
  default.
\<close>

theorem mg_resolve_async_calls_once:
  assumes "mg_resolve_async_opt mgr_nameserver resolv_conf (\<lambda>_. Some (resolver_opened udp tid)) name query opts = (0, Some nc0)"
    and "nc = resolver_run alloc addr es nc0" and "0 \<le> ro_max_retries opts"
    and "length (filter (\<lambda>e. is_connected (snd e)) es) \<le> 1"
  shows "length (rs_calls nc) \<le> 1 \<and> (rs_req nc = None \<longleftrightarrow> length (rs_calls nc) = 1)
    \<and> (Rs_Closed \<in> set (map snd es) \<longrightarrow> length (rs_calls nc) = 1)
    \<and> int (length (rs_queries nc)) \<le> (if ro_max_retries opts = 0 then 3 else ro_max_retries opts + 1)"
proof -
  let ?m = "if ro_max_retries opts = 0 then 2 else ro_max_retries opts"
  have "resolver_ok ?m nc0" "rs_connecting nc0" "0 \<le> ?m"
    using assms(1,3) by (auto simp: mg_resolve_async_opt_def resolver_opened_def resolver_ok_def Let_def)
  then have ok: "resolver_ok ?m nc" using assms(4) unfolding assms(2) by (intro run_ok) simp_all
  have closed: "Rs_Closed \<in> set (map snd es) \<longrightarrow> rs_req nc = None" unfolding assms(2) by (intro impI run_closed)
  show ?thesis using ok closed by (cases "rs_req nc") (auto simp: resolver_ok_def)
qed

theorem mg_resolve_async_calls_once_witness:
  "\<exists>nc0. mg_resolve_async_opt None None (\<lambda>_. Some (resolver_opened True 0xa0)) ''gw'' 1
        \<lparr>ro_nameserver = Some ''10.0.0.53'', ro_max_retries = 1, ro_timeout = 3\<rparr> = (0, Some nc0)
    \<and> length (rs_calls (resolver_run heap_calloc 4096 [(1, Rs_Connected True), (2, Rs_Poll), (9, Rs_Closed)] nc0)) = 1"
proof -
  let ?opts = "\<lparr>ro_nameserver = Some ''10.0.0.53'', ro_max_retries = 1, ro_timeout = 3\<rparr>"
  let ?es = "[(1, Rs_Connected True), (2, Rs_Poll), (9, Rs_Closed)]"
  obtain nc0 where nc0: "mg_resolve_async_opt None None (\<lambda>_. Some (resolver_opened True 0xa0)) ''gw'' 1 ?opts = (0, Some nc0)"
    by (simp add: mg_resolve_async_opt_def Let_def)
  have es: "0 \<le> ro_max_retries ?opts" "length (filter (\<lambda>e. is_connected (snd e)) ?es) \<le> 1"
    by (simp_all add: is_connected_def)
  show ?thesis
    using nc0 mg_resolve_async_calls_once [OF nc0 refl es, of heap_calloc 4096] by (intro exI [of _ nc0]) simp
qed

text \<open>
  C40. From a host name to a connection: a request for the address of a name sends a query, and when
  the name server replies to it with one address, the callback connects to that address.
\<close>

theorem mg_resolve_async_connects:
  assumes "heap alloc addr" and "list_all label_ok ls" and "ls \<noteq> []" and "nul \<notin> set (dns_text ls)"
    and "length (dns_text ls) < 1024" and "length ip = 4"
  shows "\<exists>nc0 nc1 nc2 q msg.
      mg_resolve_async mgr_nameserver resolv_conf (\<lambda>_. Some (resolver_opened True tid)) (dns_text ls) 1 = (0, Some nc0)
      \<and> nc1 = resolver_run alloc addr [(t1, Rs_Connected True)] nc0 \<and> rs_queries nc1 = [q] \<and> rs_send nc1 = q
      \<and> nc2 = resolver_run alloc addr [(t2, Rs_Sent), (t3, Rs_Recv (dns_reply q ttl ip))] nc1
      \<and> rs_calls nc2 = [(Some msg, MG_RESOLVE_OK)] \<and> rs_close nc2
      \<and> resolve_cb sa (Some msg) MG_RESOLVE_OK = Some (Resolve_Connect ip)"
proof -
  let ?q = "dns_query_bytes (tid + 1) 1 ls"
  obtain msg where msg: "mg_parse_dns (dns_reply ?q ttl ip) = Some msg" "dm_num_answers msg = 1"
      "resolve_cb sa (Some msg) MG_RESOLVE_OK = Some (Resolve_Connect ip)"
    using parse_reply [OF assms(2,6)] by blast
  have "take 1023 (cstr (dns_text ls)) = dns_text ls" using assms(4,5) by simp
  then show ?thesis
    using query_text [OF assms(1-4), of True tid 1] msg
    by (simp add: mg_resolve_async_def mg_resolve_async_opt_def resolver_opened_def run_simps resolver_step_def
        mg_resolve_async_eh_def resolve_arrived_def resolve_query_def is_connected_def)
qed

theorem mg_resolve_async_connects_witness:
  "\<exists>nc0 nc1 nc2 q msg.
      mg_resolve_async None None (\<lambda>_. Some (resolver_opened True 0xa0)) ''db.example'' 1 = (0, Some nc0)
      \<and> nc1 = resolver_run heap_calloc 4096 [(1, Rs_Connected True)] nc0 \<and> rs_queries nc1 = [q]
      \<and> nc2 = resolver_run heap_calloc 4096 [(2, Rs_Sent), (3, Rs_Recv (dns_reply q 60 ''abcd''))] nc1
      \<and> rs_calls nc2 = [(Some msg, MG_RESOLVE_OK)]
      \<and> resolve_cb ''zzzz'' (Some msg) MG_RESOLVE_OK = Some (Resolve_Connect ''abcd'')"
proof -
  have heap: "heap heap_calloc 4096" by (rule calloc.heap_axioms)
  have t: "dns_text [''db'', ''example''] = ''db.example''" by (simp add: dns_text_def)
  have prem: "list_all label_ok [''db'', ''example'']" "[''db'', ''example''] \<noteq> []"
    "nul \<notin> set (dns_text [''db'', ''example''])" "length (dns_text [''db'', ''example'']) < 1024" "length ''abcd'' = 4"
    by (simp_all add: label_ok_def t)
  show ?thesis
    using mg_resolve_async_connects [OF heap prem, of None None "0xa0" 1 2 3 60 "''zzzz''"] unfolding t by blast
qed

end
