(* ===== verification/Mg_Server.thy ===== *)
theory Mg_Server
  imports Mg_Chunk Mg_Websocket Mg_Sha1 Mg_Base64
begin

text \<open>
  The HTTP connection of the embedded web server, \<open>src/src/mongoose.c\<close>: what \<open>mg_http_handler\<close>
  makes of the bytes that arrive, request after request, with bodies that arrive in parts or in
  chunks, and the change to the websocket protocol.

  Multipart streaming is switched off in this build. Serving a file or running a program, which a
  handler may start and which keeps a request from being finished, is a flag.
\<close>

section \<open>Connections\<close>

text \<open>\<open>struct mg_http_proto_data\<close>, as far as it is used here.\<close>

record http_pd =
  pd_chunk_len :: nat
  pd_rcvd :: nat
  pd_body_rcvd :: nat
  pd_body_processed :: nat
  pd_finished :: bool
  pd_endpoint_handler :: "nat option"

text \<open>
  Handlers are numbers, \<open>None\<close> the handler of the connection. An event is what a handler is called
  with, and the memory that the parts of the message point into.
\<close>

datatype http_event =
  Http_Low
| Http_Chunk string http_message
| Http_Request string http_message
| Http_Reply string http_message
| Ws_Handshake_Request string http_message
| Ws_Handshake_Done string http_message

record http_endpoint =
  ep_uri_pattern :: string
  ep_handler :: nat

record http_conn =
  hc_recv :: string
  hc_send :: string
  hc_pd :: "http_pd option"
  hc_listener :: "http_endpoint list option"
  hc_handler :: "nat option"
  hc_close_immediately :: bool
  hc_send_and_close :: bool
  hc_is_websocket :: bool
  hc_delete_chunk :: bool
  hc_ws_handler :: bool
  hc_limit :: nat
  hc_busy :: bool
  hc_calls :: "(nat option \<times> http_event) list"
  hc_ws_reass_len :: nat
  hc_ws_drawn :: nat
  hc_ws_events :: "(bool \<times> websocket_message) list"

text \<open>What a handler does: it sends bytes, raises flags, and may start something that takes longer.\<close>

record http_answer =
  an_send :: string
  an_close :: bool
  an_send_and_close :: bool
  an_delete_chunk :: bool
  an_busy :: bool

type_synonym http_user = "nat option \<Rightarrow> http_event \<Rightarrow> http_conn \<Rightarrow> http_answer"

definition mg_call :: "http_user \<Rightarrow> nat option \<Rightarrow> http_event \<Rightarrow> http_conn \<Rightarrow> http_conn" where
  "mg_call user h ev nc =
     (let a = user h ev nc
      in nc\<lparr>hc_send := hc_send nc @ an_send a, hc_close_immediately := hc_close_immediately nc \<or> an_close a,
            hc_send_and_close := hc_send_and_close nc \<or> an_send_and_close a,
            hc_delete_chunk := hc_delete_chunk nc \<or> an_delete_chunk a, hc_busy := hc_busy nc \<or> an_busy a,
            hc_calls := hc_calls nc @ [(h, ev)]\<rparr>)"

text \<open>New protocol data, and the number of bytes that are there.\<close>

definition mg_http_create_proto_data :: "http_conn \<Rightarrow> http_conn" where
  "mg_http_create_proto_data nc =
     nc\<lparr>hc_pd := Some \<lparr>pd_chunk_len = 0, pd_rcvd = length (hc_recv nc), pd_body_rcvd = 0, pd_body_processed = 0,
           pd_finished = False, pd_endpoint_handler = None\<rparr>,
         hc_busy := False, hc_ws_reass_len := 0\<rparr>"

section \<open>Endpoints\<close>

text \<open>\<open>mg_http_get_endpoint_handler\<close>: the endpoint whose pattern matches most, the first of these.\<close>

fun longest_match :: "http_endpoint list \<Rightarrow> string \<Rightarrow> nat \<Rightarrow> http_endpoint option \<Rightarrow> http_endpoint option" where
  "longest_match [] uri matched_max ret = ret"
| "longest_match (ep # eps) uri matched_max ret =
     (let matched = mg_match_prefix_n (ep_uri_pattern ep) uri
      in if matched > 0 \<and> matched > matched_max then longest_match eps uri matched (Some ep)
         else longest_match eps uri matched_max ret)"

definition mg_http_get_endpoint_handler :: "http_endpoint list option \<Rightarrow> string \<Rightarrow> http_endpoint option" where
  "mg_http_get_endpoint_handler listener uri = Option.bind listener (\<lambda>eps. longest_match eps uri 0 None)"

text \<open>
  \<open>mg_http_call_endpoint_handler\<close>, with what \<open>mg_http_is_authorized\<close> says for an endpoint and the
  answer sent when it says no.
\<close>

definition mg_http_call_endpoint_handler ::
    "http_user \<Rightarrow> (http_endpoint \<Rightarrow> string \<Rightarrow> http_message \<Rightarrow> bool) \<Rightarrow> string \<Rightarrow> bool \<Rightarrow> string \<Rightarrow> http_message
     \<Rightarrow> http_conn \<Rightarrow> http_conn" where
  "mg_http_call_endpoint_handler user authorized denied is_request mem hm nc =
     (let ev = (if is_request then Http_Request mem hm else Http_Reply mem hm);
          ep = (if is_request then mg_http_get_endpoint_handler (hc_listener nc) (ms_text mem (hm_uri hm)) else None)
      in case ep of
           Some e \<Rightarrow>
             if \<not> authorized e mem hm then nc\<lparr>hc_send := hc_send nc @ denied\<rparr>
             else mg_call user (Some (ep_handler e)) ev
                    (nc\<lparr>hc_pd := map_option (\<lambda>pd. pd\<lparr>pd_endpoint_handler := Some (ep_handler e)\<rparr>) (hc_pd nc)\<rparr>)
         | None \<Rightarrow>
             mg_call user (case Option.bind (hc_pd nc) pd_endpoint_handler of None \<Rightarrow> hc_handler nc | h \<Rightarrow> h) ev nc)"

section \<open>Bodies\<close>

text \<open>
  \<open>deliver_chunk\<close>: the message with its body as far as it is there, and the connection; the sizes
  wrap. A handler may have the part deleted.
\<close>

definition deliver_chunk :: "http_user \<Rightarrow> http_message \<Rightarrow> http_pd \<Rightarrow> nat \<Rightarrow> http_conn \<Rightarrow> http_message \<times> http_conn" where
  "deliver_chunk user hm pd req_len nc =
     (let here = length (hc_recv nc) - req_len;
          remain = (hm_content_length hm + 2 ^ 64 - pd_body_processed pd) mod 2 ^ 64;
          n = (if hm_content_length hm \<noteq> MG_HTTP_CONTENT_LENGTH_UNKNOWN \<and> here > remain then remain else here);
          hm1 = hm\<lparr>hm_body := (hm_body hm)\<lparr>ms_len := n\<rparr>\<rparr>;
          pd1 = pd\<lparr>pd_body_rcvd := (pd_body_processed pd + n) mod 2 ^ 64\<rparr>;
          nc1 = mg_call user (hc_handler nc) (Http_Chunk (hc_recv nc) hm1)
                  (nc\<lparr>hc_pd := Some pd1, hc_delete_chunk := False\<rparr>)
      in if hc_delete_chunk nc1
         then (hm1\<lparr>hm_body := (hm_body hm1)\<lparr>ms_len := 0\<rparr>\<rparr>,
               nc1\<lparr>hc_pd := Some (pd1\<lparr>pd_body_processed := (pd_body_processed pd1 + n) mod 2 ^ 64\<rparr>),
                   hc_recv := take req_len (hc_recv nc1)\<rparr>)
         else (hm1, nc1))"

text \<open>
  \<open>mg_handle_chunked\<close> on the connection. The handler is called with the chunks joined, between the
  two outcomes that \<open>mg_handle_chunked\<close> of \<open>Mg_Http\<close> has.
\<close>

definition http_chunks :: "http_user \<Rightarrow> http_message \<Rightarrow> http_pd \<Rightarrow> nat \<Rightarrow> http_conn \<Rightarrow> http_message \<times> http_conn" where
  "http_chunks user hm pd req_len nc =
     (let head = take req_len (hc_recv nc); buf = drop req_len (hc_recv nc);
          kept = mg_handle_chunked False req_len buf (pd_chunk_len pd) hm
      in if \<not> cr_event kept then (cr_message kept, nc)
         else
           (let seen = hm\<lparr>hm_body := (hm_body hm)\<lparr>ms_len := cr_body_len kept\<rparr>\<rparr>;
                nc1 = mg_call user (hc_handler nc) (Http_Chunk (head @ cr_buf kept) seen)
                        (nc\<lparr>hc_recv := head @ cr_buf kept, hc_delete_chunk := False,
                            hc_pd := Some (pd\<lparr>pd_chunk_len := cr_body_len kept\<rparr>)\<rparr>);
                r = (if hc_delete_chunk nc1 then mg_handle_chunked True req_len buf (pd_chunk_len pd) hm else kept)
            in (cr_message r, nc1\<lparr>hc_recv := head @ cr_buf r, hc_pd := Some (pd\<lparr>pd_chunk_len := cr_pd_body_len r\<rparr>)\<rparr>)))"

section \<open>Websockets\<close>

definition ws_magic :: string where
  "ws_magic = ''258EAFA5-E914-47DA-95CA-C5AB0DC85B11''"

text \<open>\<open>mg_ws_handshake\<close>: what it sends; \<open>None\<close> if the hash went outside its buffer.\<close>

definition mg_ws_handshake :: "string \<Rightarrow> string \<Rightarrow> mg_str \<Rightarrow> http_message \<Rightarrow> string option" where
  "mg_ws_handshake junk mem key hm =
     map_option (\<lambda>sha.
        ''HTTP/1.1 101 Switching Protocols'' @ CRLF @ ''Upgrade: websocket'' @ CRLF @ ''Connection: Upgrade'' @ CRLF
        @ (case mg_get_http_header mem hm ''Sec-WebSocket-Protocol'' of
             None \<Rightarrow> [] | Some s \<Rightarrow> ''Sec-WebSocket-Protocol: '' @ cstr (ms_text mem s) @ CRLF)
        @ ''Sec-WebSocket-Accept: '' @ cs_base64_encode sha @ CRLF @ CRLF)
       (mg_hash_sha1_v junk [ms_text mem key, ws_magic])"

text \<open>
  \<open>mg_ws_handler\<close> for bytes received: the handler sees the event, then the frames are delivered.
\<close>

definition http_ws_recv :: "http_user \<Rightarrow> (nat \<Rightarrow> string) \<Rightarrow> http_conn \<Rightarrow> http_conn" where
  "http_ws_recv user rnd nc =
     (let nc1 = mg_call user (hc_handler nc) Http_Low nc;
          w = ws_deliver_all rnd \<lparr>wc_recv = hc_recv nc1, wc_reass_len = hc_ws_reass_len nc1, wc_no_defrag = False,
                wc_client = (hc_listener nc1 = None), wc_sent = [], wc_send_and_close = False, wc_drawn = hc_ws_drawn nc1, wc_events = []\<rparr>
      in nc1\<lparr>hc_recv := wc_recv w, hc_send := hc_send nc1 @ wc_sent w,
             hc_send_and_close := hc_send_and_close nc1 \<or> wc_send_and_close w,
             hc_ws_reass_len := wc_reass_len w, hc_ws_drawn := wc_drawn w,
             hc_ws_events := hc_ws_events nc1 @ wc_events w\<rparr>)"

text \<open>
  The memory of the receive buffer after \<open>mbuf_remove\<close>, at the places it had before: the rest has
  moved to the front, and the last bytes are still there.
\<close>

definition mem_removed :: "string \<Rightarrow> nat \<Rightarrow> string" where
  "mem_removed mem n = drop n mem @ drop (length mem - n) mem"

definition ws_upgrade ::
    "http_user \<Rightarrow> (nat \<Rightarrow> string) \<Rightarrow> string \<Rightarrow> mg_str \<Rightarrow> http_message \<Rightarrow> nat \<Rightarrow> http_conn \<Rightarrow> http_conn" where
  "ws_upgrade user rnd junk vec hm req_len nc =
     (let mem = mem_removed (hc_recv nc) req_len;
          nc1 = nc\<lparr>hc_recv := drop req_len (hc_recv nc), hc_ws_handler := True, hc_is_websocket := True\<rparr>;
          nc2 = (case mg_http_get_endpoint_handler (hc_listener nc1) (ms_text mem (hm_uri hm)) of
                   None \<Rightarrow> nc1 | Some ep \<Rightarrow> nc1\<lparr>hc_handler := Some (ep_handler ep)\<rparr>);
          nc3 = mg_call user (hc_handler nc2) (Ws_Handshake_Request mem hm) nc2
      in if hc_close_immediately nc3 \<or> hc_send_and_close nc3 then nc3
         else
           (let nc4 = (if hc_send nc3 = []
                       then (case mg_ws_handshake junk mem vec hm of None \<Rightarrow> nc3 | Some t \<Rightarrow> nc3\<lparr>hc_send := t\<rparr>) else nc3);
                nc5 = mg_call user (hc_handler nc4) (Ws_Handshake_Done mem hm) nc4
            in http_ws_recv user rnd nc5))"

definition ws_client_reply ::
    "http_user \<Rightarrow> (nat \<Rightarrow> string) \<Rightarrow> http_message \<Rightarrow> nat \<Rightarrow> http_conn \<Rightarrow> http_conn" where
  "ws_client_reply user rnd hm req_len nc =
     (let nc1 = mg_call user (hc_handler nc) (Ws_Handshake_Done (hc_recv nc) hm) nc
      in if hm_resp_code hm = 101 \<and> mg_get_http_header (hc_recv nc) hm ''Sec-WebSocket-Accept'' \<noteq> None
         then http_ws_recv user rnd (nc1\<lparr>hc_recv := drop req_len (hc_recv nc1), hc_ws_handler := True\<rparr>)
         else nc1\<lparr>hc_recv := drop req_len (hc_recv nc1), hc_close_immediately := True\<rparr>)"

section \<open>Requests\<close>

text \<open>
  The end of the branch for received bytes: the part of the body is delivered; when all of it is
  there the handler is called and the request removed. The flag says whether to go on with what is
  left in the buffer.
\<close>

definition http_message_part ::
    "http_user \<Rightarrow> (http_endpoint \<Rightarrow> string \<Rightarrow> http_message \<Rightarrow> bool) \<Rightarrow> string \<Rightarrow> http_message \<Rightarrow> http_pd \<Rightarrow> nat
     \<Rightarrow> http_conn \<Rightarrow> bool \<times> http_conn" where
  "http_message_part user authorized denied hm pd req_len nc =
     (let (hm1, nc1) = deliver_chunk user hm pd req_len nc
      in case hc_pd nc1 of
           None \<Rightarrow> (False, nc1)
         | Some pd1 \<Rightarrow>
             if ms_len (hm_message hm1) > pd_rcvd pd1
                \<and> (hm_content_length hm1 = MG_HTTP_CONTENT_LENGTH_UNKNOWN \<or> pd_body_rcvd pd1 < hm_content_length hm1)
             then (False, if 0 < hc_limit nc1 \<and> length (hc_recv nc1) \<ge> hc_limit nc1
                          then nc1\<lparr>hc_close_immediately := True\<rparr> else nc1)
             else
               (let nc2 = mg_http_call_endpoint_handler user authorized denied (hc_listener nc1 \<noteq> None) (hc_recv nc1) hm1 nc1;
                    n = req_len + ms_len (hm_body hm1);
                    nc3 = (if n \<le> length (hc_recv nc2) then nc2\<lparr>hc_recv := drop n (hc_recv nc2)\<rparr> else nc2);
                    nc4 = nc3\<lparr>hc_pd := map_option (\<lambda>pd. pd\<lparr>
                            pd_rcvd := (pd_rcvd pd + 2 ^ 64 - ms_len (hm_message hm1) mod 2 ^ 64) mod 2 ^ 64,
                            pd_body_rcvd := 0, pd_finished := \<not> hc_busy nc3\<rparr>) (hc_pd nc3)\<rparr>
                in (\<not> hc_busy nc4 \<and> hc_recv nc4 \<noteq> [], nc4)))"

text \<open>
  From the label \<open>again\<close> on: a new request has new protocol data, a chunked body is joined, and then
  the message is a handshake or a request.
\<close>

definition http_begin :: "http_conn \<Rightarrow> http_conn" where
  "http_begin nc =
     (case hc_pd nc of
        None \<Rightarrow> mg_http_create_proto_data nc
      | Some pd \<Rightarrow> if pd_finished pd then mg_http_create_proto_data nc else nc)"

definition http_dechunk :: "http_user \<Rightarrow> http_message \<Rightarrow> nat \<Rightarrow> http_conn \<Rightarrow> http_message \<times> http_conn" where
  "http_dechunk user hm req_len nc =
     (case (mg_get_http_header (hc_recv nc) hm ''Transfer-Encoding'', hc_pd nc) of
        (Some s, Some pd) \<Rightarrow>
          if mg_vcasecmp (ms_text (hc_recv nc) s) ''chunked'' = 0 then http_chunks user hm pd req_len nc else (hm, nc)
      | _ \<Rightarrow> (hm, nc))"

definition http_turn ::
    "http_user \<Rightarrow> (http_endpoint \<Rightarrow> string \<Rightarrow> http_message \<Rightarrow> bool) \<Rightarrow> string \<Rightarrow> (nat \<Rightarrow> string) \<Rightarrow> string
     \<Rightarrow> http_conn \<Rightarrow> bool \<times> http_conn" where
  "http_turn user authorized denied rnd junk nc =
     (case mg_parse_http (hc_recv nc) (hc_listener nc \<noteq> None) of
        (rlen, None) \<Rightarrow>
          (False, if rlen < 0 \<or> rlen = 0 \<and> length (hc_recv nc) \<ge> 8192 then nc\<lparr>hc_close_immediately := True\<rparr> else nc)
      | (rlen, Some hm) \<Rightarrow>
          (let req_len = nat rlen; (hm1, nc2) = http_dechunk user hm req_len (http_begin nc)
           in if hc_listener nc2 = None \<and> hc_is_websocket nc2
              then (False, ws_client_reply user rnd hm1 req_len nc2)
              else
                (case (hc_listener nc2, mg_get_http_header (hc_recv nc2) hm1 ''Sec-WebSocket-Key'', hc_pd nc2) of
                   (Some _, Some vec, _) \<Rightarrow> (False, ws_upgrade user rnd junk vec hm1 req_len nc2)
                 | (_, _, Some pd) \<Rightarrow> http_message_part user authorized denied hm1 pd req_len nc2
                 | _ \<Rightarrow> (False, nc2))))"

lemma mg_call_simps [simp]: "hc_recv (mg_call user h ev nc) = hc_recv nc" "hc_pd (mg_call user h ev nc) = hc_pd nc"
  "hc_listener (mg_call user h ev nc) = hc_listener nc" "hc_handler (mg_call user h ev nc) = hc_handler nc"
  "hc_ws_handler (mg_call user h ev nc) = hc_ws_handler nc" "hc_limit (mg_call user h ev nc) = hc_limit nc"
  "hc_is_websocket (mg_call user h ev nc) = hc_is_websocket nc" "hc_ws_reass_len (mg_call user h ev nc) = hc_ws_reass_len nc"
  "hc_ws_drawn (mg_call user h ev nc) = hc_ws_drawn nc" "hc_ws_events (mg_call user h ev nc) = hc_ws_events nc"
  "hc_calls (mg_call user h ev nc) = hc_calls nc @ [(h, ev)]"
  by (simp_all add: mg_call_def Let_def)

lemma endpoint_call_recv [simp]:
  "hc_recv (mg_http_call_endpoint_handler user authorized denied r mem hm nc) = hc_recv nc"
  by (simp add: mg_http_call_endpoint_handler_def Let_def split: option.split)

lemma deliver_inside:
  assumes "deliver_chunk user hm pd n nc = (hm1, nc1)" and "n \<le> length (hc_recv nc)"
  shows "n + ms_len (hm_body hm1) \<le> length (hc_recv nc1) \<and> length (hc_recv nc1) \<le> length (hc_recv nc)"
  using assms by (auto simp: deliver_chunk_def Let_def split: if_splits)

lemma part_shrinks:
  assumes "http_message_part user authorized denied hm pd n nc = (True, nc1)" and "n \<le> length (hc_recv nc)" and "0 < n"
  shows "length (hc_recv nc1) < length (hc_recv nc)"
proof -
  obtain hm1 nc2 where d: "deliver_chunk user hm pd n nc = (hm1, nc2)" by force
  note in_buf = deliver_inside [OF d assms(2)]
  have "length (hc_recv nc1) = length (hc_recv nc2) - (n + ms_len (hm_body hm1))"
    using assms(1) in_buf unfolding http_message_part_def d prod.case
    by (auto simp: Let_def split: option.splits if_splits)
  then show ?thesis using in_buf assms(3) by linarith
qed

lemma chunk_loop_length: "chunk_loop buf i b = (buf1, j, c, z) \<Longrightarrow> length buf1 = length buf"
proof (induction buf i b rule: chunk_loop.induct)
  case (1 buf i b)
  show ?case
  proof (cases "mg_http_parse_chunk (drop i buf)")
    case None
    then show ?thesis using "1.prems" by (subst (asm) chunk_loop.simps) simp
  next
    case (Some r)
    obtain n off k where r: "r = (n, off, k)" by (rule prod_cases3)
    show ?thesis
    proof (cases "k = 0")
      case True
      then show ?thesis using "1.prems" Some r by (subst (asm) chunk_loop.simps) auto
    next
      case False
      then have "chunk_loop (memmove buf b (i + off) k) (i + n) (b + k) = (buf1, j, c, z)"
        using "1.prems" Some r by (subst (asm) chunk_loop.simps) simp
      then show ?thesis using "1.IH" [OF Some r [symmetric] refl refl False] by simp
    qed
  qed
qed

lemma handle_chunked_length: "length (cr_buf (mg_handle_chunked d n buf b hm)) \<le> length buf"
proof -
  obtain buf1 j c z where l: "chunk_loop buf b b = (buf1, j, c, z)" by (cases "chunk_loop buf b b") auto
  show ?thesis
    using chunk_loop_length [OF l] by (simp add: mg_handle_chunked_def l Let_def min_def) linarith
qed

lemma chunks_recv:
  assumes "http_chunks user hm pd n nc = (hm1, nc1)" and "n \<le> length (hc_recv nc)"
  shows "n \<le> length (hc_recv nc1) \<and> length (hc_recv nc1) \<le> length (hc_recv nc)"
proof -
  have "length (take n (hc_recv nc)) = n" using assms(2) by simp
  moreover have "length (cr_buf (mg_handle_chunked d n (drop n (hc_recv nc)) (pd_chunk_len pd) hm)) \<le> length (hc_recv nc) - n" for d
    using handle_chunked_length [of d n "drop n (hc_recv nc)"] by simp
  ultimately show ?thesis
    using assms by (auto simp: http_chunks_def Let_def le_diff_conv2 add.commute split: if_splits)
qed

lemma begin_recv [simp]: "hc_recv (http_begin nc) = hc_recv nc"
  by (simp add: http_begin_def mg_http_create_proto_data_def split: option.split)

lemma dechunk_recv:
  assumes "http_dechunk user hm n nc = (hm1, nc1)" and "n \<le> length (hc_recv nc)"
  shows "n \<le> length (hc_recv nc1) \<and> length (hc_recv nc1) \<le> length (hc_recv nc)"
  using assms chunks_recv [of user hm _ n nc hm1 nc1]
  by (auto simp: http_dechunk_def split: option.splits if_splits)

lemma parse_len: "mg_parse_http mem r = (rlen, Some hm) \<Longrightarrow> 0 < rlen \<and> nat rlen \<le> length mem"
  using request_len_bounds [of mem 0]
  by (auto simp: mg_parse_http_def mg_http_get_request_len_def Let_def split: if_splits option.splits)

lemma turn_shrinks:
  assumes "http_turn user authorized denied rnd junk nc = (True, nc1)"
  shows "length (hc_recv nc1) < length (hc_recv nc)"
proof -
  obtain rlen hmo where p: "mg_parse_http (hc_recv nc) (hc_listener nc \<noteq> None) = (rlen, hmo)" by force
  obtain hm where hm: "hmo = Some hm" using assms unfolding http_turn_def p by (cases hmo) simp_all
  note len = parse_len [OF p [unfolded hm]]
  obtain hm2 nc2 where c: "http_dechunk user hm (nat rlen) (http_begin nc) = (hm2, nc2)" by force
  have nc2: "nat rlen \<le> length (hc_recv nc2) \<and> length (hc_recv nc2) \<le> length (hc_recv nc)"
    using dechunk_recv [OF c] len by simp
  have "\<exists>pd. http_message_part user authorized denied hm2 pd (nat rlen) nc2 = (True, nc1)"
    using assms unfolding http_turn_def p hm prod.case option.case Let_def c
    by (auto split: if_splits option.splits)
  then show ?thesis using part_shrinks nc2 len by (meson less_le_trans zero_less_nat_eq)
qed

text \<open>All that is there, and the two protocols a connection may speak when bytes arrive.\<close>

function http_turns ::
    "http_user \<Rightarrow> (http_endpoint \<Rightarrow> string \<Rightarrow> http_message \<Rightarrow> bool) \<Rightarrow> string \<Rightarrow> (nat \<Rightarrow> string) \<Rightarrow> string
     \<Rightarrow> http_conn \<Rightarrow> http_conn" where
  "http_turns user authorized denied rnd junk nc =
     (let r = http_turn user authorized denied rnd junk nc
      in if fst r then http_turns user authorized denied rnd junk (snd r) else snd r)"
  by pat_completeness auto
termination
  by (relation "measure (\<lambda>(user, authorized, denied, rnd, junk, nc). length (hc_recv nc))")
    (auto intro!: turn_shrinks simp: prod_eq_iff)

declare http_turns.simps [simp del]

definition mg_http_handler_recv ::
    "http_user \<Rightarrow> (http_endpoint \<Rightarrow> string \<Rightarrow> http_message \<Rightarrow> bool) \<Rightarrow> string \<Rightarrow> (nat \<Rightarrow> string) \<Rightarrow> string
     \<Rightarrow> http_conn \<Rightarrow> http_conn" where
  "mg_http_handler_recv user authorized denied rnd junk nc =
     http_turns user authorized denied rnd junk (mg_call user (hc_handler nc) Http_Low nc)"

text \<open>
  Bytes arrive, as \<open>mg_recv_tcp\<close> puts them into the buffer, unless the connection is about to be
  closed. That a full buffer stops the reading is left out, so more may arrive here than does.
\<close>

definition http_arrive ::
    "http_user \<Rightarrow> (http_endpoint \<Rightarrow> string \<Rightarrow> http_message \<Rightarrow> bool) \<Rightarrow> string \<Rightarrow> (nat \<Rightarrow> string) \<Rightarrow> string
     \<Rightarrow> string \<Rightarrow> http_conn \<Rightarrow> http_conn" where
  "http_arrive user authorized denied rnd junk bytes nc =
     (let nc1 = nc\<lparr>hc_recv := hc_recv nc @ bytes\<rparr>
      in if hc_close_immediately nc then nc
         else if hc_ws_handler nc1 then http_ws_recv user rnd nc1
         else mg_http_handler_recv user authorized denied rnd junk nc1)"

text \<open>
  \<open>mg_http_handler\<close> when the connection is closed: a message whose end the close marks is handed
  over. \<open>None\<close> stands for the use of protocol data that is not there.
\<close>

definition mg_http_handler_close ::
    "http_user \<Rightarrow> (http_endpoint \<Rightarrow> string \<Rightarrow> http_message \<Rightarrow> bool) \<Rightarrow> string \<Rightarrow> http_conn \<Rightarrow> http_conn option" where
  "mg_http_handler_close user authorized denied nc =
     map_option (\<lambda>nc1.
         let nc2 = (case Option.bind (hc_pd nc) (\<lambda>_. Option.bind (hc_pd nc1) pd_endpoint_handler) of
                      Some h \<Rightarrow> if Some h \<noteq> hc_handler nc1 then mg_call user (Some h) Http_Low nc1 else nc1
                    | None \<Rightarrow> nc1)
         in mg_call user (hc_handler nc2) Http_Low nc2)
       (case (if hc_recv nc = [] then (0, None) else mg_parse_http (hc_recv nc) (hc_listener nc \<noteq> None)) of
          (rlen, Some hm) \<Rightarrow>
            (case hc_pd nc of
               None \<Rightarrow> None
             | Some pd \<Rightarrow>
                 (let len = length (hc_recv nc);
                      hm1 = hm\<lparr>hm_message := (hm_message hm)\<lparr>ms_len := len\<rparr>,
                               hm_body := (hm_body hm)\<lparr>ms_len := len - nat rlen\<rparr>\<rparr>;
                      (hm2, nc1) = deliver_chunk user hm1 pd (nat rlen) nc
                  in Some (mg_http_call_endpoint_handler user authorized denied (hc_listener nc1 \<noteq> None)
                       (hc_recv nc1) hm2 nc1)))
        | (_, None) \<Rightarrow> Some nc)"

section \<open>Requests on a connection\<close>

record http_sent =
  hq_method :: string
  hq_uri :: string
  hq_proto :: string
  hq_headers :: "(string \<times> string) list"
  hq_body :: string

definition req_head :: "http_sent \<Rightarrow> string" where
  "req_head q = request_text (hq_method q) (hq_uri q) (hq_proto q) (hq_headers q)"

definition req_text :: "http_sent \<Rightarrow> string" where
  "req_text q = req_head q @ hq_body q"

text \<open>
  Requests that are no handshake and not in chunks: with a \<open>Content-Length\<close>, the last one being the
  length of the body, and without one and a body.
\<close>

definition head_ok :: "http_sent \<Rightarrow> bool" where
  "head_ok q \<longleftrightarrow> word_ok '' '' (hq_method q) \<and> word_ok '' '' (hq_uri q) \<and> word_ok '' '' (hq_proto q)
     \<and> (\<forall>h \<in> set (hq_headers q). header_ok h) \<and> length (hq_headers q) \<le> 39 \<and> length (req_head q) \<le> 8192
     \<and> header_value ''Transfer-Encoding'' (hq_headers q) = None
     \<and> header_value ''Sec-WebSocket-Key'' (hq_headers q) = None"

definition req_ok :: "http_sent \<Rightarrow> bool" where
  "req_ok q \<longleftrightarrow> head_ok q \<and> header_length (hq_headers q) SIZE_MAX = length (hq_body q) \<and> length (hq_body q) < 2 ^ 63"

definition get_ok :: "http_sent \<Rightarrow> bool" where
  "get_ok q \<longleftrightarrow> head_ok q \<and> header_length (hq_headers q) SIZE_MAX = SIZE_MAX \<and> hq_body q = []
     \<and> map tolower (hq_method q) \<notin> {map tolower ''PUT'', map tolower ''POST''}"

definition quiet :: "http_user \<Rightarrow> bool" where
  "quiet user \<longleftrightarrow> (\<forall>h ev nc. \<not> an_close (user h ev nc) \<and> \<not> an_send_and_close (user h ev nc)
     \<and> \<not> an_delete_chunk (user h ev nc) \<and> \<not> an_busy (user h ev nc))"

text \<open>What the handlers saw of the requests.\<close>

type_synonym seen = "nat option \<times> string \<times> string \<times> string \<times> string"

definition seen_call :: "nat option \<times> http_event \<Rightarrow> seen list" where
  "seen_call c = (case snd c of
     Http_Request mem hm \<Rightarrow> [(fst c, ms_text mem (hm_method hm), ms_text mem (hm_uri hm),
       ms_text mem (hm_query_string hm), ms_text mem (hm_body hm))]
   | _ \<Rightarrow> [])"

definition request_calls :: "http_conn \<Rightarrow> seen list" where
  "request_calls nc = concat (map seen_call (hc_calls nc))"

definition req_view :: "nat option \<Rightarrow> http_sent \<Rightarrow> seen" where
  "req_view h q = (h, hq_method q, uri_path (hq_uri q), uri_query (hq_uri q), hq_body q)"

text \<open>A connection of the server, without endpoints, at a request of \<open>m\<close> bytes.\<close>

definition server_ok :: "nat option \<Rightarrow> nat \<Rightarrow> http_conn \<Rightarrow> bool" where
  "server_ok h limit nc \<longleftrightarrow> hc_listener nc = Some [] \<and> hc_handler nc = h \<and> hc_limit nc = limit
     \<and> \<not> hc_close_immediately nc \<and> \<not> hc_ws_handler nc"

definition pd_idle :: "http_conn \<Rightarrow> bool" where
  "pd_idle nc \<longleftrightarrow> (case hc_pd nc of None \<Rightarrow> True | Some pd \<Rightarrow> pd_finished pd)"

definition pd_open :: "nat \<Rightarrow> http_conn \<Rightarrow> bool" where
  "pd_open m nc \<longleftrightarrow> \<not> hc_busy nc \<and> (\<exists>pd. hc_pd nc = Some pd \<and> \<not> pd_finished pd \<and> pd_body_processed pd = 0
     \<and> pd_endpoint_handler pd = None \<and> pd_rcvd pd < m)"

lemma quiet_call [simp]:
  assumes "quiet user"
  shows "hc_close_immediately (mg_call user h ev nc) = hc_close_immediately nc"
    "hc_delete_chunk (mg_call user h ev nc) = hc_delete_chunk nc" "hc_busy (mg_call user h ev nc) = hc_busy nc"
    "hc_send_and_close (mg_call user h ev nc) = hc_send_and_close nc"
  using assms by (simp_all add: mg_call_def quiet_def Let_def)

lemma request_calls_call [simp]: "request_calls (mg_call user h ev nc) = request_calls nc @ seen_call (h, ev)"
  by (simp add: request_calls_def)

lemma request_calls_update [simp]: "request_calls (nc\<lparr>hc_recv := x\<rparr>) = request_calls nc"
    "request_calls (nc\<lparr>hc_pd := pd\<rparr>) = request_calls nc" "request_calls (nc\<lparr>hc_delete_chunk := b\<rparr>) = request_calls nc"
    "seen_call (h, Http_Chunk mem hm) = []" "seen_call (h, Http_Low) = []"
  by (simp_all add: request_calls_def seen_call_def)

lemma req_head_nonempty: "req_head q \<noteq> []"
  by (simp add: req_head_def request_text_def)

lemma parse_head:
  assumes "req_ok q \<or> get_ok q"
  shows "\<exists>hm. mg_parse_http (req_head q @ x) True = (int (length (req_head q)), Some hm)
    \<and> ms_text (req_head q @ x) (hm_method hm) = hq_method q \<and> ms_text (req_head q @ x) (hm_uri hm) = uri_path (hq_uri q)
    \<and> ms_text (req_head q @ x) (hm_query_string hm) = uri_query (hq_uri q)
    \<and> hm_content_length hm = header_length (hq_headers q) SIZE_MAX \<and> ms_p (hm_body hm) = Some (length (req_head q))
    \<and> ms_len (hm_message hm) = length (req_text q)
    \<and> mg_get_http_header (req_head q @ x) hm ''Transfer-Encoding'' = None
    \<and> mg_get_http_header (req_head q @ x) hm ''Sec-WebSocket-Key'' = None"
proof -
  have ok: "word_ok '' '' (hq_method q)" "word_ok '' '' (hq_uri q)" "word_ok '' '' (hq_proto q)"
    "\<forall>h \<in> set (hq_headers q). header_ok h" "length (hq_headers q) \<le> 39" "length (req_head q) \<le> 8192"
    "header_value ''Transfer-Encoding'' (hq_headers q) = None" "header_value ''Sec-WebSocket-Key'' (hq_headers q) = None"
    using assms unfolding req_ok_def get_ok_def head_ok_def by blast+
  have "length (hq_method q) \<le> length (req_head q)" by (simp add: req_head_def request_text_def)
  then have m: "length (hq_method q) < 2 ^ 31" using ok(6) by simp
  obtain hm where hm: "mg_parse_http (req_head q @ x) True = (int (length (req_head q)), Some hm)"
      "ms_text (req_head q @ x) (hm_method hm) = hq_method q" "ms_text (req_head q @ x) (hm_uri hm) = uri_path (hq_uri q)"
      "ms_text (req_head q @ x) (hm_query_string hm) = uri_query (hq_uri q)"
      "header_texts (req_head q @ x) hm = hq_headers q" "hm_content_length hm = header_length (hq_headers q) SIZE_MAX"
      "hm_body hm = \<lparr>ms_p = Some (length (req_head q)), ms_len =
        (if header_length (hq_headers q) SIZE_MAX = SIZE_MAX
            \<and> map tolower (hq_method q) \<notin> {map tolower ''PUT'', map tolower ''POST''}
         then 0 else header_length (hq_headers q) SIZE_MAX)\<rparr>"
    using parse_request_text [OF ok(1-5) m, of x] unfolding req_head_def by blast
  have len: "ms_len (hm_message hm) = length (req_text q)"
    using assms
  proof
    assume q: "req_ok q"
    then have "hm_content_length hm \<noteq> SIZE_MAX" using hm(6) by (simp add: req_ok_def)
    then have "ms_len (hm_message hm) = (length (req_head q) + length (hq_body q)) mod 2 ^ 64"
      using parse_message_len(1) [OF hm(1)] hm(6) q by (simp add: req_ok_def)
    then show ?thesis using ok(6) q by (simp add: req_ok_def req_text_def)
  next
    assume q: "get_ok q"
    then show ?thesis
      using parse_message_len(2) [OF hm(1)] hm(6,7) by (simp add: get_ok_def req_text_def)
  qed
  have inside: "headers_inside (length (req_head q)) hm" using mg_parse_http_inside [OF hm(1)] by simp
  have none: "mg_get_http_header (req_head q @ x) hm name = None" if "header_value name (hq_headers q) = None" for name
    using get_header_value [OF inside, of "req_head q @ x" name] that hm(5) by simp
  show ?thesis using hm len none [OF ok(7)] none [OF ok(8)] by simp
qed

text \<open>A head that is not complete is not parsed.\<close>

lemma request_len_prefix: "http_request_len (p @ s) i > int (i + length p) \<Longrightarrow> http_request_len p i = 0"
proof (induction p arbitrary: i)
  case (Cons c p)
  let ?bad = "\<not> isprint c \<and> c \<noteq> CR \<and> c \<noteq> newline \<and> (of_char c :: nat) < 128"
  let ?two = "\<lambda>s. c = newline \<and> 1 \<le> length s \<and> s ! 0 = newline"
  let ?three = "\<lambda>s. c = newline \<and> 2 \<le> length s \<and> s ! 0 = CR \<and> s ! 1 = newline"
  have step: "http_request_len (c # s) i = http_request_len s (Suc i)" if "\<not> ?bad" "\<not> ?two s" "\<not> ?three s" for s
    unfolding http_request_len.simps(2) if_not_P [OF that(1)] if_not_P [OF that(2)] if_not_P [OF that(3)] by simp
  have ok: "\<not> ?bad" using Cons.prems by (intro notI) simp
  have two: "?two (p @ s)" if "?two p" using that by (auto simp: nth_append)
  have three: "?three (p @ s)" if "?three p" using that by (auto simp: nth_append)
  consider "p = []" | "p = [CR]" | "\<not> ?two (p @ s) \<and> \<not> ?three (p @ s)"
  proof (cases "?two (p @ s)")
    case True
    then have "http_request_len ((c # p) @ s) i = int i + 2"
      unfolding append_Cons http_request_len.simps(2) if_not_P [OF ok] if_P [OF True] by simp
    then have "p = []" using Cons.prems by simp
    then show ?thesis by (rule that(1))
  next
    case False
    show ?thesis
    proof (cases "?three (p @ s)")
      case True
      then have "http_request_len ((c # p) @ s) i = int i + 3"
        unfolding append_Cons http_request_len.simps(2) if_not_P [OF ok] if_not_P [OF False] if_P [OF True] by simp
      then have "length p < 2" using Cons.prems by simp
      then consider "p = []" | a where "p = [a]" by (cases p) auto
      then show ?thesis using True that(1,2) by cases auto
    qed (use False that(3) in blast)
  qed
  then show ?case
  proof cases
    case 3
    have l: "http_request_len (c # p @ s) i = http_request_len (p @ s) (Suc i)" using 3 ok by (intro step) blast+
    have "http_request_len p (Suc i) = 0" using Cons.prems l by (intro Cons.IH) simp
    then show ?thesis using 3 two three ok by (subst step) blast+
  qed (use ok in auto)
qed simp

lemma parse_request_len: "mg_parse_http mem r = (rlen, Some hm) \<Longrightarrow> http_request_len mem 0 = rlen"
  by (auto simp: mg_parse_http_def mg_http_get_request_len_def Let_def split: if_splits option.splits)

lemma req_head_len: "req_ok q \<Longrightarrow> http_request_len (req_head q) 0 = int (length (req_head q))"
  using parse_head [of q "[]"] parse_request_len [of "req_head q"] by fastforce

text \<open>One turn: on a head that is not complete, on a body that is not, and on a whole request.\<close>

lemma turn_head:
  assumes "req_ok q" and "req_head q = r @ s" and "s \<noteq> []" and "hc_recv nc = r"
  shows "http_turn user authorized denied rnd junk nc = (False, nc)"
proof -
  have "http_request_len r 0 = 0"
    using req_head_len [OF assms(1)] assms(2,3) by (intro request_len_prefix [where s = s]) simp
  moreover have "length r < 8192" using assms(1-3) by (cases s) (auto simp: req_ok_def head_ok_def)
  ultimately show ?thesis
    using assms(4) by (simp add: http_turn_def mg_parse_http_def mg_http_get_request_len_def)
qed

lemma turn_parsed:
  assumes "req_ok q \<or> get_ok q" and "server_ok h limit nc" and "hc_recv nc = req_head q @ x"
  shows "\<exists>hm pd. http_turn user authorized denied rnd junk nc
      = http_message_part user authorized denied hm pd (length (req_head q)) (http_begin nc)
    \<and> hc_pd (http_begin nc) = Some pd
    \<and> ms_text (hc_recv nc) (hm_method hm) = hq_method q \<and> ms_text (hc_recv nc) (hm_uri hm) = uri_path (hq_uri q)
    \<and> ms_text (hc_recv nc) (hm_query_string hm) = uri_query (hq_uri q)
    \<and> hm_content_length hm = header_length (hq_headers q) SIZE_MAX \<and> ms_p (hm_body hm) = Some (length (req_head q))
    \<and> ms_len (hm_message hm) = length (req_text q)"
proof -
  obtain hm where hm: "mg_parse_http (hc_recv nc) True = (int (length (req_head q)), Some hm)"
      "ms_text (hc_recv nc) (hm_method hm) = hq_method q" "ms_text (hc_recv nc) (hm_uri hm) = uri_path (hq_uri q)"
      "ms_text (hc_recv nc) (hm_query_string hm) = uri_query (hq_uri q)"
      "hm_content_length hm = header_length (hq_headers q) SIZE_MAX" "ms_p (hm_body hm) = Some (length (req_head q))"
      "ms_len (hm_message hm) = length (req_text q)"
      "mg_get_http_header (hc_recv nc) hm ''Transfer-Encoding'' = None"
      "mg_get_http_header (hc_recv nc) hm ''Sec-WebSocket-Key'' = None"
    using parse_head [OF assms(1), of x] unfolding assms(3) by blast
  have l: "hc_listener nc = Some []" "hc_listener (http_begin nc) = Some []"
    using assms(2) by (simp_all add: server_ok_def http_begin_def mg_http_create_proto_data_def split: option.split)
  have n: "(hc_listener nc \<noteq> None) = True" using l by simp
  have "hc_pd (http_begin nc) \<noteq> None"
    by (cases "hc_pd nc") (simp_all add: http_begin_def mg_http_create_proto_data_def)
  then obtain pd where pd: "hc_pd (http_begin nc) = Some pd" by blast
  have d: "http_dechunk user hm m (http_begin nc) = (hm, http_begin nc)" for m
    by (simp add: http_dechunk_def hm(8))
  have "http_turn user authorized denied rnd junk nc
      = http_message_part user authorized denied hm pd (length (req_head q)) (http_begin nc)"
    unfolding http_turn_def n hm(1) prod.case option.case Let_def d begin_recv hm(9) pd nat_int by (simp add: l)
  then show ?thesis using pd hm by blast
qed

text \<open>The protocol data of a request, on its first turn and on later ones.\<close>

lemma begin_pd:
  assumes "pd_idle nc \<or> pd_open m nc" and "hc_pd (http_begin nc) = Some pd"
  shows "pd_body_processed pd = 0 \<and> pd_endpoint_handler pd = None \<and> \<not> pd_finished pd \<and> \<not> hc_busy (http_begin nc)
    \<and> (pd_rcvd pd = length (hc_recv nc) \<or> pd_rcvd pd < m)"
  using assms
  by (auto simp: pd_idle_def pd_open_def http_begin_def mg_http_create_proto_data_def split: option.splits if_splits)

lemma begin_server [simp]: "server_ok h limit (http_begin nc) = server_ok h limit nc"
    "request_calls (http_begin nc) = request_calls nc"
  by (simp_all add: server_ok_def request_calls_def http_begin_def mg_http_create_proto_data_def split: option.split)

lemma deliver_quiet:
  assumes "quiet user" and "pd_body_processed pd = 0" and "hm_content_length hm < 2 ^ 63"
    and "n = min (length (hc_recv nc) - req_len) (hm_content_length hm)"
  shows "deliver_chunk user hm pd req_len nc
    = (hm\<lparr>hm_body := (hm_body hm)\<lparr>ms_len := n\<rparr>\<rparr>,
       mg_call user (hc_handler nc) (Http_Chunk (hc_recv nc) (hm\<lparr>hm_body := (hm_body hm)\<lparr>ms_len := n\<rparr>\<rparr>))
         (nc\<lparr>hc_pd := Some (pd\<lparr>pd_body_rcvd := n\<rparr>), hc_delete_chunk := False\<rparr>))"
proof -
  have u: "hm_content_length hm \<noteq> MG_HTTP_CONTENT_LENGTH_UNKNOWN" using assms(3) by simp
  have r: "(hm_content_length hm + 2 ^ 64 - pd_body_processed pd) mod 2 ^ 64 = hm_content_length hm"
    using assms(2,3) by simp
  have n: "(if hm_content_length hm \<noteq> MG_HTTP_CONTENT_LENGTH_UNKNOWN \<and> length (hc_recv nc) - req_len > hm_content_length hm
      then hm_content_length hm else length (hc_recv nc) - req_len) = n"
    using u assms(4) by (simp add: min_def)
  have "n < 2 ^ 63" using assms(3,4) by simp
  then have m: "(pd_body_processed pd + n) mod 2 ^ 64 = n" using assms(2) by simp
  show ?thesis unfolding deliver_chunk_def Let_def r n m by (simp add: assms(1))
qed

lemma call_endpoint_none:
  assumes "hc_listener nc = Some []" and "Option.bind (hc_pd nc) pd_endpoint_handler = None"
  shows "mg_http_call_endpoint_handler user authorized denied True mem hm nc
    = mg_call user (hc_handler nc) (Http_Request mem hm) nc"
  using assms by (simp add: mg_http_call_endpoint_handler_def mg_http_get_endpoint_handler_def Let_def)

lemma turn_body:
  assumes "quiet user" and "req_ok q" and "server_ok h limit nc" and "limit = 0 \<or> length (req_text q) \<le> limit"
    and "hc_recv nc = req_head q @ b" and "length b < length (hq_body q)"
    and "pd_idle nc \<or> pd_open (length (req_text q)) nc"
  shows "\<exists>nc1. http_turn user authorized denied rnd junk nc = (False, nc1) \<and> server_ok h limit nc1
    \<and> hc_recv nc1 = hc_recv nc \<and> request_calls nc1 = request_calls nc \<and> pd_open (length (req_text q)) nc1"
proof -
  have q: "header_length (hq_headers q) SIZE_MAX = length (hq_body q)" using assms(2) by (simp add: req_ok_def)
  obtain hm pd where t: "http_turn user authorized denied rnd junk nc
      = http_message_part user authorized denied hm pd (length (req_head q)) (http_begin nc)"
    and pd: "hc_pd (http_begin nc) = Some pd" and hm: "hm_content_length hm = length (hq_body q)"
      "ms_len (hm_message hm) = length (req_text q)"
    using turn_parsed [OF disjI1 [OF assms(2)] assms(3,5)] q by metis
  note p = begin_pd [OF assms(7) pd]
  have short: "length (hc_recv nc) < length (req_text q)" using assms(5,6) by (simp add: req_text_def)
  have c: "hm_content_length hm < 2 ^ 63" using assms(2) hm(1) by (simp add: req_ok_def)
  have n: "length b = min (length (hc_recv (http_begin nc)) - length (req_head q)) (hm_content_length hm)"
    using assms(5,6) hm(1) by simp
  note d = deliver_quiet [OF assms(1) conjunct1 [OF p] c n]
  have "pd_rcvd pd < length (req_text q)" using p short by auto
  moreover have "\<not> (0 < limit \<and> limit \<le> length (hc_recv nc))" using assms(4) short by auto
  moreover have "server_ok h limit (http_begin nc)" using assms(3) by simp
  moreover have "request_calls (http_begin nc) = request_calls nc" by simp
  ultimately show ?thesis
    unfolding t http_message_part_def d prod.case Let_def
    using assms(1,6) p hm c short
    by (simp add: server_ok_def pd_open_def)
qed

lemma turn_whole:
  assumes "quiet user" and "req_ok q" and "server_ok h limit nc" and "hc_recv nc = req_text q @ x"
    and "pd_idle nc \<or> pd_open (length (req_text q)) nc"
  shows "\<exists>nc1. http_turn user authorized denied rnd junk nc = (x \<noteq> [], nc1) \<and> server_ok h limit nc1
    \<and> hc_recv nc1 = x \<and> request_calls nc1 = request_calls nc @ [req_view h q] \<and> pd_idle nc1"
proof -
  have q: "header_length (hq_headers q) SIZE_MAX = length (hq_body q)" using assms(2) by (simp add: req_ok_def)
  have recv: "hc_recv nc = req_head q @ hq_body q @ x" using assms(4) by (simp add: req_text_def)
  obtain hm pd where t: "http_turn user authorized denied rnd junk nc
      = http_message_part user authorized denied hm pd (length (req_head q)) (http_begin nc)"
    and pd: "hc_pd (http_begin nc) = Some pd"
    and hm: "ms_text (hc_recv nc) (hm_method hm) = hq_method q" "ms_text (hc_recv nc) (hm_uri hm) = uri_path (hq_uri q)"
      "ms_text (hc_recv nc) (hm_query_string hm) = uri_query (hq_uri q)" "hm_content_length hm = length (hq_body q)"
      "ms_p (hm_body hm) = Some (length (req_head q))"
    using turn_parsed [OF disjI1 [OF assms(2)] assms(3) recv] q by metis
  note p = begin_pd [OF assms(5) pd]
  have c: "hm_content_length hm < 2 ^ 63" using assms(2) hm(4) by (simp add: req_ok_def)
  have n: "length (hq_body q) = min (length (hc_recv (http_begin nc)) - length (req_head q)) (hm_content_length hm)"
    using recv hm(4) by simp
  note d = deliver_quiet [OF assms(1) conjunct1 [OF p] c n]
  let ?hm = "hm\<lparr>hm_body := (hm_body hm)\<lparr>ms_len := length (hq_body q)\<rparr>\<rparr>"
  let ?nc = "mg_call user (hc_handler (http_begin nc)) (Http_Chunk (hc_recv (http_begin nc)) ?hm)
      ((http_begin nc)\<lparr>hc_pd := Some (pd\<lparr>pd_body_rcvd := length (hq_body q)\<rparr>), hc_delete_chunk := False\<rparr>)"
  have so: "server_ok h limit (http_begin nc)" using assms(3) by simp
  then have l: "hc_listener ?nc = Some []" and h: "hc_handler ?nc = h" by (simp_all add: server_ok_def)
  have "Option.bind (hc_pd ?nc) pd_endpoint_handler = None" using p by simp
  note e = call_endpoint_none [OF l this]
  have body: "ms_text (hc_recv nc) (hm_body ?hm) = hq_body q" using recv hm(5) by (simp add: ms_text_def substr_def)
  have seen: "seen_call (h, Http_Request (hc_recv nc) ?hm) = [req_view h q]"
    using hm(1-3) body by (simp add: seen_call_def req_view_def)
  have is_req: "(hc_listener ?nc \<noteq> None) = True" using l by simp
  have go: "\<not> (ms_len (hm_message ?hm) > pd_rcvd (pd\<lparr>pd_body_rcvd := length (hq_body q)\<rparr>)
      \<and> (hm_content_length ?hm = MG_HTTP_CONTENT_LENGTH_UNKNOWN
        \<or> pd_body_rcvd (pd\<lparr>pd_body_rcvd := length (hq_body q)\<rparr>) < hm_content_length ?hm))"
    using hm(4) c by simp
  have "hc_pd ?nc = Some (pd\<lparr>pd_body_rcvd := length (hq_body q)\<rparr>)" by simp
  then show ?thesis
    unfolding t http_message_part_def d prod.case Let_def is_req e
    using so p assms(1) recv seen h go c hm(4)
    by (simp add: server_ok_def pd_idle_def)
qed

text \<open>All turns on what has arrived of the requests that are left, and the bytes of further ones.\<close>

definition req_fits :: "nat \<Rightarrow> http_sent \<Rightarrow> bool" where
  "req_fits limit q \<longleftrightarrow> req_ok q \<and> (limit = 0 \<or> length (req_text q) \<le> limit)"

definition awaits :: "http_sent list \<Rightarrow> http_conn \<Rightarrow> bool" where
  "awaits qs nc \<longleftrightarrow> pd_idle nc \<or> qs \<noteq> [] \<and> pd_open (length (req_text (hd qs))) nc"

lemma turns_requests:
  assumes "quiet user" and "list_all (req_fits limit) qs" and "server_ok h limit nc"
    and "hc_recv nc @ z = concat (map req_text qs)" and "awaits qs nc"
  shows "\<exists>ks ms. qs = ks @ ms \<and> (let nc1 = http_turns user authorized denied rnd junk nc in
      server_ok h limit nc1 \<and> hc_recv nc1 @ z = concat (map req_text ms) \<and> awaits ms nc1
      \<and> request_calls nc1 = request_calls nc @ map (req_view h) ks \<and> (z = [] \<longrightarrow> ms = []))"
  using assms(2-5)
proof (induction qs arbitrary: nc)
  case Nil
  have r: "hc_recv nc = []" using Nil(3) by simp
  have "http_turn user authorized denied rnd junk nc = (False, nc)"
    using r by (simp add: http_turn_def mg_parse_http_def mg_http_get_request_len_def)
  then show ?case using Nil by (subst http_turns.simps) (simp add: Let_def)
next
  case (Cons q qs)
  have q: "req_ok q" "limit = 0 \<or> length (req_text q) \<le> limit" using Cons.prems(1) by (simp_all add: req_fits_def)
  have pd: "pd_idle nc \<or> pd_open (length (req_text q)) nc" using Cons.prems(4) by (simp add: awaits_def)
  have all: "hc_recv nc @ z = req_head q @ hq_body q @ concat (map req_text qs)"
    using Cons.prems(3) by (simp add: req_text_def [of q])
  let ?turn = "http_turn user authorized denied rnd junk"
  have stays: ?case if t: "?turn nc = (False, nc1)" "server_ok h limit nc1" "hc_recv nc1 = hc_recv nc"
      "request_calls nc1 = request_calls nc" "awaits (q # qs) nc1" "length (hc_recv nc) < length (req_text q)" for nc1
  proof -
    have "z \<noteq> []" using t(6) Cons.prems(3) by (cases z) (auto dest: arg_cong [where f = length])
    moreover have "http_turns user authorized denied rnd junk nc = nc1"
      using t(1) http_turns.simps [of user authorized denied rnd junk nc] by (simp add: Let_def)
    ultimately show ?thesis using t(2-5) Cons.prems(3) by (intro exI [of _ "[]"] exI [of _ "q # qs"]) (simp add: Let_def)
  qed
  consider (head) s where "req_head q = hc_recv nc @ s" "s \<noteq> []"
    | (body) b where "hc_recv nc = req_head q @ b" "length b < length (hq_body q)"
    | (whole) x where "hc_recv nc = req_text q @ x" "x @ z = concat (map req_text qs)"
  proof -
    obtain u where "hc_recv nc = req_head q @ u \<and> u @ z = hq_body q @ concat (map req_text qs)
        \<or> hc_recv nc @ u = req_head q \<and> z = u @ hq_body q @ concat (map req_text qs)"
      using all unfolding append_eq_append_conv2 by blast
    then consider "hc_recv nc = req_head q @ u" "u @ z = hq_body q @ concat (map req_text qs)"
      | "req_head q = hc_recv nc @ u" by auto
    then show ?thesis
    proof cases
      case 1
      obtain v where "u = hq_body q @ v \<and> v @ z = concat (map req_text qs) \<or> u @ v = hq_body q"
        using 1(2) unfolding append_eq_append_conv2 by blast
      then consider "u = hq_body q @ v" "v @ z = concat (map req_text qs)" | "hq_body q = u @ v" "v \<noteq> []" 
        using 1(2) by (cases "v = []") auto
      then show ?thesis using 1(1) by cases (auto intro: that simp: req_text_def [of q])
    next
      case 2
      show ?thesis
      proof (cases "u = []")
        case True
        then show ?thesis using 2 all that(2) [of "[]"] that(3) [of "[]"] by (cases "hq_body q") (simp_all add: req_text_def [of q])
      qed (use 2 that(1) in blast)
    qed
  qed
  then show ?case
  proof cases
    case head
    then show ?thesis
      using turn_head [OF q(1) head refl] Cons.prems(2,4) by (intro stays) (simp_all add: req_text_def [of q])
  next
    case body
    obtain nc1 where t: "?turn nc = (False, nc1)" "server_ok h limit nc1" "hc_recv nc1 = hc_recv nc"
        "request_calls nc1 = request_calls nc" "pd_open (length (req_text q)) nc1"
      using turn_body [OF assms(1) q(1) Cons.prems(2) q(2) body pd] by blast
    then show ?thesis using body by (intro stays [OF t(1-4)]) (simp_all add: awaits_def req_text_def [of q])
  next
    case whole
    obtain nc1 where t: "?turn nc = (x \<noteq> [], nc1)" "server_ok h limit nc1" "hc_recv nc1 = x"
        "request_calls nc1 = request_calls nc @ [req_view h q]" "pd_idle nc1"
      using turn_whole [OF assms(1) q(1) Cons.prems(2) whole(1) pd] by blast
    have "?turn nc1 = (False, nc1)" if "x = []"
      using that t(3) by (simp add: http_turn_def mg_parse_http_def mg_http_get_request_len_def)
    then have turns: "http_turns user authorized denied rnd junk nc = http_turns user authorized denied rnd junk nc1"
      using t(1) http_turns.simps [of user authorized denied rnd junk nc] http_turns.simps [of user authorized denied rnd junk nc1]
      by (cases "x = []") (simp_all add: Let_def)
    obtain ks ms where m: "qs = ks @ ms" "let nc2 = http_turns user authorized denied rnd junk nc1 in
      server_ok h limit nc2 \<and> hc_recv nc2 @ z = concat (map req_text ms) \<and> awaits ms nc2
      \<and> request_calls nc2 = request_calls nc1 @ map (req_view h) ks \<and> (z = [] \<longrightarrow> ms = [])"
      using Cons.IH [of nc1] Cons.prems(1) t(2,3,5) whole(2) by (auto simp: awaits_def)
    show ?thesis using m t(4) unfolding turns by (intro exI [of _ "q # ks"] exI [of _ ms]) (simp add: Let_def)
  qed
qed

lemma arrivals_requests:
  assumes "quiet user" and "list_all (req_fits limit) qs" and "server_ok h limit nc" and "awaits qs nc"
    and "hc_recv nc @ concat pieces = concat (map req_text qs)" and "pieces = [] \<longrightarrow> qs = []"
  shows "let nc1 = fold (http_arrive user authorized denied rnd junk) pieces nc in
    request_calls nc1 = request_calls nc @ map (req_view h) qs \<and> hc_recv nc1 = [] \<and> server_ok h limit nc1"
  using assms(2-6)
proof (induction pieces arbitrary: qs nc)
  case (Cons b pieces)
  let ?nc = "mg_call user (hc_handler nc) Http_Low (nc\<lparr>hc_recv := hc_recv nc @ b\<rparr>)"
  let ?nc1 = "http_turns user authorized denied rnd junk ?nc"
  have step: "http_arrive user authorized denied rnd junk b nc = ?nc1"
    using Cons.prems(2) by (simp add: http_arrive_def mg_http_handler_recv_def server_ok_def Let_def)
  have "server_ok h limit ?nc" "awaits qs ?nc" "request_calls ?nc = request_calls nc"
    "hc_recv ?nc @ concat pieces = concat (map req_text qs)"
    using Cons.prems(2,3,4) assms(1)
    by (simp_all add: server_ok_def awaits_def pd_idle_def pd_open_def)
  moreover obtain ks ms where m: "qs = ks @ ms" "server_ok h limit ?nc1"
      "hc_recv ?nc1 @ concat pieces = concat (map req_text ms)" "awaits ms ?nc1"
      "request_calls ?nc1 = request_calls ?nc @ map (req_view h) ks" "concat pieces = [] \<longrightarrow> ms = []"
    using turns_requests [OF assms(1) Cons.prems(1), where h = h and nc = ?nc and z = "concat pieces"
      and authorized = authorized and denied = denied and rnd = rnd and junk = junk] calculation
    unfolding Let_def by blast
  ultimately show ?case
    using Cons.IH [of ms ?nc1] Cons.prems(1) by (simp add: step Let_def list_all_append)
qed (simp add: Let_def)

section \<open>The change to websockets\<close>

definition upgrade_ok :: "http_sent \<Rightarrow> string \<Rightarrow> bool" where
  "upgrade_ok q key \<longleftrightarrow> word_ok '' '' (hq_method q) \<and> word_ok '' '' (hq_uri q) \<and> word_ok '' '' (hq_proto q)
     \<and> (\<forall>h \<in> set (hq_headers q). header_ok h) \<and> length (hq_headers q) \<le> 39 \<and> length (hq_method q) < 2 ^ 31
     \<and> header_value ''Transfer-Encoding'' (hq_headers q) = None
     \<and> header_value ''Sec-WebSocket-Key'' (hq_headers q) = Some key \<and> length key < 2 ^ 31"

definition silent :: "http_user \<Rightarrow> bool" where
  "silent user \<longleftrightarrow> (\<forall>h ev nc. an_send (user h ev nc) = [])"

definition handshake_text :: "string option \<Rightarrow> string \<Rightarrow> string" where
  "handshake_text proto accept =
     ''HTTP/1.1 101 Switching Protocols'' @ CRLF @ ''Upgrade: websocket'' @ CRLF @ ''Connection: Upgrade'' @ CRLF
     @ (case proto of None \<Rightarrow> [] | Some p \<Rightarrow> ''Sec-WebSocket-Protocol: '' @ cstr p @ CRLF)
     @ ''Sec-WebSocket-Accept: '' @ accept @ CRLF @ CRLF"

lemma silent_call [simp]: "silent user \<Longrightarrow> hc_send (mg_call user h ev nc) = hc_send nc"
  by (simp add: mg_call_def silent_def Let_def)

lemma begin_same [simp]: "hc_send (http_begin nc) = hc_send nc" "hc_send_and_close (http_begin nc) = hc_send_and_close nc"
  by (simp_all add: http_begin_def mg_http_create_proto_data_def split: option.split)

lemma ws_recv_empty:
  assumes "hc_recv nc = []" and "silent user"
  shows "hc_recv (http_ws_recv user rnd nc) = []" "hc_send (http_ws_recv user rnd nc) = hc_send nc"
    "hc_ws_handler (http_ws_recv user rnd nc) = hc_ws_handler nc"
  using assms by (simp_all add: http_ws_recv_def Let_def deliver_all_end)

lemma parse_upgrade:
  assumes "upgrade_ok q key"
  shows "\<exists>hm vec. mg_parse_http (req_head q) True = (int (length (req_head q)), Some hm)
    \<and> mg_get_http_header (req_head q) hm ''Transfer-Encoding'' = None
    \<and> mg_get_http_header (req_head q) hm ''Sec-WebSocket-Key'' = Some vec \<and> ms_text (req_head q) vec = key
    \<and> map_option (ms_text (req_head q)) (mg_get_http_header (req_head q) hm ''Sec-WebSocket-Protocol'')
      = header_value ''Sec-WebSocket-Protocol'' (hq_headers q)"
proof -
  have ok: "word_ok '' '' (hq_method q)" "word_ok '' '' (hq_uri q)" "word_ok '' '' (hq_proto q)"
    "\<forall>h \<in> set (hq_headers q). header_ok h" "length (hq_headers q) \<le> 39" "length (hq_method q) < 2 ^ 31"
    using assms unfolding upgrade_ok_def by blast+
  obtain hm where hm: "mg_parse_http (req_head q) True = (int (length (req_head q)), Some hm)"
      "header_texts (req_head q) hm = hq_headers q"
    using parse_request_text [OF ok, of "[]"] unfolding req_head_def append_Nil2 by blast
  have "headers_inside (length (req_head q)) hm" using mg_parse_http_inside [OF hm(1)] by simp
  note vals = get_header_value [OF this order_refl, unfolded hm(2)]
  show ?thesis
    using hm(1) vals [of "''Transfer-Encoding''"] vals [of "''Sec-WebSocket-Key''"]
      vals [of "''Sec-WebSocket-Protocol''"] assms
    unfolding upgrade_ok_def by (auto simp: map_option_case split: option.splits)
qed

section \<open>Properties\<close>


text \<open>
  C33. A request without \<open>Content-Length\<close> that is neither a PUT nor a POST, and so has no body, is
  handed over with everything that has come in behind it as its body, which is then lost: a second
  request sent right after a GET is never seen.
\<close>

theorem mg_http_handler_get_swallows:
  assumes "quiet user" and "get_ok q" and "server_ok h limit nc" and "pd_idle nc" and "hc_recv nc = []"
  shows "let nc1 = http_arrive user authorized denied rnd junk (req_text q @ x) nc in
    request_calls nc1 = request_calls nc @ [(h, hq_method q, uri_path (hq_uri q), uri_query (hq_uri q), x)]
    \<and> hc_recv nc1 = []"
proof -
  let ?nc = "mg_call user (hc_handler nc) Http_Low (nc\<lparr>hc_recv := req_text q @ x\<rparr>)"
  have so: "server_ok h limit ?nc" and idle: "pd_idle ?nc" using assms(1,3,4) by (simp_all add: server_ok_def pd_idle_def)
  have recv: "hc_recv ?nc = req_head q @ x" using assms(2) by (simp add: req_text_def get_ok_def)
  obtain hm pd where t: "http_turn user authorized denied rnd junk ?nc
      = http_message_part user authorized denied hm pd (length (req_head q)) (http_begin ?nc)"
    and pd: "hc_pd (http_begin ?nc) = Some pd"
    and hm: "ms_text (hc_recv ?nc) (hm_method hm) = hq_method q" "ms_text (hc_recv ?nc) (hm_uri hm) = uri_path (hq_uri q)"
      "ms_text (hc_recv ?nc) (hm_query_string hm) = uri_query (hq_uri q)"
      "hm_content_length hm = header_length (hq_headers q) SIZE_MAX"
      "ms_p (hm_body hm) = Some (length (req_head q))" "ms_len (hm_message hm) = length (req_text q)"
    using turn_parsed [OF disjI2 [OF assms(2)] so recv] by blast
  have p: "pd_endpoint_handler pd = None" "\<not> hc_busy (http_begin ?nc)" "pd_rcvd pd = length (hc_recv ?nc)"
    using begin_pd [of ?nc 0 pd] idle pd by simp_all
  let ?hm = "hm\<lparr>hm_body := (hm_body hm)\<lparr>ms_len := length x\<rparr>\<rparr>"
  let ?pd = "pd\<lparr>pd_body_rcvd := (pd_body_processed pd + length x) mod 2 ^ 64\<rparr>"
  let ?nc1 = "mg_call user (hc_handler (http_begin ?nc)) (Http_Chunk (hc_recv (http_begin ?nc)) ?hm)
      ((http_begin ?nc)\<lparr>hc_pd := Some ?pd, hc_delete_chunk := False\<rparr>)"
  have unknown: "hm_content_length hm = MG_HTTP_CONTENT_LENGTH_UNKNOWN" using hm(4) assms(2) by (simp add: get_ok_def)
  have d: "deliver_chunk user hm pd (length (req_head q)) (http_begin ?nc) = (?hm, ?nc1)"
    using unknown recv assms(1) by (simp add: deliver_chunk_def Let_def)
  have b: "server_ok h limit (http_begin ?nc)" using so by simp
  then have l: "hc_listener ?nc1 = Some []" "hc_handler (http_begin ?nc) = h" by (simp_all add: server_ok_def)
  have "Option.bind (hc_pd ?nc1) pd_endpoint_handler = None" using p by simp
  note e = call_endpoint_none [OF l(1) this]
  have is_req: "(hc_listener ?nc1 \<noteq> None) = True" using l by simp
  have body: "ms_text (hc_recv ?nc) (hm_body ?hm) = x" using recv hm(5) by (simp add: ms_text_def substr_def)
  have view: "seen_call (h, Http_Request (hc_recv ?nc) ?hm)
      = [(h, hq_method q, uri_path (hq_uri q), uri_query (hq_uri q), x)]"
    using hm(1-3) body by (simp add: seen_call_def)
  have "length (req_text q) \<le> length (hc_recv ?nc)" by simp
  then have "\<exists>nc2. http_turn user authorized denied rnd junk ?nc = (False, nc2) \<and> hc_recv nc2 = []
      \<and> request_calls nc2 = request_calls nc @ [(h, hq_method q, uri_path (hq_uri q), uri_query (hq_uri q), x)]"
    unfolding t http_message_part_def d prod.case Let_def is_req e
    using assms(1) recv p hm(6) view l(2) by simp
  then obtain nc2 where nc2: "http_turn user authorized denied rnd junk ?nc = (False, nc2)" "hc_recv nc2 = []"
      "request_calls nc2 = request_calls nc @ [(h, hq_method q, uri_path (hq_uri q), uri_query (hq_uri q), x)]"
    by (elim exE conjE)
  have "http_arrive user authorized denied rnd junk (req_text q @ x) nc = nc2"
    using assms(3,5) nc2(1) by (simp add: http_arrive_def mg_http_handler_recv_def server_ok_def http_turns.simps Let_def)
  then show ?thesis using nc2 by (simp add: Let_def)
qed

text \<open>
  C34. A request with a \<open>Sec-WebSocket-Key\<close> is answered as RFC 6455 asks for: the accepted key is
  the base64 form of the SHA-1 of the key and the magic number, and the connection speaks the
  websocket protocol from then on.
\<close>

theorem mg_ws_handshake_accepts:
  assumes "quiet user" and "silent user" and "upgrade_ok q key" and "server_ok h limit nc" and "\<not> hc_send_and_close nc"
    and "hc_recv nc = []" and "hc_send nc = []" and "length junk = 64"
  shows "let nc1 = http_arrive user authorized denied rnd junk (req_head q) nc in
    hc_send nc1 = handshake_text (header_value ''Sec-WebSocket-Protocol'' (hq_headers q))
      (cs_base64_encode (sha1_digest (key @ ws_magic)))
    \<and> hc_recv nc1 = [] \<and> hc_ws_handler nc1"
proof -
  let ?nc = "mg_call user (hc_handler nc) Http_Low (nc\<lparr>hc_recv := req_head q\<rparr>)"
  obtain hm vec where hm: "mg_parse_http (req_head q) True = (int (length (req_head q)), Some hm)"
      "mg_get_http_header (req_head q) hm ''Transfer-Encoding'' = None"
      "mg_get_http_header (req_head q) hm ''Sec-WebSocket-Key'' = Some vec" "ms_text (req_head q) vec = key"
      "map_option (ms_text (req_head q)) (mg_get_http_header (req_head q) hm ''Sec-WebSocket-Protocol'')
        = header_value ''Sec-WebSocket-Protocol'' (hq_headers q)"
    using parse_upgrade [OF assms(3)] by blast
  have so: "server_ok h limit ?nc" using assms(1,4) by (simp add: server_ok_def)
  then have b: "server_ok h limit (http_begin ?nc)" by simp
  have l: "hc_listener (http_begin ?nc) = Some []" "hc_listener ?nc = Some []"
    using b so unfolding server_ok_def by blast+
  have turn: "http_turn user authorized denied rnd junk ?nc
      = (False, ws_upgrade user rnd junk vec hm (length (req_head q)) (http_begin ?nc))"
    using hm(1-3) l by (simp add: http_turn_def http_dechunk_def)
  then have arrive: "http_arrive user authorized denied rnd junk (req_head q) nc
      = ws_upgrade user rnd junk vec hm (length (req_head q)) (http_begin ?nc)"
    using assms(4,6) by (simp add: http_arrive_def mg_http_handler_recv_def server_ok_def http_turns.simps Let_def)
  have mem: "mem_removed (hc_recv (http_begin ?nc)) (length (req_head q)) = req_head q"
    by (simp add: mem_removed_def)
  have sha: "mg_hash_sha1_v junk [key, ws_magic] = Some (sha1_digest (key @ ws_magic))"
    using assms(3,8) updates_final [of junk "[key, ws_magic]"]
    by (simp add: mg_hash_sha1_v_def upgrade_ok_def ws_magic_def)
  have sent: "mg_ws_handshake junk (req_head q) vec hm
      = Some (handshake_text (header_value ''Sec-WebSocket-Protocol'' (hq_headers q)) (cs_base64_encode (sha1_digest (key @ ws_magic))))"
    unfolding mg_ws_handshake_def hm(4) sha hm(5) [symmetric] handshake_text_def
    by (cases "mg_get_http_header (req_head q) hm ''Sec-WebSocket-Protocol''") simp_all
  have "\<not> (hc_close_immediately (http_begin ?nc) \<or> hc_send_and_close (http_begin ?nc))"
    using b assms(1,5) by (simp add: server_ok_def)
  then show ?thesis
    unfolding arrive ws_upgrade_def mem Let_def sent
    using assms(1,2,7) l ws_recv_empty by (simp add: mg_http_get_endpoint_handler_def)
qed

text \<open>A server, a handler that does nothing, and three requests.\<close>

definition sample_user :: http_user where
  "sample_user h ev nc = \<lparr>an_send = [], an_close = False, an_send_and_close = False, an_delete_chunk = False, an_busy = False\<rparr>"

definition sample_conn :: http_conn where
  "sample_conn = \<lparr>hc_recv = [], hc_send = [], hc_pd = None, hc_listener = Some [], hc_handler = Some 1,
     hc_close_immediately = False, hc_send_and_close = False, hc_is_websocket = False, hc_delete_chunk = False,
     hc_ws_handler = False, hc_limit = 200, hc_busy = False, hc_calls = [], hc_ws_reass_len = 0, hc_ws_drawn = 0,
     hc_ws_events = []\<rparr>"

definition sample_post :: http_sent where
  "sample_post = \<lparr>hq_method = ''POST'', hq_uri = ''/ack?id=1'', hq_proto = ''HTTP/1.1'',
     hq_headers = [(''Content-Length'', ''2'')], hq_body = ''ok''\<rparr>"

definition sample_get :: http_sent where
  "sample_get = \<lparr>hq_method = ''GET'', hq_uri = ''/cpu'', hq_proto = ''HTTP/1.1'', hq_headers = [(''Host'', ''gw'')], hq_body = []\<rparr>"

definition sample_upgrade :: http_sent where
  "sample_upgrade = \<lparr>hq_method = ''GET'', hq_uri = ''/ws'', hq_proto = ''HTTP/1.1'',
     hq_headers = [(''Sec-WebSocket-Key'', ''dGhlIHNhbXBsZSBub25jZQ=='')], hq_body = []\<rparr>"

lemma sample_ok: "quiet sample_user" "silent sample_user" "server_ok (Some 1) 200 sample_conn" "pd_idle sample_conn"
    "hc_recv sample_conn = []" "hc_send sample_conn = []" "\<not> hc_send_and_close sample_conn" "request_calls sample_conn = []"
  by (simp_all add: quiet_def silent_def sample_user_def server_ok_def sample_conn_def pd_idle_def request_calls_def)

lemma sample_words: "word_ok '' '' ''POST''" "word_ok '' '' ''GET''" "word_ok '' '' ''HTTP/1.1''" "word_ok '' '' ''/ack?id=1''"
    "word_ok '' '' ''/cpu''" "word_ok '' '' ''/ws''" "header_ok (''Content-Length'', ''2'')" "header_ok (''Host'', ''gw'')"
    "header_ok (''Sec-WebSocket-Key'', ''dGhlIHNhbXBsZSBub25jZQ=='')"
  by code_simp+

lemma sample_values:
  "header_value ''Transfer-Encoding'' [(''Content-Length'', ''2'')] = None"
  "header_value ''Sec-WebSocket-Key'' [(''Content-Length'', ''2'')] = None"
  "header_value ''Transfer-Encoding'' [(''Host'', ''gw'')] = None"
  "header_value ''Sec-WebSocket-Key'' [(''Host'', ''gw'')] = None"
  "header_value ''Transfer-Encoding'' [(''Sec-WebSocket-Key'', ''dGhlIHNhbXBsZSBub25jZQ=='')] = None"
  "header_value ''Sec-WebSocket-Protocol'' [(''Sec-WebSocket-Key'', ''dGhlIHNhbXBsZSBub25jZQ=='')] = None"
  "header_value ''Sec-WebSocket-Key'' [(''Sec-WebSocket-Key'', ''dGhlIHNhbXBsZSBub25jZQ=='')] = Some ''dGhlIHNhbXBsZSBub25jZQ==''"
  by code_simp+

lemma sample_lengths: "cl_header ''Content-Length''" "\<not> cl_header ''Host''" "atoll ''2'' = 2"
    "map tolower ''GET'' \<noteq> map tolower ''PUT''" "map tolower ''GET'' \<noteq> map tolower ''POST''"
  by code_simp+

lemma sample_requests: "req_fits 200 sample_post" "get_ok sample_get"
    "upgrade_ok sample_upgrade ''dGhlIHNhbXBsZSBub25jZQ==''"
  using sample_lengths(4,5)
  by (simp_all del: list.map add: req_fits_def req_ok_def get_ok_def upgrade_ok_def head_ok_def sample_post_def sample_get_def
      sample_upgrade_def sample_words sample_values header_length_def sample_lengths req_text_def req_head_def
      request_text_def)


theorem mg_http_handler_get_swallows_witness:
  "request_calls (http_arrive sample_user (\<lambda>_ _ _. True) [] (\<lambda>_. []) [] (req_text sample_get @ req_text sample_get) sample_conn)
    = [(Some 1, ''GET'', ''/cpu'', [], req_text sample_get)]"
proof -
  have "uri_path ''/cpu'' = ''/cpu''" "uri_query ''/cpu'' = []" by code_simp+
  then show ?thesis
    using mg_http_handler_get_swallows [OF sample_ok(1) sample_requests(2) sample_ok(3-5), of "\<lambda>_ _ _. True" "[]" "\<lambda>_. []" "[]"
        "req_text sample_get"]
    by (simp add: Let_def sample_ok sample_get_def)
qed

text \<open>The key of the example in RFC 6455, section 1.3.\<close>

theorem mg_ws_handshake_accepts_witness:
  "hc_send (http_arrive sample_user (\<lambda>_ _ _. True) [] (\<lambda>_. []) (replicate 64 nul) (req_head sample_upgrade) sample_conn)
    = handshake_text None (cs_base64_encode (sha1_digest (''dGhlIHNhbXBsZSBub25jZQ=='' @ ws_magic)))"
proof -
  have proto: "header_value ''Sec-WebSocket-Protocol'' (hq_headers sample_upgrade) = None"
    by (simp add: sample_upgrade_def sample_values)
  have junk: "length (replicate 64 nul) = 64" by simp
  show ?thesis
    using mg_ws_handshake_accepts [OF sample_ok(1,2) sample_requests(3) sample_ok(3,7,5,6) junk, of
        "\<lambda>_ _ _. True" "[]" "\<lambda>_. []"]
    unfolding proto by (simp only: Let_def)
qed

end
